(* ===== verification/Prelude.thy ===== *)
theory Prelude
  imports Main "HOL-Library.Word" "HOL-Library.List_Lexorder"
begin

unbundle bit_operations_syntax

text \<open>
  Shared vocabulary of the development.  It fixes the machine types the Rust sources use
  (\<open>u8\<close>, \<open>u16\<close>, \<open>u32\<close>, \<open>u64\<close> as words of that width, \<open>usize\<close> lengths and offsets as
  \<^typ>\<open>nat\<close>), the Rust \<open>Result\<close> as a sum whose left side is the error, slice access with its
  failure case, and the little-endian integer encodings every on-disk and wire format of
  the program is built from.

  Three fact collections carry the component proofs: \<open>codec\<close> (lengths, prefixes and round
  trips of encoders), \<open>res_simps\<close> (how results compose) and \<open>rust_defs\<close> (definitions of the
  small standard-library operations, unfolded when a closed term is evaluated).
\<close>

named_theorems codec \<open>lengths, prefixes and round trips of byte encodings\<close>
named_theorems res_simps \<open>composition of results\<close>
named_theorems rust_defs \<open>definitions of modelled standard-library operations\<close>

type_synonym u8 = "8 word"
type_synonym u16 = "16 word"
type_synonym u32 = "32 word"
type_synonym u64 = "64 word"
type_synonym bytes = "u8 list"

text \<open>The vocabulary of the seam crate: positions in the log, terms, member ids.\<close>

type_synonym LogIndex = u64
type_synonym Term = u64
type_synonym RaftId = u64

subsection \<open>Results\<close>

text \<open>The \<open>?\<close> operator: the first error ends the computation.\<close>

fun and_then :: "'e + 'a \<Rightarrow> ('a \<Rightarrow> 'e + 'b) \<Rightarrow> 'e + 'b" where
  "and_then (Inl e) f = Inl e"
| "and_then (Inr x) f = f x"

fun ok_or :: "'e \<Rightarrow> 'a option \<Rightarrow> 'e + 'a" where
  "ok_or e None = Inl e"
| "ok_or e (Some x) = Inr x"

fun map_err :: "('e \<Rightarrow> 'f) \<Rightarrow> 'e + 'a \<Rightarrow> 'f + 'a" where
  "map_err g (Inl e) = Inl (g e)"
| "map_err g (Inr x) = Inr x"

definition is_ok :: "'e + 'a \<Rightarrow> bool" where
  "is_ok r \<longleftrightarrow> (case r of Inl _ \<Rightarrow> False | Inr _ \<Rightarrow> True)"

lemma is_ok_simps [simp]: "is_ok (Inr x)" "\<not> is_ok (Inl e)"
  by (simp_all add: is_ok_def)

lemma and_then_eq_Inr [res_simps]:
  "and_then r f = Inr y \<longleftrightarrow> (\<exists>x. r = Inr x \<and> f x = Inr y)"
  by (cases r) auto

lemma and_then_eq_Inl [res_simps]:
  "and_then r f = Inl e \<longleftrightarrow> r = Inl e \<or> (\<exists>x. r = Inr x \<and> f x = Inl e)"
  by (cases r) auto

lemma ok_or_eq_Inr [res_simps]: "ok_or e r = Inr x \<longleftrightarrow> r = Some x"
  by (cases r) auto

lemma ok_or_eq_Inl [res_simps]: "ok_or e r = Inl e' \<longleftrightarrow> r = None \<and> e' = e"
  by (cases r) auto

lemma map_err_eq_Inr [res_simps]: "map_err g r = Inr x \<longleftrightarrow> r = Inr x"
  by (cases r) auto

lemma map_err_eq_Inl [res_simps]: "map_err g r = Inl e \<longleftrightarrow> (\<exists>e'. r = Inl e' \<and> e = g e')"
  by (cases r) auto

text \<open>A guard \<open>if b { return Err(e) }\<close>.\<close>

lemma guard_eq_Inr [res_simps]: "(if b then Inl e else r) = Inr x \<longleftrightarrow> \<not> b \<and> r = Inr x"
  by simp

lemma guard_eq_Inl [res_simps]:
  "(if b then Inl e else r) = Inl e' \<longleftrightarrow> (if b then e = e' else r = Inl e')"
  by simp

subsection \<open>Slices\<close>

text \<open>\<open>xs.get(a..b)\<close> and \<open>xs.get(a..)\<close>: \<open>None\<close> unless the range lies within the slice.\<close>

definition slice_get :: "'a list \<Rightarrow> nat \<Rightarrow> nat \<Rightarrow> 'a list option" where
  "slice_get xs a b = (if a \<le> b \<and> b \<le> length xs then Some (take (b - a) (drop a xs)) else None)"

definition slice_from :: "'a list \<Rightarrow> nat \<Rightarrow> 'a list option" where
  "slice_from xs a = (if a \<le> length xs then Some (drop a xs) else None)"

text \<open>\<open>xs.first()\<close> and \<open>xs.last()\<close>.\<close>

definition first :: "'a list \<Rightarrow> 'a option" where
  "first xs = (case xs of [] \<Rightarrow> None | x # _ \<Rightarrow> Some x)"

definition last_opt :: "'a list \<Rightarrow> 'a option" where
  "last_opt xs = (if xs = [] then None else Some (last xs))"

lemma first_simps [simp]: "first [] = None" "first (x # xs) = Some x"
  by (simp_all add: first_def)

lemma last_opt_simps [simp]: "last_opt [] = None" "last_opt (xs @ [x]) = Some x"
  by (simp_all add: last_opt_def)

lemma slice_get_prefix [codec]:
  "length xs = n \<Longrightarrow> slice_get (xs @ ys) 0 n = Some xs"
  by (simp add: slice_get_def)

lemma slice_from_prefix [codec]:
  "length xs = n \<Longrightarrow> slice_from (xs @ ys) n = Some ys"
  by (simp add: slice_from_def)

lemma slice_get_length: "slice_get xs a b = Some ys \<Longrightarrow> length ys = b - a"
  by (auto simp: slice_get_def split: if_splits)

lemma slice_get_drop:
  "a \<le> length xs \<Longrightarrow> slice_get xs a (a + n) = slice_get (drop a xs) 0 n"
  by (auto simp: slice_get_def)

subsection \<open>Little-endian integers\<close>

text \<open>
  \<open>to_le_bytes\<close> of an unsigned integer of \<open>n\<close> bytes, and \<open>from_le_bytes\<close>.  Both are
  written on words of any width; the formats use them at 16, 32 and 64 bits.
\<close>

primrec le_bytes :: "nat \<Rightarrow> 'a::len word \<Rightarrow> bytes" where
  "le_bytes 0 w = []"
| "le_bytes (Suc n) w = ucast w # le_bytes n (drop_bit 8 w)"

primrec of_le_bytes :: "bytes \<Rightarrow> 'a::len word" where
  "of_le_bytes [] = 0"
| "of_le_bytes (b # bs) = ucast b OR push_bit 8 (of_le_bytes bs)"

definition le16 :: "u16 \<Rightarrow> bytes" where "le16 = le_bytes 2"
definition le32 :: "u32 \<Rightarrow> bytes" where "le32 = le_bytes 4"
definition le64 :: "u64 \<Rightarrow> bytes" where "le64 = le_bytes 8"

definition of_le16 :: "bytes \<Rightarrow> u16" where "of_le16 = of_le_bytes"
definition of_le32 :: "bytes \<Rightarrow> u32" where "of_le32 = of_le_bytes"
definition of_le64 :: "bytes \<Rightarrow> u64" where "of_le64 = of_le_bytes"

text \<open>A length as the sources write it: \<open>xs.len() as u32\<close>, which keeps the low 32 bits.\<close>

definition len32 :: "'a list \<Rightarrow> u32" where "len32 xs = of_nat (length xs)"
definition len16 :: "'a list \<Rightarrow> u16" where "len16 xs = of_nat (length xs)"
definition len64 :: "'a list \<Rightarrow> u64" where "len64 xs = of_nat (length xs)"

lemma length_le_bytes [simp]: "length (le_bytes n w) = n"
  by (induction n arbitrary: w) auto

lemma length_le [simp]: "length (le16 a) = 2" "length (le32 b) = 4" "length (le64 c) = 8"
  by (simp_all add: le16_def le32_def le64_def)

lemma bit_of_le_bytes_le_bytes:
  fixes w :: "'a::len word"
  shows "bit (of_le_bytes (le_bytes n w) :: 'a word) i \<longleftrightarrow> i < 8 * n \<and> bit w i"
proof (induction n arbitrary: w i)
  case 0
  then show ?case by simp
next
  case (Suc n)
  have "bit (of_le_bytes (le_bytes (Suc n) w) :: 'a word) i \<longleftrightarrow>
        (i < LENGTH('a) \<and> i < 8 \<and> bit w i) \<or>
        (8 \<le> i \<and> i < LENGTH('a) \<and> i - 8 < 8 * n \<and> bit (drop_bit 8 w) (i - 8))"
    by (auto simp: bit_simps Suc.IH)
  also have "\<dots> \<longleftrightarrow> i < 8 * Suc n \<and> bit w i"
    by (auto simp: bit_simps dest: bit_imp_le_length)
  finally show ?case .
qed

lemma of_le_bytes_le_bytes:
  fixes w :: "'a::len word"
  assumes "LENGTH('a) \<le> 8 * n"
  shows "(of_le_bytes (le_bytes n w) :: 'a word) = w"
  using assms by (intro bit_word_eqI) (auto simp: bit_of_le_bytes_le_bytes)

lemma of_le_le [simp, codec]:
  "of_le16 (le16 a) = a" "of_le32 (le32 b) = b" "of_le64 (le64 c) = c"
  by (simp_all add: of_le16_def le16_def of_le32_def le32_def of_le64_def le64_def
      of_le_bytes_le_bytes)

lemma ucast_of_le_bytes_Cons:
  assumes "8 * length (b # bs) \<le> LENGTH('a::len)"
  shows "ucast (of_le_bytes (b # bs) :: 'a word) = b"
  using assms by (intro bit_word_eqI) (auto simp: bit_simps)

lemma drop_bit_of_le_bytes_Cons:
  assumes "8 * length (b # bs) \<le> LENGTH('a::len)"
  shows "drop_bit 8 (of_le_bytes (b # bs) :: 'a word) = of_le_bytes bs"
proof (intro bit_word_eqI)
  fix i assume "i < LENGTH('a)"
  have short: "bit (of_le_bytes bs' :: 'a word) j \<Longrightarrow> j < 8 * length bs'" for bs' j
    by (induction bs' arbitrary: j) (force simp: bit_simps dest: bit_imp_le_length)+
  show "bit (drop_bit 8 (of_le_bytes (b # bs) :: 'a word)) i = bit (of_le_bytes bs :: 'a word) i"
    using assms short [of bs i] by (auto simp: bit_simps dest: bit_imp_le_length)
qed

lemma le_bytes_of_le_bytes:
  assumes "8 * length bs \<le> LENGTH('a::len)"
  shows "le_bytes (length bs) (of_le_bytes bs :: 'a word) = bs"
  using assms
proof (induction bs)
  case Nil
  then show ?case by simp
next
  case (Cons b bs)
  then show ?case
    by (simp add: ucast_of_le_bytes_Cons drop_bit_of_le_bytes_Cons del: of_le_bytes.simps)
qed

lemma le_of_le [codec]:
  "length a = 2 \<Longrightarrow> le16 (of_le16 a) = a"
  "length b = 4 \<Longrightarrow> le32 (of_le32 b) = b"
  "length c = 8 \<Longrightarrow> le64 (of_le64 c) = c"
  using le_bytes_of_le_bytes [of a, where 'a = 16] le_bytes_of_le_bytes [of b, where 'a = 32]
    le_bytes_of_le_bytes [of c, where 'a = 64]
  by (simp_all add: of_le16_def le16_def of_le32_def le32_def of_le64_def le64_def)

lemma le_inject [simp]:
  "le16 a = le16 a' \<longleftrightarrow> a = a'" "le32 b = le32 b' \<longleftrightarrow> b = b'" "le64 c = le64 c' \<longleftrightarrow> c = c'"
  by (metis of_le_le(1)) (metis of_le_le(2), metis of_le_le(3))

lemma unat_succ: "a \<noteq> - 1 \<Longrightarrow> unat (a + 1) = Suc (unat a)" for a :: "'a::len word"
  using unatSuc [of a] by (simp add: eq_neg_iff_add_eq_0 add.commute)

lemma unat_max64: "unat (- 1 :: u64) = 18446744073709551615"
  by (simp add: unsigned_minus_1_eq_mask mask_eq_exp_minus_1)

lemma unat_len32 [simp]: "length xs < 2 ^ 32 \<Longrightarrow> unat (len32 xs) = length xs"
  by (simp add: len32_def unat_of_nat)

lemma unat_len16 [simp]: "length xs < 2 ^ 16 \<Longrightarrow> unat (len16 xs) = length xs"
  by (simp add: len16_def unat_of_nat)

lemma unat_len64 [simp]: "length xs < 2 ^ 64 \<Longrightarrow> unat (len64 xs) = length xs"
  by (simp add: len64_def unat_of_nat)

end
