(* ===== verification/KvCommand.thy ===== *)
theory KvCommand
  imports Prelude
begin

text \<open>
  The wire format of the state machine's commands
  (\<open>arachne/src/state_machine/kv.rs\<close>, the command codec).  Every command but the session
  garbage collection carries the \<open>(client_id, seq_no)\<close> pair of its idempotency session.
  Parsers follow the code slice by slice, so that a truncated or padded command has the
  branch the code takes for it.  The lemmas show that a parser inverts its encoder and, for
  all commands but \<open>Put\<close>, that it accepts nothing else.
\<close>

datatype KvError =
    MalformedCommand
  | MalformedSnapshot
  | IndexViolation LogIndex
  | PoisonedLock
  | ResultTooLarge

definition OP_PUT :: u8 where "OP_PUT = 0"
definition OP_DELETE :: u8 where "OP_DELETE = 1"
definition OP_SESSION_GC :: u8 where "OP_SESSION_GC = 2"
definition OP_MULTI_PUT :: u8 where "OP_MULTI_PUT = 3"
definition OP_CAS :: u8 where "OP_CAS = 4"

definition MAX_MULTI_PUT_TOTAL_BYTES :: u64 where "MAX_MULTI_PUT_TOTAL_BYTES = 4 * 1024 * 1024"
definition MAX_MULTI_PUT_ENTRIES :: nat where "MAX_MULTI_PUT_ENTRIES = 4096"

datatype Op = Put | Delete

datatype CasPred = IndexEquals u64 | ValueEquals bytes | NotExists

datatype CasOp = CasPut bytes | CasDelete

datatype SessionKey = SessionKey (client_id: u64) (seq_no: u64)

text \<open>The derived \<open>Ord\<close>: field by field in declaration order.\<close>

instantiation SessionKey :: linorder
begin

definition less_eq_SessionKey :: "SessionKey \<Rightarrow> SessionKey \<Rightarrow> bool" where
  "a \<le> b \<longleftrightarrow> client_id a < client_id b \<or> client_id a = client_id b \<and> seq_no a \<le> seq_no b"

definition less_SessionKey :: "SessionKey \<Rightarrow> SessionKey \<Rightarrow> bool" where
  "a < b \<longleftrightarrow> client_id a < client_id b \<or> client_id a = client_id b \<and> seq_no a < seq_no b"

instance
  by standard (auto simp: less_eq_SessionKey_def less_SessionKey_def SessionKey.expand)

end

subsection \<open>Encoders\<close>

text \<open>A byte string preceded by its length as a \<open>u32\<close>.\<close>

definition field32 :: "bytes \<Rightarrow> bytes" where
  "field32 bs = le32 (len32 bs) @ bs"

definition encode_put :: "u64 \<Rightarrow> u64 \<Rightarrow> bytes \<Rightarrow> bytes \<Rightarrow> bytes" where
  "encode_put cid seq key val = OP_PUT # le64 cid @ le64 seq @ field32 key @ field32 val"

definition encode_delete :: "u64 \<Rightarrow> u64 \<Rightarrow> bytes \<Rightarrow> bytes" where
  "encode_delete cid seq key = OP_DELETE # le64 cid @ le64 seq @ field32 key"

definition encode_multi_put :: "u64 \<Rightarrow> u64 \<Rightarrow> (bytes \<times> bytes) list \<Rightarrow> bytes" where
  "encode_multi_put cid seq entries =
     OP_MULTI_PUT # le64 cid @ le64 seq @ le32 (len32 entries) @
     concat (map (\<lambda>(key, val). field32 key @ field32 val) entries)"

fun encode_cas_pred :: "CasPred \<Rightarrow> bytes" where
  "encode_cas_pred (IndexEquals index) = 0 # le64 index"
| "encode_cas_pred (ValueEquals value) = 1 # field32 value"
| "encode_cas_pred NotExists = [2]"

fun encode_cas_op :: "CasOp \<Rightarrow> bytes" where
  "encode_cas_op (CasPut value) = 0 # field32 value"
| "encode_cas_op CasDelete = [1]"

definition encode_cas :: "u64 \<Rightarrow> u64 \<Rightarrow> bytes \<Rightarrow> CasPred \<Rightarrow> CasOp \<Rightarrow> bytes" where
  "encode_cas cid seq key pred success =
     OP_CAS # le64 cid @ le64 seq @ field32 key @ encode_cas_pred pred @ encode_cas_op success"

definition encode_session_gc :: "(u64 \<times> u64) list \<Rightarrow> bytes" where
  "encode_session_gc sessions =
     OP_SESSION_GC # le32 (len32 sessions) @
     concat (map (\<lambda>(cid, seq). le64 cid @ le64 seq) sessions)"

subsection \<open>Parsers\<close>

definition parse_command :: "bytes \<Rightarrow> KvError + (SessionKey \<times> Op \<times> bytes \<times> bytes)" where
  "parse_command cmd =
     (if length cmd < 17 then Inl MalformedCommand
      else and_then
        (if cmd ! 0 = OP_PUT then Inr Put
         else if cmd ! 0 = OP_DELETE then Inr Delete
         else Inl MalformedCommand) (\<lambda>op.
        let session = SessionKey (of_le64 (take 8 (drop 1 cmd))) (of_le64 (take 8 (drop 9 cmd)));
            rest = drop 17 cmd
        in if length rest < 4 then Inl MalformedCommand
           else
             let key_len = unat (of_le32 (take 4 rest))
             in if length rest < 4 + key_len then Inl MalformedCommand
                else
                  let key = take key_len (drop 4 rest);
                      val_rest = drop (4 + key_len) rest
                  in case op of
                    Put \<Rightarrow>
                      if length val_rest < 4 then Inl MalformedCommand
                      else
                        let val_len = unat (of_le32 (take 4 val_rest))
                        in if length val_rest < 4 + val_len then Inl MalformedCommand
                           else Inr (session, op, key, take val_len (drop 4 val_rest))
                  | Delete \<Rightarrow>
                      if val_rest \<noteq> [] then Inl MalformedCommand
                      else Inr (session, op, key, [])))"

definition command_session :: "bytes \<Rightarrow> (u64 \<times> u64) option" where
  "command_session cmd =
     (case first cmd of
        None \<Rightarrow> None
      | Some op \<Rightarrow>
          if op = OP_PUT \<or> op = OP_DELETE \<or> op = OP_MULTI_PUT \<or> op = OP_CAS then
            Option.bind (slice_get cmd 1 9) (\<lambda>c.
            Option.bind (slice_get cmd 9 17) (\<lambda>s.
              Some (of_le64 c, of_le64 s)))
          else None)"

text \<open>\<open>body.chunks_exact(16)\<close>, each chunk read as a session key.\<close>

fun parse_pairs :: "bytes \<Rightarrow> SessionKey list" where
  "parse_pairs body =
     (if length body < 16 then []
      else SessionKey (of_le64 (take 8 body)) (of_le64 (take 8 (drop 8 body)))
           # parse_pairs (drop 16 body))"

declare parse_pairs.simps [simp del]

abbreviation get_range :: "bytes \<Rightarrow> nat \<Rightarrow> nat \<Rightarrow> KvError + bytes" where
  "get_range bs a b \<equiv> ok_or MalformedCommand (slice_get bs a b)"

abbreviation get_from :: "bytes \<Rightarrow> nat \<Rightarrow> KvError + bytes" where
  "get_from bs a \<equiv> ok_or MalformedCommand (slice_from bs a)"

definition parse_session_gc :: "bytes \<Rightarrow> KvError + SessionKey list" where
  "parse_session_gc cmd =
     (if first cmd \<noteq> Some OP_SESSION_GC \<or> length cmd < 5 then Inl MalformedCommand
      else
        and_then (get_range cmd 1 5) (\<lambda>c.
        let count = unat (of_le32 c) in
        and_then (get_from cmd 5) (\<lambda>body.
          if length body \<noteq> count * 16 then Inl MalformedCommand
          else Inr (parse_pairs body))))"

text \<open>The four slices of one length-prefixed string: the string, and what follows it.\<close>

definition take_field :: "bytes \<Rightarrow> KvError + (bytes \<times> bytes)" where
  "take_field rest =
     and_then (get_range rest 0 4) (\<lambda>l.
     let len = unat (of_le32 l) in
     and_then (get_from rest 4) (\<lambda>rest.
     and_then (get_range rest 0 len) (\<lambda>bs.
     and_then (get_from rest len) (\<lambda>rest.
       Inr (bs, rest)))))"

text \<open>The same after a one-byte tag, with the offsets the code writes there.\<close>

definition take_tagged_field :: "bytes \<Rightarrow> KvError + (bytes \<times> bytes)" where
  "take_tagged_field rest =
     and_then (get_range rest 1 5) (\<lambda>l.
     let vlen = unat (of_le32 l) in
     and_then (get_range rest 5 (5 + vlen)) (\<lambda>value.
     and_then (get_from rest (5 + vlen)) (\<lambda>rest.
       Inr (value, rest))))"

text \<open>The loop of \<open>parse_multi_put\<close>, with \<open>n\<close> entries to go.\<close>

fun multi_put_entries :: "nat \<Rightarrow> bytes \<Rightarrow> KvError + ((bytes \<times> bytes) list \<times> bytes)" where
  "multi_put_entries 0 rest = Inr ([], rest)"
| "multi_put_entries (Suc n) rest =
     and_then (take_field rest) (\<lambda>(key, rest).
     and_then (take_field rest) (\<lambda>(val, rest).
     and_then (multi_put_entries n rest) (\<lambda>(entries, rest).
       Inr ((key, val) # entries, rest))))"

definition parse_multi_put :: "bytes \<Rightarrow> KvError + (SessionKey \<times> (bytes \<times> bytes) list)" where
  "parse_multi_put cmd =
     (if first cmd \<noteq> Some OP_MULTI_PUT \<or> length cmd < 21 then Inl MalformedCommand
      else
        and_then (get_range cmd 1 9) (\<lambda>c.
        and_then (get_range cmd 9 17) (\<lambda>s.
        and_then (get_range cmd 17 21) (\<lambda>n.
        let session = SessionKey (of_le64 c) (of_le64 s);
            count = unat (of_le32 n)
        in if count > MAX_MULTI_PUT_ENTRIES then Inl MalformedCommand
           else
             and_then (get_from cmd 21) (\<lambda>rest.
             and_then (multi_put_entries count rest) (\<lambda>(entries, rest).
               if rest \<noteq> [] then Inl MalformedCommand
               else Inr (session, entries)))))))"

definition parse_cas_pred :: "bytes \<Rightarrow> KvError + (CasPred \<times> bytes)" where
  "parse_cas_pred rest =
     (case first rest of
        None \<Rightarrow> Inl MalformedCommand
      | Some tag \<Rightarrow>
          if tag = 0 then
            and_then (get_range rest 1 9) (\<lambda>i.
            and_then (get_from rest 9) (\<lambda>rest.
              Inr (IndexEquals (of_le64 i), rest)))
          else if tag = 1 then
            and_then (take_tagged_field rest) (\<lambda>(value, rest). Inr (ValueEquals value, rest))
          else if tag = 2 then
            and_then (get_from rest 1) (\<lambda>rest. Inr (NotExists, rest))
          else Inl MalformedCommand)"

definition parse_cas_op :: "bytes \<Rightarrow> KvError + (CasOp \<times> bytes)" where
  "parse_cas_op rest =
     (case first rest of
        None \<Rightarrow> Inl MalformedCommand
      | Some tag \<Rightarrow>
          if tag = 0 then
            and_then (take_tagged_field rest) (\<lambda>(value, rest). Inr (CasPut value, rest))
          else if tag = 1 then
            and_then (get_from rest 1) (\<lambda>rest. Inr (CasDelete, rest))
          else Inl MalformedCommand)"

definition parse_cas :: "bytes \<Rightarrow> KvError + (SessionKey \<times> bytes \<times> CasPred \<times> CasOp)" where
  "parse_cas cmd =
     (if first cmd \<noteq> Some OP_CAS \<or> length cmd < 17 then Inl MalformedCommand
      else
        and_then (get_range cmd 1 9) (\<lambda>c.
        and_then (get_range cmd 9 17) (\<lambda>s.
        let session = SessionKey (of_le64 c) (of_le64 s) in
        and_then (get_from cmd 17) (\<lambda>rest.
        and_then (take_field rest) (\<lambda>(key, rest).
        and_then (parse_cas_pred rest) (\<lambda>(pred, rest).
        and_then (parse_cas_op rest) (\<lambda>(success, rest).
          if rest \<noteq> [] then Inl MalformedCommand
          else Inr (session, key, pred, success))))))))"

text \<open>
  What an encoder needs of its arguments: each length it writes as a \<open>u32\<close> fits in one.
\<close>

definition fields_ok :: "(bytes \<times> bytes) list \<Rightarrow> bool" where
  "fields_ok entries \<longleftrightarrow> (\<forall>(key, val) \<in> set entries. length key < 2 ^ 32 \<and> length val < 2 ^ 32)"

definition encode_entries :: "(bytes \<times> bytes) list \<Rightarrow> bytes" where
  "encode_entries entries = concat (map (\<lambda>(key, val). field32 key @ field32 val) entries)"

fun cas_pred_ok :: "CasPred \<Rightarrow> bool" where
  "cas_pred_ok (ValueEquals v) \<longleftrightarrow> length v < 2 ^ 32"
| "cas_pred_ok _ \<longleftrightarrow> True"

fun cas_op_ok :: "CasOp \<Rightarrow> bool" where
  "cas_op_ok (CasPut v) \<longleftrightarrow> length v < 2 ^ 32"
| "cas_op_ok CasDelete \<longleftrightarrow> True"

subsection \<open>Slices of an encoded command\<close>

lemmas op_defs = OP_PUT_def OP_DELETE_def OP_SESSION_GC_def OP_MULTI_PUT_def OP_CAS_def

lemma length_field32 [simp]: "length (field32 bs) = 4 + length bs"
  by (simp add: field32_def)

lemma take_field_alt:
  "take_field rest =
     (if length rest < 4 then Inl MalformedCommand
      else if length rest < 4 + unat (of_le32 (take 4 rest)) then Inl MalformedCommand
      else Inr (take (unat (of_le32 (take 4 rest))) (drop 4 rest),
                drop (4 + unat (of_le32 (take 4 rest))) rest))"
  by (auto simp: take_field_def slice_get_def slice_from_def Let_def add.commute)

lemma take_tagged_field_Cons [simp]: "take_tagged_field (tag # bs) = take_field bs"
  by (auto simp: take_tagged_field_def take_field_alt slice_get_def slice_from_def Let_def
      drop_Cons')

lemma len32_of_take:
  "unat (n :: u32) \<le> length bs \<Longrightarrow> len32 (take (unat n) bs) = n"
  by (simp add: len32_def min_def)

lemma take_field_eq_Inr [res_simps]:
  "take_field bs = Inr (x, r) \<longleftrightarrow> length x < 2 ^ 32 \<and> bs = field32 x @ r"
proof
  assume "take_field bs = Inr (x, r)"
  then have l: "4 \<le> length bs" "4 + unat (of_le32 (take 4 bs)) \<le> length bs"
    and x: "x = take (unat (of_le32 (take 4 bs))) (drop 4 bs)"
    and r: "r = drop (4 + unat (of_le32 (take 4 bs))) bs"
    unfolding take_field_alt res_simps by auto
  have "length x < 2 ^ 32"
    using l x unsigned_less [of "of_le32 (take 4 bs)", where 'a = nat] by simp
  moreover have "le32 (len32 x) = take 4 bs"
    using l by (simp add: x len32_of_take le_of_le)
  moreover have "r = drop (unat (of_le32 (take 4 bs))) (drop 4 bs)"
    by (simp add: r add.commute)
  then have "x @ r = drop 4 bs"
    by (simp only: x append_take_drop_id)
  then have "bs = take 4 bs @ x @ r"
    by (simp only: append_take_drop_id)
  ultimately show "length x < 2 ^ 32 \<and> bs = field32 x @ r"
    by (simp add: field32_def)
next
  assume "length x < 2 ^ 32 \<and> bs = field32 x @ r"
  then show "take_field bs = Inr (x, r)"
    by (simp add: take_field_alt field32_def)
qed

lemma take_field_field32 [simp, codec]:
  "length x < 2 ^ 32 \<Longrightarrow> take_field (field32 x @ r) = Inr (x, r)"
  "length x < 2 ^ 32 \<Longrightarrow> take_field (field32 x) = Inr (x, [])"
  by (simp_all add: take_field_eq_Inr)

text \<open>The session envelope: opcode, client and sequence number.\<close>

lemma envelope:
  assumes "first cmd = Some op" "17 \<le> length cmd"
  obtains c s where "cmd = op # le64 c @ le64 s @ drop 17 cmd"
proof -
  obtain bs where cmd: "cmd = op # bs"
    using assms(1) by (cases cmd) auto
  have "bs = take 8 bs @ take 8 (drop 8 bs) @ drop 16 bs"
    using append_take_drop_id [of 8 "drop 8 bs"] by simp
  moreover have "take 8 bs = le64 (of_le64 (take 8 bs))"
    and "take 8 (drop 8 bs) = le64 (of_le64 (take 8 (drop 8 bs)))"
    using assms(2) by (simp_all add: cmd le_of_le)
  ultimately show ?thesis
    using that [of "of_le64 (take 8 bs)" "of_le64 (take 8 (drop 8 bs))"]
    by (simp add: cmd drop_Cons')
qed

lemma envelope_slices [simp]:
  "slice_get (op # le64 c @ le64 s @ rest) (Suc 0) 9 = Some (le64 c)"
  "slice_get (op # le64 c @ le64 s @ rest) 9 17 = Some (le64 s)"
  "slice_from (op # le64 c @ le64 s @ rest) 17 = Some rest"
  "drop 17 (op # le64 c @ le64 s @ rest) = rest"
  "take 8 (drop (Suc 0) (op # le64 c @ le64 s @ rest)) = le64 c"
  "take 8 (drop 9 (op # le64 c @ le64 s @ rest)) = le64 s"
  by (simp_all add: slice_get_def slice_from_def drop_Cons')

subsection \<open>Put and Delete\<close>

lemma parse_command_short: "length cmd < 17 \<Longrightarrow> parse_command cmd = Inl MalformedCommand"
  by (simp add: parse_command_def)

lemma parse_command_put:
  "parse_command (OP_PUT # le64 c @ le64 s @ rest) =
     and_then (take_field rest) (\<lambda>(key, vr).
     and_then (take_field vr) (\<lambda>(val, _). Inr (SessionKey c s, Put, key, val)))"
  by (simp add: parse_command_def take_field_alt Let_def)

lemma parse_command_delete:
  "parse_command (OP_DELETE # le64 c @ le64 s @ rest) =
     and_then (take_field rest) (\<lambda>(key, vr).
       if vr \<noteq> [] then Inl MalformedCommand else Inr (SessionKey c s, Delete, key, []))"
  by (simp add: parse_command_def take_field_alt Let_def op_defs)

lemma parse_command_cases:
  assumes "parse_command cmd = Inr r"
  obtains c s rest where "cmd = OP_PUT # le64 c @ le64 s @ rest"
  | c s rest where "cmd = OP_DELETE # le64 c @ le64 s @ rest"
proof -
  from assms have l: "17 \<le> length cmd" and op: "cmd ! 0 = OP_PUT \<or> cmd ! 0 = OP_DELETE"
    by (auto simp: parse_command_def res_simps split: if_splits)
  from l have f: "first cmd = Some (cmd ! 0)" by (cases cmd) auto
  from envelope [OF f l] op that show thesis by metis
qed

lemma parse_command_eq_Put [res_simps]:
  "parse_command cmd = Inr (SessionKey c s, Put, key, val) \<longleftrightarrow>
     length key < 2 ^ 32 \<and> length val < 2 ^ 32 \<and> (\<exists>junk. cmd = encode_put c s key val @ junk)"
proof
  assume p: "parse_command cmd = Inr (SessionKey c s, Put, key, val)"
  then show "length key < 2 ^ 32 \<and> length val < 2 ^ 32 \<and> (\<exists>junk. cmd = encode_put c s key val @ junk)"
    by (rule parse_command_cases)
      (use p in \<open>auto simp: parse_command_put parse_command_delete res_simps encode_put_def\<close>)
next
  assume "length key < 2 ^ 32 \<and> length val < 2 ^ 32 \<and> (\<exists>junk. cmd = encode_put c s key val @ junk)"
  then show "parse_command cmd = Inr (SessionKey c s, Put, key, val)"
    by (auto simp: encode_put_def parse_command_put)
qed

lemma parse_command_eq_Delete [res_simps]:
  "parse_command cmd = Inr (SessionKey c s, Delete, key, val) \<longleftrightarrow>
     length key < 2 ^ 32 \<and> val = [] \<and> cmd = encode_delete c s key"
proof
  assume p: "parse_command cmd = Inr (SessionKey c s, Delete, key, val)"
  then show "length key < 2 ^ 32 \<and> val = [] \<and> cmd = encode_delete c s key"
    by (rule parse_command_cases)
      (use p in \<open>auto simp: parse_command_put parse_command_delete res_simps encode_delete_def
        split: if_splits\<close>)
next
  assume "length key < 2 ^ 32 \<and> val = [] \<and> cmd = encode_delete c s key"
  then show "parse_command cmd = Inr (SessionKey c s, Delete, key, val)"
    by (auto simp: encode_delete_def parse_command_delete)
qed

subsection \<open>Multi-put\<close>

lemma multi_put_entries_eq_Inr [res_simps]:
  "multi_put_entries n bs = Inr (entries, r) \<longleftrightarrow>
     length entries = n \<and> fields_ok entries \<and> bs = encode_entries entries @ r"
proof (induction n arbitrary: bs entries)
  case 0
  then show ?case by (auto simp: fields_ok_def encode_entries_def)
next
  case (Suc n)
  then show ?case
    by (cases entries) (auto simp: res_simps fields_ok_def encode_entries_def)
qed

lemma multi_put_body:
  assumes "21 \<le> length (op # le64 c @ le64 s @ rest)"
  shows "slice_get (op # le64 c @ le64 s @ rest) 17 21 = Some (take 4 rest)"
    and "slice_from (op # le64 c @ le64 s @ rest) 21 = Some (drop 4 rest)"
  using assms by (simp_all add: slice_get_def slice_from_def drop_Cons')

lemma parse_multi_put_eq_Inr [res_simps]:
  "parse_multi_put cmd = Inr (SessionKey c s, entries) \<longleftrightarrow>
     length entries \<le> MAX_MULTI_PUT_ENTRIES \<and> fields_ok entries \<and>
     cmd = encode_multi_put c s entries"
  (is "?parse \<longleftrightarrow> ?enc")
proof
  assume ?parse
  then have f: "first cmd = Some OP_MULTI_PUT" and l: "21 \<le> length cmd"
    by (auto simp: parse_multi_put_def split: if_splits)
  from l have "17 \<le> length cmd" by simp
  with f obtain c' s' where cmd: "cmd = OP_MULTI_PUT # le64 c' @ le64 s' @ drop 17 cmd"
    by (rule envelope)
  define rest where "rest = drop 17 cmd"
  have cmd: "cmd = OP_MULTI_PUT # le64 c' @ le64 s' @ rest"
    using cmd by (simp add: rest_def)
  have r: "4 \<le> length rest" using l by (simp add: rest_def)
  from \<open>?parse\<close> have "c' = c" "s' = s" and n: "length entries = unat (of_le32 (take 4 rest))"
    and max: "length entries \<le> MAX_MULTI_PUT_ENTRIES" and ok: "fields_ok entries"
    and body: "drop 4 rest = encode_entries entries"
    using l unfolding cmd parse_multi_put_def
    by (auto simp: multi_put_body Let_def res_simps split: if_splits)
  have "le32 (len32 entries) = take 4 rest"
    using r by (simp add: len32_def n le_of_le)
  then have "rest = le32 (len32 entries) @ encode_entries entries"
    by (simp flip: body)
  with cmd \<open>c' = c\<close> \<open>s' = s\<close> max ok show ?enc
    by (simp add: encode_multi_put_def encode_entries_def)
next
  assume ?enc
  then have "unat (len32 entries) = length entries"
    by (intro unat_len32) (simp add: MAX_MULTI_PUT_ENTRIES_def)
  moreover have "multi_put_entries (length entries) (encode_entries entries) = Inr (entries, [])"
    using \<open>?enc\<close> by (simp add: multi_put_entries_eq_Inr)
  ultimately show ?parse
    using \<open>?enc\<close>
    by (simp add: parse_multi_put_def encode_multi_put_def multi_put_body Let_def
        flip: encode_entries_def)
qed

subsection \<open>Compare-and-swap\<close>

lemma tag_slices:
  "slice_from (tag # bs) (Suc 0) = Some bs"
  "slice_get (tag # bs) (Suc 0) 9 = slice_get bs 0 8"
  "slice_from (tag # bs) 9 = slice_from bs 8"
  by (simp_all add: slice_get_def slice_from_def drop_Cons')

lemma index_slices:
  "slice_get bs 0 8 = Some i \<and> slice_from bs 8 = Some r \<longleftrightarrow> (\<exists>j. i = le64 j \<and> bs = le64 j @ r)"
proof
  assume "slice_get bs 0 8 = Some i \<and> slice_from bs 8 = Some r"
  then have "i = le64 (of_le64 i)" "bs = i @ r"
    by (auto simp: slice_get_def slice_from_def le_of_le split: if_splits)
  then show "\<exists>j. i = le64 j \<and> bs = le64 j @ r" by metis
qed (auto simp: slice_get_def slice_from_def)

lemma parse_cas_pred_eq_Inr [res_simps]:
  "parse_cas_pred bs = Inr (p, r) \<longleftrightarrow> cas_pred_ok p \<and> bs = encode_cas_pred p @ r"
proof (cases bs)
  case Nil
  then show ?thesis by (cases p) (simp_all add: parse_cas_pred_def)
next
  case (Cons tag bs')
  consider "tag = 0" | "tag = 1" | "tag = 2" | "tag \<noteq> 0" "tag \<noteq> 1" "tag \<noteq> 2" by blast
  then show ?thesis
  proof cases
    case 1
    have "parse_cas_pred bs = Inr (p, r) \<longleftrightarrow>
        (\<exists>i. (slice_get bs' 0 8 = Some i \<and> slice_from bs' 8 = Some r) \<and> IndexEquals (of_le64 i) = p)"
      using 1 Cons by (auto simp: parse_cas_pred_def tag_slices res_simps)
    also have "\<dots> \<longleftrightarrow> (\<exists>j. IndexEquals j = p \<and> bs' = le64 j @ r)"
      unfolding index_slices by auto
    finally show ?thesis
      using 1 Cons by (cases p) auto
  next
    case 2
    then show ?thesis using Cons by (cases p) (auto simp: parse_cas_pred_def res_simps)
  next
    case 3
    then show ?thesis
      using Cons by (cases p) (auto simp: parse_cas_pred_def tag_slices res_simps)
  next
    case 4
    then show ?thesis using Cons by (cases p) (auto simp: parse_cas_pred_def)
  qed
qed

lemma parse_cas_op_eq_Inr [res_simps]:
  "parse_cas_op bs = Inr (p, r) \<longleftrightarrow> cas_op_ok p \<and> bs = encode_cas_op p @ r"
  by (cases bs; cases p) (auto simp: parse_cas_op_def tag_slices res_simps)

lemma parse_cas_eq_Inr [res_simps]:
  "parse_cas cmd = Inr (SessionKey c s, key, p, q) \<longleftrightarrow>
     length key < 2 ^ 32 \<and> cas_pred_ok p \<and> cas_op_ok q \<and> cmd = encode_cas c s key p q"
  (is "?parse \<longleftrightarrow> ?enc")
proof
  assume ?parse
  then have f: "first cmd = Some OP_CAS" and l: "17 \<le> length cmd"
    by (auto simp: parse_cas_def split: if_splits)
  then obtain c' s' where cmd: "cmd = OP_CAS # le64 c' @ le64 s' @ drop 17 cmd"
    by (rule envelope)
  define rest where "rest = drop 17 cmd"
  have cmd: "cmd = OP_CAS # le64 c' @ le64 s' @ rest"
    using cmd by (simp add: rest_def)
  show ?enc
    using \<open>?parse\<close> unfolding cmd parse_cas_def
    by (auto simp: Let_def res_simps encode_cas_def split: if_splits)
next
  assume ?enc
  then show ?parse
    by (auto simp: parse_cas_def encode_cas_def Let_def res_simps)
qed

subsection \<open>Session garbage collection\<close>

lemma parse_pairs_encode:
  "parse_pairs (concat (map (\<lambda>k. le64 (client_id k) @ le64 (seq_no k)) ks)) = ks"
  "length (concat (map (\<lambda>k. le64 (client_id k) @ le64 (seq_no k)) ks)) = length ks * 16"
  by (induction ks) (auto simp: parse_pairs.simps)

lemma parse_pairs_canonical:
  "length body = 16 * n \<Longrightarrow>
     concat (map (\<lambda>k. le64 (client_id k) @ le64 (seq_no k)) (parse_pairs body)) = body \<and>
     length (parse_pairs body) = n"
proof (induction n arbitrary: body)
  case 0
  then show ?case by (simp add: parse_pairs.simps)
next
  case (Suc n)
  have "take 8 body @ take 8 (drop 8 body) @ drop 16 body = body"
    using append_take_drop_id [of 8 "drop 8 body"] by simp
  moreover have "length (drop 16 body) = 16 * n" using Suc.prems by simp
  ultimately show ?case
    using Suc.prems Suc.IH [of "drop 16 body"]
    by (subst (1 2) parse_pairs.simps) (simp add: le_of_le)
qed

lemma parse_session_gc_eq_Inr [res_simps]:
  "parse_session_gc cmd = Inr keys \<longleftrightarrow>
     length keys < 2 ^ 32 \<and> cmd = encode_session_gc (map (\<lambda>k. (client_id k, seq_no k)) keys)"
  (is "?parse \<longleftrightarrow> ?enc")
proof
  assume ?parse
  then obtain bs where cmd: "cmd = OP_SESSION_GC # bs" and l: "4 \<le> length bs"
    and n: "length (drop 4 bs) = unat (of_le32 (take 4 bs)) * 16"
    and keys: "keys = parse_pairs (drop 4 bs)"
    by (cases cmd)
      (auto simp: parse_session_gc_def slice_get_def slice_from_def Let_def drop_Cons' split: if_splits)
  have "length keys = unat (of_le32 (take 4 bs))"
    and body: "concat (map (\<lambda>k. le64 (client_id k) @ le64 (seq_no k)) keys) = drop 4 bs"
    using n parse_pairs_canonical [of "drop 4 bs"] by (simp_all add: keys mult.commute)
  then have "length keys < 2 ^ 32" and "le32 (len32 keys) = take 4 bs"
    using l unsigned_less [of "of_le32 (take 4 bs)", where 'a = nat]
    by (simp_all add: len32_def le_of_le)
  moreover have "len32 (map (\<lambda>k. (client_id k, seq_no k)) keys) = len32 keys"
    by (simp add: len32_def)
  ultimately show ?enc
    by (simp add: cmd encode_session_gc_def comp_def body)
next
  assume enc: ?enc
  then have "unat (len32 (map (\<lambda>k. (client_id k, seq_no k)) keys)) = length keys"
    by (simp add: len32_def unat_of_nat)
  with enc show ?parse
    by (simp add: parse_session_gc_def encode_session_gc_def slice_get_def slice_from_def Let_def
        parse_pairs_encode comp_def)
qed

subsection \<open>The session of a command\<close>

lemma command_session_simps [simp]:
  "command_session [] = None"
  "command_session (encode_session_gc ss) = None"
  "command_session (encode_put c s key val @ junk) = Some (c, s)"
  "command_session (encode_delete c s key) = Some (c, s)"
  "command_session (encode_multi_put c s entries) = Some (c, s)"
  "command_session (encode_cas c s key p q) = Some (c, s)"
  by (simp_all add: command_session_def encode_put_def encode_delete_def encode_multi_put_def
      encode_cas_def encode_session_gc_def op_defs)

end
