(* ===== verification/OrderedMap.thy ===== *)
theory OrderedMap
  imports Prelude
begin

text \<open>
  The standard library's \<open>BTreeMap\<close>, which the state machine keeps its keys and sessions in.
  A map is the list of its \<open>(key, value)\<close> pairs in ascending key order, as \<open>iter()\<close> yields
  them; the operations keep that order.  The locale \<open>ordered_map\<close> is the interface the state
  machine relies on: what a lookup returns after an insertion or a removal, and that the
  entries are listed once each in ascending order.  Its interpretation on the list model
  discharges the laws.
\<close>

type_synonym ('k, 'v) btree_map = "('k \<times> 'v) list"

fun bt_get :: "('k, 'v) btree_map \<Rightarrow> 'k \<Rightarrow> 'v option" where
  "bt_get [] k = None"
| "bt_get ((k', v) # m) k = (if k = k' then Some v else bt_get m k)"

fun bt_insert :: "'k::linorder \<Rightarrow> 'v \<Rightarrow> ('k, 'v) btree_map \<Rightarrow> ('k, 'v) btree_map" where
  "bt_insert k v [] = [(k, v)]"
| "bt_insert k v ((k', v') # m) =
     (if k < k' then (k, v) # (k', v') # m
      else if k = k' then (k, v) # m
      else (k', v') # bt_insert k v m)"

fun bt_remove :: "'k::linorder \<Rightarrow> ('k, 'v) btree_map \<Rightarrow> ('k, 'v) btree_map" where
  "bt_remove k [] = []"
| "bt_remove k ((k', v') # m) = (if k = k' then m else (k', v') # bt_remove k m)"

text \<open>\<open>range((lo, hi))\<close> with an included lower and an excluded upper bound; \<open>None\<close> is unbounded.\<close>

definition bt_range :: "'k::linorder option \<Rightarrow> 'k option \<Rightarrow> ('k, 'v) btree_map \<Rightarrow> ('k \<times> 'v) list" where
  "bt_range lo hi m = filter (\<lambda>(k, v).
     (case lo of None \<Rightarrow> True | Some l \<Rightarrow> l \<le> k) \<and>
     (case hi of None \<Rightarrow> True | Some h \<Rightarrow> k < h)) m"

definition bt_wf :: "('k::linorder, 'v) btree_map \<Rightarrow> bool" where
  "bt_wf m \<longleftrightarrow> sorted_wrt (<) (map fst m)"

definition bt_keys :: "('k, 'v) btree_map \<Rightarrow> 'k list" where
  "bt_keys m = map fst m"

text \<open>Lists of pairs in strictly ascending key order are determined by their elements.\<close>

lemma sorted_fst_unique:
  fixes xs ys :: "('k::linorder \<times> 'v) list"
  assumes "set xs = set ys"
    and "sorted_wrt (\<lambda>a b. fst a < fst b) xs" and "sorted_wrt (\<lambda>a b. fst a < fst b) ys"
  shows "xs = ys"
  using assms
proof (induction xs arbitrary: ys)
  case Nil
  then show ?case by simp
next
  case (Cons x xs)
  then obtain y ys' where ys: "ys = y # ys'" by (cases ys) auto
  have "x = y"
  proof (rule ccontr)
    assume "x \<noteq> y"
    with Cons.prems ys have "x \<in> set ys'" and "y \<in> set xs" by auto
    with Cons.prems ys have "fst y < fst x" and "fst x < fst y" by auto
    then show False by simp
  qed
  moreover have "set xs = set ys'"
    using Cons.prems ys \<open>x = y\<close> by (auto simp: set_eq_iff) (metis less_irrefl)+
  ultimately show ?case
    using Cons.IH [of ys'] Cons.prems ys by simp
qed

subsection \<open>The interface\<close>

locale ordered_map =
  fixes empty :: "'m"
    and get :: "'m \<Rightarrow> 'k::linorder \<Rightarrow> 'v option"
    and insert :: "'k \<Rightarrow> 'v \<Rightarrow> 'm \<Rightarrow> 'm"
    and remove :: "'k \<Rightarrow> 'm \<Rightarrow> 'm"
    and entries :: "'m \<Rightarrow> ('k \<times> 'v) list"
    and wf :: "'m \<Rightarrow> bool"
  assumes get_empty: "get empty k = None"
    and get_insert: "wf m \<Longrightarrow> get (insert k v m) k' = (if k' = k then Some v else get m k')"
    and get_remove: "wf m \<Longrightarrow> get (remove k m) k' = (if k' = k then None else get m k')"
    and get_entries: "wf m \<Longrightarrow> get m k = Some v \<longleftrightarrow> (k, v) \<in> set (entries m)"
    and sorted_entries: "wf m \<Longrightarrow> sorted_wrt (<) (map fst (entries m))"
    and wf_empty: "wf empty"
    and wf_insert: "wf m \<Longrightarrow> wf (insert k v m)"
    and wf_remove: "wf m \<Longrightarrow> wf (remove k m)"
    and entries_inject: "wf m \<Longrightarrow> wf m' \<Longrightarrow> entries m = entries m' \<Longrightarrow> m = m'"
begin

lemma wf_fold_insert: "wf m \<Longrightarrow> wf (fold (\<lambda>(k, v). insert k v) kvs m)"
  by (induction kvs arbitrary: m) (auto simp: wf_insert)

text \<open>Inserting a list of pairs: for each key the last pair that names it wins.\<close>

lemma get_fold_insert:
  "wf m \<Longrightarrow> get (fold (\<lambda>(k, v). insert k v) kvs m) k =
     (case map_of (rev kvs) k of Some v \<Rightarrow> Some v | None \<Rightarrow> get m k)"
proof (induction kvs arbitrary: m)
  case Nil
  then show ?case by simp
next
  case (Cons kv kvs)
  obtain k' v' where [simp]: "kv = (k', v')" by force
  show ?case
    using Cons.prems
    by (auto simp: Cons.IH wf_insert get_insert map_add_def split: option.splits)
qed

lemma get_fold_remove:
  "wf m \<Longrightarrow> get (fold remove ks m) k = (if k \<in> set ks then None else get m k)"
  by (induction ks arbitrary: m) (auto simp: wf_remove get_remove)

lemma wf_fold_remove: "wf m \<Longrightarrow> wf (fold remove ks m)"
  by (induction ks arbitrary: m) (auto intro: wf_remove)

text \<open>Two well-formed maps with the same lookups are equal.\<close>

lemma map_ext:
  assumes "wf m" "wf m'" and eq: "\<And>k. get m k = get m' k"
  shows "m = m'"
proof -
  have "(kv \<in> set (entries m)) = (kv \<in> set (entries m'))" for kv
    using assms get_entries [of m "fst kv" "snd kv"] get_entries [of m' "fst kv" "snd kv"]
    by (cases kv) simp
  then have "set (entries m) = set (entries m')" by blast
  moreover have "sorted_wrt (\<lambda>a b. fst a < fst b) (entries m)"
    and "sorted_wrt (\<lambda>a b. fst a < fst b) (entries m')"
    using sorted_entries assms by (simp_all add: sorted_wrt_map)
  ultimately have "entries m = entries m'"
    by (rule sorted_fst_unique)
  with assms show ?thesis by (simp add: entries_inject)
qed

end

subsection \<open>The list model satisfies it\<close>

lemma bt_wf_simps [simp]:
  "bt_wf []" "bt_wf ((k, v) # m) \<longleftrightarrow> (\<forall>x \<in> set m. k < fst x) \<and> bt_wf m"
  by (auto simp: bt_wf_def)

lemma bt_get_None: "(\<And>x. x \<in> set m \<Longrightarrow> k \<noteq> fst x) \<Longrightarrow> bt_get m k = None"
  by (induction m k rule: bt_get.induct) fastforce+

lemma bt_get_Some_in: "bt_get m k = Some v \<Longrightarrow> (k, v) \<in> set m"
  by (induction m k rule: bt_get.induct) (auto split: if_splits)

lemma bt_get_in: "bt_wf m \<Longrightarrow> (k, v) \<in> set m \<Longrightarrow> bt_get m k = Some v"
  by (induction m k rule: bt_get.induct) auto

lemma set_bt_insert: "set (bt_insert k v m) \<subseteq> insert (k, v) (set m)"
  by (induction k v m rule: bt_insert.induct) auto

lemma set_bt_remove: "set (bt_remove k m) \<subseteq> set m"
  by (induction k m rule: bt_remove.induct) auto

lemma bt_wf_insert [simp]: "bt_wf m \<Longrightarrow> bt_wf (bt_insert k v m)"
proof (induction k v m rule: bt_insert.induct)
  case (2 k v k' v' m)
  then show ?case
    using set_bt_insert [of k v m] by (auto simp: not_less_iff_gr_or_eq)
qed simp

lemma bt_wf_remove [simp]: "bt_wf m \<Longrightarrow> bt_wf (bt_remove k m)"
proof (induction k m rule: bt_remove.induct)
  case (2 k k' v' m)
  then show ?case using set_bt_remove [of k m] by auto
qed simp

lemma bt_get_insert [simp]: "bt_get (bt_insert k v m) k' = (if k' = k then Some v else bt_get m k')"
  by (induction k v m rule: bt_insert.induct) auto

lemma bt_get_remove:
  "bt_wf m \<Longrightarrow> bt_get (bt_remove k m) k' = (if k' = k then None else bt_get m k')"
proof (induction k m rule: bt_remove.induct)
  case (2 k k'' v m)
  then have "bt_get m k'' = None" by (auto intro!: bt_get_None)
  with 2 show ?case by auto
qed simp

interpretation bt: ordered_map "[]" bt_get bt_insert bt_remove "\<lambda>m. m" bt_wf
  by unfold_locales
    (auto simp: bt_get_remove dest: bt_get_Some_in intro: bt_get_in, simp add: bt_wf_def)

lemma bt_in_iff: "bt_wf m \<Longrightarrow> (k, v) \<in> set m \<longleftrightarrow> bt_get m k = Some v"
  by (auto dest: bt_get_Some_in intro: bt_get_in)

lemma bt_wf_distinct: "bt_wf m \<Longrightarrow> distinct (map fst m)"
  by (simp add: bt_wf_def strict_sorted_iff)

lemma bt_get_map_of: "bt_get m = map_of m"
  by (rule ext, induct_tac m) auto

lemma map_of_rev_wf: "bt_wf m \<Longrightarrow> map_of (rev m) = map_of m"
  by (rule map_of_inject_set [THEN iffD2])
    (simp_all add: bt_wf_distinct rev_map [symmetric])

lemma bt_get_filter_fst:
  "bt_wf m \<Longrightarrow> bt_wf (filter P m)"
  by (auto simp: bt_wf_def sorted_wrt_map intro: sorted_wrt_filter)

lemma bt_range_set:
  "(k, v) \<in> set (bt_range lo hi m) \<longleftrightarrow> (k, v) \<in> set m \<and>
     (case lo of None \<Rightarrow> True | Some l \<Rightarrow> l \<le> k) \<and> (case hi of None \<Rightarrow> True | Some h \<Rightarrow> k < h)"
  by (simp add: bt_range_def)

lemma bt_wf_range: "bt_wf m \<Longrightarrow> bt_wf (bt_range lo hi m)"
  by (simp add: bt_range_def bt_get_filter_fst)

end
