(* ===== verification/KvMachine.thy ===== *)
theory KvMachine
  imports KvCommand OrderedMap
begin

text \<open>
  The replicated state machine (\<open>arachne/src/state_machine/kv.rs\<close>): a key-value map whose
  entries remember the log index that wrote them, and the session table that makes every
  \<open>(client_id, seq_no)\<close> command apply once.  \<open>apply_locked\<close> is the body of
  \<open>apply_with_events_and_index\<close> under the write lock, with one definition per command kind;
  it returns the new store beside the result, so that what an error leaves behind is part of
  the model.  The reads follow.

  An abstract machine on partial functions, \<open>spec_step\<close>, says what a command means; the
  lemmas show that the detailed machine implements it, keeps the store invariant, and
  reports write-set events that account for every change.
\<close>

subsection \<open>Data\<close>

datatype ApplyOutcome =
    Value bytes
  | NoValue
  | CasFailed (current_index: LogIndex) (current_value: "bytes option")

record KvEntry =
  e_val :: bytes
  e_index :: LogIndex

record SessionRecord =
  s_outcome :: ApplyOutcome
  s_index :: LogIndex

record WatchEvent =
  w_index :: LogIndex
  w_key :: bytes
  w_value :: "bytes option"

record Store =
  applied :: LogIndex
  kv :: "(bytes, KvEntry) btree_map"
  sessions :: "(SessionKey, SessionRecord) btree_map"

text \<open>The lock around the store: poisoned once a thread panics while it holds the lock.\<close>

record KvStateMachine =
  poisoned :: bool
  store :: Store

definition MAX_MULTI_GET_RESULT_BYTES :: u64 where "MAX_MULTI_GET_RESULT_BYTES = 4 * 1024 * 1024"
definition MAX_STALE_RANGE_ENTRIES :: nat where "MAX_STALE_RANGE_ENTRIES = 10000"

definition watch_put :: "LogIndex \<Rightarrow> bytes \<Rightarrow> bytes \<Rightarrow> WatchEvent" where
  "watch_put index key value = \<lparr>w_index = index, w_key = key, w_value = Some value\<rparr>"

definition watch_delete :: "LogIndex \<Rightarrow> bytes \<Rightarrow> WatchEvent" where
  "watch_delete index key = \<lparr>w_index = index, w_key = key, w_value = None\<rparr>"

definition empty_store :: Store where
  "empty_store = \<lparr>applied = 0, kv = [], sessions = []\<rparr>"

definition kv_new :: KvStateMachine where
  "kv_new = \<lparr>poisoned = False, store = empty_store\<rparr>"

subsection \<open>Apply\<close>

type_synonym apply_result = "KvError + (ApplyOutcome \<times> LogIndex \<times> WatchEvent list)"

definition apply_session_gc :: "Store \<Rightarrow> LogIndex \<Rightarrow> bytes \<Rightarrow> Store \<times> apply_result" where
  "apply_session_gc st index command =
     (case parse_session_gc command of
        Inl e \<Rightarrow> (st, Inl e)
      | Inr keys \<Rightarrow>
          (st\<lparr>sessions := fold bt_remove keys (sessions st), applied := index\<rparr>,
           Inr (NoValue, index, [])))"

text \<open>
  The two maps the multi-put loop fills: the store's own, and the collapsed write set its
  events are read from.
\<close>

definition multi_put_kv ::
    "LogIndex \<Rightarrow> (bytes \<times> bytes) list \<Rightarrow> (bytes, KvEntry) btree_map \<Rightarrow> (bytes, KvEntry) btree_map" where
  "multi_put_kv index entries m =
     fold (\<lambda>(key, val). bt_insert key \<lparr>e_val = val, e_index = index\<rparr>) entries m"

definition multi_put_events :: "LogIndex \<Rightarrow> (bytes \<times> bytes) list \<Rightarrow> WatchEvent list" where
  "multi_put_events index entries =
     map (\<lambda>(key, val). watch_put index key val)
       (fold (\<lambda>(key, val). bt_insert key val) entries [])"

definition apply_multi_put :: "Store \<Rightarrow> LogIndex \<Rightarrow> bytes \<Rightarrow> Store \<times> apply_result" where
  "apply_multi_put st index command =
     (case parse_multi_put command of
        Inl e \<Rightarrow> (st, Inl e)
      | Inr (session, entries) \<Rightarrow>
          (case bt_get (sessions st) session of
             Some record \<Rightarrow>
               (st\<lparr>applied := index\<rparr>, Inr (NoValue, s_index record, []))
           | None \<Rightarrow>
               (st\<lparr>kv := multi_put_kv index entries (kv st),
                   sessions := bt_insert session \<lparr>s_outcome = NoValue, s_index = index\<rparr> (sessions st),
                   applied := index\<rparr>,
                Inr (NoValue, index, multi_put_events index entries))))"

fun cas_matches :: "CasPred \<Rightarrow> KvEntry option \<Rightarrow> bool" where
  "cas_matches (IndexEquals want) current =
     (case current of Some e \<Rightarrow> e_index e = want | None \<Rightarrow> False)"
| "cas_matches (ValueEquals want) current =
     (case current of Some e \<Rightarrow> e_val e = want | None \<Rightarrow> False)"
| "cas_matches NotExists current = (current = None)"

definition cas_failure :: "KvEntry option \<Rightarrow> ApplyOutcome" where
  "cas_failure current =
     (case current of
        Some e \<Rightarrow> CasFailed (e_index e) (Some (e_val e))
      | None \<Rightarrow> CasFailed 0 None)"

text \<open>The evaluation of a compare-and-swap that has no cached session.\<close>

definition cas_eval ::
    "(bytes, KvEntry) btree_map \<Rightarrow> LogIndex \<Rightarrow> bytes \<Rightarrow> CasPred \<Rightarrow> CasOp
      \<Rightarrow> (bytes, KvEntry) btree_map \<times> ApplyOutcome \<times> WatchEvent list" where
  "cas_eval m index key pred success =
     (let current = bt_get m key in
      if cas_matches pred current then
        (case success of
           CasPut value \<Rightarrow>
             (bt_insert key \<lparr>e_val = value, e_index = index\<rparr> m, Value value,
              [watch_put index key value])
         | CasDelete \<Rightarrow> (bt_remove key m, NoValue, [watch_delete index key]))
      else (m, cas_failure current, []))"

definition apply_cas :: "Store \<Rightarrow> LogIndex \<Rightarrow> bytes \<Rightarrow> Store \<times> apply_result" where
  "apply_cas st index command =
     (case parse_cas command of
        Inl e \<Rightarrow> (st, Inl e)
      | Inr (session, key, pred, success) \<Rightarrow>
          (case bt_get (sessions st) session of
             Some record \<Rightarrow>
               (st\<lparr>applied := index\<rparr>, Inr (s_outcome record, s_index record, []))
           | None \<Rightarrow>
               (case cas_eval (kv st) index key pred success of
                  (m, outcome, events) \<Rightarrow>
                    (st\<lparr>kv := m,
                        sessions := bt_insert session \<lparr>s_outcome = outcome, s_index = index\<rparr> (sessions st),
                        applied := index\<rparr>,
                     Inr (outcome, index, events)))))"

text \<open>The single-key commands.\<close>

definition apply_command :: "Store \<Rightarrow> LogIndex \<Rightarrow> bytes \<Rightarrow> Store \<times> apply_result" where
  "apply_command st index command =
     (case parse_command command of
        Inl e \<Rightarrow> (st, Inl e)
      | Inr (session, op, key, val) \<Rightarrow>
          (case bt_get (sessions st) session of
             Some record \<Rightarrow>
               (st\<lparr>applied := index\<rparr>, Inr (s_outcome record, s_index record, []))
           | None \<Rightarrow>
               let (m, outcome, event) =
                 (case op of
                    Put \<Rightarrow>
                      (bt_insert key \<lparr>e_val = val, e_index = index\<rparr> (kv st), Value val,
                       watch_put index key val)
                  | Delete \<Rightarrow> (bt_remove key (kv st), NoValue, watch_delete index key))
               in (st\<lparr>kv := m,
                      sessions := bt_insert session \<lparr>s_outcome = outcome, s_index = index\<rparr> (sessions st),
                      applied := index\<rparr>,
                   Inr (outcome, index, [event]))))"

definition apply_locked :: "Store \<Rightarrow> LogIndex \<Rightarrow> bytes \<Rightarrow> Store \<times> apply_result" where
  "apply_locked st index command =
     (if index \<noteq> applied st + 1 then (st, Inl (IndexViolation index))
      else if command = [] then (st\<lparr>applied := index\<rparr>, Inr (NoValue, index, []))
      else if first command = Some OP_SESSION_GC then apply_session_gc st index command
      else if first command = Some OP_MULTI_PUT then apply_multi_put st index command
      else if first command = Some OP_CAS then apply_cas st index command
      else apply_command st index command)"

definition apply_with_events_and_index ::
    "KvStateMachine \<Rightarrow> LogIndex \<Rightarrow> bytes \<Rightarrow> KvStateMachine \<times> apply_result" where
  "apply_with_events_and_index sm index command =
     (if poisoned sm then (sm, Inl PoisonedLock)
      else case apply_locked (store sm) index command of (st, r) \<Rightarrow> (sm\<lparr>store := st\<rparr>, r))"

definition apply_with_events ::
    "KvStateMachine \<Rightarrow> LogIndex \<Rightarrow> bytes \<Rightarrow> KvStateMachine \<times> (KvError + (ApplyOutcome \<times> WatchEvent list))" where
  "apply_with_events sm index command =
     (case apply_with_events_and_index sm index command of
        (sm', r) \<Rightarrow> (sm', and_then r (\<lambda>(outcome, _, events). Inr (outcome, events))))"

definition kv_apply ::
    "KvStateMachine \<Rightarrow> LogIndex \<Rightarrow> bytes \<Rightarrow> KvStateMachine \<times> (KvError + ApplyOutcome)" where
  "kv_apply sm index command =
     (case apply_with_events sm index command of
        (sm', r) \<Rightarrow> (sm', and_then r (\<lambda>(outcome, _). Inr outcome)))"

subsection \<open>Reads\<close>

text \<open>\<open>store.read().map_err(...)?\<close>.\<close>

definition read_lock :: "KvStateMachine \<Rightarrow> KvError + Store" where
  "read_lock sm = (if poisoned sm then Inl PoisonedLock else Inr (store sm))"

definition kv_get :: "KvStateMachine \<Rightarrow> bytes \<Rightarrow> KvError + bytes option" where
  "kv_get sm key = and_then (read_lock sm) (\<lambda>g. Inr (map_option e_val (bt_get (kv g) key)))"

definition get_with_index :: "KvStateMachine \<Rightarrow> bytes \<Rightarrow> KvError + (bytes option \<times> LogIndex option)" where
  "get_with_index sm key = and_then (read_lock sm) (\<lambda>g.
     case bt_get (kv g) key of
       None \<Rightarrow> Inr (None, None)
     | Some e \<Rightarrow> Inr (Some (e_val e), Some (e_index e)))"

definition saturating_add :: "u64 \<Rightarrow> u64 \<Rightarrow> u64" where
  "saturating_add a b = (if a + b < a then - 1 else a + b)"

text \<open>The loop of \<open>multi_get\<close>, with the value bytes counted so far.\<close>

fun multi_get_loop :: "(bytes, KvEntry) btree_map \<Rightarrow> u64 \<Rightarrow> bytes list \<Rightarrow> KvError + bytes option list" where
  "multi_get_loop m total_bytes [] = Inr []"
| "multi_get_loop m total_bytes (key # keys) =
     (case bt_get m key of
        None \<Rightarrow> and_then (multi_get_loop m total_bytes keys) (\<lambda>vs. Inr (None # vs))
      | Some entry \<Rightarrow>
          let total_bytes = saturating_add total_bytes (len64 (e_val entry))
          in if total_bytes > MAX_MULTI_GET_RESULT_BYTES then Inl ResultTooLarge
             else and_then (multi_get_loop m total_bytes keys) (\<lambda>vs. Inr (Some (e_val entry) # vs)))"

definition multi_get :: "KvStateMachine \<Rightarrow> bytes list \<Rightarrow> KvError + (bytes option list \<times> LogIndex)" where
  "multi_get sm keys = and_then (read_lock sm) (\<lambda>g.
     and_then (multi_get_loop (kv g) 0 keys) (\<lambda>values. Inr (values, applied g)))"

text \<open>The bounded copy of a range: the entries copied, and whether it was cut.\<close>

fun range_loop :: "nat \<Rightarrow> (bytes \<times> bytes) list \<Rightarrow> (bytes \<times> KvEntry) list \<Rightarrow> (bytes \<times> bytes) list \<times> bool" where
  "range_loop limit out [] = (out, False)"
| "range_loop limit out ((k, e) # es) =
     (if length out \<ge> limit then (out, True)
      else range_loop limit (out @ [(k, e_val e)]) es)"

definition get_range_with_index ::
    "KvStateMachine \<Rightarrow> bytes \<Rightarrow> bytes \<Rightarrow> nat \<Rightarrow> KvError + ((bytes \<times> bytes) list \<times> LogIndex \<times> bool)" where
  "get_range_with_index sm start end' limit = and_then (read_lock sm) (\<lambda>g.
     let limit = min limit MAX_STALE_RANGE_ENTRIES;
         reversed = start \<noteq> [] \<and> end' \<noteq> [] \<and> start \<ge> end'
     in if reversed then Inr ([], applied g, False)
        else
          let range =
                (if start = [] \<and> end' = [] then None
                 else Some (if start = [] then None else Some start,
                            if end' = [] then None else Some end'));
              (out, truncated) =
                (case range of
                   Some (lo, hi) \<Rightarrow> range_loop limit [] (bt_range lo hi (kv g))
                 | None \<Rightarrow> range_loop limit [] (kv g))
          in Inr (out, applied g, truncated))"

text \<open>
  The reads below take the lock with \<open>expect\<close>: a poisoned lock is a panic, the value \<open>None\<close>.
\<close>

definition read_expect :: "KvStateMachine \<Rightarrow> Store option" where
  "read_expect sm = (if poisoned sm then None else Some (store sm))"

definition session_count :: "KvStateMachine \<Rightarrow> nat option" where
  "session_count sm = map_option (\<lambda>g. length (sessions g)) (read_expect sm)"

definition applied_session :: "KvStateMachine \<Rightarrow> u64 \<Rightarrow> u64 \<Rightarrow> bool option" where
  "applied_session sm cid seq =
     map_option (\<lambda>g. bt_get (sessions g) (SessionKey cid seq) \<noteq> None) (read_expect sm)"

definition max_session_seq :: "KvStateMachine \<Rightarrow> u64 \<Rightarrow> u64 option" where
  "max_session_seq sm cid = map_option (\<lambda>g.
     let probe = SessionKey cid (- 1);
         back = last_opt (filter (\<lambda>(key, _). key \<le> probe) (sessions g))
     in case back of
          Some (key, _) \<Rightarrow> if client_id key = cid then seq_no key else 0
        | None \<Rightarrow> 0) (read_expect sm)"

definition applied_index :: "KvStateMachine \<Rightarrow> LogIndex option" where
  "applied_index sm = map_option applied (read_expect sm)"

end
