(* ===== verification/KvSpec.thy ===== *)
theory KvSpec
  imports KvMachine
begin

text \<open>
  What the state machine promises.  A command is an abstract value (\<open>Command\<close>); the abstract
  machine \<open>spec_step\<close> keeps two partial functions, the keys with the index that wrote them
  and the sessions with their cached outcome.  The lemmas reduce the byte-level
  \<open>apply_locked\<close> to a normal form over the decoded command, and from there prove the
  refinement, the store invariant, the exactly-once guarantee over a whole log, and the
  completeness of the watch events.
\<close>

subsection \<open>Commands\<close>

datatype Write =
    WPut bytes bytes
  | WDelete bytes
  | WMultiPut "(bytes \<times> bytes) list"
  | WCas bytes CasPred CasOp

datatype Command = Noop | SessionGc "SessionKey list" | Write SessionKey Write

fun write_ok :: "Write \<Rightarrow> bool" where
  "write_ok (WPut key val) \<longleftrightarrow> length key < 2 ^ 32 \<and> length val < 2 ^ 32"
| "write_ok (WDelete key) \<longleftrightarrow> length key < 2 ^ 32"
| "write_ok (WMultiPut entries) \<longleftrightarrow> length entries \<le> MAX_MULTI_PUT_ENTRIES \<and> fields_ok entries"
| "write_ok (WCas key pred success) \<longleftrightarrow> length key < 2 ^ 32 \<and> cas_pred_ok pred \<and> cas_op_ok success"

fun command_ok :: "Command \<Rightarrow> bool" where
  "command_ok Noop \<longleftrightarrow> True"
| "command_ok (SessionGc keys) \<longleftrightarrow> length keys < 2 ^ 32"
| "command_ok (Write session w) \<longleftrightarrow> write_ok w"

fun encode_write :: "SessionKey \<Rightarrow> Write \<Rightarrow> bytes" where
  "encode_write s (WPut key val) = encode_put (client_id s) (seq_no s) key val"
| "encode_write s (WDelete key) = encode_delete (client_id s) (seq_no s) key"
| "encode_write s (WMultiPut entries) = encode_multi_put (client_id s) (seq_no s) entries"
| "encode_write s (WCas key pred success) = encode_cas (client_id s) (seq_no s) key pred success"

fun encode_command :: "Command \<Rightarrow> bytes" where
  "encode_command Noop = []"
| "encode_command (SessionGc keys) = encode_session_gc (map (\<lambda>k. (client_id k, seq_no k)) keys)"
| "encode_command (Write s w) = encode_write s w"

text \<open>The parsers in the order in which \<open>apply_locked\<close> tries them.\<close>

definition decode_command :: "bytes \<Rightarrow> KvError + Command" where
  "decode_command command =
     (if command = [] then Inr Noop
      else if first command = Some OP_SESSION_GC then
        and_then (parse_session_gc command) (\<lambda>keys. Inr (SessionGc keys))
      else if first command = Some OP_MULTI_PUT then
        and_then (parse_multi_put command) (\<lambda>(s, entries). Inr (Write s (WMultiPut entries)))
      else if first command = Some OP_CAS then
        and_then (parse_cas command) (\<lambda>(s, key, pred, success). Inr (Write s (WCas key pred success)))
      else
        and_then (parse_command command) (\<lambda>(s, op, key, val).
          Inr (Write s (case op of Put \<Rightarrow> WPut key val | Delete \<Rightarrow> WDelete key))))"

subsection \<open>The abstract machine\<close>

type_synonym spec_kv = "bytes \<rightharpoonup> bytes \<times> LogIndex"
type_synonym spec_sessions = "SessionKey \<rightharpoonup> ApplyOutcome \<times> LogIndex"

fun spec_pred :: "CasPred \<Rightarrow> (bytes \<times> LogIndex) option \<Rightarrow> bool" where
  "spec_pred (IndexEquals i) current \<longleftrightarrow> map_option snd current = Some i"
| "spec_pred (ValueEquals v) current \<longleftrightarrow> map_option fst current = Some v"
| "spec_pred NotExists current \<longleftrightarrow> current = None"

fun spec_write :: "LogIndex \<Rightarrow> Write \<Rightarrow> spec_kv \<Rightarrow> spec_kv \<times> ApplyOutcome" where
  "spec_write index (WPut key val) m = (m(key \<mapsto> (val, index)), Value val)"
| "spec_write index (WDelete key) m = (m(key := None), NoValue)"
| "spec_write index (WMultiPut entries) m =
     (m ++ (\<lambda>key. map_option (\<lambda>val. (val, index)) (map_of (rev entries) key)), NoValue)"
| "spec_write index (WCas key pred success) m =
     (if spec_pred pred (m key) then
        (case success of
           CasPut val \<Rightarrow> (m(key \<mapsto> (val, index)), Value val)
         | CasDelete \<Rightarrow> (m(key := None), NoValue))
      else (m, case m key of None \<Rightarrow> CasFailed 0 None | Some (v, i) \<Rightarrow> CasFailed i (Some v)))"

text \<open>What a replayed session answers: its cached outcome; a multi-put always answers \<open>NoValue\<close>.\<close>

fun replay_outcome :: "Write \<Rightarrow> ApplyOutcome \<Rightarrow> ApplyOutcome" where
  "replay_outcome (WMultiPut entries) cached = NoValue"
| "replay_outcome _ cached = cached"

fun spec_step :: "LogIndex \<Rightarrow> Command \<Rightarrow> spec_kv \<times> spec_sessions
    \<Rightarrow> (spec_kv \<times> spec_sessions) \<times> ApplyOutcome \<times> LogIndex" where
  "spec_step index Noop (m, ss) = ((m, ss), NoValue, index)"
| "spec_step index (SessionGc keys) (m, ss) = ((m, ss |` (- set keys)), NoValue, index)"
| "spec_step index (Write s w) (m, ss) =
     (case ss s of
        Some (cached, original) \<Rightarrow> ((m, ss), replay_outcome w cached, original)
      | None \<Rightarrow>
          let (m', outcome) = spec_write index w m
          in ((m', ss(s \<mapsto> (outcome, index))), outcome, index))"

definition abs_kv :: "(bytes, KvEntry) btree_map \<Rightarrow> spec_kv" where
  "abs_kv m = (\<lambda>key. map_option (\<lambda>e. (e_val e, e_index e)) (bt_get m key))"

definition abs_sessions :: "(SessionKey, SessionRecord) btree_map \<Rightarrow> spec_sessions" where
  "abs_sessions ss = (\<lambda>s. map_option (\<lambda>r. (s_outcome r, s_index r)) (bt_get ss s))"

definition abs_store :: "Store \<Rightarrow> spec_kv \<times> spec_sessions" where
  "abs_store st = (abs_kv (kv st), abs_sessions (sessions st))"

subsection \<open>The store invariant\<close>

fun outcome_ok :: "ApplyOutcome \<Rightarrow> bool" where
  "outcome_ok (Value v) \<longleftrightarrow> length v < 2 ^ 32"
| "outcome_ok NoValue \<longleftrightarrow> True"
| "outcome_ok (CasFailed i (Some v)) \<longleftrightarrow> 1 \<le> i \<and> length v < 2 ^ 32"
| "outcome_ok (CasFailed i None) \<longleftrightarrow> i = 0"

definition kv_inv :: "LogIndex \<Rightarrow> (bytes, KvEntry) btree_map \<Rightarrow> bool" where
  "kv_inv hi m \<longleftrightarrow> bt_wf m \<and> (\<forall>(key, e) \<in> set m.
     length key < 2 ^ 32 \<and> length (e_val e) < 2 ^ 32 \<and> 1 \<le> e_index e \<and> e_index e \<le> hi)"

definition sessions_inv :: "LogIndex \<Rightarrow> (SessionKey, SessionRecord) btree_map \<Rightarrow> bool" where
  "sessions_inv hi ss \<longleftrightarrow> bt_wf ss \<and> (\<forall>(s, r) \<in> set ss.
     outcome_ok (s_outcome r) \<and> 1 \<le> s_index r \<and> s_index r \<le> hi)"

definition store_inv :: "Store \<Rightarrow> bool" where
  "store_inv st \<longleftrightarrow> kv_inv (applied st) (kv st) \<and> sessions_inv (applied st) (sessions st)"

subsection \<open>Logs\<close>

text \<open>
  Applying a committed log: one command per index from \<open>applied + 1\<close> on; \<open>None\<close> when a
  command fails, on which the node stops.
\<close>

fun run_log :: "Store \<Rightarrow> bytes list \<Rightarrow> Store option" where
  "run_log st [] = Some st"
| "run_log st (c # cs) =
     (case apply_locked st (applied st + 1) c of
        (st', Inr _) \<Rightarrow> run_log st' cs
      | (_, Inl _) \<Rightarrow> None)"

text \<open>The same, with the watch events in the order in which they are produced.\<close>

fun run_log_events :: "Store \<Rightarrow> bytes list \<Rightarrow> (Store \<times> WatchEvent list) option" where
  "run_log_events st [] = Some (st, [])"
| "run_log_events st (c # cs) =
     (case apply_locked st (applied st + 1) c of
        (st', Inr (_, _, events)) \<Rightarrow>
          map_option (\<lambda>(st'', rest). (st'', events @ rest)) (run_log_events st' cs)
      | (_, Inl _) \<Rightarrow> None)"

text \<open>Whether a command is a session garbage collection that names the session.\<close>

definition prunes_session :: "SessionKey \<Rightarrow> bytes \<Rightarrow> bool" where
  "prunes_session s cmd =
     (case parse_session_gc cmd of Inr keys \<Rightarrow> s \<in> set keys | Inl _ \<Rightarrow> False)"

text \<open>The effect of a write on the concrete map, uniformly over the command kinds.\<close>

fun write_effect :: "LogIndex \<Rightarrow> Write \<Rightarrow> (bytes, KvEntry) btree_map
    \<Rightarrow> (bytes, KvEntry) btree_map \<times> ApplyOutcome \<times> WatchEvent list" where
  "write_effect index (WPut key val) m =
     (bt_insert key \<lparr>e_val = val, e_index = index\<rparr> m, Value val, [watch_put index key val])"
| "write_effect index (WDelete key) m = (bt_remove key m, NoValue, [watch_delete index key])"
| "write_effect index (WMultiPut entries) m =
     (multi_put_kv index entries m, NoValue, multi_put_events index entries)"
| "write_effect index (WCas key pred success) m = cas_eval m index key pred success"

text \<open>A watcher's view: the events folded over the map they report on.\<close>

definition apply_event :: "WatchEvent \<Rightarrow> spec_kv \<Rightarrow> spec_kv" where
  "apply_event ev m = m(w_key ev := map_option (\<lambda>v. (v, w_index ev)) (w_value ev))"

subsection \<open>Decoding\<close>

lemma decode_encode_command:
  assumes "command_ok c"
  shows "decode_command (encode_command c) = Inr c"
proof (cases c)
  case Noop
  then show ?thesis by (simp add: decode_command_def)
next
  case (SessionGc keys)
  then have "parse_session_gc (encode_command c) = Inr keys"
    using assms by (simp add: parse_session_gc_eq_Inr)
  then show ?thesis
    by (simp add: SessionGc decode_command_def encode_session_gc_def)
next
  case (Write s w)
  obtain cid seq where s: "s = SessionKey cid seq" by (cases s)
  show ?thesis
  proof (cases w)
    case (WPut key val)
    then have "parse_command (encode_command c) = Inr (s, Put, key, val)"
      using assms Write by (simp add: s parse_command_eq_Put)
    then show ?thesis by (simp add: Write WPut decode_command_def encode_put_def op_defs)
  next
    case (WDelete key)
    then have "parse_command (encode_command c) = Inr (s, Delete, key, [])"
      using assms Write by (simp add: s parse_command_eq_Delete)
    then show ?thesis by (simp add: Write WDelete decode_command_def encode_delete_def op_defs)
  next
    case (WMultiPut entries)
    then have "parse_multi_put (encode_command c) = Inr (s, entries)"
      using assms Write by (simp add: s parse_multi_put_eq_Inr)
    then show ?thesis by (simp add: Write WMultiPut decode_command_def encode_multi_put_def op_defs)
  next
    case (WCas key pred success)
    then have "parse_cas (encode_command c) = Inr (s, key, pred, success)"
      using assms Write by (simp add: s parse_cas_eq_Inr)
    then show ?thesis by (simp add: Write WCas decode_command_def encode_cas_def op_defs)
  qed
qed

text \<open>The parser characterisations for a session key that is not taken apart.\<close>

lemmas parse_key =
  parse_multi_put_eq_Inr [of _ "client_id k" "seq_no k", unfolded SessionKey.collapse]
  parse_cas_eq_Inr [of _ "client_id k" "seq_no k", unfolded SessionKey.collapse]
  parse_command_eq_Put [of _ "client_id k" "seq_no k", unfolded SessionKey.collapse]
  parse_command_eq_Delete [of _ "client_id k" "seq_no k", unfolded SessionKey.collapse] for k

lemma decode_command_canonical:
  assumes "decode_command cmd = Inr c"
  shows "command_ok c \<and> (\<exists>junk. cmd = encode_command c @ junk \<and>
    (junk = [] \<or> (\<exists>s key val. c = Write s (WPut key val))))"
  using assms
  by (cases c)
    (auto simp: decode_command_def res_simps parse_key split: if_splits Op.splits,
      (metis Op.exhaust)+)

lemma decode_command_session:
  "decode_command cmd = Inr (Write s w) \<Longrightarrow> command_session cmd = Some (client_id s, seq_no s)"
  by (drule decode_command_canonical, cases w) auto

subsection \<open>Normal form of apply\<close>

definition commit_write :: "Store \<Rightarrow> LogIndex \<Rightarrow> SessionKey \<Rightarrow> Write \<Rightarrow> Store \<times> apply_result" where
  "commit_write st index s w =
     (case bt_get (sessions st) s of
        Some r \<Rightarrow> (st\<lparr>applied := index\<rparr>, Inr (replay_outcome w (s_outcome r), s_index r, []))
      | None \<Rightarrow>
          (case write_effect index w (kv st) of (m, outcome, events) \<Rightarrow>
             (st\<lparr>kv := m,
                 sessions := bt_insert s \<lparr>s_outcome = outcome, s_index = index\<rparr> (sessions st),
                 applied := index\<rparr>,
              Inr (outcome, index, events))))"

fun apply_decoded :: "Store \<Rightarrow> LogIndex \<Rightarrow> KvError + Command \<Rightarrow> Store \<times> apply_result" where
  "apply_decoded st index (Inl e) = (st, Inl e)"
| "apply_decoded st index (Inr Noop) = (st\<lparr>applied := index\<rparr>, Inr (NoValue, index, []))"
| "apply_decoded st index (Inr (SessionGc keys)) =
     (st\<lparr>sessions := fold bt_remove keys (sessions st), applied := index\<rparr>,
      Inr (NoValue, index, []))"
| "apply_decoded st index (Inr (Write s w)) = commit_write st index s w"

lemma apply_session_gc_decoded:
  "apply_session_gc st index cmd =
     apply_decoded st index (and_then (parse_session_gc cmd) (\<lambda>keys. Inr (SessionGc keys)))"
  by (cases "parse_session_gc cmd") (simp_all add: apply_session_gc_def)

lemma apply_multi_put_decoded:
  "apply_multi_put st index cmd = apply_decoded st index
     (and_then (parse_multi_put cmd) (\<lambda>(s, entries). Inr (Write s (WMultiPut entries))))"
  by (cases "parse_multi_put cmd")
    (auto simp: apply_multi_put_def commit_write_def split: prod.splits option.splits)

lemma apply_cas_decoded:
  "apply_cas st index cmd = apply_decoded st index
     (and_then (parse_cas cmd) (\<lambda>(s, key, pred, success). Inr (Write s (WCas key pred success))))"
  by (cases "parse_cas cmd")
    (auto simp: apply_cas_def commit_write_def split: prod.splits option.splits)

lemma apply_command_decoded:
  "apply_command st index cmd = apply_decoded st index
     (and_then (parse_command cmd) (\<lambda>(s, op, key, val).
       Inr (Write s (case op of Put \<Rightarrow> WPut key val | Delete \<Rightarrow> WDelete key))))"
  by (cases "parse_command cmd")
    (auto simp: apply_command_def commit_write_def split: prod.splits option.splits Op.splits)

lemma apply_locked_decoded:
  "apply_locked st index cmd =
     (if index \<noteq> applied st + 1 then (st, Inl (IndexViolation index))
      else apply_decoded st index (decode_command cmd))"
  by (simp add: apply_locked_def decode_command_def apply_session_gc_decoded
      apply_multi_put_decoded apply_cas_decoded apply_command_decoded)

lemma apply_ok_applied:
  "apply_locked st index cmd = (st', Inr r) \<Longrightarrow> index = applied st + 1 \<and> applied st' = index"
  by (cases "decode_command cmd" rule: apply_decoded.cases [of "(st, index, x)" for x])
    (auto simp: apply_locked_decoded commit_write_def split: if_splits option.splits prod.splits)

lemma apply_error_unchanged: "apply_locked st index cmd = (st', Inl e) \<Longrightarrow> st' = st"
  by (cases "decode_command cmd" rule: apply_decoded.cases [of "(st, index, x)" for x])
    (auto simp: apply_locked_decoded commit_write_def split: if_splits option.splits prod.splits)

subsection \<open>Refinement\<close>

lemma abs_kv_insert [simp]: "abs_kv (bt_insert k e m) = (abs_kv m)(k \<mapsto> (e_val e, e_index e))"
  by (auto simp: abs_kv_def)

lemma abs_kv_remove [simp]: "bt_wf m \<Longrightarrow> abs_kv (bt_remove k m) = (abs_kv m)(k := None)"
  by (auto simp: abs_kv_def bt_get_remove)

lemma multi_put_kv_Cons [simp]:
  "multi_put_kv index [] m = m"
  "multi_put_kv index ((k, v) # es) m =
     multi_put_kv index es (bt_insert k \<lparr>e_val = v, e_index = index\<rparr> m)"
  by (simp_all add: multi_put_kv_def)

lemma abs_kv_multi_put:
  "abs_kv (multi_put_kv index es m) =
     abs_kv m ++ (\<lambda>key. map_option (\<lambda>val. (val, index)) (map_of (rev es) key))"
proof (induction es arbitrary: m)
  case Nil
  then show ?case by (auto simp: map_add_def)
next
  case (Cons kv es)
  then show ?case by (cases kv) (auto simp: fun_eq_iff map_add_def split: option.splits)
qed

lemma abs_kv_lookup: "abs_kv m k = map_option (\<lambda>e. (e_val e, e_index e)) (bt_get m k)"
  by (simp add: abs_kv_def)

lemma cas_matches_spec: "cas_matches p (bt_get m k) \<longleftrightarrow> spec_pred p (abs_kv m k)"
  by (cases p) (auto simp: abs_kv_lookup split: option.splits)

lemma write_effect_refines:
  assumes "bt_wf m" "write_effect index w m = (m', outcome, events)"
  shows "spec_write index w (abs_kv m) = (abs_kv m', outcome)"
proof (cases w)
  case (WCas key p q)
  then show ?thesis
    using assms
    by (auto simp: cas_eval_def Let_def cas_matches_spec cas_failure_def abs_kv_lookup
        split: CasOp.splits option.splits if_splits)
qed (use assms in \<open>auto simp: abs_kv_multi_put\<close>)

lemma abs_sessions_gc:
  "bt_wf ss \<Longrightarrow> abs_sessions (fold bt_remove keys ss) = abs_sessions ss |` (- set keys)"
  by (auto simp: abs_sessions_def bt.get_fold_remove restrict_map_def fun_eq_iff)

lemma apply_decoded_refines:
  assumes "bt_wf (kv st)" "bt_wf (sessions st)"
    and "apply_decoded st index (Inr c) = (st', r)"
  shows "\<exists>outcome effective events. r = Inr (outcome, effective, events) \<and>
    spec_step index c (abs_store st) = (abs_store st', outcome, effective)"
proof (cases c)
  case (SessionGc keys)
  then show ?thesis using assms by (auto simp: abs_store_def abs_sessions_gc)
next
  case (Write s w)
  show ?thesis
  proof (cases "bt_get (sessions st) s")
    case None
    obtain m outcome events where we: "write_effect index w (kv st) = (m, outcome, events)"
      by (cases "write_effect index w (kv st)")
    with assms None Write write_effect_refines [OF assms(1) we] show ?thesis
      by (auto simp: abs_store_def abs_sessions_def commit_write_def)
  next
    case (Some r)
    then show ?thesis
      using assms Write by (auto simp: abs_store_def abs_sessions_def commit_write_def)
  qed
qed (use assms in \<open>auto simp: abs_store_def\<close>)

subsection \<open>The invariant is kept\<close>

lemma kv_inv_mono: "kv_inv hi m \<Longrightarrow> hi \<le> hi' \<Longrightarrow> kv_inv hi' m"
  by (fastforce simp: kv_inv_def)

lemma sessions_inv_mono: "sessions_inv hi m \<Longrightarrow> hi \<le> hi' \<Longrightarrow> sessions_inv hi' m"
  by (fastforce simp: sessions_inv_def)

lemma kv_inv_insert:
  "kv_inv index m \<Longrightarrow> 1 \<le> index \<Longrightarrow> length k < 2 ^ 32 \<Longrightarrow> length v < 2 ^ 32 \<Longrightarrow>
     kv_inv index (bt_insert k \<lparr>e_val = v, e_index = index\<rparr> m)"
  using set_bt_insert [of k "\<lparr>e_val = v, e_index = index\<rparr>" m] by (fastforce simp: kv_inv_def)

lemma kv_inv_remove: "kv_inv index m \<Longrightarrow> kv_inv index (bt_remove k m)"
  using set_bt_remove [of k m] by (fastforce simp: kv_inv_def)

lemma kv_inv_multi_put:
  "kv_inv index m \<Longrightarrow> 1 \<le> index \<Longrightarrow> fields_ok es \<Longrightarrow> kv_inv index (multi_put_kv index es m)"
  by (induction es arbitrary: m) (auto simp: fields_ok_def kv_inv_insert)

lemma cas_failure_ok: "kv_inv index m \<Longrightarrow> outcome_ok (cas_failure (bt_get m k))"
  by (auto simp: cas_failure_def kv_inv_def split: option.splits dest!: bt_get_Some_in)

lemma write_effect_inv:
  assumes "kv_inv index m" "1 \<le> index" "write_ok w" "write_effect index w m = (m', outcome, events)"
  shows "kv_inv index m' \<and> outcome_ok outcome"
  using assms
  by (cases w)
    (auto simp: cas_eval_def Let_def kv_inv_insert kv_inv_remove kv_inv_multi_put cas_failure_ok
      split: CasOp.splits if_splits)

lemma sessions_inv_insert:
  "sessions_inv index ss \<Longrightarrow> 1 \<le> index \<Longrightarrow> outcome_ok outcome \<Longrightarrow>
     sessions_inv index (bt_insert s \<lparr>s_outcome = outcome, s_index = index\<rparr> ss)"
  using set_bt_insert [of s "\<lparr>s_outcome = outcome, s_index = index\<rparr>" ss]
  by (fastforce simp: sessions_inv_def)

lemma sessions_inv_gc: "sessions_inv index ss \<Longrightarrow> sessions_inv index (fold bt_remove keys ss)"
proof (induction keys arbitrary: ss)
  case (Cons k keys)
  have "sessions_inv index (bt_remove k ss)"
    using Cons.prems set_bt_remove [of k ss] by (fastforce simp: sessions_inv_def)
  then show ?case by (simp add: Cons.IH)
qed simp

lemma apply_decoded_inv:
  assumes st: "store_inv st" and i: "applied st \<le> index" "1 \<le> index"
    and c: "command_ok c" and "apply_decoded st index (Inr c) = (st', r)"
  shows "store_inv st'"
proof -
  have inv: "kv_inv index (kv st)" "sessions_inv index (sessions st)"
    using st i kv_inv_mono sessions_inv_mono by (auto simp: store_inv_def)
  show ?thesis
  proof (cases c)
    case (Write s w)
    show ?thesis
    proof (cases "bt_get (sessions st) s")
      case None
      obtain m outcome events where we: "write_effect index w (kv st) = (m, outcome, events)"
        by (cases "write_effect index w (kv st)")
      with write_effect_inv [OF inv(1) i(2) _ we] c Write inv i assms(5) None show ?thesis
        by (auto simp: store_inv_def commit_write_def sessions_inv_insert)
    qed (use Write inv assms(5) in \<open>auto simp: store_inv_def commit_write_def\<close>)
  qed (use inv assms(5) in \<open>auto simp: store_inv_def sessions_inv_gc\<close>)
qed

lemma apply_locked_inv:
  assumes "store_inv st" "applied st < - 1" "apply_locked st index cmd = (st', r)"
  shows "store_inv st'"
proof (cases "index = applied st + 1")
  case True
  have "unat index = Suc (unat (applied st))"
    using assms(2) True unat_succ [of "applied st"] by auto
  then have i: "applied st \<le> index" "1 \<le> index"
    by (simp_all add: word_le_nat_alt)
  show ?thesis
  proof (cases "decode_command cmd")
    case (Inl e)
    then show ?thesis using assms True by (auto simp: apply_locked_decoded)
  next
    case (Inr c)
    then show ?thesis
      using assms True i apply_decoded_inv [of st index c st' r] decode_command_canonical [OF Inr]
      by (auto simp: apply_locked_decoded)
  qed
qed (use assms in \<open>auto simp: apply_locked_decoded\<close>)

lemma applied_empty [simp]: "applied empty_store = 0"
  by (simp add: empty_store_def)

lemma store_inv_empty [simp]: "store_inv empty_store"
  by (simp add: store_inv_def kv_inv_def sessions_inv_def empty_store_def)

subsection \<open>Exactly once\<close>

definition store_wf :: "Store \<Rightarrow> bool" where
  "store_wf st \<longleftrightarrow> bt_wf (kv st) \<and> bt_wf (sessions st)"

lemma store_inv_wf: "store_inv st \<Longrightarrow> store_wf st"
  by (simp add: store_inv_def store_wf_def kv_inv_def sessions_inv_def)

lemma bt_wf_multi_put [simp]: "bt_wf m \<Longrightarrow> bt_wf (multi_put_kv index es m)"
  by (induction es arbitrary: m) (simp_all add: split_paired_all)

lemma write_effect_wf: "bt_wf m \<Longrightarrow> write_effect index w m = (m', outcome, events) \<Longrightarrow> bt_wf m'"
  by (cases w) (auto simp: cas_eval_def Let_def split: CasOp.splits if_splits)

lemma apply_locked_cases:
  assumes "apply_locked st index cmd = (st', Inr r)"
  obtains c where "decode_command cmd = Inr c" "index = applied st + 1"
    "apply_decoded st index (Inr c) = (st', Inr r)"
  using assms by (cases "decode_command cmd") (auto simp: apply_locked_decoded split: if_splits)

lemma apply_locked_wf:
  assumes "store_wf st" "apply_locked st index cmd = (st', Inr r)"
  shows "store_wf st'"
  using assms(2)
proof (rule apply_locked_cases)
  fix c assume d: "apply_decoded st index (Inr c) = (st', Inr r)"
  show "store_wf st'"
    using d assms(1) bt.wf_fold_remove
    by (cases c)
      (auto simp: store_wf_def commit_write_def write_effect_wf split: option.splits prod.splits)
qed

lemma run_log_wf: "run_log st cs = Some st' \<Longrightarrow> store_wf st \<Longrightarrow> store_wf st'"
  by (induction st cs rule: run_log.induct)
    (auto split: prod.splits sum.splits dest: apply_locked_wf)

lemma commit_write_cached:
  assumes "commit_write st index s w = (st', Inr (outcome, effective, events))"
  shows "\<exists>r. bt_get (sessions st') s = Some r \<and> effective = s_index r \<and>
    outcome = replay_outcome w (s_outcome r)"
  using assms
  by (cases w) (auto simp: commit_write_def split: option.splits prod.splits)

lemma commit_write_replay:
  "bt_get (sessions st) s = Some r \<Longrightarrow>
     commit_write st index s w =
       (st\<lparr>applied := index\<rparr>, Inr (replay_outcome w (s_outcome r), s_index r, []))"
  by (simp add: commit_write_def)

lemma prunes_decoded: "decode_command cmd = Inr (SessionGc keys) \<Longrightarrow> prunes_session s cmd \<longleftrightarrow> s \<in> set keys"
  by (auto simp: decode_command_def prunes_session_def and_then_eq_Inr split: if_splits)

lemma apply_keeps_session:
  assumes wf: "store_wf st" and r: "bt_get (sessions st) s = Some r"
    and a: "apply_locked st index cmd = (st', Inr res)" and gc: "\<not> prunes_session s cmd"
  shows "bt_get (sessions st') s = Some r"
  using a
proof (rule apply_locked_cases)
  fix c assume dec: "decode_command cmd = Inr c" and d: "apply_decoded st index (Inr c) = (st', Inr res)"
  show ?thesis
  proof (cases c)
    case (SessionGc keys)
    then show ?thesis
      using d r wf gc prunes_decoded [of cmd keys s] dec
      by (auto simp: store_wf_def bt.get_fold_remove)
  next
    case (Write s' w)
    then show ?thesis
      using d r by (auto simp: commit_write_def split: option.splits prod.splits)
  qed (use d r in auto)
qed

lemma run_log_keeps_session:
  "run_log st cs = Some st' \<Longrightarrow> store_wf st \<Longrightarrow> bt_get (sessions st) s = Some r \<Longrightarrow>
     \<forall>c \<in> set cs. \<not> prunes_session s c \<Longrightarrow> bt_get (sessions st') s = Some r"
  by (induction st cs rule: run_log.induct)
    (auto split: prod.splits sum.splits dest: apply_locked_wf apply_keeps_session)

subsection \<open>Watch events\<close>

lemma fold_watch_put:
  "fold apply_event (map (\<lambda>(k, v). watch_put index k v) kvs) m =
     m ++ (\<lambda>k. map_option (\<lambda>v. (v, index)) (map_of (rev kvs) k))"
  by (induction kvs arbitrary: m)
    (auto simp: fun_eq_iff map_add_def apply_event_def watch_put_def split: option.splits)


lemma multi_put_events_effect:
  "fold apply_event (multi_put_events index es) (abs_kv m) = abs_kv (multi_put_kv index es m)"
proof -
  let ?ks = "fold (\<lambda>(key, val). bt_insert key val) es []"
  have "bt_wf ?ks" by (rule bt.wf_fold_insert) simp
  then have "map_of (rev ?ks) k = map_of (rev es) k" for k
    using bt.get_fold_insert [of "[]" es k]
    by (auto simp: map_of_rev_wf bt_get_map_of split: option.splits)
  then show ?thesis
    by (simp add: multi_put_events_def fold_watch_put abs_kv_multi_put)
qed

lemma write_effect_events:
  assumes "bt_wf m" "write_effect index w m = (m', outcome, events)"
  shows "fold apply_event events (abs_kv m) = abs_kv m'"
  using assms
  by (cases w)
    (auto simp: multi_put_events_effect apply_event_def watch_put_def watch_delete_def cas_eval_def
      Let_def split: CasOp.splits if_splits)

lemma write_effect_event_keys:
  assumes "write_effect index w m = (m', outcome, events)"
  shows "distinct (map w_key events) \<and> (\<forall>ev \<in> set events. w_index ev = index)"
proof (cases w)
  case (WMultiPut es)
  have "bt_wf (fold (\<lambda>(key, val). bt_insert key val) es ([] :: (bytes, bytes) btree_map))"
    by (rule bt.wf_fold_insert) simp
  then have "distinct (map fst (fold (\<lambda>(key, val). bt_insert key val) es ([] :: (bytes, bytes) btree_map)))"
    by (rule bt_wf_distinct)
  then show ?thesis
    using assms WMultiPut
    by (auto simp: multi_put_events_def watch_put_def comp_def case_prod_unfold)
qed (use assms in \<open>auto simp: watch_put_def watch_delete_def cas_eval_def Let_def
    split: CasOp.splits if_splits\<close>)

lemma apply_locked_events:
  assumes "store_wf st" "apply_locked st index cmd = (st', Inr (outcome, effective, events))"
  shows "fold apply_event events (abs_kv (kv st)) = abs_kv (kv st') \<and>
    distinct (map w_key events) \<and> (\<forall>ev \<in> set events. w_index ev = index)"
  using assms(2)
proof (rule apply_locked_cases)
  fix c assume d: "apply_decoded st index (Inr c) = (st', Inr (outcome, effective, events))"
  show ?thesis
    using d assms(1) write_effect_events [of "kv st" index] write_effect_event_keys [of index _ "kv st"]
    by (cases c)
      (auto simp: store_wf_def commit_write_def split: option.splits prod.splits)
qed

lemma run_log_events_fst: "map_option fst (run_log_events st cs) = run_log st cs"
proof (induction cs arbitrary: st)
  case (Cons c cs)
  obtain st' r where a: "apply_locked st (applied st + 1) c = (st', r)" by force
  show ?case
    using Cons.IH [of st']
    by (cases r) (auto simp: a option.map_comp comp_def case_prod_unfold)
qed simp

lemma run_log_events_fold:
  "run_log_events st cs = Some (st', evs) \<Longrightarrow> store_wf st \<Longrightarrow>
     fold apply_event evs (abs_kv (kv st)) = abs_kv (kv st')"
proof (induction cs arbitrary: st evs)
  case (Cons c cs)
  then obtain st1 outcome eff e1 e2 where
    a: "apply_locked st (applied st + 1) c = (st1, Inr (outcome, eff, e1))"
    and run: "run_log_events st1 cs = Some (st', e2)" and evs: "evs = e1 @ e2"
    by (auto split: prod.splits sum.splits)
  then show ?case
    using Cons.IH [OF run] apply_locked_wf [OF Cons.prems(2) a] apply_locked_events [OF Cons.prems(2) a]
    by simp
qed simp

lemma run_log_events_sorted:
  "run_log_events st cs = Some (st', evs) \<Longrightarrow> store_wf st \<Longrightarrow>
     unat (applied st) + length cs < 2 ^ 64 \<Longrightarrow>
     sorted (map w_index evs) \<and> (\<forall>ev \<in> set evs. applied st < w_index ev)"
proof (induction cs arbitrary: st evs)
  case (Cons c cs)
  then obtain st1 outcome eff e1 e2 where
    a: "apply_locked st (applied st + 1) c = (st1, Inr (outcome, eff, e1))"
    and run: "run_log_events st1 cs = Some (st', e2)" and evs: "evs = e1 @ e2"
    by (auto split: prod.splits sum.splits)
  have "applied st \<noteq> - 1"
    using Cons.prems(3) by (auto simp: unat_max64)
  then have n: "unat (applied st + 1) = Suc (unat (applied st))"
    by (rule unat_succ)
  have i: "applied st1 = applied st + 1" using apply_ok_applied [OF a] by simp
  have e1: "\<forall>ev \<in> set e1. w_index ev = applied st + 1"
    using apply_locked_events [OF Cons.prems(2) a] by simp
  have "sorted (map w_index e2) \<and> (\<forall>ev \<in> set e2. applied st1 < w_index ev)"
    using Cons.IH [OF run] apply_locked_wf [OF Cons.prems(2) a] Cons.prems(3) i n by simp
  moreover have "sorted (map w_index e1)"
    using e1 by (auto simp: sorted_iff_nth_mono)
  moreover have lt: "applied st < applied st + 1"
    using n by (simp add: word_less_nat_alt)
  ultimately show ?case
    using e1 unfolding evs i by (auto simp: sorted_append intro: less_imp_le less_trans [OF lt])
qed simp

lemma session_command_decoded:
  assumes "decode_command cmd = Inr c" "command_session cmd = Some (cid, seq)"
  shows "\<exists>w. c = Write (SessionKey cid seq) w"
proof (cases c)
  case (Write s w)
  then show ?thesis
    using assms decode_command_session [of cmd s w] by (cases s) auto
qed (use assms decode_command_canonical [OF assms(1)] in auto)

subsection \<open>Properties\<close>

text \<open>
  C3: exactly once.  Once a command with session \<open>(cid, seq)\<close> has been applied, then after
  any further log that does not prune that session, applying the same command again at the
  next index answers the outcome and the index of the first application, reports no event,
  and changes nothing but the applied index.
\<close>

theorem kv_exactly_once:
  assumes "store_wf st" and "command_session cmd = Some (cid, seq)"
    and "apply_locked st i cmd = (st1, Inr (outcome, effective, events))"
    and "run_log st1 cs = Some st2"
    and "\<forall>c \<in> set cs. \<not> prunes_session (SessionKey cid seq) c"
  shows "apply_locked st2 (applied st2 + 1) cmd =
    (st2\<lparr>applied := applied st2 + 1\<rparr>, Inr (outcome, effective, []))"
proof -
  obtain c where dec: "decode_command cmd = Inr c"
    and d: "apply_decoded st i (Inr c) = (st1, Inr (outcome, effective, events))"
    using assms(3) by (rule apply_locked_cases)
  obtain w where c: "c = Write (SessionKey cid seq) w"
    using session_command_decoded [OF dec assms(2)] by blast
  with d have "commit_write st i (SessionKey cid seq) w = (st1, Inr (outcome, effective, events))"
    by simp
  from commit_write_cached [OF this] obtain r where
    r: "bt_get (sessions st1) (SessionKey cid seq) = Some r" "effective = s_index r"
      "outcome = replay_outcome w (s_outcome r)" by blast
  have "bt_get (sessions st2) (SessionKey cid seq) = Some r"
    using run_log_keeps_session [OF assms(4) apply_locked_wf [OF assms(1,3)] r(1) assms(5)] .
  then show ?thesis
    using dec c r by (simp add: apply_locked_decoded commit_write_replay)
qed

theorem kv_exactly_once_witness:
  "let put = encode_put 1 7 [5] [6];
       del = encode_delete 1 8 [5];
       st1 = fst (apply_locked empty_store 1 put);
       st2 = fst (apply_locked st1 2 del)
   in apply_locked st2 3 put = (st2\<lparr>applied := 3\<rparr>, Inr (Value [6], 1, [])) \<and> kv st2 = []"
proof -
  define put del where "put = encode_put 1 7 [5] [6]" and "del = encode_delete 1 8 [5]"
  have dec: "decode_command put = Inr (Write (SessionKey 1 7) (WPut [5] [6]))"
    "decode_command del = Inr (Write (SessionKey 1 8) (WDelete [5]))"
    using decode_encode_command [of "Write (SessionKey 1 7) (WPut [5] [6])"]
      decode_encode_command [of "Write (SessionKey 1 8) (WDelete [5])"]
    by (simp_all add: put_def del_def)
  let ?e = "\<lparr>e_val = [6], e_index = 1\<rparr>" and ?r = "\<lparr>s_outcome = Value [6], s_index = 1\<rparr>"
  let ?st1 = "\<lparr>applied = 1, kv = [([5], ?e)], sessions = [(SessionKey 1 7, ?r)]\<rparr>"
  let ?st2 = "\<lparr>applied = 2, kv = [], sessions = [(SessionKey 1 7, ?r),
    (SessionKey 1 8, \<lparr>s_outcome = NoValue, s_index = 2\<rparr>)]\<rparr>"
  have 1: "apply_locked empty_store 1 put = (?st1, Inr (Value [6], 1, [watch_put 1 [5] [6]]))"
    by (simp add: apply_locked_decoded dec commit_write_def empty_store_def)
  have 2: "apply_locked ?st1 2 del = (?st2, Inr (NoValue, 2, [watch_delete 2 [5]]))"
    by (simp add: apply_locked_decoded dec commit_write_def less_SessionKey_def)
  have run: "run_log ?st1 [del] = Some ?st2"
    using 2 by simp
  have del: "\<not> prunes_session (SessionKey 1 7) del"
    by (simp add: prunes_session_def parse_session_gc_def del_def encode_delete_def op_defs)
  have "apply_locked ?st2 (applied ?st2 + 1) put =
      (?st2\<lparr>applied := applied ?st2 + 1\<rparr>, Inr (Value [6], 1, []))"
    by (rule kv_exactly_once [of empty_store put 1 7 1 ?st1 "Value [6]" 1 _ "[del]"])
      (use 1 run del in \<open>simp_all add: store_wf_def empty_store_def put_def command_session_def
        encode_put_def op_defs\<close>)
  then show ?thesis
    using 1 2 by (simp add: Let_def flip: put_def del_def)
qed

text \<open>
  C9: refinement.  On a well-formed store, applying any byte string at the next index either
  fails to decode, with the store unchanged and the decoder's error returned, or it does
  what the abstract machine does with the decoded command: the same outcome and effective
  index, the same new contents of keys and sessions, and the index recorded as applied.
\<close>

theorem kv_apply_refines_spec:
  assumes "store_wf st"
  shows "case apply_locked st (applied st + 1) cmd of
      (st', Inl e) \<Rightarrow> decode_command cmd = Inl e \<and> st' = st
    | (st', Inr (outcome, effective, events)) \<Rightarrow>
        (\<exists>c. decode_command cmd = Inr c \<and>
           spec_step (applied st + 1) c (abs_store st) = (abs_store st', outcome, effective)) \<and>
        applied st' = applied st + 1"
proof (cases "decode_command cmd")
  case (Inl e)
  then show ?thesis by (simp add: apply_locked_decoded)
next
  case (Inr c)
  obtain st' r where d: "apply_decoded st (applied st + 1) (Inr c) = (st', r)" by force
  have a: "apply_locked st (applied st + 1) cmd = (st', r)"
    by (simp add: apply_locked_decoded Inr d)
  from apply_decoded_refines [OF _ _ d] assms obtain outcome effective events where
    "r = Inr (outcome, effective, events)"
    "spec_step (applied st + 1) c (abs_store st) = (abs_store st', outcome, effective)"
    by (auto simp: store_wf_def)
  with a apply_ok_applied [of st "applied st + 1" cmd st'] Inr show ?thesis
    by simp
qed

theorem kv_apply_refines_spec_witness:
  "case apply_locked empty_store (applied empty_store + 1) (encode_put 1 1 [5] [6]) of
      (st', Inl e) \<Rightarrow> decode_command (encode_put 1 1 [5] [6]) = Inl e \<and> st' = empty_store
    | (st', Inr (outcome, effective, events)) \<Rightarrow>
        (\<exists>c. decode_command (encode_put 1 1 [5] [6]) = Inr c \<and>
           spec_step (applied empty_store + 1) c (abs_store empty_store) =
             (abs_store st', outcome, effective)) \<and>
        applied st' = applied empty_store + 1"
  by (rule kv_apply_refines_spec) (simp add: store_wf_def empty_store_def)

text \<open>
  C22: the watch events of a log are complete.  Folding the events of any log that applies,
  in the order in which they are produced, over the keys before it gives the keys after it,
  with every value carrying the index of its event; the event indices never decrease and all
  lie above the index the log started from.
\<close>

theorem kv_watch_events_complete:
  assumes "store_wf st" "run_log_events st cs = Some (st', events)"
    and "unat (applied st) + length cs < 2 ^ 64"
  shows "fold apply_event events (abs_kv (kv st)) = abs_kv (kv st') \<and>
    run_log st cs = Some st' \<and> sorted (map w_index events) \<and>
    (\<forall>ev \<in> set events. applied st < w_index ev)"
  using run_log_events_fold [OF assms(2,1)] run_log_events_sorted [OF assms(2,1,3)]
    run_log_events_fst [of st cs] assms(2) by simp

theorem kv_watch_events_complete_witness:
  "\<exists>st' events. run_log_events empty_store [[], encode_delete 1 1 [5]] = Some (st', events) \<and>
    fold apply_event events (abs_kv (kv empty_store)) = abs_kv (kv st') \<and>
    events = [watch_delete 2 [5]]"
proof -
  have dec: "decode_command (encode_delete 1 1 [5]) = Inr (Write (SessionKey 1 1) (WDelete [5]))"
    "decode_command [] = Inr Noop"
    using decode_encode_command [of "Write (SessionKey 1 1) (WDelete [5])"]
    by (simp_all add: decode_command_def)
  have r: "run_log_events empty_store [[], encode_delete 1 1 [5]] =
      Some (\<lparr>applied = 2, kv = [], sessions = [(SessionKey 1 1, \<lparr>s_outcome = NoValue, s_index = 2\<rparr>)]\<rparr>,
        [watch_delete 2 [5]])"
    by (simp add: apply_locked_decoded dec commit_write_def empty_store_def)
  show ?thesis
    using kv_watch_events_complete [OF _ r] r by (auto simp: store_wf_def empty_store_def)
qed

text \<open>
  C31: what the state machine accepts as a command.  A byte string decodes to the command
  \<open>c\<close> exactly when the lengths of \<open>c\<close> fit the format and the string is the encoding of
  \<open>c\<close>; only after a \<open>Put\<close> may further bytes follow.
\<close>

theorem kv_command_codec:
  "decode_command cmd = Inr c \<longleftrightarrow>
     command_ok c \<and> (cmd = encode_command c \<or>
       (\<exists>s key val junk. c = Write s (WPut key val) \<and> cmd = encode_command c @ junk))"
proof
  assume "decode_command cmd = Inr c"
  from decode_command_canonical [OF this] show "command_ok c \<and> (cmd = encode_command c \<or>
       (\<exists>s key val junk. c = Write s (WPut key val) \<and> cmd = encode_command c @ junk))"
    by auto
next
  assume rhs: "command_ok c \<and> (cmd = encode_command c \<or>
       (\<exists>s key val junk. c = Write s (WPut key val) \<and> cmd = encode_command c @ junk))"
  show "decode_command cmd = Inr c"
  proof (cases "cmd = encode_command c")
    case True
    then show ?thesis using rhs decode_encode_command by blast
  next
    case False
    with rhs obtain s key val junk where c: "c = Write s (WPut key val)"
      and "cmd = encode_command c @ junk" by blast
    then have cmd: "cmd = encode_put (client_id s) (seq_no s) key val @ junk" by simp
    have "parse_command cmd = Inr (s, Put, key, val)"
      using rhs c cmd by (auto simp: parse_key)
    then show ?thesis
      by (simp add: c cmd decode_command_def encode_put_def op_defs)
  qed
qed

end
