(* ===== verification/KvSnapshot.thy ===== *)
theory KvSnapshot
  imports KvSpec
begin

text \<open>
  Snapshot and restore of the state machine (\<open>arachne/src/state_machine/kv.rs\<close>, methods
  \<open>snapshot\<close>, \<open>restore\<close> and the function \<open>decode_store\<close>).  A reader takes the bytes that are
  left of the cursor and returns what it read with the rest, so the final check that the
  cursor stands at the end is that nothing is left.

  The locale \<open>state_machine\<close> is the contract of the trait of that name
  (\<open>arachne-seam/src/seam/state_machine.rs\<close>): strictly increasing indices, errors that change
  nothing, and a lossless snapshot.  From it follows what the rest of the node relies on,
  that a node rebuilt from a snapshot and the log behind it equals the node that applied the
  whole log.  The interpretation at the end discharges the contract for the store.
\<close>

subsection \<open>Writing\<close>

definition KV_SNAPSHOT_VERSION :: u8 where "KV_SNAPSHOT_VERSION = 3"

definition encode_kv_entry :: "bytes \<times> KvEntry \<Rightarrow> bytes" where
  "encode_kv_entry = (\<lambda>(k, v). field32 k @ field32 (e_val v) @ le64 (e_index v))"

fun encode_outcome :: "ApplyOutcome \<Rightarrow> bytes" where
  "encode_outcome NoValue = [0]"
| "encode_outcome (Value val) = 1 # field32 val"
| "encode_outcome (CasFailed i current) =
     2 # le64 i @ (case current of Some val \<Rightarrow> 1 # field32 val | None \<Rightarrow> [0])"

definition encode_session :: "SessionKey \<times> SessionRecord \<Rightarrow> bytes" where
  "encode_session = (\<lambda>(session, record).
     le64 (client_id session) @ le64 (seq_no session) @
     encode_outcome (s_outcome record) @ le64 (s_index record))"

definition snapshot_store :: "Store \<Rightarrow> bytes" where
  "snapshot_store g =
     KV_SNAPSHOT_VERSION # le64 (applied g) @
     le32 (len32 (kv g)) @ concat (map encode_kv_entry (kv g)) @
     le32 (len32 (sessions g)) @ concat (map encode_session (sessions g))"

definition kv_snapshot :: "KvStateMachine \<Rightarrow> KvError + bytes" where
  "kv_snapshot sm = and_then (read_lock sm) (\<lambda>g. Inr (snapshot_store g))"

subsection \<open>Reading\<close>

definition read_u64 :: "bytes \<Rightarrow> KvError + (u64 \<times> bytes)" where
  "read_u64 cur = (if length cur < 8 then Inl MalformedSnapshot
                   else Inr (of_le64 (take 8 cur), drop 8 cur))"

definition read_u32 :: "bytes \<Rightarrow> KvError + (u32 \<times> bytes)" where
  "read_u32 cur = (if length cur < 4 then Inl MalformedSnapshot
                   else Inr (of_le32 (take 4 cur), drop 4 cur))"

fun read_u8 :: "bytes \<Rightarrow> KvError + (u8 \<times> bytes)" where
  "read_u8 [] = Inl MalformedSnapshot"
| "read_u8 (b # cur) = Inr (b, cur)"

definition read_bytes :: "bytes \<Rightarrow> nat \<Rightarrow> KvError + (bytes \<times> bytes)" where
  "read_bytes cur len = (if length cur < len then Inl MalformedSnapshot
                         else Inr (take len cur, drop len cur))"

definition read_field :: "bytes \<Rightarrow> KvError + (bytes \<times> bytes)" where
  "read_field cur = and_then (read_u32 cur) (\<lambda>(len, cur). read_bytes cur (unat len))"

fun read_kv :: "nat \<Rightarrow> (bytes, KvEntry) btree_map \<Rightarrow> bytes
    \<Rightarrow> KvError + ((bytes, KvEntry) btree_map \<times> bytes)" where
  "read_kv 0 m cur = Inr (m, cur)"
| "read_kv (Suc n) m cur =
     and_then (read_field cur) (\<lambda>(key, cur).
     and_then (read_field cur) (\<lambda>(val, cur).
     and_then (read_u64 cur) (\<lambda>(index, cur).
       read_kv n (bt_insert key \<lparr>e_val = val, e_index = index\<rparr> m) cur)))"

definition read_outcome :: "bytes \<Rightarrow> KvError + (ApplyOutcome \<times> bytes)" where
  "read_outcome cur =
     and_then (read_u8 cur) (\<lambda>(tag, cur).
       if tag = 0 then Inr (NoValue, cur)
       else if tag = 1 then
         and_then (read_field cur) (\<lambda>(val, cur). Inr (Value val, cur))
       else if tag = 2 then
         and_then (read_u64 cur) (\<lambda>(current_index, cur).
         and_then (read_u8 cur) (\<lambda>(has_value, cur).
           if has_value = 1 then
             and_then (read_field cur) (\<lambda>(val, cur). Inr (CasFailed current_index (Some val), cur))
           else if has_value = 0 then Inr (CasFailed current_index None, cur)
           else Inl MalformedSnapshot))
       else Inl MalformedSnapshot)"

fun read_sessions :: "nat \<Rightarrow> (SessionKey, SessionRecord) btree_map \<Rightarrow> bytes
    \<Rightarrow> KvError + ((SessionKey, SessionRecord) btree_map \<times> bytes)" where
  "read_sessions 0 m cur = Inr (m, cur)"
| "read_sessions (Suc n) m cur =
     and_then (read_u64 cur) (\<lambda>(cid, cur).
     and_then (read_u64 cur) (\<lambda>(seq, cur).
     and_then (read_outcome cur) (\<lambda>(outcome, cur).
     and_then (read_u64 cur) (\<lambda>(index, cur).
       read_sessions n (bt_insert (SessionKey cid seq) \<lparr>s_outcome = outcome, s_index = index\<rparr> m) cur))))"

definition decode_store :: "bytes \<Rightarrow> KvError + Store" where
  "decode_store bs =
     and_then (read_u8 bs) (\<lambda>(version, cur).
       if version \<noteq> KV_SNAPSHOT_VERSION then Inl MalformedSnapshot
       else
         and_then (read_u64 cur) (\<lambda>(ap, cur).
         and_then (read_u32 cur) (\<lambda>(kv_len, cur).
         and_then (read_kv (unat kv_len) [] cur) (\<lambda>(m, cur).
         and_then (read_u32 cur) (\<lambda>(sess_len, cur).
         and_then (read_sessions (unat sess_len) [] cur) (\<lambda>(ss, cur).
           if cur \<noteq> [] then Inl MalformedSnapshot
           else Inr \<lparr>applied = ap, kv = m, sessions = ss\<rparr>))))))"

definition restore :: "KvStateMachine \<Rightarrow> bytes \<Rightarrow> KvStateMachine \<times> (KvError + unit)" where
  "restore sm bs =
     (case decode_store bs of
        Inl e \<Rightarrow> (sm, Inl e)
      | Inr next \<Rightarrow>
          if poisoned sm then (sm, Inl PoisonedLock)
          else (sm\<lparr>store := next\<rparr>, Inr ()))"

text \<open>The counts of a snapshot are written as \<open>u32\<close>: the store has to fit.\<close>

definition snapshot_fits :: "Store \<Rightarrow> bool" where
  "snapshot_fits st \<longleftrightarrow> length (kv st) < 2 ^ 32 \<and> length (sessions st) < 2 ^ 32"

subsection \<open>The contract of a state machine\<close>

locale state_machine =
  fixes apply_entry :: "'s \<Rightarrow> LogIndex \<Rightarrow> bytes \<Rightarrow> 's \<times> ('e + 'o)"
    and take_snapshot :: "'s \<Rightarrow> bytes"
    and restore_from :: "bytes \<Rightarrow> 'e + 's"
    and last_applied :: "'s \<Rightarrow> LogIndex"
    and inv :: "'s \<Rightarrow> bool"
    and fits :: "'s \<Rightarrow> bool"
  assumes order: "apply_entry s i c = (s', Inr r) \<Longrightarrow> i = last_applied s + 1 \<and> last_applied s' = i"
    and error_keeps: "apply_entry s i c = (s', Inl e) \<Longrightarrow> s' = s"
    and inv_apply: "inv s \<Longrightarrow> last_applied s < - 1 \<Longrightarrow> apply_entry s i c = (s', res) \<Longrightarrow> inv s'"
    and lossless: "inv s \<Longrightarrow> fits s \<Longrightarrow> restore_from (take_snapshot s) = Inr s"
begin

fun replay :: "'s \<Rightarrow> bytes list \<Rightarrow> 's option" where
  "replay s [] = Some s"
| "replay s (c # cs) =
     (case apply_entry s (last_applied s + 1) c of
        (s', Inr _) \<Rightarrow> replay s' cs
      | (_, Inl _) \<Rightarrow> None)"

lemma replay_append: "replay s (xs @ ys) = Option.bind (replay s xs) (\<lambda>s'. replay s' ys)"
  by (induction xs arbitrary: s) (auto split: prod.splits sum.splits)

lemma replay_position:
  "replay s cs = Some s' \<Longrightarrow> last_applied s' = last_applied s + of_nat (length cs)"
  by (induction s cs rule: replay.induct)
    (auto split: prod.splits sum.splits dest: order)

lemma replay_inv:
  "replay s cs = Some s' \<Longrightarrow> inv s \<Longrightarrow> unat (last_applied s) + length cs < 2 ^ 64 \<Longrightarrow> inv s'"
proof (induction cs arbitrary: s)
  case (Cons c cs)
  then obtain s1 r where a: "apply_entry s (last_applied s + 1) c = (s1, Inr r)"
    and run: "replay s1 cs = Some s'"
    by (auto split: prod.splits sum.splits)
  have "unat (last_applied s) < 2 ^ 64 - 1" using Cons.prems(3) by simp
  then have small: "last_applied s < - 1"
    by (simp add: word_less_nat_alt unat_max64)
  then have "unat (last_applied s + 1) = Suc (unat (last_applied s))"
    by (intro unat_succ) auto
  with Cons.prems(3) order [OF a] have "unat (last_applied s1) + length cs < 2 ^ 64" by simp
  with Cons.IH [OF run] inv_apply [OF Cons.prems(2) small a] show ?case by blast
qed simp

text \<open>A node rebuilt from a snapshot and the log behind it.\<close>

lemma snapshot_then_replay:
  assumes "replay s xs = Some s1" "inv s" "unat (last_applied s) + length xs < 2 ^ 64" "fits s1"
  shows "\<exists>s2. restore_from (take_snapshot s1) = Inr s2 \<and> replay s2 ys = replay s (xs @ ys)"
  using lossless [of s1] replay_inv [OF assms(1-3)] assms by (simp add: replay_append)

end

subsection \<open>Round trip\<close>

lemma read_u64_le64 [simp, codec]: "read_u64 (le64 w @ r) = Inr (w, r)"
  by (simp add: read_u64_def)

lemma read_u32_le32 [simp, codec]: "read_u32 (le32 w @ r) = Inr (w, r)"
  by (simp add: read_u32_def)

lemma read_field_field32 [simp, codec]:
  "length x < 2 ^ 32 \<Longrightarrow> read_field (field32 x @ r) = Inr (x, r)"
  by (simp add: read_field_def field32_def read_bytes_def)

lemma read_outcome_encode [simp, codec]:
  "outcome_ok x \<Longrightarrow> read_outcome (encode_outcome x @ r) = Inr (x, r)"
  by (cases x rule: outcome_ok.cases) (simp_all add: read_outcome_def)

lemma KvEntry_eta: "\<lparr>e_val = e_val e, e_index = e_index e\<rparr> = e"
  by (cases e) simp

lemma SessionRecord_eta: "\<lparr>s_outcome = s_outcome r, s_index = s_index r\<rparr> = r"
  by (cases r) simp

lemma read_kv_encode:
  "\<forall>(k, e) \<in> set es. length k < 2 ^ 32 \<and> length (e_val e) < 2 ^ 32 \<Longrightarrow>
     read_kv (length es) m (concat (map encode_kv_entry es) @ r) =
       Inr (fold (\<lambda>(k, e). bt_insert k e) es m, r)"
  by (induction es arbitrary: m) (auto simp: encode_kv_entry_def KvEntry_eta)

lemma read_sessions_encode:
  "\<forall>(s, x) \<in> set es. outcome_ok (s_outcome x) \<Longrightarrow>
     read_sessions (length es) m (concat (map encode_session es) @ r) =
       Inr (fold (\<lambda>(s, x). bt_insert s x) es m, r)"
  by (induction es arbitrary: m) (auto simp: encode_session_def SessionRecord_eta)

lemma rebuild_sorted: "bt_wf m \<Longrightarrow> fold (\<lambda>(k, v). bt_insert k v) m [] = m"
  by (rule bt.map_ext)
    (simp_all add: bt.wf_fold_insert bt.get_fold_insert map_of_rev_wf,
      simp add: bt_get_map_of split: option.split)

lemma decode_snapshot:
  assumes "store_inv st" "snapshot_fits st"
  shows "decode_store (snapshot_store st) = Inr st"
proof -
  have k: "bt_wf (kv st)" "\<forall>(k, e) \<in> set (kv st). length k < 2 ^ 32 \<and> length (e_val e) < 2 ^ 32"
    and s: "bt_wf (sessions st)" "\<forall>(s, x) \<in> set (sessions st). outcome_ok (s_outcome x)"
    using assms(1) by (auto simp: store_inv_def kv_inv_def sessions_inv_def)
  show ?thesis
    using assms(2) read_kv_encode [OF k(2), of "[]"] read_sessions_encode [OF s(2), of "[]" "[]"]
    by (simp add: decode_store_def snapshot_store_def snapshot_fits_def rebuild_sorted k(1) s(1))
qed

interpretation kv_sm: state_machine apply_locked snapshot_store decode_store applied store_inv snapshot_fits
  by unfold_locales
    (blast dest: apply_ok_applied apply_error_unchanged intro: apply_locked_inv decode_snapshot)+

lemma kv_replay_run_log: "kv_sm.replay = run_log"
proof (intro ext)
  show "kv_sm.replay st cs = run_log st cs" for st cs
    by (induction st cs rule: run_log.induct) (auto split: prod.splits sum.splits)
qed

subsection \<open>Properties\<close>

text \<open>
  C21: every log keeps the store invariant.  A machine that starts empty and applies a log
  without an error holds its keys and sessions in order, each once; every entry and every
  cached session carries an index between one and the applied index, which is the length of
  the log; a cached compare failure names index zero exactly when it found no value.
\<close>

theorem kv_log_invariant:
  assumes "run_log empty_store cs = Some st" "length cs < 2 ^ 64"
  shows "store_inv st \<and> unat (applied st) = length cs"
proof -
  have "applied st = of_nat (length cs)"
    using kv_sm.replay_position [of empty_store cs st] assms(1)
    by (simp add: kv_replay_run_log)
  then show ?thesis
    using assms kv_sm.replay_inv [of empty_store cs st]
    by (simp add: kv_replay_run_log unat_of_nat)
qed

theorem kv_log_invariant_witness:
  "\<exists>st. run_log empty_store [[], []] = Some st \<and> store_inv st \<and> unat (applied st) = length [[], []::bytes]"
proof -
  have r: "run_log empty_store [[], []] = Some (empty_store\<lparr>applied := 2\<rparr>)"
    by (simp add: apply_locked_def empty_store_def)
  show ?thesis using kv_log_invariant [OF r] r by simp
qed

text \<open>
  C10: a node rebuilt from a snapshot is the node.  If a log \<open>xs\<close> takes the empty machine to
  \<open>st\<close> and the counts of \<open>st\<close> fit the format, then restoring the snapshot of \<open>st\<close> succeeds in
  a machine whose lock is sound, and the restored machine applies every further log \<open>ys\<close> to
  the same result as a machine that applies \<open>xs\<close> and \<open>ys\<close> from the start.
\<close>

theorem kv_snapshot_then_replay:
  assumes "run_log empty_store xs = Some st" "length xs < 2 ^ 64" "snapshot_fits st" "\<not> poisoned sm"
  shows "\<exists>sm'. restore sm (snapshot_store st) = (sm', Inr ()) \<and>
    run_log (store sm') ys = run_log empty_store (xs @ ys)"
proof -
  have "\<exists>s2. decode_store (snapshot_store st) = Inr s2 \<and> run_log s2 ys = run_log empty_store (xs @ ys)"
    using kv_sm.snapshot_then_replay [of empty_store xs st ys] assms
    by (simp add: kv_replay_run_log)
  then show ?thesis
    using assms(4) by (auto simp: restore_def)
qed

theorem kv_snapshot_then_replay_witness:
  "\<exists>sm'. restore kv_new (snapshot_store (empty_store\<lparr>applied := 1\<rparr>)) = (sm', Inr ()) \<and>
    run_log (store sm') [[]] = run_log empty_store ([[]] @ [[]])"
  by (rule kv_snapshot_then_replay)
    (simp_all add: apply_locked_def empty_store_def snapshot_fits_def kv_new_def)

text \<open>
  C32: a rejected command or snapshot changes nothing.  Whenever \<open>apply\<close> or \<open>restore\<close> returns
  an error, the machine is the one it was called on; \<open>apply\<close> returns an error exactly when
  the lock is poisoned, the index is not the next one, or the command does not decode.
\<close>

theorem kv_errors_change_nothing:
  "(\<forall>sm' e. apply_with_events_and_index sm i cmd = (sm', Inl e) \<longrightarrow> sm' = sm) \<and>
   (\<forall>sm' e. restore sm bs = (sm', Inl e) \<longrightarrow> sm' = sm) \<and>
   (is_ok (snd (apply_with_events_and_index sm i cmd)) \<longleftrightarrow>
      \<not> poisoned sm \<and> i = applied (store sm) + 1 \<and> is_ok (decode_command cmd))"
proof (intro conjI allI impI)
  fix sm' e
  assume "apply_with_events_and_index sm i cmd = (sm', Inl e)"
  then show "sm' = sm"
    by (auto simp: apply_with_events_and_index_def split: if_splits prod.splits
        dest!: apply_error_unchanged)
next
  fix sm' e
  assume "restore sm bs = (sm', Inl e)"
  then show "sm' = sm" by (auto simp: restore_def split: sum.splits if_splits)
next
  have "is_ok (snd (apply_decoded st i d)) \<longleftrightarrow> is_ok d" for st d
    by (cases "(st, i, d)" rule: apply_decoded.cases)
      (auto simp: commit_write_def split: option.splits prod.splits)
  then show "is_ok (snd (apply_with_events_and_index sm i cmd)) \<longleftrightarrow>
      \<not> poisoned sm \<and> i = applied (store sm) + 1 \<and> is_ok (decode_command cmd)"
    by (auto simp: apply_with_events_and_index_def apply_locked_decoded case_prod_unfold)
qed

theorem kv_errors_change_nothing_witness:
  "fst (apply_with_events_and_index kv_new 5 []) = kv_new"
  using kv_errors_change_nothing [of kv_new 5 "[]" "[]"]
  by (auto simp: apply_with_events_and_index_def apply_locked_def kv_new_def empty_store_def)

end
