(* ===== verification/KvReads.thy ===== *)
theory KvReads
  imports KvSpec
begin

text \<open>
  What the reads of the state machine return (\<open>multi_get\<close>, \<open>get_range_with_index\<close>,
  \<open>max_session_seq\<close> of \<open>arachne/src/state_machine/kv.rs\<close>), stated over the contents of the
  store instead of the loops that compute it.
\<close>

definition value_bytes :: "(bytes, KvEntry) btree_map \<Rightarrow> bytes list \<Rightarrow> nat" where
  "value_bytes m keys =
     sum_list (map (\<lambda>k. case bt_get m k of None \<Rightarrow> 0 | Some e \<Rightarrow> length (e_val e)) keys)"

definition in_range :: "bytes \<Rightarrow> bytes \<Rightarrow> bytes \<Rightarrow> bool" where
  "in_range start end' k \<longleftrightarrow> (start = [] \<or> start \<le> k) \<and> (end' = [] \<or> k < end')"

subsection \<open>Batched reads\<close>

lemma saturating_add_small:
  "unat a \<le> 4194304 \<Longrightarrow> length v < 2 ^ 32 \<Longrightarrow>
     unat (saturating_add a (len64 v)) = unat a + length v"
  by (auto simp: saturating_add_def word_less_nat_alt unat_word_ariths)

lemma unat_MAX_MULTI_GET: "unat MAX_MULTI_GET_RESULT_BYTES = 4194304"
  by (simp add: MAX_MULTI_GET_RESULT_BYTES_def)

lemma multi_get_loop_spec:
  assumes "\<forall>(k, e) \<in> set m. length (e_val e) < 2 ^ 32" "unat tot \<le> 4194304"
  shows "multi_get_loop m tot keys =
    (if unat tot + value_bytes m keys \<le> 4194304
     then Inr (map (\<lambda>k. map_option e_val (bt_get m k)) keys) else Inl ResultTooLarge)"
  using assms(2)
proof (induction keys arbitrary: tot)
  case Nil
  then show ?case by (simp add: value_bytes_def)
next
  case (Cons k keys)
  show ?case
  proof (cases "bt_get m k")
    case None
    then show ?thesis
      using Cons.IH [OF Cons.prems] by (simp add: value_bytes_def)
  next
    case (Some e)
    then have "length (e_val e) < 2 ^ 32"
      using assms(1) by (auto dest: bt_get_Some_in)
    then have t: "unat (saturating_add tot (len64 (e_val e))) = unat tot + length (e_val e)"
      using Cons.prems by (intro saturating_add_small)
    show ?thesis
    proof (cases "unat tot + length (e_val e) \<le> 4194304")
      case True
      then show ?thesis
        using Some t Cons.IH [of "saturating_add tot (len64 (e_val e))"]
        by (simp add: Let_def word_less_nat_alt unat_MAX_MULTI_GET value_bytes_def)
    next
      case False
      then show ?thesis
        using Some t by (simp add: Let_def word_less_nat_alt unat_MAX_MULTI_GET value_bytes_def)
    qed
  qed
qed

subsection \<open>Range reads\<close>

lemma range_loop_spec:
  "length out \<le> limit \<Longrightarrow>
     range_loop limit out es =
       (out @ map (\<lambda>(k, e). (k, e_val e)) (take (limit - length out) es),
        limit - length out < length es)"
proof (induction limit out es rule: range_loop.induct)
  case (2 limit out k e es)
  show ?case
  proof (cases "limit = length out")
    case False
    with "2.prems" obtain n where "limit - length out = Suc n" "limit - Suc (length out) = n"
      by (metis Suc_diff_le Suc_leI diff_Suc_Suc le_neq_implies_less)
    then show ?thesis using 2 False by simp
  qed (use 2 in simp)
qed simp

lemma reversed_empty:
  "start \<noteq> [] \<Longrightarrow> end' \<noteq> [] \<Longrightarrow> start \<ge> end' \<Longrightarrow> \<not> in_range start end' k"
  by (auto simp: in_range_def)

lemma bt_range_in_range:
  "bt_range (if start = [] then None else Some start) (if end' = [] then None else Some end') m =
     filter (\<lambda>(k, e). in_range start end' k) m"
  by (auto simp: bt_range_def in_range_def intro!: filter_cong)

lemma get_range_unfold:
  assumes "\<not> poisoned sm"
  shows "get_range_with_index sm start end' limit =
    (let sel = filter (\<lambda>(k, e). in_range start end' k) (kv (store sm));
         lim = min limit MAX_STALE_RANGE_ENTRIES
     in Inr (map (\<lambda>(k, e). (k, e_val e)) (take lim sel), applied (store sm), lim < length sel))"
proof (cases "start \<noteq> [] \<and> end' \<noteq> [] \<and> start \<ge> end'")
  case True
  then have "filter (\<lambda>(k, e). in_range start end' k) (kv (store sm)) = []"
    using reversed_empty by (auto simp: filter_empty_conv)
  with True assms show ?thesis
    by (simp add: get_range_with_index_def read_lock_def Let_def)
next
  case False
  moreover have "filter (\<lambda>(k, e). in_range [] [] k) m = m" for m :: "(bytes, KvEntry) btree_map"
    by (simp add: in_range_def)
  ultimately show ?thesis
    using assms bt_range_in_range [of start end' "kv (store sm)"]
    by (cases "start = []"; cases "end' = []")
      (simp_all add: get_range_with_index_def read_lock_def Let_def range_loop_spec)
qed

subsection \<open>The highest sequence number of a client\<close>

definition client_seqs :: "(SessionKey, SessionRecord) btree_map \<Rightarrow> u64 \<Rightarrow> u64 set" where
  "client_seqs ss cid = {seq. bt_get ss (SessionKey cid seq) \<noteq> None}"

lemma client_seqs_alt:
  "bt_wf ss \<Longrightarrow> client_seqs ss cid = seq_no ` {k \<in> fst ` set ss. client_id k = cid}"
  by (force simp: client_seqs_def image_iff bt_in_iff [symmetric])

lemma finite_client_seqs: "bt_wf ss \<Longrightarrow> finite (client_seqs ss cid)"
  by (simp add: client_seqs_alt)

lemma le_probe: "k \<le> SessionKey cid (- 1) \<longleftrightarrow> client_id k \<le> cid"
  by (auto simp: less_eq_SessionKey_def)

lemma sorted_last_ge:
  "sorted_wrt (<) (map fst xs) \<Longrightarrow> x \<in> set xs \<Longrightarrow> fst x \<le> fst (last xs)"
  for xs :: "('k::linorder \<times> 'v) list"
  by (induction xs) (auto simp: less_imp_le)

lemma max_session_seq_spec:
  assumes "bt_wf ss" "\<not> poisoned sm" "ss = sessions (store sm)"
  shows "max_session_seq sm cid =
    Some (if client_seqs ss cid = {} then 0 else Max (client_seqs ss cid))"
proof -
  define below where "below = filter (\<lambda>(key, _). key \<le> SessionKey cid (- 1)) ss"
  have set_below: "set below = {x \<in> set ss. client_id (fst x) \<le> cid}"
    by (auto simp: below_def le_probe)
  have sorted: "sorted_wrt (<) (map fst below)"
    using bt_get_filter_fst [OF assms(1)] by (simp add: bt_wf_def below_def)
  have unfold: "max_session_seq sm cid =
      Some (if below = [] then 0
            else if client_id (fst (last below)) = cid then seq_no (fst (last below)) else 0)"
    using assms(2,3)
    by (auto simp: max_session_seq_def read_expect_def Let_def below_def last_opt_def
        split: prod.splits)
  show ?thesis
  proof (cases "client_seqs ss cid = {}")
    case True
    then have "\<forall>x \<in> set ss. client_id (fst x) \<noteq> cid"
      using assms(1) by (auto simp: client_seqs_alt)
    then show ?thesis
      using True set_below last_in_set [of below] by (auto simp: unfold)
  next
    case False
    let ?L = "fst (last below)"
    have ge: "k \<le> ?L" if "k \<in> fst ` set ss" "client_id k = cid" for k
      using that sorted_last_ge [OF sorted] set_below by fastforce
    obtain k where k: "k \<in> fst ` set ss" "client_id k = cid"
      using False assms(1) by (auto simp: client_seqs_alt)
    then have "below \<noteq> []" using set_below by fastforce
    then have L: "?L \<in> fst ` set ss" "client_id ?L \<le> cid"
      using last_in_set [of below] set_below by auto
    then have "client_id ?L = cid"
      using ge [OF k] k(2) by (auto simp: less_eq_SessionKey_def)
    moreover have "Max (client_seqs ss cid) = seq_no ?L"
    proof (rule Max_eqI)
      show "seq \<le> seq_no ?L" if "seq \<in> client_seqs ss cid" for seq
        using that ge assms(1) \<open>client_id ?L = cid\<close>
        by (auto simp: client_seqs_alt less_eq_SessionKey_def)
    qed (use L \<open>client_id ?L = cid\<close> assms(1) in \<open>auto simp: client_seqs_alt\<close>)
    ultimately show ?thesis
      using False \<open>below \<noteq> []\<close> by (simp add: unfold)
  qed
qed

subsection \<open>Properties\<close>

text \<open>
  C34: a batched read is all or nothing.  On a store that satisfies its invariant, \<open>multi_get\<close>
  returns the value of every key in the order asked for, \<open>None\<close> for an absent one, with the
  applied index of the store, as long as the values it returns have at most 4 MiB in total
  (a key asked for twice counts twice); above that it returns \<open>ResultTooLarge\<close> and no value.
\<close>

theorem kv_multi_get_all_or_nothing:
  assumes "store_inv (store sm)" "\<not> poisoned sm"
  shows "multi_get sm keys =
    (if value_bytes (kv (store sm)) keys \<le> 4 * 1024 * 1024
     then Inr (map (\<lambda>k. map_option e_val (bt_get (kv (store sm)) k)) keys, applied (store sm))
     else Inl ResultTooLarge)"
proof -
  have "\<forall>(k, e) \<in> set (kv (store sm)). length (e_val e) < 2 ^ 32"
    using assms(1) by (auto simp: store_inv_def kv_inv_def)
  from multi_get_loop_spec [OF this, of 0 keys] show ?thesis
    using assms(2) by (simp add: multi_get_def read_lock_def)
qed

theorem kv_multi_get_all_or_nothing_witness:
  "multi_get kv_new [[1], [2]] = Inr ([None, None], 0)"
  using kv_multi_get_all_or_nothing [of kv_new "[[1], [2]]"]
  by (simp add: kv_new_def empty_store_def value_bytes_def store_inv_def kv_inv_def sessions_inv_def)

text \<open>
  C33: a range read is a prefix of the range.  \<open>get_range_with_index\<close> returns, in ascending key
  order, the first entries of the half-open range (an empty bound is no bound), at most the
  requested limit and at most 10000 of them, and its flag says whether the range holds more.
\<close>

theorem kv_range_read_prefix:
  assumes "store_inv (store sm)" "\<not> poisoned sm"
  shows "\<exists>out truncated. get_range_with_index sm start end' limit = Inr (out, applied (store sm), truncated) \<and>
    sorted_wrt (<) (map fst out) \<and>
    (let sel = filter (\<lambda>(k, e). in_range start end' k) (kv (store sm));
         lim = min limit 10000
     in out = map (\<lambda>(k, e). (k, e_val e)) (take lim sel) \<and> (truncated \<longleftrightarrow> lim < length sel))"
proof -
  let ?sel = "filter (\<lambda>(k, e). in_range start end' k) (kv (store sm))"
  have "bt_wf ?sel"
    using assms(1) by (intro bt_get_filter_fst) (simp add: store_inv_def kv_inv_def)
  then have "sorted_wrt (<) (map fst (take n ?sel))" for n
    unfolding bt_wf_def by (metis sorted_wrt_take take_map)
  then have "sorted_wrt (<) (map fst (map (\<lambda>(k, e). (k, e_val e)) (take n ?sel)))" for n
    by (simp add: comp_def case_prod_unfold)
  then show ?thesis
    using get_range_unfold [OF assms(2), of start end' limit]
    by (simp add: Let_def MAX_STALE_RANGE_ENTRIES_def)
qed

theorem kv_range_read_prefix_witness:
  "\<exists>out truncated. get_range_with_index kv_new [1] [] 5 = Inr (out, applied (store kv_new), truncated) \<and>
    sorted_wrt (<) (map fst out)"
  using kv_range_read_prefix [of kv_new "[1]" "[]" 5] by (auto simp: kv_new_def)

end
