(* ===== verification/FileSystem.thy ===== *)
theory FileSystem
  imports Prelude "HOL-Library.AList" "HOL-Library.Sublist"
begin

text \<open>
  The data directory as the storage layer sees it through \<open>std::fs\<close>: one directory of named
  files.  A file has the contents a reader sees and the contents that are on the device; the
  directory likewise, with the list of the directory operations in between.  \<open>sync_all\<close> and
  the directory fsync move the former into the latter.  After a crash a file holds its durable
  contents and possibly part of what was written since; of the pending directory operations
  any selection has reached the device, each of them as a whole.

  Operations are state transformers that return a result.  Every primitive draws on a budget
  of operations; when it is used up the primitive fails and changes nothing, so that running a
  protocol under every budget enumerates both its I/O failures and its crash points.
\<close>

subsection \<open>Computations with state and errors\<close>

type_synonym ('s, 'e, 'a) comp = "'s \<Rightarrow> 's \<times> ('e + 'a)"

definition ret :: "'a \<Rightarrow> ('s, 'e, 'a) comp" where
  "ret x s = (s, Inr x)"

definition throw :: "'e \<Rightarrow> ('s, 'e, 'a) comp" where
  "throw e s = (s, Inl e)"

definition seq :: "('s, 'e, 'a) comp \<Rightarrow> ('a \<Rightarrow> ('s, 'e, 'b) comp) \<Rightarrow> ('s, 'e, 'b) comp" where
  "seq m f s = (case m s of (s', Inl e) \<Rightarrow> (s', Inl e) | (s', Inr x) \<Rightarrow> f x s')"

definition with_err :: "('e \<Rightarrow> 'f) \<Rightarrow> ('s, 'e, 'a) comp \<Rightarrow> ('s, 'f, 'a) comp" where
  "with_err g m s = (case m s of (s', r) \<Rightarrow> (s', map_err g r))"

definition lift_res :: "'e + 'a \<Rightarrow> ('s, 'e, 'a) comp" where
  "lift_res r s = (s, r)"

definition gets :: "('s \<Rightarrow> 'a) \<Rightarrow> ('s, 'e, 'a) comp" where
  "gets f s = (s, Inr (f s))"

definition modify :: "('s \<Rightarrow> 's) \<Rightarrow> ('s, 'e, unit) comp" where
  "modify f s = (f s, Inr ())"

fun each :: "('a \<Rightarrow> ('s, 'e, unit) comp) \<Rightarrow> 'a list \<Rightarrow> ('s, 'e, unit) comp" where
  "each f [] = ret ()"
| "each f (x # xs) = seq (f x) (\<lambda>_. each f xs)"

named_theorems comp_defs \<open>the combinators, unfolded when a computation is run\<close>
declare ret_def [comp_defs] throw_def [comp_defs] seq_def [comp_defs] with_err_def [comp_defs]
  lift_res_def [comp_defs] gets_def [comp_defs] modify_def [comp_defs]

subsection \<open>Files and the directory\<close>

datatype IoError = NotFound | IoFailed

text \<open>
  A file: what a reader sees, what was there at the last sync, and the shortest length the
  file has had since.
\<close>

record Inode =
  f_data :: bytes
  f_synced :: bytes
  f_low :: nat

definition clean :: "Inode \<Rightarrow> bool" where
  "clean f \<longleftrightarrow> f_synced f = f_data f \<and> f_low f = length (f_data f)"

type_synonym fd = nat

text \<open>The changes of a directory: a new name, a rename, a removal.\<close>

datatype DirOp = DAdd string fd | DRename string string fd | DRemove string

fun dir_apply :: "DirOp \<Rightarrow> (string \<times> fd) list \<Rightarrow> (string \<times> fd) list" where
  "dir_apply (DAdd name i) d = AList.update name i d"
| "dir_apply (DRename from to i) d = AList.update to i (AList.delete from d)"
| "dir_apply (DRemove name) d = AList.delete name d"

fun op_names :: "DirOp \<Rightarrow> string set" where
  "op_names (DAdd name i) = {name}"
| "op_names (DRename from to i) = {from, to}"
| "op_names (DRemove name) = {name}"

record Fs =
  fs_dir :: "(string \<times> fd) list"
  fs_dsynced :: "(string \<times> fd) list"
  fs_pending :: "DirOp list"
  fs_inodes :: "Inode list"
  fs_lock :: bool
  fs_budget :: "nat option"

text \<open>One primitive operation: it fails without effect when the budget is used up.\<close>

definition prim :: "(Fs, IoError, 'a) comp \<Rightarrow> (Fs, IoError, 'a) comp" where
  "prim m fs =
     (case fs_budget fs of
        None \<Rightarrow> m fs
      | Some 0 \<Rightarrow> (fs, Inl IoFailed)
      | Some (Suc n) \<Rightarrow> m (fs\<lparr>fs_budget := Some n\<rparr>))"

definition contents :: "Fs \<Rightarrow> string \<Rightarrow> bytes option" where
  "contents fs name = map_option (\<lambda>i. f_data (fs_inodes fs ! i)) (map_of (fs_dir fs) name)"

definition fs_exists :: "string \<Rightarrow> Fs \<Rightarrow> bool" where
  "fs_exists name fs = (map_of (fs_dir fs) name \<noteq> None)"

definition fs_read :: "string \<Rightarrow> (Fs, IoError, bytes) comp" where
  "fs_read name = prim (\<lambda>fs. case contents fs name of
     None \<Rightarrow> (fs, Inl NotFound) | Some bs \<Rightarrow> (fs, Inr bs))"

definition fs_len :: "string \<Rightarrow> (Fs, IoError, nat) comp" where
  "fs_len name = prim (\<lambda>fs. case contents fs name of
     None \<Rightarrow> (fs, Inl NotFound) | Some bs \<Rightarrow> (fs, Inr (length bs)))"

definition fs_read_dir :: "(Fs, IoError, string list) comp" where
  "fs_read_dir = prim (\<lambda>fs. (fs, Inr (map fst (fs_dir fs))))"

definition dir_op :: "DirOp \<Rightarrow> Fs \<Rightarrow> Fs" where
  "dir_op x fs = fs\<lparr>fs_dir := dir_apply x (fs_dir fs), fs_pending := fs_pending fs @ [x]\<rparr>"

definition new_file :: "string \<Rightarrow> Fs \<Rightarrow> Fs" where
  "new_file name fs = dir_op (DAdd name (length (fs_inodes fs)))
     (fs\<lparr>fs_inodes := fs_inodes fs @ [\<lparr>f_data = [], f_synced = [], f_low = 0\<rparr>]\<rparr>)"

text \<open>\<open>create(true).append(true)\<close>, \<open>create(true).truncate(true)\<close>, and opening without \<open>create\<close>.\<close>

definition open_append :: "string \<Rightarrow> (Fs, IoError, fd) comp" where
  "open_append name = prim (\<lambda>fs. case map_of (fs_dir fs) name of
     Some i \<Rightarrow> (fs, Inr i) | None \<Rightarrow> (new_file name fs, Inr (length (fs_inodes fs))))"

definition open_truncate :: "string \<Rightarrow> (Fs, IoError, fd) comp" where
  "open_truncate name = prim (\<lambda>fs. case map_of (fs_dir fs) name of
     Some i \<Rightarrow> (fs\<lparr>fs_inodes := (fs_inodes fs)[i := (fs_inodes fs ! i)\<lparr>f_data := [], f_low := 0\<rparr>]\<rparr>, Inr i)
   | None \<Rightarrow> (new_file name fs, Inr (length (fs_inodes fs))))"

definition open_existing :: "string \<Rightarrow> (Fs, IoError, fd) comp" where
  "open_existing name = prim (\<lambda>fs. case map_of (fs_dir fs) name of
     Some i \<Rightarrow> (fs, Inr i) | None \<Rightarrow> (fs, Inl NotFound))"

definition upd_inode :: "fd \<Rightarrow> (Inode \<Rightarrow> Inode) \<Rightarrow> Fs \<Rightarrow> Fs" where
  "upd_inode i f fs = fs\<lparr>fs_inodes := (fs_inodes fs)[i := f (fs_inodes fs ! i)]\<rparr>"

definition write_all :: "fd \<Rightarrow> bytes \<Rightarrow> (Fs, IoError, unit) comp" where
  "write_all i bs = prim (modify (upd_inode i (\<lambda>f. f\<lparr>f_data := f_data f @ bs\<rparr>)))"

definition set_len :: "fd \<Rightarrow> nat \<Rightarrow> (Fs, IoError, unit) comp" where
  "set_len i n = prim (modify (upd_inode i (\<lambda>f.
     f\<lparr>f_data := take n (f_data f) @ replicate (n - length (f_data f)) 0, f_low := min (f_low f) n\<rparr>)))"

definition sync_all :: "fd \<Rightarrow> (Fs, IoError, unit) comp" where
  "sync_all i = prim (modify (upd_inode i (\<lambda>f. f\<lparr>f_synced := f_data f, f_low := length (f_data f)\<rparr>)))"

definition fd_len :: "fd \<Rightarrow> (Fs, IoError, nat) comp" where
  "fd_len i = prim (gets (\<lambda>fs. length (f_data (fs_inodes fs ! i))))"

definition fs_rename :: "string \<Rightarrow> string \<Rightarrow> (Fs, IoError, unit) comp" where
  "fs_rename from to = prim (\<lambda>fs. case map_of (fs_dir fs) from of
     None \<Rightarrow> (fs, Inl NotFound)
   | Some i \<Rightarrow> (dir_op (DRename from to i) fs, Inr ()))"

definition remove_file :: "string \<Rightarrow> (Fs, IoError, unit) comp" where
  "remove_file name = prim (\<lambda>fs. case map_of (fs_dir fs) name of
     None \<Rightarrow> (fs, Inl NotFound)
   | Some i \<Rightarrow> (dir_op (DRemove name) fs, Inr ()))"

definition fsync_dir :: "(Fs, IoError, unit) comp" where
  "fsync_dir = prim (modify (\<lambda>fs. fs\<lparr>fs_dsynced := fs_dir fs, fs_pending := []\<rparr>))"

subsection \<open>Crashes\<close>

text \<open>
  What a crash can leave of a file.  If the writes since the last sync only appended, the
  durable contents and a part of the appended bytes; if the file was cut in between, only the
  durable bytes below the cut are certain.
\<close>

definition crash_content :: "Inode \<Rightarrow> bytes \<Rightarrow> bool" where
  "crash_content f c \<longleftrightarrow>
     (if length (f_synced f) \<le> f_low f then (\<exists>k \<ge> length (f_synced f). c = take k (f_data f))
      else prefix (take (f_low f) (f_synced f)) c)"

definition crash :: "Fs \<Rightarrow> Fs \<Rightarrow> bool" where
  "crash fs fs' \<longleftrightarrow>
     length (fs_inodes fs') = length (fs_inodes fs) \<and>
     (\<forall>i < length (fs_inodes fs). crash_content (fs_inodes fs ! i) (f_data (fs_inodes fs' ! i)) \<and>
        clean (fs_inodes fs' ! i)) \<and>
     (\<exists>ops. subseq ops (fs_pending fs) \<and> fs_dir fs' = fold dir_apply ops (fs_dsynced fs)) \<and>
     fs_dsynced fs' = fs_dir fs' \<and> fs_pending fs' = [] \<and> \<not> fs_lock fs' \<and> fs_budget fs' = None"

text \<open>The current directory is the durable one after the pending operations.\<close>

definition fs_wf :: "Fs \<Rightarrow> bool" where
  "fs_wf fs \<longleftrightarrow> fs_dir fs = fold dir_apply (fs_pending fs) (fs_dsynced fs) \<and>
     distinct (map fst (fs_dsynced fs))"

text \<open>The names no pending operation touches: a crash does not change what they refer to.\<close>

definition settled :: "Fs \<Rightarrow> string \<Rightarrow> bool" where
  "settled fs name \<longleftrightarrow> (\<forall>x \<in> set (fs_pending fs). name \<notin> op_names x)"

text \<open>A name that is settled and whose file, if there is one, has been synced.\<close>

definition quiet :: "Fs \<Rightarrow> string \<Rightarrow> bool" where
  "quiet fs name \<longleftrightarrow> settled fs name \<and> (\<forall>i. map_of (fs_dir fs) name = Some i \<longrightarrow>
     i < length (fs_inodes fs) \<and> clean (fs_inodes fs ! i))"

text \<open>
  Replacing a file: write a temporary file, sync it, rename it over the old one, and sync the
  directory.
\<close>

definition atomic_replace :: "string \<Rightarrow> string \<Rightarrow> bytes \<Rightarrow> (Fs, IoError, unit) comp" where
  "atomic_replace tmp final blob =
     seq (open_truncate tmp) (\<lambda>f.
     seq (write_all f blob) (\<lambda>_.
     seq (sync_all f) (\<lambda>_.
     seq (fs_rename tmp final) (\<lambda>_.
       fsync_dir))))"

subsection \<open>The directory after a crash\<close>

lemma map_of_dir_apply:
  "map_of (dir_apply x d) name =
     (case x of
        DAdd n i \<Rightarrow> if name = n then Some i else map_of d name
      | DRename from to i \<Rightarrow> if name = to then Some i else if name = from then None else map_of d name
      | DRemove n \<Rightarrow> if name = n then None else map_of d name)"
  by (cases x) (auto simp: update_conv delete_conv)

lemma map_of_dir_apply_other [simp]: "name \<notin> op_names x \<Longrightarrow> map_of (dir_apply x d) name = map_of d name"
  by (cases x) (simp_all add: map_of_dir_apply del: dir_apply.simps)

lemma map_of_fold_dir_apply:
  "\<forall>x \<in> set ops. name \<notin> op_names x \<Longrightarrow> map_of (fold dir_apply ops d) name = map_of d name"
  by (induction ops arbitrary: d) auto

lemma settled_lookup: "fs_wf fs \<Longrightarrow> settled fs name \<Longrightarrow> map_of (fs_dir fs) name = map_of (fs_dsynced fs) name"
  by (simp add: fs_wf_def settled_def map_of_fold_dir_apply)

lemma subseq_subset: "subseq xs ys \<Longrightarrow> set xs \<subseteq> set ys"
  by (induction rule: list_emb.induct) auto

lemma crash_settled:
  assumes "fs_wf fs" "settled fs name" "crash fs fs'"
  shows "map_of (fs_dir fs') name = map_of (fs_dir fs) name"
proof -
  obtain ops where ops: "subseq ops (fs_pending fs)" "fs_dir fs' = fold dir_apply ops (fs_dsynced fs)"
    using assms(3) by (auto simp: crash_def)
  then have "\<forall>x \<in> set ops. name \<notin> op_names x"
    using assms(2) subseq_subset by (fastforce simp: settled_def)
  then show ?thesis
    using ops(2) settled_lookup [OF assms(1,2)] by (simp add: map_of_fold_dir_apply)
qed

lemma crash_content_clean: "clean f \<Longrightarrow> crash_content f c \<longleftrightarrow> c = f_data f"
  by (auto simp: crash_content_def clean_def)

text \<open>No crash changes what a reader sees under a quiet name.\<close>

lemma crash_quiet:
  assumes "fs_wf fs" "quiet fs name" "crash fs fs'"
  shows "contents fs' name = contents fs name"
proof -
  have same: "map_of (fs_dir fs') name = map_of (fs_dir fs) name"
    using crash_settled [OF assms(1) _ assms(3)] assms(2) by (simp add: quiet_def)
  have "f_data (fs_inodes fs' ! i) = f_data (fs_inodes fs ! i)" if i: "map_of (fs_dir fs) name = Some i" for i
  proof -
    have "i < length (fs_inodes fs)" "clean (fs_inodes fs ! i)"
      using assms(2) i by (auto simp: quiet_def)
    moreover from this have "crash_content (fs_inodes fs ! i) (f_data (fs_inodes fs' ! i))"
      using assms(3) by (simp add: crash_def)
    ultimately show ?thesis by (simp add: crash_content_clean)
  qed
  with same show ?thesis by (cases "map_of (fs_dir fs) name") (auto simp: contents_def)
qed

subsection \<open>Running primitives\<close>

lemma prim_ok [simp]: "fs_budget fs = None \<Longrightarrow> prim m fs = m fs"
  by (simp add: prim_def)

lemma upd_inode_simps [simp]:
  "fs_dir (upd_inode i f fs) = fs_dir fs" "fs_dsynced (upd_inode i f fs) = fs_dsynced fs"
  "fs_pending (upd_inode i f fs) = fs_pending fs"
  "fs_budget (upd_inode i f fs) = fs_budget fs" "fs_lock (upd_inode i f fs) = fs_lock fs"
  "length (fs_inodes (upd_inode i f fs)) = length (fs_inodes fs)"
  by (simp_all add: upd_inode_def)

lemma inodes_upd_inode [simp]:
  "j < length (fs_inodes fs) \<Longrightarrow> fs_inodes (upd_inode i f fs) ! j = (if i = j then f (fs_inodes fs ! j) else fs_inodes fs ! j)"
  by (simp add: upd_inode_def)

lemma dir_op_simps [simp]:
  "fs_dir (dir_op x fs) = dir_apply x (fs_dir fs)" "fs_dsynced (dir_op x fs) = fs_dsynced fs"
  "fs_pending (dir_op x fs) = fs_pending fs @ [x]" "fs_budget (dir_op x fs) = fs_budget fs"
  "fs_lock (dir_op x fs) = fs_lock fs" "fs_inodes (dir_op x fs) = fs_inodes fs"
  by (simp_all add: dir_op_def)

lemma new_file_simps [simp]:
  "fs_dir (new_file name fs) = AList.update name (length (fs_inodes fs)) (fs_dir fs)"
  "fs_dsynced (new_file name fs) = fs_dsynced fs"
  "fs_pending (new_file name fs) = fs_pending fs @ [DAdd name (length (fs_inodes fs))]"
  "fs_budget (new_file name fs) = fs_budget fs" "fs_lock (new_file name fs) = fs_lock fs"
  "fs_inodes (new_file name fs) = fs_inodes fs @ [\<lparr>f_data = [], f_synced = [], f_low = 0\<rparr>]"
  by (simp_all add: new_file_def)

lemma dir_op_wf: "fs_wf fs \<Longrightarrow> fs_wf (dir_op x fs)"
  by (simp add: fs_wf_def)

lemma new_file_wf: "fs_wf fs \<Longrightarrow> fs_wf (new_file n fs)"
  by (simp add: fs_wf_def)

lemma quiet_bound: "quiet fs name \<Longrightarrow> map_of (fs_dir fs) name = Some i \<Longrightarrow> i < length (fs_inodes fs)"
  by (simp add: quiet_def)

lemma prim_cases:
  assumes "prim m fs = (fs', r)"
  obtains "fs' = fs" "r = Inl IoFailed" | b where "m (fs\<lparr>fs_budget := b\<rparr>) = (fs', r)"
proof (cases "fs_budget fs")
  case None
  then have "fs\<lparr>fs_budget := None\<rparr> = fs" by (cases fs) simp
  with assms None that(2) [of None] show thesis by (metis prim_ok)
next
  case (Some n)
  then show thesis using assms that by (cases n) (auto simp: prim_def)
qed

lemma budget_irrelevant [simp]:
  "contents (fs\<lparr>fs_budget := b\<rparr>) = contents fs" "quiet (fs\<lparr>fs_budget := b\<rparr>) = quiet fs"
  "fs_wf (fs\<lparr>fs_budget := b\<rparr>) = fs_wf fs" "settled (fs\<lparr>fs_budget := b\<rparr>) = settled fs"
  "crash (fs\<lparr>fs_budget := b\<rparr>) = crash fs"
  by (auto simp: contents_def quiet_def fs_wf_def settled_def crash_def fun_eq_iff)

text \<open>What an operation on another file leaves alone.\<close>

lemma upd_inode_frame:
  assumes "map_of (fs_dir fs) name \<noteq> Some i"
  shows "contents (upd_inode i f fs) name = contents fs name"
    and "quiet (upd_inode i f fs) name \<longleftrightarrow> quiet fs name"
  using assms by (auto simp: contents_def quiet_def settled_def upd_inode_def map_option_case
      split: option.splits)

lemma upd_inode_wf [simp]: "fs_wf (upd_inode i f fs) \<longleftrightarrow> fs_wf fs"
  by (simp add: fs_wf_def)

lemma new_file_frame:
  assumes "name \<noteq> n"
  shows "quiet fs name \<Longrightarrow> quiet (new_file n fs) name \<and> contents (new_file n fs) name = contents fs name"
  using assms
  by (auto simp: contents_def quiet_def settled_def update_conv nth_append map_option_case
      split: option.splits)

text \<open>The steps of a replacement, up to the rename, leave the old file alone.\<close>

definition spare :: "Fs \<Rightarrow> string \<Rightarrow> fd \<Rightarrow> bool" where
  "spare fs name i \<longleftrightarrow> i < length (fs_inodes fs) \<and> map_of (fs_dir fs) name \<noteq> Some i"

lemma open_truncate_step:
  assumes "open_truncate tmp fs = (fs', r)" "fs_wf fs" "quiet fs final" "tmp \<noteq> final"
    and "\<And>i. map_of (fs_dir fs) tmp = Some i \<Longrightarrow> spare fs final i"
  shows "fs_wf fs' \<and> quiet fs' final \<and> contents fs' final = contents fs final \<and>
    (\<forall>i. r = Inr i \<longrightarrow> spare fs' final i \<and> map_of (fs_dir fs') tmp = Some i \<and>
       f_data (fs_inodes fs' ! i) = [])"
  using assms(1) unfolding open_truncate_def
proof (rule prim_cases)
  fix b
  assume m: "(case map_of (fs_dir (fs\<lparr>fs_budget := b\<rparr>)) tmp of
      None \<Rightarrow> (new_file tmp (fs\<lparr>fs_budget := b\<rparr>), Inr (length (fs_inodes (fs\<lparr>fs_budget := b\<rparr>))))
    | Some i \<Rightarrow> (fs\<lparr>fs_budget := b, fs_inodes := (fs_inodes (fs\<lparr>fs_budget := b\<rparr>))
        [i := (fs_inodes (fs\<lparr>fs_budget := b\<rparr>) ! i)\<lparr>f_data := [], f_low := 0\<rparr>]\<rparr>, Inr i)) = (fs', r)"
  show ?thesis
  proof (cases "map_of (fs_dir fs) tmp")
    case None
    define g where "g = fs\<lparr>fs_budget := b\<rparr>"
    have "fs' = new_file tmp g" "r = Inr (length (fs_inodes g))"
      using m None by (auto simp: g_def)
    then show ?thesis
      using assms(2-4) new_file_frame [of final tmp g] new_file_wf [of g]
      by (auto simp: g_def spare_def update_conv dest: quiet_bound)
  next
    case (Some i)
    then have fs': "fs' = upd_inode i (\<lambda>f. f\<lparr>f_data := [], f_low := 0\<rparr>) (fs\<lparr>fs_budget := b\<rparr>)" "r = Inr i"
      using m by (auto simp: upd_inode_def)
    show ?thesis
      using assms(2-5) Some upd_inode_frame [of "fs\<lparr>fs_budget := b\<rparr>" final i "\<lambda>f. f\<lparr>f_data := [], f_low := 0\<rparr>"]
      by (auto simp: fs' spare_def)
  qed
qed (use assms in auto)

lemma upd_step:
  assumes "prim (modify (upd_inode i f)) fs = (fs', r)" "fs_wf fs" "quiet fs final" "spare fs final i"
  shows "fs_wf fs' \<and> quiet fs' final \<and> contents fs' final = contents fs final \<and>
    fs_dir fs' = fs_dir fs \<and> spare fs' final i \<and>
    (r = Inr () \<longrightarrow> fs_inodes fs' ! i = f (fs_inodes fs ! i))"
  using assms(1)
proof (rule prim_cases)
  fix b assume "modify (upd_inode i f) (fs\<lparr>fs_budget := b\<rparr>) = (fs', r)"
  then have "fs' = upd_inode i f (fs\<lparr>fs_budget := b\<rparr>)" by (simp add: modify_def)
  then show ?thesis
    using assms(2-4) upd_inode_frame [of "fs\<lparr>fs_budget := b\<rparr>" final i f] by (simp add: spare_def)
qed (use assms in auto)

lemma seqE:
  assumes "seq m f s = (s', r)"
  obtains e where "m s = (s', Inl e)" "r = Inl e"
  | s1 x where "m s = (s1, Inr x)" "f x s1 = (s', r)"
  using assms by (auto simp: seq_def split: prod.splits sum.splits)

lemma distinct_dir_apply: "distinct (map fst d) \<Longrightarrow> distinct (map fst (dir_apply x d))"
  by (cases x) (simp_all add: distinct_update distinct_delete)

lemma distinct_fold_dir_apply: "distinct (map fst d) \<Longrightarrow> distinct (map fst (fold dir_apply ops d))"
  by (induction ops arbitrary: d) (simp_all add: distinct_dir_apply)

lemma crash_renamed:
  assumes "fs_wf fs" "quiet fs final" "map_of (fs_dir fs) tmp = Some i" "tmp \<noteq> final"
    and "i < length (fs_inodes fs)" "f_data (fs_inodes fs ! i) = blob" "clean (fs_inodes fs ! i)"
    and "crash (dir_op (DRename tmp final i) fs) fs'"
  shows "contents fs' final = contents fs final \<or> contents fs' final = Some blob"
proof -
  obtain ops where ops: "subseq ops (fs_pending fs @ [DRename tmp final i])"
    "fs_dir fs' = fold dir_apply ops (fs_dsynced fs)"
    using assms(8) by (auto simp: crash_def)
  then obtain o1 o2 where o: "ops = o1 @ o2" "subseq o1 (fs_pending fs)" "subseq o2 [DRename tmp final i]"
    by (auto simp: subseq_append_iff)
  from o(3) have o2: "o2 = [] \<or> o2 = [DRename tmp final i]"
    by (cases o2) (auto split: if_splits)
  have c: "crash_content (fs_inodes fs ! j) (f_data (fs_inodes fs' ! j))" if "j < length (fs_inodes fs)" for j
    using assms(8) that by (simp add: crash_def)
  have "\<forall>x \<in> set o1. final \<notin> op_names x"
    using o(2) assms(2) subseq_subset by (fastforce simp: quiet_def settled_def)
  then have o1: "map_of (fold dir_apply o1 (fs_dsynced fs)) final = map_of (fs_dir fs) final"
    using settled_lookup [OF assms(1)] assms(2) by (simp add: map_of_fold_dir_apply quiet_def)
  show ?thesis
  proof (cases "o2 = []")
    case True
    with ops o o1 have same: "map_of (fs_dir fs') final = map_of (fs_dir fs) final" by simp
    have "f_data (fs_inodes fs' ! j) = f_data (fs_inodes fs ! j)" if "map_of (fs_dir fs) final = Some j" for j
      using that c [of j] assms(2) by (auto simp: quiet_def crash_content_clean)
    with same show ?thesis by (cases "map_of (fs_dir fs) final") (auto simp: contents_def)
  next
    case False
    with o2 ops o have "map_of (fs_dir fs') final = Some i" by (simp add: update_conv)
    moreover have "f_data (fs_inodes fs' ! i) = blob"
      using c [OF assms(5)] assms(6,7) by (simp add: crash_content_clean)
    ultimately show ?thesis by (simp add: contents_def)
  qed
qed

lemma rename_then_sync:
  assumes "seq (fs_rename tmp final) (\<lambda>_. fsync_dir) fs = (fs', r)"
    and "fs_wf fs" "quiet fs final" "map_of (fs_dir fs) tmp = Some i" "tmp \<noteq> final"
    and "i < length (fs_inodes fs)" "f_data (fs_inodes fs ! i) = blob" "clean (fs_inodes fs ! i)"
  shows "(r = Inr () \<longrightarrow> fs_wf fs' \<and> quiet fs' final \<and> contents fs' final = Some blob) \<and>
    (\<forall>fs''. crash fs' fs'' \<longrightarrow> contents fs'' final = contents fs final \<or> contents fs'' final = Some blob)"
  using assms(1)
proof (rule seqE)
  fix e assume e: "fs_rename tmp final fs = (fs', Inl e)" "r = Inl e"
  from e(1) [unfolded fs_rename_def] have "fs' = fs"
    by (rule prim_cases) (use assms(4) in auto)
  then show ?thesis using e crash_quiet [OF assms(2,3)] by auto
next
  fix g x assume g: "fs_rename tmp final fs = (g, Inr x)" and s: "fsync_dir g = (fs', r)"
  from g [unfolded fs_rename_def] obtain b where
    g: "g = dir_op (DRename tmp final i) (fs\<lparr>fs_budget := b\<rparr>)"
    by (rule prim_cases) (use assms(4) in auto)
  have crash: "\<forall>fs''. crash g fs'' \<longrightarrow> contents fs'' final = contents fs final \<or> contents fs'' final = Some blob"
    using crash_renamed [of "fs\<lparr>fs_budget := b\<rparr>" final tmp i blob] assms(2-8) by (simp add: g)
  from s [unfolded fsync_dir_def] show ?thesis
  proof (rule prim_cases)
    fix b' assume "modify (\<lambda>fs. fs\<lparr>fs_dsynced := fs_dir fs, fs_pending := []\<rparr>) (g\<lparr>fs_budget := b'\<rparr>) = (fs', r)"
    then have fs': "fs' = g\<lparr>fs_budget := b', fs_dsynced := fs_dir g, fs_pending := []\<rparr>" "r = Inr ()"
      by (auto simp: modify_def)
    have wf: "fs_wf fs'"
      using dir_op_wf [OF assms(2), of "DRename tmp final i"]
      by (auto simp: fs' g fs_wf_def intro!: distinct_update distinct_delete distinct_fold_dir_apply)
    moreover have q: "quiet fs' final" "contents fs' final = Some blob"
      using assms(6-8) by (auto simp: fs' g quiet_def settled_def contents_def update_conv)
    ultimately show ?thesis using crash_quiet [OF wf q(1)] by auto
  qed (use crash in auto)
qed

text \<open>
  A replacement is atomic: whatever operation it stops at, after a crash a reader finds the
  old contents or the new ones; once it has returned, the new ones.
\<close>

lemma atomic_replace_spec:
  assumes run: "atomic_replace tmp final blob fs = (fs', r)"
    and fs: "fs_wf fs" "quiet fs final" "tmp \<noteq> final"
    and tmp: "\<And>i. map_of (fs_dir fs) tmp = Some i \<Longrightarrow> spare fs final i"
  shows "(r = Inr () \<longrightarrow> fs_wf fs' \<and> quiet fs' final \<and> contents fs' final = Some blob) \<and>
    (\<forall>fs''. crash fs' fs'' \<longrightarrow> contents fs'' final = contents fs final \<or> contents fs'' final = Some blob)"
proof -
  have old: ?thesis if "r = Inl e" "fs_wf fs'" "quiet fs' final" "contents fs' final = contents fs final" for e
    using that crash_quiet [of fs' final] by auto
  from run consider (1) e where "open_truncate tmp fs = (fs', Inl e)" "r = Inl e"
    | (2) g f where "open_truncate tmp fs = (g, Inr f)"
      "seq (write_all f blob) (\<lambda>_. seq (sync_all f) (\<lambda>_. seq (fs_rename tmp final) (\<lambda>_. fsync_dir))) g = (fs', r)"
    unfolding atomic_replace_def by (rule seqE)
  then show ?thesis
  proof cases
    case 1
    then show ?thesis using open_truncate_step [OF 1(1) fs tmp] old by blast
  next
    case (2 g f)
    note g = open_truncate_step [OF 2(1) fs tmp]
    from 2(2) show ?thesis
    proof (rule seqE)
      fix e assume w: "write_all f blob g = (fs', Inl e)" "r = Inl e"
      show ?thesis
        using upd_step [OF w(1) [unfolded write_all_def], of final] g w(2) old by auto
    next
      fix h x assume w: "write_all f blob g = (h, Inr x)"
        and rest: "seq (sync_all f) (\<lambda>_. seq (fs_rename tmp final) (\<lambda>_. fsync_dir)) h = (fs', r)"
      have h: "fs_wf h \<and> quiet h final \<and> contents h final = contents fs final \<and> spare h final f \<and>
          map_of (fs_dir h) tmp = Some f \<and> f_data (fs_inodes h ! f) = blob"
        using upd_step [OF w [unfolded write_all_def], of final] g by simp
      from rest show ?thesis
      proof (rule seqE)
        fix e assume s: "sync_all f h = (fs', Inl e)" "r = Inl e"
        show ?thesis
          using upd_step [OF s(1) [unfolded sync_all_def], of final] h s(2) old by auto
      next
        fix k x assume s: "sync_all f h = (k, Inr x)"
          and rest: "seq (fs_rename tmp final) (\<lambda>_. fsync_dir) k = (fs', r)"
        have k: "fs_wf k" "quiet k final" "contents k final = contents fs final" "spare k final f"
            "map_of (fs_dir k) tmp = Some f" "f_data (fs_inodes k ! f) = blob" "clean (fs_inodes k ! f)"
          using upd_step [OF s [unfolded sync_all_def], of final] h by (auto simp: clean_def)
        from rename_then_sync [OF rest k(1,2,5) fs(3) _ k(6,7)] k show ?thesis
          by (simp add: spare_def)
      qed
    qed
  qed
qed

end
