(* ===== verification/FileNames.thy ===== *)
theory FileNames
  imports Prelude
begin

text \<open>
  The names of segment and snapshot files (\<open>arachne/src/storage/segment.rs\<close>,
  \<open>arachne/src/storage/snapshot.rs\<close>).  A file name is a byte string, which is what
  Isabelle's \<^typ>\<open>string\<close> is.  The pieces of the standard library that the parsers use are
  modelled with their corner cases: \<open>strip_prefix\<close>, \<open>strip_suffix\<close>, \<open>split_once\<close> and
  \<open>u64::from_str\<close>, which accepts a leading plus sign and rejects values that do not fit.
\<close>

subsection \<open>Strings\<close>

definition strip_prefix :: "string \<Rightarrow> string \<Rightarrow> string option" where
  "strip_prefix p s = (if take (length p) s = p then Some (drop (length p) s) else None)"

definition strip_suffix :: "string \<Rightarrow> string \<Rightarrow> string option" where
  "strip_suffix p s =
     (if length p \<le> length s \<and> drop (length s - length p) s = p
      then Some (take (length s - length p) s) else None)"

fun split_once :: "char \<Rightarrow> string \<Rightarrow> (string \<times> string) option" where
  "split_once d [] = None"
| "split_once d (c # cs) =
     (if c = d then Some ([], cs)
      else map_option (\<lambda>(a, b). (c # a, b)) (split_once d cs))"

definition digit_char :: "nat \<Rightarrow> char" where
  "digit_char n = char_of (48 + n)"

definition digit_val :: "char \<Rightarrow> nat option" where
  "digit_val c = (if 48 \<le> (of_char c :: nat) \<and> (of_char c :: nat) \<le> 57 then Some (of_char c - 48) else None)"

text \<open>\<open>{n:0w}\<close> for a number of at most \<open>w\<close> digits.\<close>

fun pad_digits :: "nat \<Rightarrow> nat \<Rightarrow> string" where
  "pad_digits 0 n = []"
| "pad_digits (Suc w) n = pad_digits w (n div 10) @ [digit_char (n mod 10)]"

fun digits_val :: "nat \<Rightarrow> string \<Rightarrow> nat option" where
  "digits_val acc [] = Some acc"
| "digits_val acc (c # cs) =
     (case digit_val c of None \<Rightarrow> None | Some d \<Rightarrow> digits_val (acc * 10 + d) cs)"

definition parse_u64 :: "string \<Rightarrow> u64 option" where
  "parse_u64 s =
     (let ds = (case s of c # cs \<Rightarrow> if c = CHR ''+'' then cs else s | [] \<Rightarrow> [])
      in if ds = [] then None
         else case digits_val 0 ds of
                None \<Rightarrow> None
              | Some n \<Rightarrow> if n < 2 ^ 64 then Some (of_nat n) else None)"

subsection \<open>Segments\<close>

datatype InvalidName = NoSuffix | NoPrefix | DigitCount nat | NotANumber

definition SEGMENT_PREFIX :: string where "SEGMENT_PREFIX = ''wal-''"
definition SEGMENT_SUFFIX :: string where "SEGMENT_SUFFIX = ''.log''"
definition SEGMENT_DIGITS :: nat where "SEGMENT_DIGITS = 20"

definition segment_name :: "u64 \<Rightarrow> string" where
  "segment_name first_index =
     SEGMENT_PREFIX @ pad_digits SEGMENT_DIGITS (unat first_index) @ SEGMENT_SUFFIX"

definition parse_segment_name :: "string \<Rightarrow> InvalidName + u64" where
  "parse_segment_name name =
     and_then (ok_or NoSuffix (strip_suffix SEGMENT_SUFFIX name)) (\<lambda>base.
     and_then (ok_or NoPrefix (strip_prefix SEGMENT_PREFIX base)) (\<lambda>digits.
       if length digits \<noteq> SEGMENT_DIGITS then Inl (DigitCount (length digits))
       else ok_or NotANumber (parse_u64 digits)))"

subsection \<open>Snapshots\<close>

definition SNAPSHOT_PREFIX :: string where "SNAPSHOT_PREFIX = ''snapshot-''"
definition SNAPSHOT_SUFFIX :: string where "SNAPSHOT_SUFFIX = ''.snap''"

definition snapshot_file_name :: "u64 \<Rightarrow> u64 \<Rightarrow> string" where
  "snapshot_file_name index term =
     SNAPSHOT_PREFIX @ pad_digits 20 (unat index) @ ''-'' @ pad_digits 20 (unat term) @ SNAPSHOT_SUFFIX"

definition parse_snapshot_file_name :: "string \<Rightarrow> (u64 \<times> u64) option" where
  "parse_snapshot_file_name name =
     Option.bind (strip_prefix SNAPSHOT_PREFIX name) (\<lambda>rest.
     Option.bind (strip_suffix SNAPSHOT_SUFFIX rest) (\<lambda>body.
     Option.bind (split_once CHR ''-'' body) (\<lambda>(index_str, term_str).
       if length index_str \<noteq> 20 \<or> length term_str \<noteq> 20 then None
       else
         Option.bind (parse_u64 index_str) (\<lambda>index.
         Option.bind (parse_u64 term_str) (\<lambda>term.
           Some (index, term))))))"

subsection \<open>Round trips\<close>

lemma strip_prefix_append [simp]: "strip_prefix p (p @ s) = Some s"
  by (simp add: strip_prefix_def)

lemma strip_suffix_append [simp]: "strip_suffix p (s @ p) = Some s"
  by (simp add: strip_suffix_def)

lemma strip_prefix_eq_Some: "strip_prefix p s = Some t \<longleftrightarrow> s = p @ t"
  by (auto simp: strip_prefix_def) (metis append_take_drop_id)

lemma strip_suffix_eq_Some: "strip_suffix p s = Some t \<longleftrightarrow> s = t @ p"
  by (auto simp: strip_suffix_def) (metis append_take_drop_id)

lemma length_pad_digits [simp]: "length (pad_digits w n) = w"
  by (induction w n rule: pad_digits.induct) auto

lemma digit_val_char [simp]: "d < 10 \<Longrightarrow> digit_val (digit_char d) = Some d"
  by (simp add: digit_val_def digit_char_def)

lemma digits_val_append:
  "digits_val acc (xs @ ys) = Option.bind (digits_val acc xs) (\<lambda>a. digits_val a ys)"
  by (induction acc xs rule: digits_val.induct) (auto split: option.splits)

lemma digits_val_pad: "digits_val acc (pad_digits w n) = Some (acc * 10 ^ w + n mod 10 ^ w)"
proof (induction w n rule: pad_digits.induct)
  case (2 w n)
  have "n mod 10 ^ Suc w = 10 * (n div 10 mod 10 ^ w) + n mod 10"
    using mod_mult2_eq [of n 10 "10 ^ w"] by (simp add: mult.commute)
  with 2 show ?case by (simp add: digits_val_append algebra_simps)
qed simp

lemma digit_char_neq [simp]: "d < 10 \<Longrightarrow> digit_char d \<noteq> CHR ''+''" "d < 10 \<Longrightarrow> digit_char d \<noteq> CHR ''-''"
  using digit_val_char [of d] by (auto simp: digit_val_def simp del: digit_val_char)

lemma set_pad_digits: "c \<in> set (pad_digits w n) \<Longrightarrow> \<exists>d < 10. c = digit_char d"
  by (induction w n rule: pad_digits.induct) force+

lemma parse_u64_digits:
  assumes "ds \<noteq> []" "CHR ''+'' \<notin> set ds"
  shows "parse_u64 ds = (case digits_val 0 ds of None \<Rightarrow> None
    | Some n \<Rightarrow> if n < 2 ^ 64 then Some (of_nat n) else None)"
  using assms by (cases ds) (auto simp: parse_u64_def Let_def)

lemma unat64_less: "unat (w :: u64) < 10 ^ 20"
  using unsigned_less [of w, where 'a = nat] by simp

lemma parse_u64_pad [simp]: "parse_u64 (pad_digits 20 (unat (w :: u64))) = Some w"
proof -
  have "pad_digits 20 (unat w) \<noteq> []"
    by (metis length_pad_digits list.size(3) zero_neq_numeral)
  moreover have "CHR ''+'' \<notin> set (pad_digits 20 (unat w))"
    using set_pad_digits digit_char_neq(1) by metis
  moreover have "unat w mod 10 ^ 20 = unat w" using unat64_less [of w] by simp
  ultimately show ?thesis
    using unsigned_less [of w, where 'a = nat]
    by (simp add: parse_u64_digits digits_val_pad del: pad_digits.simps)
qed

lemma split_once_fresh: "d \<notin> set xs \<Longrightarrow> split_once d (xs @ d # ys) = Some (xs, ys)"
  by (induction xs) auto

lemma parse_segment_name_segment_name [simp]: "parse_segment_name (segment_name i) = Inr i"
proof -
  have "strip_suffix SEGMENT_SUFFIX (segment_name i) = Some (SEGMENT_PREFIX @ pad_digits 20 (unat i))"
    by (simp add: strip_suffix_eq_Some segment_name_def SEGMENT_DIGITS_def)
  then show ?thesis
    by (simp add: parse_segment_name_def SEGMENT_DIGITS_def)
qed

lemma parse_snapshot_file_name_snapshot_file_name [simp]:
  "parse_snapshot_file_name (snapshot_file_name i t) = Some (i, t)"
proof -
  have "CHR ''-'' \<notin> set (pad_digits 20 (unat i))"
    using set_pad_digits digit_char_neq(2) by metis
  moreover have "strip_prefix SNAPSHOT_PREFIX (snapshot_file_name i t) =
      Some ((pad_digits 20 (unat i) @ ''-'' @ pad_digits 20 (unat t)) @ SNAPSHOT_SUFFIX)"
    by (simp add: strip_prefix_eq_Some snapshot_file_name_def)
  moreover have "strip_suffix SNAPSHOT_SUFFIX
      ((pad_digits 20 (unat i) @ ''-'' @ pad_digits 20 (unat t)) @ SNAPSHOT_SUFFIX) =
      Some (pad_digits 20 (unat i) @ ''-'' @ pad_digits 20 (unat t))"
    by (rule strip_suffix_append)
  ultimately show ?thesis
    by (simp add: parse_snapshot_file_name_def split_once_fresh)
qed

lemma segment_name_inject [simp]: "segment_name i = segment_name j \<longleftrightarrow> i = j"
  by (metis parse_segment_name_segment_name sum.inject(2))

subsection \<open>Which names are accepted\<close>

lemma digit_val_eq_Some: "digit_val c = Some d \<longleftrightarrow> d < 10 \<and> c = digit_char d"
proof
  assume "digit_val c = Some d"
  then have "48 \<le> (of_char c :: nat)" "(of_char c :: nat) \<le> 57" "d = of_char c - 48"
    by (auto simp: digit_val_def split: if_splits)
  then have "48 + d = of_char c" "d < 10" by auto
  then show "d < 10 \<and> c = digit_char d"
    by (simp add: digit_char_def)
qed auto

lemma digits_val_canonical:
  "digits_val 0 ds = Some n \<Longrightarrow> ds = pad_digits (length ds) n \<and> n < 10 ^ length ds"
proof (induction ds arbitrary: n rule: rev_induct)
  case (snoc c ds)
  then obtain a d where "digits_val 0 ds = Some a" "digit_val c = Some d" "n = a * 10 + d"
    by (auto simp: digits_val_append bind_eq_Some_conv split: option.splits)
  with snoc.IH show ?case by (auto simp: digit_val_eq_Some)
qed simp

lemma parse_u64_canonical:
  assumes "parse_u64 s = Some w"
  shows "s = pad_digits (length s) (unat w) \<or>
    (\<exists>k. length s = Suc k \<and> s = CHR ''+'' # pad_digits k (unat w) \<and> unat w < 10 ^ k)"
proof -
  define ds where "ds = (case s of c # cs \<Rightarrow> if c = CHR ''+'' then cs else s | [] \<Rightarrow> [])"
  from assms obtain n where n: "digits_val 0 ds = Some n" "n < 2 ^ 64" "w = of_nat n"
    by (auto simp: parse_u64_def Let_def ds_def [symmetric] split: if_splits option.splits)
  then have "unat w = n" by (simp add: unat_of_nat)
  with digits_val_canonical [OF n(1)] show ?thesis
    by (cases s) (auto simp: ds_def split: if_splits)
qed

subsection \<open>Properties\<close>

text \<open>
  Which names are segment files.  The parser reads every name the writer produces back
  to its index.  The only other names it accepts are those with a plus sign in place of the
  leading digit; such a name is not the name of any segment.
\<close>

theorem segment_names_accepted:
  "parse_segment_name name = Inr i \<longleftrightarrow>
     name = segment_name i \<or>
     (unat i < 10 ^ 19 \<and> name = ''wal-+'' @ pad_digits 19 (unat i) @ ''.log'' \<and>
      (\<forall>j. name \<noteq> segment_name j))"
proof
  assume "parse_segment_name name = Inr i"
  then obtain ds where name: "name = ''wal-'' @ ds @ ''.log''" and len: "length ds = 20"
    and ds: "parse_u64 ds = Some i"
    by (auto simp: parse_segment_name_def res_simps strip_suffix_eq_Some strip_prefix_eq_Some
        SEGMENT_PREFIX_def SEGMENT_SUFFIX_def SEGMENT_DIGITS_def)
  from parse_u64_canonical [OF ds] show "name = segment_name i \<or>
     (unat i < 10 ^ 19 \<and> name = ''wal-+'' @ pad_digits 19 (unat i) @ ''.log'' \<and>
      (\<forall>j. name \<noteq> segment_name j))"
  proof (elim disjE exE conjE)
    assume "ds = pad_digits (length ds) (unat i)"
    with name len show ?thesis
      by (simp add: segment_name_def SEGMENT_PREFIX_def SEGMENT_SUFFIX_def SEGMENT_DIGITS_def)
  next
    fix k assume k: "length ds = Suc k" "ds = CHR ''+'' # pad_digits k (unat i)" "unat i < 10 ^ k"
    have "k = 19" using k(1) len by simp
    moreover have "name \<noteq> segment_name j" for j
    proof
      assume "name = segment_name j"
      then have "ds = pad_digits 20 (unat j)"
        by (simp add: name segment_name_def SEGMENT_PREFIX_def SEGMENT_SUFFIX_def SEGMENT_DIGITS_def)
      then have "CHR ''+'' \<in> set (pad_digits 20 (unat j))" using k(2) by (metis list.set_intros(1))
      then show False using set_pad_digits digit_char_neq(1) by metis
    qed
    ultimately show ?thesis using name k by simp
  qed
next
  have plus: "parse_u64 (CHR ''+'' # pad_digits 19 (unat i)) = Some i" if "unat i < 10 ^ 19"
    using that unsigned_less [of i, where 'a = nat]
    by (simp add: parse_u64_def Let_def digits_val_pad flip: length_0_conv del: pad_digits.simps)
  have "parse_segment_name (''wal-'' @ ds @ ''.log'') =
      (if length ds \<noteq> 20 then Inl (DigitCount (length ds)) else ok_or NotANumber (parse_u64 ds))" for ds
    using strip_suffix_append [of "''.log''" "''wal-'' @ ds"] strip_prefix_append [of "''wal-''" ds]
    by (simp add: parse_segment_name_def SEGMENT_PREFIX_def SEGMENT_SUFFIX_def SEGMENT_DIGITS_def)
  from this [of "CHR ''+'' # pad_digits 19 (unat i)"] plus
  show "name = segment_name i \<or>
     (unat i < 10 ^ 19 \<and> name = ''wal-+'' @ pad_digits 19 (unat i) @ ''.log'' \<and>
      (\<forall>j. name \<noteq> segment_name j)) \<Longrightarrow> parse_segment_name name = Inr i"
    by auto
qed

text \<open>
  Snapshot file names round-trip: the parser returns the index and term the name was
  made from, so two snapshots never share a name.
\<close>

theorem snapshot_names_round_trip:
  "parse_snapshot_file_name (snapshot_file_name i t) = Some (i, t) \<and>
   (snapshot_file_name i t = snapshot_file_name i' t' \<longleftrightarrow> i = i' \<and> t = t')"
  by (metis option.inject prod.inject parse_snapshot_file_name_snapshot_file_name)

end
