(* ===== verification/Crc32c.thy ===== *)
theory Crc32c
  imports Prelude
begin

text \<open>
  The checksum of every record and file the storage layer writes
  (\<open>arachne/src/storage/crc32c.rs\<close>): reflected CRC32C (Castagnoli), driven by a 256-entry
  table.  The model follows the code: \<open>crc_bits\<close> is the inner loop of the table builder,
  \<open>make_table\<close> the table, \<open>crc32c\<close> the byte loop.  The lemmas relate the table-driven loop to
  the bit-serial register it abbreviates, and show which corruptions the checksum must
  detect.
\<close>

unbundle bit_operations_syntax

definition POLY :: u32 where "POLY = 0x82F63B78"

text \<open>One iteration of the inner loop of \<open>make_table\<close>, and \<open>j\<close> iterations.\<close>

definition crc_bit :: "u32 \<Rightarrow> u32" where
  "crc_bit crc = (if crc AND 1 \<noteq> 0 then drop_bit 1 crc XOR POLY else drop_bit 1 crc)"

primrec crc_bits :: "nat \<Rightarrow> u32 \<Rightarrow> u32" where
  "crc_bits 0 crc = crc"
| "crc_bits (Suc j) crc = crc_bits j (crc_bit crc)"

definition make_table :: "u32 list" where
  "make_table = map (\<lambda>i. crc_bits 8 (of_nat i)) [0..<256]"

definition crc_byte :: "u8 \<Rightarrow> u32 \<Rightarrow> u32" where
  "crc_byte byte crc =
     (let index = unat ((crc XOR ucast byte) AND 0xFF)
      in drop_bit 8 crc XOR (make_table ! index))"

definition crc32c :: "bytes \<Rightarrow> u32" where
  "crc32c data = fold crc_byte data 0xFFFFFFFF XOR 0xFFFFFFFF"

text \<open>The reference: feed the register bit by bit.\<close>

definition crc32c_bitwise :: "bytes \<Rightarrow> u32" where
  "crc32c_bitwise data =
     fold (\<lambda>byte crc. crc_bits 8 (crc XOR ucast byte)) data 0xFFFFFFFF XOR 0xFFFFFFFF"

subsection \<open>The register is linear and injective\<close>

lemma and_one_neq_zero: "(c AND 1 \<noteq> (0::u32)) \<longleftrightarrow> bit c 0"
  by (simp only: and_one_eq mod_2_eq_odd bit_0) simp

lemma crc_bit_alt: "crc_bit c = drop_bit 1 c XOR (if bit c 0 then POLY else 0)"
  by (simp add: crc_bit_def and_one_neq_zero)

lemma xor_left_self: "a XOR (a XOR b) = b" for a b :: u32
  by (simp only: xor.assoc [symmetric] xor_self_eq xor.left_neutral)

lemma crc_bit_xor: "crc_bit (a XOR b) = crc_bit a XOR crc_bit b"
  by (cases "bit a 0"; cases "bit b 0")
    (simp_all only: crc_bit_alt bit_xor_iff drop_bit_xor if_True if_False simp_thms
      xor.right_neutral xor.left_neutral xor.assoc xor.commute xor.left_commute xor_self_eq
      xor_left_self)

lemma crc_bits_xor: "crc_bits n (a XOR b) = crc_bits n a XOR crc_bits n b"
  by (induction n arbitrary: a b) (auto simp: crc_bit_xor)

lemma xor_cancel_right: "a XOR c = b XOR c \<longleftrightarrow> a = b" for a b c :: u32
proof
  assume "a XOR c = b XOR c"
  then have "(a XOR c) XOR c = (b XOR c) XOR c" by (rule arg_cong)
  then show "a = b" by (simp only: xor.assoc xor_self_eq xor.right_neutral)
qed simp

lemma xor_cancel_left: "c XOR a = c XOR b \<longleftrightarrow> a = b" for a b c :: u32
  by (simp only: xor.commute [of c] xor_cancel_right)

lemmas xor_cancel = xor_cancel_right xor_cancel_left

lemma POLY_top: "bit POLY 31"
  by (simp add: POLY_def)

lemma crc_bit_zero: "crc_bit c = 0 \<Longrightarrow> c = 0"
proof -
  assume z: "crc_bit c = 0"
  have no: "\<not> bit c 0"
  proof
    assume "bit c 0"
    with z have "drop_bit 1 c XOR POLY = 0" by (simp add: crc_bit_alt)
    then have "drop_bit 1 c XOR POLY = POLY XOR POLY" by simp
    then have "drop_bit 1 c = POLY" by (simp only: xor_cancel)
    moreover have "\<not> bit (drop_bit 1 c) 31"
      using bit_imp_le_length [of c 32] by (auto simp: bit_drop_bit_eq)
    ultimately show False using POLY_top by metis
  qed
  with z have d: "drop_bit 1 c = 0" by (simp add: crc_bit_alt)
  show "c = 0"
  proof (rule bit_word_eqI)
    fix n assume "n < LENGTH(32)"
    show "bit c n = bit 0 n"
    proof (cases n)
      case 0
      then show ?thesis using no by simp
    next
      case (Suc m)
      have "bit (drop_bit 1 c) m = bit c (Suc m)" by (simp add: bit_simps)
      with d Suc show ?thesis by simp
    qed
  qed
qed

lemma crc_bits_zero: "crc_bits n c = 0 \<Longrightarrow> c = 0"
  by (induction n arbitrary: c) (auto dest: crc_bit_zero)

lemma crc_bits_inject: "crc_bits n a = crc_bits n b \<longleftrightarrow> a = b"
proof
  assume "crc_bits n a = crc_bits n b"
  then have "crc_bits n (a XOR b) = 0" by (simp add: crc_bits_xor)
  then have "a XOR b = b XOR b" by (simp add: crc_bits_zero)
  then show "a = b" by (simp only: xor_cancel)
qed simp

lemma crc_bits_low_zero: "(\<And>i. i < n \<Longrightarrow> \<not> bit c i) \<Longrightarrow> crc_bits n c = drop_bit n c"
proof (induction n arbitrary: c)
  case 0
  then show ?case by simp
next
  case (Suc n)
  have "crc_bit c = drop_bit 1 c" using Suc.prems [of 0] by (simp add: crc_bit_alt)
  moreover have "crc_bits n (drop_bit 1 c) = drop_bit n (drop_bit 1 c)"
    by (rule Suc.IH) (use Suc.prems in \<open>auto simp: bit_simps\<close>)
  ultimately show ?case by (simp add: drop_bit_drop_bit)
qed

subsection \<open>The table-driven loop is the bit-serial register\<close>

lemma low_byte_mask: "(0xFF :: u32) = mask 8"
  by (simp add: mask_eq_exp_minus_1)

lemma unat_low_byte: "unat (c AND (mask 8 :: u32)) < 256"
proof -
  have "c AND mask 8 \<le> (mask 8 :: u32)" by (rule word_and_le1)
  then have "unat (c AND mask 8) \<le> unat (mask 8 :: u32)" by (simp only: word_le_nat_alt)
  also have "unat (mask 8 :: u32) = 255" by (simp add: mask_eq_exp_minus_1)
  finally show ?thesis by simp
qed

lemma crc_byte_eq: "crc_byte b c = crc_bits 8 (c XOR ucast b)"
proof -
  let ?x = "c XOR ucast b" and ?m = "mask 8 :: u32"
  have "?x = (?x AND NOT ?m) XOR (?x AND ?m)"
    by (rule bit_word_eqI) (auto simp: bit_simps)
  then have "crc_bits 8 ?x = crc_bits 8 ((?x AND NOT ?m) XOR (?x AND ?m))"
    by (rule arg_cong)
  then have "crc_bits 8 ?x = crc_bits 8 (?x AND NOT ?m) XOR crc_bits 8 (?x AND ?m)"
    by (simp only: crc_bits_xor)
  also have "crc_bits 8 (?x AND NOT ?m) = drop_bit 8 (?x AND NOT ?m)"
    by (rule crc_bits_low_zero) (auto simp: bit_simps)
  also have "drop_bit 8 (?x AND NOT ?m) = drop_bit 8 c"
    by (rule bit_word_eqI) (auto simp: bit_simps dest: bit_imp_le_length)
  also have "crc_bits 8 (?x AND ?m) = make_table ! unat (?x AND ?m)"
    using unat_low_byte [of ?x] by (simp add: make_table_def)
  finally show ?thesis by (simp only: crc_byte_def Let_def low_byte_mask)
qed

lemma crc32c_eq_bitwise: "crc32c data = crc32c_bitwise data"
  by (simp add: crc32c_def crc32c_bitwise_def crc_byte_eq [abs_def])

subsection \<open>Burst errors are detected\<close>

text \<open>A run of at most four bytes enters the register as one little-endian word.\<close>

lemma bit_of_le_bytes_bound: "bit (of_le_bytes bs :: u32) j \<Longrightarrow> j < 8 * length bs"
  by (induction bs arbitrary: j) (force simp: bit_simps dest: bit_imp_le_length)+

lemma fold_crc_byte_word:
  "length bs \<le> 4 \<Longrightarrow> fold crc_byte bs c = crc_bits (8 * length bs) (c XOR of_le_bytes bs)"
proof (induction bs arbitrary: c)
  case Nil
  then show ?case by simp
next
  case (Cons b bs)
  let ?r = "of_le_bytes bs :: u32"
  have r: "crc_bits 8 (push_bit 8 ?r) = ?r"
  proof -
    have "crc_bits 8 (push_bit 8 ?r) = drop_bit 8 (push_bit 8 ?r)"
      by (rule crc_bits_low_zero) (simp add: bit_simps)
    also have "\<dots> = ?r"
      using Cons.prems bit_of_le_bytes_bound [of bs]
      by (intro bit_word_eqI) (force simp: bit_simps)
    finally show ?thesis .
  qed
  have split: "c XOR of_le_bytes (b # bs) = (c XOR ucast b) XOR push_bit 8 ?r"
    by (rule bit_word_eqI) (auto simp: bit_simps dest: bit_imp_le_length)
  have "fold crc_byte (b # bs) c = crc_bits (8 * length bs) (crc_bits 8 (c XOR ucast b) XOR ?r)"
    using Cons.prems by (simp add: Cons.IH crc_byte_eq [of b])
  also have "crc_bits 8 (c XOR ucast b) XOR ?r = crc_bits 8 (c XOR of_le_bytes (b # bs))"
    by (simp add: split crc_bits_xor r del: of_le_bytes.simps)
  also have "crc_bits (8 * length bs) (crc_bits 8 (c XOR of_le_bytes (b # bs))) =
      crc_bits (8 + 8 * length bs) (c XOR of_le_bytes (b # bs))"
    by (simp add: eval_nat_numeral)
  finally show ?case by simp
qed

lemma fold_crc_byte_inject: "fold crc_byte s c = fold crc_byte s c' \<longleftrightarrow> c = c'"
proof (induction s arbitrary: c c')
  case (Cons b s)
  then show ?case by (simp add: crc_byte_eq crc_bits_inject xor_cancel)
qed simp

lemma of_le_bytes_inject:
  assumes "length x = length y" "length x \<le> 4" "(of_le_bytes x :: u32) = of_le_bytes y"
  shows "x = y"
proof -
  have "x = le_bytes (length x) (of_le_bytes x :: u32)"
    using assms(2) by (simp add: le_bytes_of_le_bytes)
  moreover have "y = le_bytes (length y) (of_le_bytes y :: u32)"
    using assms(1,2) by (simp add: le_bytes_of_le_bytes)
  ultimately show ?thesis
    using assms(1,3) by simp
qed

lemma crc32c_burst:
  assumes "length x = length y" "length x \<le> 4"
  shows "crc32c (p @ x @ s) = crc32c (p @ y @ s) \<longleftrightarrow> x = y"
proof -
  have "crc32c (p @ x @ s) = crc32c (p @ y @ s) \<longleftrightarrow>
      fold crc_byte (p @ x @ s) 0xFFFFFFFF = fold crc_byte (p @ y @ s) 0xFFFFFFFF"
    by (simp only: crc32c_def xor_cancel)
  also have "\<dots> \<longleftrightarrow> (of_le_bytes x :: u32) = of_le_bytes y"
    using assms
    by (simp add: fold_crc_byte_inject fold_crc_byte_word crc_bits_inject xor_cancel)
  also have "\<dots> \<longleftrightarrow> x = y"
    using of_le_bytes_inject [OF assms] by blast
  finally show ?thesis .
qed

subsection \<open>Properties\<close>

text \<open>
  C36: the table-driven checksum is the bit-serial one, on every input.
\<close>

theorem crc32c_table_is_bitwise: "crc32c data = crc32c_bitwise data"
  by (rule crc32c_eq_bitwise)

text \<open>
  C35: replacing up to four consecutive bytes of the data by different ones always changes
  the checksum.
\<close>

theorem crc32c_detects_bursts:
  assumes "length x = length y" "length x \<le> 4" "x \<noteq> y"
  shows "crc32c (p @ x @ s) \<noteq> crc32c (p @ y @ s)"
  using crc32c_burst [OF assms(1,2)] assms(3) by blast

theorem crc32c_detects_bursts_witness: "crc32c ([1] @ [2, 3] @ [4]) \<noteq> crc32c ([1] @ [9, 3] @ [4])"
  by (rule crc32c_detects_bursts) simp_all

end
