(* ===== verification/RecordFormat.thy ===== *)
theory RecordFormat
  imports Crc32c
begin

text \<open>
  The framing of write-ahead-log records and the typed payloads
  (\<open>arachne/src/storage/format.rs\<close>).  A record is
  \<open>[u32 len][u32 crc32c][u8 type][payload]\<close>; \<open>len\<close> counts the type byte and the payload.
  The definitions keep the order of the checks of the code, so that every malformed input
  has the error the code reports for it.  The lemmas show that the decoder accepts exactly
  the images of the encoder, that a cut record is never accepted, and that damage to a
  record is reported.
\<close>

definition MAX_RECORD_BYTES :: u32 where
  "MAX_RECORD_BYTES = 64 * 1024 * 1024"

datatype RecordType = Entry | HardState | Meta

datatype DecodeError =
    TooShort
  | BadLength
  | ChecksumMismatch (expected: u32) (actual: u32)
  | UnknownRecordType u8
  | UnsupportedRecordType RecordType
  | TrailingBytes

definition record_type_try_from :: "u8 \<Rightarrow> DecodeError + RecordType" where
  "record_type_try_from value =
     (if value = 0x01 then Inr Entry
      else if value = 0x02 then Inr HardState
      else if value = 0x03 then Inr Meta
      else Inl (UnknownRecordType value))"

fun record_type_byte :: "RecordType \<Rightarrow> u8" where
  "record_type_byte Entry = 0x01"
| "record_type_byte HardState = 0x02"
| "record_type_byte Meta = 0x03"

definition encode_record :: "RecordType \<Rightarrow> bytes \<Rightarrow> bytes" where
  "encode_record record_type payload =
     (let body_len = (of_nat (1 + length payload) :: u32);
          body = record_type_byte record_type # payload;
          crc = crc32c body
      in le32 body_len @ le32 crc @ body)"

definition decode_record :: "bytes \<Rightarrow> DecodeError + (RecordType \<times> bytes)" where
  "decode_record buf =
     (if length buf < 8 then Inl TooShort
      else
        let len = of_le32 (take 4 buf);
            stored_crc = of_le32 (take 4 (drop 4 buf))
        in if length buf \<noteq> 8 + unat len then Inl BadLength
           else if len > MAX_RECORD_BYTES then Inl BadLength
           else if len < 1 then Inl TooShort
           else
             let body = drop 8 buf;
                 actual_crc = crc32c body
             in if actual_crc \<noteq> stored_crc then Inl (ChecksumMismatch stored_crc actual_crc)
                else and_then (record_type_try_from (hd body)) (\<lambda>record_type.
                  if record_type = Meta then Inl (UnsupportedRecordType record_type)
                  else Inr (record_type, tl body)))"

text \<open>
  Little-endian reads at an offset.  The code's \<open>checked_add\<close> guards against a \<open>usize\<close>
  overflow of the offset; offsets are natural numbers here, and every offset the readers
  pass is at most the length of the buffer.
\<close>

definition le32_at :: "bytes \<Rightarrow> nat \<Rightarrow> DecodeError + u32" where
  "le32_at buf offset =
     (if length buf < offset + 4 then Inl TooShort
      else Inr (of_le32 (take 4 (drop offset buf))))"

definition le64_at :: "bytes \<Rightarrow> nat \<Rightarrow> DecodeError + u64" where
  "le64_at buf offset =
     (if length buf < offset + 8 then Inl TooShort
      else Inr (of_le64 (take 8 (drop offset buf))))"

definition encode_entry :: "u64 \<Rightarrow> u64 \<Rightarrow> u8 \<Rightarrow> bytes \<Rightarrow> bytes" where
  "encode_entry index term entry_type data = le64 index @ le64 term @ entry_type # data"

definition decode_entry :: "bytes \<Rightarrow> DecodeError + (u64 \<times> u64 \<times> u8 \<times> bytes)" where
  "decode_entry payload =
     (if length payload < 17 then Inl TooShort
      else
        and_then (le64_at payload 0) (\<lambda>index.
        and_then (le64_at payload 8) (\<lambda>term.
          Inr (index, term, payload ! 16, drop 17 payload))))"

definition encode_hard_state :: "u64 \<Rightarrow> u64 option \<Rightarrow> u64 \<Rightarrow> bytes" where
  "encode_hard_state term vote commit =
     le64 term @
     (case vote of Some v \<Rightarrow> 1 # le64 v | None \<Rightarrow> 0 # le64 0) @
     le64 commit"

definition decode_hard_state :: "bytes \<Rightarrow> DecodeError + (u64 \<times> u64 option \<times> u64)" where
  "decode_hard_state payload =
     (if length payload < 25 then Inl TooShort
      else
        and_then (le64_at payload 0) (\<lambda>term.
        and_then (if payload ! 8 = 1 then and_then (le64_at payload 9) (\<lambda>v. Inr (Some v))
                  else Inr None) (\<lambda>vote.
        and_then (le64_at payload 17) (\<lambda>commit.
          Inr (term, vote, commit)))))"

definition encode_id_list :: "u64 list \<Rightarrow> bytes" where
  "encode_id_list ids = le32 (len32 ids) @ concat (map le64 ids)"

definition encode_conf_state :: "u64 \<Rightarrow> u64 list \<Rightarrow> u64 list \<Rightarrow> bytes" where
  "encode_conf_state conf_change_index voters learners =
     le64 conf_change_index @ encode_id_list voters @ encode_id_list learners"

text \<open>The loop of \<open>read_id_list\<close>: \<open>n\<close> more ids at \<open>cursor\<close>.\<close>

fun read_ids :: "bytes \<Rightarrow> nat \<Rightarrow> nat \<Rightarrow> DecodeError + (u64 list \<times> nat)" where
  "read_ids payload 0 cursor = Inr ([], cursor)"
| "read_ids payload (Suc n) cursor =
     and_then (le64_at payload cursor) (\<lambda>id.
     and_then (read_ids payload n (cursor + 8)) (\<lambda>(ids, end').
       Inr (id # ids, end')))"

definition read_id_list :: "bytes \<Rightarrow> nat \<Rightarrow> DecodeError + (u64 list \<times> nat)" where
  "read_id_list payload offset =
     and_then (le32_at payload offset) (\<lambda>len. read_ids payload (unat len) (offset + 4))"

definition decode_conf_state :: "bytes \<Rightarrow> DecodeError + (u64 \<times> u64 list \<times> u64 list)" where
  "decode_conf_state payload =
     and_then (le64_at payload 0) (\<lambda>conf_change_index.
     and_then (read_id_list payload 8) (\<lambda>(voters, cursor).
     and_then (read_id_list payload cursor) (\<lambda>(learners, _).
       Inr (conf_change_index, voters, learners))))"

subsection \<open>Records\<close>

lemma record_type_roundtrip [simp]: "record_type_try_from (record_type_byte t) = Inr t"
  by (cases t) (simp_all add: record_type_try_from_def)

lemma record_type_try_from_eq_Inr [res_simps]:
  "record_type_try_from b = Inr t \<longleftrightarrow> b = record_type_byte t"
  by (cases t) (auto simp: record_type_try_from_def)

lemma length_encode_record [simp]: "length (encode_record t p) = 9 + length p"
  by (simp add: encode_record_def Let_def)

lemma unat_MAX_RECORD_BYTES [simp]: "unat MAX_RECORD_BYTES = 67108864"
  by (simp add: MAX_RECORD_BYTES_def)

lemma record_len_le_max:
  assumes "n < 2 ^ 32"
  shows "(of_nat n :: u32) \<le> MAX_RECORD_BYTES \<longleftrightarrow> n \<le> 67108864"
  using assms by (simp add: word_le_nat_alt unat_of_nat)

lemma decode_encode_record [codec]:
  assumes "t \<noteq> Meta" "length p < 67108864"
  shows "decode_record (encode_record t p) = Inr (t, p)"
proof -
  have "(of_nat (1 + length p) :: u32) \<le> MAX_RECORD_BYTES"
    using assms(2) by (subst record_len_le_max) auto
  moreover have "unat (of_nat (1 + length p) :: u32) = 1 + length p"
    using assms(2) by (simp only: unat_of_nat) simp
  moreover from this have "\<not> (of_nat (1 + length p) :: u32) < 1"
    by (simp add: word_less_nat_alt)
  ultimately show ?thesis
    using assms(1) by (simp add: decode_record_def encode_record_def Let_def not_less)
qed

lemma split_header: "buf = take 4 buf @ take 4 (drop 4 buf) @ drop 8 buf"
  using append_take_drop_id [of 4 "drop 4 buf"] by simp

lemma decode_record_eq_Inr [res_simps]:
  "decode_record buf = Inr (t, p) \<longleftrightarrow>
     \<not> length buf < 8 \<and> length buf = 8 + unat (of_le32 (take 4 buf)) \<and>
     \<not> MAX_RECORD_BYTES < of_le32 (take 4 buf) \<and> \<not> of_le32 (take 4 buf) < 1 \<and>
     crc32c (drop 8 buf) = of_le32 (take 4 (drop 4 buf)) \<and>
     hd (drop 8 buf) = record_type_byte t \<and> t \<noteq> Meta \<and> tl (drop 8 buf) = p"
  unfolding decode_record_def Let_def
  by (simp only: res_simps sum.inject prod.inject) blast

lemma decode_record_canonical:
  assumes "decode_record buf = Inr (t, p)"
  shows "t \<noteq> Meta \<and> length p < 67108864 \<and> buf = encode_record t p"
proof -
  define len where "len = of_le32 (take 4 buf)"
  from assms have 8: "\<not> length buf < 8" and len: "length buf = 8 + unat len"
    and max: "\<not> MAX_RECORD_BYTES < len" and pos: "\<not> len < 1"
    and crc: "crc32c (drop 8 buf) = of_le32 (take 4 (drop 4 buf))"
    and body: "hd (drop 8 buf) = record_type_byte t" "tl (drop 8 buf) = p" and t: "t \<noteq> Meta"
    unfolding decode_record_eq_Inr len_def by blast+
  have "1 \<le> unat len" using pos by (simp add: word_less_nat_alt)
  then have "drop 8 buf \<noteq> []" using len by simp
  then have split: "drop 8 buf = record_type_byte t # p"
    using body by (cases "drop 8 buf") auto
  then have "length (drop 8 buf) = 1 + length p" by simp
  then have p: "unat len = 1 + length p" using len by simp
  have "le32 len = take 4 buf"
    unfolding len_def using 8 by (simp add: le_of_le)
  moreover have "le32 (crc32c (drop 8 buf)) = take 4 (drop 4 buf)"
    unfolding crc using 8 by (simp add: le_of_le)
  moreover have "buf = take 4 buf @ take 4 (drop 4 buf) @ drop 8 buf"
    by (rule split_header)
  moreover have "len = of_nat (1 + length p)"
    unfolding p [symmetric] by simp
  ultimately have "buf = encode_record t p"
    by (simp only: encode_record_def Let_def split [symmetric])
  moreover have "length p < 67108864"
    using max p by (simp add: word_less_nat_alt)
  ultimately show ?thesis using t by blast
qed

lemma decode_record_cut [codec]:
  assumes "length p < 67108864" "k < length (encode_record t p)"
  shows "decode_record (take k (encode_record t p)) = Inl (if k < 8 then TooShort else BadLength)"
proof -
  have "unat (of_nat (1 + length p) :: u32) = 1 + length p"
    using assms(1) by (simp only: unat_of_nat) simp
  moreover have "8 \<le> k \<Longrightarrow> take 4 (take k (encode_record t p)) = le32 (of_nat (1 + length p))"
    by (simp add: encode_record_def Let_def)
  ultimately show ?thesis
    using assms by (simp add: decode_record_def Let_def)
qed

lemma encode_record_split:
  assumes "length h = 8"
  shows "encode_record t p = h @ body \<longleftrightarrow>
    h = le32 (of_nat (length body)) @ le32 (crc32c body) \<and> body = record_type_byte t # p"
proof -
  have "encode_record t p = (le32 (of_nat (1 + length p)) @ le32 (crc32c (record_type_byte t # p)))
      @ (record_type_byte t # p)"
    by (simp add: encode_record_def Let_def)
  also have "\<dots> = h @ body \<longleftrightarrow> le32 (of_nat (1 + length p)) @
      le32 (crc32c (record_type_byte t # p)) = h \<and> record_type_byte t # p = body"
    using assms by (intro append_eq_append_conv) simp
  finally show ?thesis by auto
qed

text \<open>Damage inside the body that does not touch the header.\<close>

lemma decode_record_body_damage:
  assumes rec: "encode_record t p = h @ pre @ x @ suf" and h: "length h = 8"
    and len: "length y = length x" "length x \<le> 4" and neq: "y \<noteq> x"
    and p: "length p < 67108864"
  shows "decode_record (h @ pre @ y @ suf) =
    Inl (ChecksumMismatch (crc32c (pre @ x @ suf)) (crc32c (pre @ y @ suf)))"
proof -
  define b where "b = pre @ x @ suf"
  from rec h have h_eq: "h = le32 (of_nat (length b)) @ le32 (crc32c b)"
    and "b = record_type_byte t # p"
    unfolding b_def [symmetric] by (simp_all only: encode_record_split)
  with p have b: "0 < length b" "length b \<le> 67108864" by auto
  then have "unat (of_nat (length b) :: u32) = length b"
    by (simp only: unat_of_nat) simp
  moreover have "\<not> MAX_RECORD_BYTES < (of_nat (length b) :: u32)"
    using b by (simp add: not_less record_len_le_max)
  moreover have "\<not> (of_nat (length b) :: u32) < 1"
    using calculation(1) b by (simp add: word_less_nat_alt)
  moreover have "crc32c (pre @ y @ suf) \<noteq> crc32c b"
    using len neq by (simp add: b_def crc32c_burst)
  ultimately show ?thesis
    using len by (simp add: decode_record_def Let_def h_eq) (simp add: b_def)
qed

text \<open>Damage inside the header that leaves the body alone.\<close>

lemma decode_record_header_damage:
  assumes rec: "encode_record t p = h @ body" and h: "length h = 8" "length h' = 8"
    and neq: "h' \<noteq> h" and p: "length p < 67108864"
  shows "\<not> is_ok (decode_record (h' @ body))"
proof
  assume "is_ok (decode_record (h' @ body))"
  then obtain t' p' where "decode_record (h' @ body) = Inr (t', p')"
    by (auto simp: is_ok_def split: sum.splits)
  then have "encode_record t' p' = h' @ body" using decode_record_canonical by metis
  with rec h have "h = le32 (of_nat (length body)) @ le32 (crc32c body)"
    and "h' = le32 (of_nat (length body)) @ le32 (crc32c body)"
    by (simp_all add: encode_record_split)
  with neq show False by simp
qed

subsection \<open>Payloads\<close>

lemma le64_at_simps [simp]:
  "le64_at (le64 w @ ys) 0 = Inr w" "le64_at (le64 w) 0 = Inr w"
  "0 < n \<Longrightarrow> le64_at (y # ys) n = le64_at ys (n - 1)"
  "length xs \<le> n \<Longrightarrow> le64_at (xs @ ys) n = le64_at ys (n - length xs)"
  by (auto simp: le64_at_def drop_Cons')

lemma le32_at_simps [simp]:
  "le32_at (le32 w @ ys) 0 = Inr w" "le32_at (le32 w) 0 = Inr w"
  "0 < n \<Longrightarrow> le32_at (y # ys) n = le32_at ys (n - 1)"
  "length xs \<le> n \<Longrightarrow> le32_at (xs @ ys) n = le32_at ys (n - length xs)"
  by (auto simp: le32_at_def drop_Cons')

lemma le64_at_eq_Inr [res_simps]:
  "le64_at buf n = Inr w \<longleftrightarrow> n + 8 \<le> length buf \<and> take 8 (drop n buf) = le64 w"
  by (auto simp: le64_at_def le_of_le)

lemma length_encode_entry [simp]: "length (encode_entry i t ty d) = 17 + length d"
  by (simp add: encode_entry_def)

lemma decode_encode_entry [simp, codec]:
  "decode_entry (encode_entry i t ty d) = Inr (i, t, ty, d)"
  by (simp add: decode_entry_def encode_entry_def nth_append)

lemma decode_entry_canonical:
  assumes "decode_entry p = Inr (i, t, ty, d)"
  shows "p = encode_entry i t ty d"
proof -
  from assms have l: "17 \<le> length p" and "take 8 p = le64 i" "take 8 (drop 8 p) = le64 t"
    and "p ! 16 = ty" "drop 17 p = d"
    by (auto simp: decode_entry_def res_simps)
  moreover have "p = take 8 p @ take 8 (drop 8 p) @ drop 16 p"
    using append_take_drop_id [of 8 "drop 8 p"] by simp
  moreover have "drop 16 p = p ! 16 # drop 17 p"
    using l Cons_nth_drop_Suc [of 16 p] by simp
  ultimately show ?thesis by (simp add: encode_entry_def)
qed

lemma length_encode_hard_state [simp]: "length (encode_hard_state t v c) = 25"
  by (simp add: encode_hard_state_def split: option.splits)

lemma decode_encode_hard_state [simp, codec]:
  "decode_hard_state (encode_hard_state t v c) = Inr (t, v, c)"
  by (cases v) (simp_all add: decode_hard_state_def encode_hard_state_def nth_append)

lemma read_ids_append [codec]:
  "read_ids (pre @ concat (map le64 ids) @ post) (length ids) (length pre) =
     Inr (ids, length pre + 8 * length ids)"
proof (induction ids arbitrary: pre)
  case Nil
  then show ?case by simp
next
  case (Cons id ids)
  show ?case using Cons.IH [of "pre @ le64 id"] by simp
qed

lemma read_id_list_append [codec]:
  assumes "length ids < 2 ^ 32"
  shows "read_id_list (pre @ encode_id_list ids @ post) (length pre) =
     Inr (ids, length pre + 4 + 8 * length ids)"
  using assms read_ids_append [of "pre @ le32 (len32 ids)" ids post]
  by (simp add: read_id_list_def encode_id_list_def)

lemma length_encode_id_list [simp]: "length (encode_id_list ids) = 4 + 8 * length ids"
  by (simp add: encode_id_list_def length_concat comp_def sum_list_triv)

lemma decode_encode_conf_state [codec]:
  assumes "length voters < 2 ^ 32" "length learners < 2 ^ 32"
  shows "decode_conf_state (encode_conf_state i voters learners) = Inr (i, voters, learners)"
  using assms read_id_list_append [of voters "le64 i" "encode_id_list learners"]
    read_id_list_append [of learners "le64 i @ encode_id_list voters" "[]"]
  by (simp add: decode_conf_state_def encode_conf_state_def)

subsection \<open>Properties\<close>

text \<open>
  C28: the record decoder accepts exactly what the encoder writes.  A buffer decodes to a
  record type and payload if and only if it is the encoding of that pair, the type is one
  that is in use, and the body does not exceed \<open>MAX_RECORD_BYTES\<close>.
\<close>

theorem record_decode_iff_encoded:
  "decode_record buf = Inr (t, p) \<longleftrightarrow>
     t \<noteq> Meta \<and> 1 + length p \<le> unat MAX_RECORD_BYTES \<and> buf = encode_record t p"
  using decode_record_canonical [of buf t p] decode_encode_record [of t p] by auto

text \<open>
  C29: damage to a record is reported.  Take a record on disk.  Cut short anywhere, it is
  rejected; with its header overwritten by eight other bytes, it is rejected; with up to
  four consecutive bytes of its body replaced by others, it is rejected with a checksum
  mismatch.
\<close>

theorem record_damage_detected:
  assumes "length p < 67108864" and "encode_record t p = h @ pre @ x @ suf" and "length h = 8"
  shows "(\<forall>k < length (encode_record t p). \<not> is_ok (decode_record (take k (encode_record t p)))) \<and>
    (\<forall>h'. length h' = 8 \<and> h' \<noteq> h \<longrightarrow> \<not> is_ok (decode_record (h' @ pre @ x @ suf))) \<and>
    (length x \<le> 4 \<longrightarrow> (\<forall>y. length y = length x \<and> y \<noteq> x \<longrightarrow>
       decode_record (h @ pre @ y @ suf) =
         Inl (ChecksumMismatch (crc32c (pre @ x @ suf)) (crc32c (pre @ y @ suf)))))"
proof (intro conjI allI impI)
  fix k assume "k < length (encode_record t p)"
  then show "\<not> is_ok (decode_record (take k (encode_record t p)))"
    using decode_record_cut [OF assms(1)] by simp
next
  fix h' :: bytes assume "length h' = 8 \<and> h' \<noteq> h"
  then show "\<not> is_ok (decode_record (h' @ pre @ x @ suf))"
    using decode_record_header_damage [OF assms(2,3)] assms(1) by blast
next
  fix y assume "length x \<le> 4" "length y = length x \<and> y \<noteq> x"
  then show "decode_record (h @ pre @ y @ suf) =
      Inl (ChecksumMismatch (crc32c (pre @ x @ suf)) (crc32c (pre @ y @ suf)))"
    using decode_record_body_damage [OF assms(2,3)] assms(1) by blast
qed

theorem record_damage_detected_witness:
  "\<not> is_ok (decode_record (take 8 (encode_record HardState [7, 8])))"
proof -
  have "encode_record HardState [7, 8] =
      (le32 3 @ le32 (crc32c [2, 7, 8])) @ [2] @ [7] @ [8]"
    by (simp add: encode_record_def Let_def)
  from record_damage_detected [OF _ this] show ?thesis by simp
qed

text \<open>
  The typed payloads survive the log.  Decoding inverts encoding for entries, for hard
  states and for membership tables whose counts fit a \<open>u32\<close>; an entry payload that decodes
  is the encoding of what it decodes to.
\<close>

theorem payload_round_trips:
  assumes "length voters < 2 ^ 32" "length learners < 2 ^ 32"
  shows "decode_entry (encode_entry i t ty d) = Inr (i, t, ty, d) \<and>
    decode_hard_state (encode_hard_state t vote c) = Inr (t, vote, c) \<and>
    decode_conf_state (encode_conf_state i voters learners) = Inr (i, voters, learners) \<and>
    (\<forall>p. decode_entry p = Inr (i, t, ty, d) \<longrightarrow> p = encode_entry i t ty d)"
  using decode_encode_conf_state [OF assms] decode_entry_canonical by simp

theorem payload_round_trips_witness:
  "decode_conf_state (encode_conf_state 9 [1, 2, 3] [4]) = Inr (9, [1, 2, 3], [4])"
  using payload_round_trips [of "[1, 2, 3]" "[4]"] by simp

end
