(* ===== verification/SeamTypes.thy ===== *)
theory SeamTypes
  imports Prelude
begin

text \<open>
  The value types of the storage seam (\<open>arachne-seam/src/storage.rs\<close>): log entries, the hard
  state, the membership and snapshots, as the consensus core and the write-ahead log exchange
  them.
\<close>

datatype EntryType = NormalEntry | ConfChange | ConfChangeV2

record LogEntry =
  le_index :: LogIndex
  le_term :: Term
  le_type :: EntryType
  le_data :: bytes

record HardState =
  hs_term :: Term
  hs_vote :: "RaftId option"
  hs_commit :: LogIndex

record ConfState =
  cs_voters :: "RaftId list"
  cs_learners :: "RaftId list"

record SnapshotMeta =
  sm_index :: LogIndex
  sm_term :: Term
  sm_conf_state :: ConfState

record Snapshot =
  sn_meta :: SnapshotMeta
  sn_data :: bytes

record RaftState =
  rs_hard_state :: HardState
  rs_conf_state :: ConfState

text \<open>\<open>HardState::default()\<close> and \<open>ConfState::default()\<close>.\<close>

definition hs_default :: HardState where
  "hs_default = \<lparr>hs_term = 0, hs_vote = None, hs_commit = 0\<rparr>"

definition cs_default :: ConfState where
  "cs_default = \<lparr>cs_voters = [], cs_learners = []\<rparr>"

text \<open>The wire representation of an entry type; an unknown byte reads as a normal entry.\<close>

definition entry_type_to_seam :: "u8 \<Rightarrow> EntryType" where
  "entry_type_to_seam ety =
     (if ety = 0 then NormalEntry else if ety = 1 then ConfChange
      else if ety = 2 then ConfChangeV2 else NormalEntry)"

fun seam_entry_type_to_u8 :: "EntryType \<Rightarrow> u8" where
  "seam_entry_type_to_u8 NormalEntry = 0"
| "seam_entry_type_to_u8 ConfChange = 1"
| "seam_entry_type_to_u8 ConfChangeV2 = 2"

lemma entry_type_round_trip [simp]: "entry_type_to_seam (seam_entry_type_to_u8 t) = t"
  by (cases t) (simp_all add: entry_type_to_seam_def)

end
