(* ===== verification/StoredFiles.thy ===== *)
theory StoredFiles
  imports FileSystem FileNames RecordFormat SeamTypes
begin

text \<open>
  The three files beside the log: META (\<open>arachne/src/storage/meta.rs\<close>), the membership file
  (\<open>arachne/src/storage/membership.rs\<close>) and snapshot files
  (\<open>arachne/src/storage/snapshot.rs\<close>).  Each has an encoder, a decoder that checks magic,
  version and checksum, and is replaced through a temporary file.

  The locale \<open>durable_file\<close> states what the storage relies on: the decoder inverts the
  encoder, hence a crash at any point of a replacement leaves the old value or the new one.
\<close>

subsection \<open>UTF-8\<close>

text \<open>\<open>String::from_utf8\<close> accepts exactly the well-formed sequences.\<close>

definition utf8_cont :: "u8 \<Rightarrow> bool" where
  "utf8_cont b \<longleftrightarrow> 0x80 \<le> b \<and> b \<le> 0xBF"

fun utf8_valid :: "bytes \<Rightarrow> bool" where
  "utf8_valid [] = True"
| "utf8_valid (a # bs) =
     (if a < 0x80 then utf8_valid bs
      else if 0xC2 \<le> a \<and> a \<le> 0xDF then
        (case bs of b # r \<Rightarrow> utf8_cont b \<and> utf8_valid r | _ \<Rightarrow> False)
      else if 0xE0 \<le> a \<and> a \<le> 0xEF then
        (case bs of b # c # r \<Rightarrow>
           (if a = 0xE0 then 0xA0 \<le> b else True) \<and> (if a = 0xED then b \<le> 0x9F else True) \<and>
           utf8_cont b \<and> utf8_cont c \<and> utf8_valid r
         | _ \<Rightarrow> False)
      else if 0xF0 \<le> a \<and> a \<le> 0xF4 then
        (case bs of b # c # d # r \<Rightarrow>
           (if a = 0xF0 then 0x90 \<le> b else True) \<and> (if a = 0xF4 then b \<le> 0x8F else True) \<and>
           utf8_cont b \<and> utf8_cont c \<and> utf8_cont d \<and> utf8_valid r
         | _ \<Rightarrow> False)
      else False)"

subsection \<open>META\<close>

definition FORMAT_VERSION :: u32 where "FORMAT_VERSION = 4"
definition META_MAGIC :: u32 where "META_MAGIC = 0x4152414D"

text \<open>Rust strings are kept as their UTF-8 bytes.\<close>

record Meta =
  m_cluster_id :: bytes
  m_node_id :: bytes
  m_format_version :: u32
  m_created_at :: u64
  m_snapshot_index :: LogIndex
  m_snapshot_term :: Term

datatype MetaError =
    MetaIo IoError
  | MetaBadMagic
  | MetaChecksumMismatch u32 u32
  | MetaTooShort
  | MetaTruncatedField

definition meta_payload :: "Meta \<Rightarrow> bytes" where
  "meta_payload meta =
     le16 (len16 (m_cluster_id meta)) @ m_cluster_id meta @
     le16 (len16 (m_node_id meta)) @ m_node_id meta @
     le64 (m_created_at meta) @ le64 (m_snapshot_index meta) @ le64 (m_snapshot_term meta)"

definition encode_meta :: "Meta \<Rightarrow> bytes" where
  "encode_meta meta =
     le32 META_MAGIC @ le32 (m_format_version meta) @ le32 (crc32c (meta_payload meta)) @
     meta_payload meta"

definition meta_le16_at :: "bytes \<Rightarrow> nat \<Rightarrow> MetaError + u16" where
  "meta_le16_at buf offset =
     (if length buf < offset + 2 then Inl MetaTruncatedField
      else Inr (of_le16 (take 2 (drop offset buf))))"

definition meta_le32_at :: "bytes \<Rightarrow> nat \<Rightarrow> MetaError + u32" where
  "meta_le32_at buf offset =
     (if length buf < offset + 4 then Inl MetaTruncatedField
      else Inr (of_le32 (take 4 (drop offset buf))))"

definition meta_le64_at :: "bytes \<Rightarrow> nat \<Rightarrow> MetaError + u64" where
  "meta_le64_at buf offset =
     (if length buf < offset + 8 then Inl MetaTruncatedField
      else Inr (of_le64 (take 8 (drop offset buf))))"

definition from_utf8 :: "bytes \<Rightarrow> MetaError + bytes" where
  "from_utf8 bs = (if utf8_valid bs then Inr bs else Inl MetaTruncatedField)"

definition decode_meta :: "bytes \<Rightarrow> MetaError + Meta" where
  "decode_meta buf =
     (if length buf < 24 then Inl MetaTooShort
      else
        and_then (meta_le32_at buf 0) (\<lambda>magic.
        if magic \<noteq> META_MAGIC then Inl MetaBadMagic
        else
          and_then (meta_le32_at buf 4) (\<lambda>format_version.
          and_then (meta_le32_at buf 8) (\<lambda>stored_crc.
          let payload = drop 12 buf;
              actual_crc = crc32c payload
          in if actual_crc \<noteq> stored_crc then Inl (MetaChecksumMismatch stored_crc actual_crc)
             else if length payload < 12 then Inl MetaTruncatedField
             else
               and_then (meta_le16_at payload 0) (\<lambda>cl.
               let cluster_len = unat cl in
               if length payload < 2 + cluster_len + 2 + 8 then Inl MetaTruncatedField
               else
                 and_then (from_utf8 (take cluster_len (drop 2 payload))) (\<lambda>cluster_id.
                 let node_offset = 2 + cluster_len in
                 and_then (meta_le16_at payload node_offset) (\<lambda>nl.
                 let node_len = unat nl in
                 if length payload < node_offset + 2 + node_len + 8 then Inl MetaTruncatedField
                 else
                   and_then (from_utf8 (take node_len (drop (node_offset + 2) payload))) (\<lambda>node_id.
                   let created_at_offset = node_offset + 2 + node_len in
                   and_then (meta_le64_at payload created_at_offset) (\<lambda>created_at.
                   let pointer_offset = created_at_offset + 8 in
                   and_then
                     (if length payload \<ge> pointer_offset + 16 then
                        and_then (meta_le64_at payload pointer_offset) (\<lambda>i.
                        and_then (meta_le64_at payload (pointer_offset + 8)) (\<lambda>t. Inr (i, t)))
                      else Inr (0, 0)) (\<lambda>(snapshot_index, snapshot_term).
                     Inr \<lparr>m_cluster_id = cluster_id, m_node_id = node_id,
                          m_format_version = format_version, m_created_at = created_at,
                          m_snapshot_index = snapshot_index, m_snapshot_term = snapshot_term\<rparr>))))))))))"

definition write_meta :: "Meta \<Rightarrow> (Fs, MetaError, unit) comp" where
  "write_meta meta = with_err MetaIo (atomic_replace ''META.tmp'' ''META'' (encode_meta meta))"

definition read_meta :: "(Fs, MetaError, Meta) comp" where
  "read_meta = seq (with_err MetaIo (fs_read ''META'')) (\<lambda>buf. lift_res (decode_meta buf))"

text \<open>What the encoder needs: identifiers that are valid strings of less than 64 KiB.\<close>

definition meta_ok :: "Meta \<Rightarrow> bool" where
  "meta_ok meta \<longleftrightarrow> length (m_cluster_id meta) < 2 ^ 16 \<and> length (m_node_id meta) < 2 ^ 16 \<and>
     utf8_valid (m_cluster_id meta) \<and> utf8_valid (m_node_id meta)"

subsection \<open>Membership\<close>

definition MEMBERSHIP_FILE :: string where "MEMBERSHIP_FILE = ''membership''"
definition MEMBERSHIP_MAGIC :: u32 where "MEMBERSHIP_MAGIC = 0x534D5241"
definition MEMBERSHIP_FORMAT_VERSION :: u32 where "MEMBERSHIP_FORMAT_VERSION = 1"

datatype Damage =
    MembershipTooShort nat | MembershipMagic u32 | MembershipVersion u32
  | MembershipCrc u32 u32 | MembershipBody DecodeError

datatype MembershipError = MembershipIo IoError | Corrupt Damage

definition membership_blob :: "LogIndex \<Rightarrow> ConfState \<Rightarrow> bytes" where
  "membership_blob conf_change_index cs =
     (let blob = le32 MEMBERSHIP_MAGIC @ le32 MEMBERSHIP_FORMAT_VERSION @
            encode_conf_state conf_change_index (cs_voters cs) (cs_learners cs)
      in blob @ le32 (crc32c blob))"

text \<open>The checks of \<open>read_membership\<close> on the bytes it has read.\<close>

definition decode_membership :: "bytes \<Rightarrow> MembershipError + (LogIndex \<times> ConfState)" where
  "decode_membership buf =
     (if length buf < 28 then Inl (Corrupt (MembershipTooShort (length buf)))
      else
        let magic = of_le32 (take 4 buf) in
        if magic \<noteq> MEMBERSHIP_MAGIC then Inl (Corrupt (MembershipMagic magic))
        else
          let version = of_le32 (take 4 (drop 4 buf)) in
          if version \<noteq> MEMBERSHIP_FORMAT_VERSION then Inl (Corrupt (MembershipVersion version))
          else
            let body_len = length buf - 4;
                computed = crc32c (take body_len buf);
                stored = of_le32 (drop body_len buf)
            in if computed \<noteq> stored then Inl (Corrupt (MembershipCrc computed stored))
               else
                 and_then (map_err (\<lambda>e. Corrupt (MembershipBody e))
                     (decode_conf_state (drop 8 (take body_len buf))))
                   (\<lambda>(index, voters, learners).
                     Inr (index, \<lparr>cs_voters = voters, cs_learners = learners\<rparr>)))"

definition read_membership :: "(Fs, MembershipError, (LogIndex \<times> ConfState) option) comp" where
  "read_membership fs =
     (case fs_read MEMBERSHIP_FILE fs of
        (fs', Inl NotFound) \<Rightarrow> (fs', Inr None)
      | (fs', Inl e) \<Rightarrow> (fs', Inl (MembershipIo e))
      | (fs', Inr buf) \<Rightarrow> (fs', and_then (decode_membership buf) (\<lambda>x. Inr (Some x))))"

definition write_membership :: "LogIndex \<Rightarrow> ConfState \<Rightarrow> (Fs, MembershipError, unit) comp" where
  "write_membership conf_change_index cs =
     with_err MembershipIo
       (atomic_replace ''membership.tmp'' MEMBERSHIP_FILE (membership_blob conf_change_index cs))"

definition conf_state_ok :: "ConfState \<Rightarrow> bool" where
  "conf_state_ok cs \<longleftrightarrow> length (cs_voters cs) < 2 ^ 32 \<and> length (cs_learners cs) < 2 ^ 32"

subsection \<open>Snapshots\<close>

definition SNAPSHOT_MAGIC :: u32 where "SNAPSHOT_MAGIC = 0x41524153"

datatype SnapshotError =
    SnapTooShort | SnapBadMagic | SnapBadFormatVersion u32
  | SnapChecksumMismatch u32 u32 | SnapTruncated

definition snapshot_body :: "Snapshot \<Rightarrow> bytes" where
  "snapshot_body snapshot =
     le32 SNAPSHOT_MAGIC @ le32 FORMAT_VERSION @
     le64 (sm_index (sn_meta snapshot)) @ le64 (sm_term (sn_meta snapshot)) @
     encode_id_list (cs_voters (sm_conf_state (sn_meta snapshot))) @
     encode_id_list (cs_learners (sm_conf_state (sn_meta snapshot))) @
     le64 (len64 (sn_data snapshot)) @ sn_data snapshot"

definition encode_snapshot :: "Snapshot \<Rightarrow> bytes" where
  "encode_snapshot snapshot = snapshot_body snapshot @ le32 (crc32c (snapshot_body snapshot))"

text \<open>The reader: the body and the offset reached in it.\<close>

definition reader_u32 :: "bytes \<Rightarrow> nat \<Rightarrow> SnapshotError + (u32 \<times> nat)" where
  "reader_u32 bs offset =
     and_then (ok_or SnapTruncated (slice_get bs offset (offset + 4))) (\<lambda>sl.
       Inr (of_le32 sl, offset + 4))"

definition reader_u64 :: "bytes \<Rightarrow> nat \<Rightarrow> SnapshotError + (u64 \<times> nat)" where
  "reader_u64 bs offset =
     and_then (ok_or SnapTruncated (slice_get bs offset (offset + 8))) (\<lambda>sl.
       Inr (of_le64 sl, offset + 8))"

fun reader_u64s :: "bytes \<Rightarrow> nat \<Rightarrow> nat \<Rightarrow> SnapshotError + (u64 list \<times> nat)" where
  "reader_u64s bs 0 offset = Inr ([], offset)"
| "reader_u64s bs (Suc n) offset =
     and_then (reader_u64 bs offset) (\<lambda>(id, offset).
     and_then (reader_u64s bs n offset) (\<lambda>(ids, offset).
       Inr (id # ids, offset)))"

definition reader_ids :: "bytes \<Rightarrow> nat \<Rightarrow> SnapshotError + (u64 list \<times> nat)" where
  "reader_ids bs offset =
     and_then (reader_u32 bs offset) (\<lambda>(count, offset). reader_u64s bs (unat count) offset)"

text \<open>
  The data length is a \<open>u64\<close> the file declares; \<open>r.offset + data_len\<close> is computed in \<open>usize\<close>
  and wraps.
\<close>

definition decode_snapshot_file :: "bytes \<Rightarrow> SnapshotError + Snapshot" where
  "decode_snapshot_file bs =
     (if length bs < 4 then Inl SnapTooShort
      else
        let body = take (length bs - 4) bs;
            expected = of_le32 (drop (length bs - 4) bs);
            actual = crc32c body
        in if expected \<noteq> actual then Inl (SnapChecksumMismatch expected actual)
           else
             and_then (reader_u32 body 0) (\<lambda>(magic, r).
             if magic \<noteq> SNAPSHOT_MAGIC then Inl SnapBadMagic
             else
               and_then (reader_u32 body r) (\<lambda>(format_version, r).
               if format_version \<noteq> FORMAT_VERSION then Inl (SnapBadFormatVersion format_version)
               else
                 and_then (reader_u64 body r) (\<lambda>(index, r).
                 and_then (reader_u64 body r) (\<lambda>(term, r).
                 and_then (reader_ids body r) (\<lambda>(voters, r).
                 and_then (reader_ids body r) (\<lambda>(learners, r).
                 and_then (reader_u64 body r) (\<lambda>(data_len, r).
                 let data_end = (r + unat data_len) mod 2 ^ 64 in
                 and_then (ok_or SnapTruncated (slice_get body r data_end)) (\<lambda>payload.
                   if data_end \<noteq> length body then Inl SnapTruncated
                   else Inr \<lparr>sn_meta = \<lparr>sm_index = index, sm_term = term,
                          sm_conf_state = \<lparr>cs_voters = voters, cs_learners = learners\<rparr>\<rparr>,
                        sn_data = payload\<rparr>)))))))))"

definition snapshot_ok :: "Snapshot \<Rightarrow> bool" where
  "snapshot_ok s \<longleftrightarrow> conf_state_ok (sm_conf_state (sn_meta s)) \<and> length (snapshot_body s) < 2 ^ 64"

subsection \<open>A durable file\<close>

locale durable_file =
  fixes encode :: "'a \<Rightarrow> bytes"
    and decode :: "bytes \<Rightarrow> 'e + 'a"
    and ok :: "'a \<Rightarrow> bool"
  assumes decode_encode: "ok x \<Longrightarrow> decode (encode x) = Inr x"
begin

text \<open>
  A replacement of a stored value that stops anywhere, by an error or by a crash, leaves the old
  value or the new one, and the new one once it has returned.
\<close>

lemma replace_crash_safe:
  assumes run: "atomic_replace tmp final (encode new) fs = (fs', r)"
    and fs: "fs_wf fs" "quiet fs final" "tmp \<noteq> final"
      "\<And>i. map_of (fs_dir fs) tmp = Some i \<Longrightarrow> spare fs final i"
    and old: "contents fs final = Some (encode old)" and ok: "ok old" "ok new"
    and crash: "crash fs' fs''"
  shows "\<exists>x. (x = old \<or> x = new) \<and> (r = Inr () \<longrightarrow> x = new) \<and>
    contents fs'' final = Some (encode x) \<and> decode (encode x) = Inr x"
proof -
  note spec = atomic_replace_spec [OF run fs]
  have "contents fs'' final = Some (encode old) \<or> contents fs'' final = Some (encode new)"
    using spec crash old by auto
  moreover have "r = Inr () \<Longrightarrow> contents fs'' final = Some (encode new)"
    using spec crash crash_quiet [of fs' final fs''] by auto
  ultimately show ?thesis
    using decode_encode ok by (metis)
qed

end

subsection \<open>Round trips\<close>

lemma meta_at_simps [simp]:
  "meta_le16_at (le16 a @ ys) 0 = Inr a"
  "meta_le32_at (le32 b @ ys) 0 = Inr b"
  "meta_le64_at (le64 c @ ys) 0 = Inr c" "meta_le64_at (le64 c) 0 = Inr c"
  "length xs \<le> n \<Longrightarrow> meta_le16_at (xs @ ys) n = meta_le16_at ys (n - length xs)"
  "length xs \<le> n \<Longrightarrow> meta_le32_at (xs @ ys) n = meta_le32_at ys (n - length xs)"
  "length xs \<le> n \<Longrightarrow> meta_le64_at (xs @ ys) n = meta_le64_at ys (n - length xs)"
  by (auto simp: meta_le16_at_def meta_le32_at_def meta_le64_at_def)

lemma length_meta_payload:
  "length (meta_payload m) = 28 + length (m_cluster_id m) + length (m_node_id m)"
  by (simp add: meta_payload_def)

lemma decode_encode_meta: "meta_ok m \<Longrightarrow> decode_meta (encode_meta m) = Inr m"
proof -
  assume ok: "meta_ok m"
  then have n: "unat (len16 (m_cluster_id m)) = length (m_cluster_id m)"
    "unat (len16 (m_node_id m)) = length (m_node_id m)"
    by (simp_all add: meta_ok_def)
  have hdr: "meta_le32_at (encode_meta m) 0 = Inr META_MAGIC"
    "meta_le32_at (encode_meta m) 4 = Inr (m_format_version m)"
    "meta_le32_at (encode_meta m) 8 = Inr (crc32c (meta_payload m))"
    "drop 12 (encode_meta m) = meta_payload m" "length (encode_meta m) = 12 + length (meta_payload m)"
    by (simp_all add: encode_meta_def)
  have fields: "meta_le16_at (meta_payload m) 0 = Inr (len16 (m_cluster_id m))"
    "take (length (m_cluster_id m)) (drop 2 (meta_payload m)) = m_cluster_id m"
    "meta_le16_at (meta_payload m) (2 + length (m_cluster_id m)) = Inr (len16 (m_node_id m))"
    "take (length (m_node_id m)) (drop (2 + length (m_cluster_id m) + 2) (meta_payload m)) = m_node_id m"
    "meta_le64_at (meta_payload m) (2 + length (m_cluster_id m) + 2 + length (m_node_id m)) = Inr (m_created_at m)"
    "meta_le64_at (meta_payload m) (2 + length (m_cluster_id m) + 2 + length (m_node_id m) + 8) = Inr (m_snapshot_index m)"
    "meta_le64_at (meta_payload m) (2 + length (m_cluster_id m) + 2 + length (m_node_id m) + 8 + 8) = Inr (m_snapshot_term m)"
    by (simp_all add: meta_payload_def)
  show ?thesis
    using ok n
    by (simp only: decode_meta_def Let_def hdr fields n and_then.simps if_True if_False)
      (simp add: length_meta_payload from_utf8_def meta_ok_def fields)
qed

lemma decode_membership_blob:
  assumes "conf_state_ok cs"
  shows "decode_membership (membership_blob i cs) = Inr (i, cs)"
proof -
  define body where "body = encode_conf_state i (cs_voters cs) (cs_learners cs)"
  define blob where "blob = le32 MEMBERSHIP_MAGIC @ le32 MEMBERSHIP_FORMAT_VERSION @ body"
  have b: "membership_blob i cs = blob @ le32 (crc32c blob)"
    by (simp add: membership_blob_def blob_def body_def Let_def)
  have "16 \<le> length body" by (simp add: body_def encode_conf_state_def)
  then have "\<not> length (blob @ le32 (crc32c blob)) < 28" by (simp add: blob_def)
  moreover have "take 4 (blob @ le32 (crc32c blob)) = le32 MEMBERSHIP_MAGIC"
    "take 4 (drop 4 (blob @ le32 (crc32c blob))) = le32 MEMBERSHIP_FORMAT_VERSION"
    "drop 8 blob = body"
    by (simp_all add: blob_def)
  moreover have "decode_conf_state body = Inr (i, cs_voters cs, cs_learners cs)"
    using assms by (simp add: body_def conf_state_ok_def decode_encode_conf_state)
  ultimately show ?thesis
    by (simp add: b decode_membership_def Let_def)
qed

lemma reader_simps [simp]:
  "reader_u32 (le32 w @ ys) 0 = Inr (w, 4)" "reader_u64 (le64 v @ ys) 0 = Inr (v, 8)"
  by (simp_all add: reader_u32_def reader_u64_def slice_get_def)

lemma reader_append:
  "length xs = n \<Longrightarrow> reader_u32 (xs @ le32 w @ ys) n = Inr (w, n + 4)"
  "length xs = n \<Longrightarrow> reader_u64 (xs @ le64 v @ ys) n = Inr (v, n + 8)"
  by (simp_all add: reader_u32_def reader_u64_def slice_get_def)

lemma reader_u64s_append:
  "reader_u64s (xs @ concat (map le64 ids) @ ys) (length ids) (length xs) =
     Inr (ids, length xs + 8 * length ids)"
proof (induction ids arbitrary: xs)
  case (Cons id ids)
  then show ?case
    using Cons.IH [of "xs @ le64 id"] by (simp add: reader_append)
qed simp

lemma reader_ids_append:
  assumes "length ids < 2 ^ 32" "length xs = n"
  shows "reader_ids (xs @ encode_id_list ids @ ys) n = Inr (ids, n + 4 + 8 * length ids)"
  using assms reader_u64s_append [of "xs @ le32 (len32 ids)" ids ys]
  by (simp add: reader_ids_def encode_id_list_def reader_append)

lemma decode_encode_snapshot:
  assumes "snapshot_ok s"
  shows "decode_snapshot_file (encode_snapshot s) = Inr s"
proof -
  obtain i t vs ls d where s: "s = \<lparr>sn_meta = \<lparr>sm_index = i, sm_term = t,
      sm_conf_state = \<lparr>cs_voters = vs, cs_learners = ls\<rparr>\<rparr>, sn_data = d\<rparr>"
    by (metis (full_types) Snapshot.surjective SnapshotMeta.surjective ConfState.surjective unit.exhaust)
  have ids: "length vs < 2 ^ 32" "length ls < 2 ^ 32" and len: "length (snapshot_body s) < 2 ^ 64"
    using assms by (simp_all add: s snapshot_ok_def conf_state_ok_def)
  define b where "b = snapshot_body s"
  have b: "b = le32 SNAPSHOT_MAGIC @ le32 FORMAT_VERSION @ le64 i @ le64 t @ encode_id_list vs @
      encode_id_list ls @ le64 (len64 d) @ d"
    by (simp add: b_def snapshot_body_def s)
  let ?n1 = "24 + 4 + 8 * length vs" and ?n2 = "24 + 4 + 8 * length vs + 4 + 8 * length ls"
  have lb: "length b = ?n2 + 8 + length d" "length b < 2 ^ 64" using len by (simp_all add: b b_def [symmetric])
  have "reader_u32 b 0 = Inr (SNAPSHOT_MAGIC, 4)" "reader_u32 b 4 = Inr (FORMAT_VERSION, 8)"
    "reader_u64 b 8 = Inr (i, 16)" "reader_u64 b 16 = Inr (t, 24)"
    "reader_ids b 24 = Inr (vs, ?n1)" "reader_ids b ?n1 = Inr (ls, ?n2)"
    "reader_u64 b ?n2 = Inr (len64 d, ?n2 + 8)"
    using ids reader_append(1) [of "le32 SNAPSHOT_MAGIC" 4]
      reader_append(2) [of "le32 SNAPSHOT_MAGIC @ le32 FORMAT_VERSION" 8]
      reader_append(2) [of "le32 SNAPSHOT_MAGIC @ le32 FORMAT_VERSION @ le64 i" 16]
      reader_append(2) [of "le32 SNAPSHOT_MAGIC @ le32 FORMAT_VERSION @ le64 i @ le64 t @
        encode_id_list vs @ encode_id_list ls" ?n2]
      reader_ids_append [of vs "le32 SNAPSHOT_MAGIC @ le32 FORMAT_VERSION @ le64 i @ le64 t" 24]
      reader_ids_append [of ls "le32 SNAPSHOT_MAGIC @ le32 FORMAT_VERSION @ le64 i @ le64 t @ encode_id_list vs" ?n1]
    by (simp_all add: b)
  moreover have "unat (len64 d) = length d" using lb by simp
  moreover have "slice_get b (?n2 + 8) (length b) = Some d"
    by (simp add: slice_get_def b)
  moreover have "encode_snapshot s = b @ le32 (crc32c b)"
    by (simp add: encode_snapshot_def b_def)
  ultimately show ?thesis
    using lb by (simp add: decode_snapshot_file_def Let_def) (simp add: s)
qed

interpretation meta_file: durable_file encode_meta decode_meta meta_ok
  by unfold_locales (rule decode_encode_meta)

interpretation membership_file: durable_file "\<lambda>(i, cs). membership_blob i cs" decode_membership
    "\<lambda>(i, cs). conf_state_ok cs"
  by unfold_locales (auto simp: decode_membership_blob)

interpretation snapshot_file: durable_file encode_snapshot decode_snapshot_file snapshot_ok
  by unfold_locales (rule decode_encode_snapshot)

lemma read_meta_contents:
  "fs_budget fs = None \<Longrightarrow> contents fs ''META'' = Some bs \<Longrightarrow> decode_meta bs = Inr m \<Longrightarrow>
     snd (read_meta fs) = Inr m"
  by (simp add: read_meta_def seq_def with_err_def fs_read_def lift_res_def)

subsection \<open>Properties\<close>

text \<open>
  The stored files round-trip.  META, the membership file and a snapshot file decode to
  what was encoded, for every value whose lengths fit the format.
\<close>

theorem stored_files_round_trip:
  "(meta_ok m \<longrightarrow> decode_meta (encode_meta m) = Inr m) \<and>
   (conf_state_ok cs \<longrightarrow> decode_membership (membership_blob i cs) = Inr (i, cs)) \<and>
   (snapshot_ok s \<longrightarrow> decode_snapshot_file (encode_snapshot s) = Inr s)"
  by (simp add: decode_encode_meta decode_membership_blob decode_encode_snapshot)

theorem stored_files_round_trip_witness:
  "decode_meta (encode_meta \<lparr>m_cluster_id = [99], m_node_id = [110, 49], m_format_version = 4,
     m_created_at = 7, m_snapshot_index = 0, m_snapshot_term = 0\<rparr>) =
   Inr \<lparr>m_cluster_id = [99], m_node_id = [110, 49], m_format_version = 4,
     m_created_at = 7, m_snapshot_index = 0, m_snapshot_term = 0\<rparr> \<and>
   decode_membership (membership_blob 3 \<lparr>cs_voters = [1, 2], cs_learners = []\<rparr>) =
     Inr (3, \<lparr>cs_voters = [1, 2], cs_learners = []\<rparr>)"
  using stored_files_round_trip [of "\<lparr>m_cluster_id = [99], m_node_id = [110, 49], m_format_version = 4,
     m_created_at = 7, m_snapshot_index = 0, m_snapshot_term = 0\<rparr>"
     "\<lparr>cs_voters = [1, 2], cs_learners = []\<rparr>" 3]
  by (simp add: meta_ok_def conf_state_ok_def)

text \<open>
  C30: META is replaced atomically.  Take a directory in which META is durable.  However
  \<open>write_meta\<close> ends, after a crash at that point \<open>read_meta\<close> returns the old record or the new
  one; if \<open>write_meta\<close> returned, the new one.
\<close>

theorem write_meta_crash_atomic:
  assumes "write_meta new fs = (fs', r)" "fs_wf fs" "quiet fs ''META''"
    and "\<And>i. map_of (fs_dir fs) ''META.tmp'' = Some i \<Longrightarrow> spare fs ''META'' i"
    and "contents fs ''META'' = Some (encode_meta old)" "meta_ok old" "meta_ok new"
    and "crash fs' fs''"
  shows "\<exists>m. (m = old \<or> m = new) \<and> (r = Inr () \<longrightarrow> m = new) \<and> snd (read_meta fs'') = Inr m"
proof -
  obtain r' where run: "atomic_replace ''META.tmp'' ''META'' (encode_meta new) fs = (fs', r')"
    and r: "r = map_err MetaIo r'"
    using assms(1) by (auto simp: write_meta_def with_err_def split: prod.splits)
  have b: "fs_budget fs'' = None" using assms(8) by (simp add: crash_def)
  have "''META.tmp'' \<noteq> ''META''" by simp
  from meta_file.replace_crash_safe [OF run assms(2,3) this assms(4-8)] obtain m where
    m: "m = old \<or> m = new" "r' = Inr () \<longrightarrow> m = new" "contents fs'' ''META'' = Some (encode_meta m)"
      "decode_meta (encode_meta m) = Inr m" by blast
  have "snd (read_meta fs'') = Inr m"
    using m(3,4) by (rule read_meta_contents [OF b])
  with m(1,2) r show ?thesis by (metis map_err_eq_Inr)
qed

theorem write_meta_crash_atomic_witness:
  "let m = \<lparr>m_cluster_id = [99], m_node_id = [110], m_format_version = 4, m_created_at = 7,
         m_snapshot_index = 0, m_snapshot_term = 0\<rparr>;
       fs = \<lparr>fs_dir = [(''META'', 0)], fs_dsynced = [(''META'', 0)], fs_pending = [],
         fs_inodes = [\<lparr>f_data = encode_meta m, f_synced = encode_meta m,
           f_low = length (encode_meta m)\<rparr>], fs_lock = False,
         fs_budget = Some 0\<rparr>
   in snd (read_meta (fs\<lparr>fs_budget := None\<rparr>)) = Inr m"
proof -
  define m where "m = \<lparr>m_cluster_id = [99], m_node_id = [110], m_format_version = 4, m_created_at = 7,
         m_snapshot_index = 0, m_snapshot_term = 0\<rparr>"
  define fs where "fs = \<lparr>fs_dir = [(''META'', 0)], fs_dsynced = [(''META'', 0)], fs_pending = [],
         fs_inodes = [\<lparr>f_data = encode_meta m, f_synced = encode_meta m,
           f_low = length (encode_meta m)\<rparr>], fs_lock = False,
         fs_budget = Some 0\<rparr>"
  have "write_meta m fs = (fs, Inl (MetaIo IoFailed))"
    by (simp add: write_meta_def with_err_def atomic_replace_def seq_def open_truncate_def prim_def fs_def)
  moreover have "crash fs (fs\<lparr>fs_budget := None\<rparr>)"
    by (auto simp: crash_def fs_def clean_def crash_content_clean intro: exI [of _ "[]"])
  ultimately have "\<exists>m'. (m' = m \<or> m' = m) \<and> ((Inl (MetaIo IoFailed) :: MetaError + unit) = Inr () \<longrightarrow> m' = m) \<and>
      snd (read_meta (fs\<lparr>fs_budget := None\<rparr>)) = Inr m'"
    by (intro write_meta_crash_atomic)
      (auto simp: fs_def fs_wf_def quiet_def clean_def settled_def contents_def meta_ok_def m_def)
  then show ?thesis unfolding Let_def m_def [symmetric] fs_def [symmetric] by blast
qed

end
