(* ===== verification/WalTypes.thy ===== *)
theory WalTypes
  imports StoredFiles
begin

text \<open>
  The state of the write-ahead log (\<open>arachne/src/storage/wal.rs\<close>), segment files
  (\<open>arachne/src/storage/segment.rs\<close>), and the helpers the operations share.  A computation
  acts on a \<open>World\<close>, the data directory together with the open \<open>WalStorage\<close>.  Error texts are
  replaced by a \<open>Fault\<close> that says which check failed; \<open>Panicked\<close> stands for an index out of
  range, which ends the process.
\<close>

datatype Fault =
    LockHeld | LockFailed | MetaUnreadable MetaError | MetaUnwritable MetaError
  | ClusterIdMismatch | NodeIdMismatch | FormatVersionMismatch u32
  | SnapshotMissing LogIndex LogIndex | IndexGap LogIndex LogIndex | SnapshotGap LogIndex LogIndex
  | CommitBeyondLog LogIndex LogIndex
  | TearInOlderSegment LogIndex nat | TearInCommitWindow LogIndex LogIndex
  | CorruptRecord LogIndex nat DecodeError | CorruptHardState DecodeError | CorruptEntry DecodeError
  | UnexpectedMeta
  | AppendBelowWatermark LogIndex LogIndex | AppendOverCommitted LogIndex LogIndex
  | AppendContinuity LogIndex LogIndex | RecordTooLarge LogIndex nat
  | OlderSnapshot LogIndex LogIndex | CompactBeyondLast LogIndex LogIndex
  | CompactBeyondSnapshot LogIndex LogIndex | CompactWithoutSnapshot
  | OffloadingDisabled | RecoveryNodeIdMismatch | EmptyClusterId | Panicked

datatype StorageError =
    Compacted
  | Corruption Damage
  | Unrecoverable Fault
  | Io IoError

datatype FsyncPolicy = Always | BatchMs u64

record WalConfig =
  cf_fsync_policy :: FsyncPolicy
  cf_segment_bytes :: u64

record WalOptions =
  op_cluster_id :: bytes
  op_node_id :: bytes
  op_config :: WalConfig
  op_created_at_millis :: u64

text \<open>The count of skipped pre-allocations is a global of another module and is left out.\<close>

record StorageStats =
  hard_state_fsyncs :: u64
  entry_fsyncs :: u64
  entry_sync_batches :: u64
  dir_fsyncs :: u64
  wal_truncated_records :: u64
  offloaded_fsyncs :: u64

definition stats_default :: StorageStats where
  "stats_default = \<lparr>hard_state_fsyncs = 0, entry_fsyncs = 0, entry_sync_batches = 0, dir_fsyncs = 0,
     wal_truncated_records = 0, offloaded_fsyncs = 0\<rparr>"

subsection \<open>Segments\<close>

definition DEFAULT_SEGMENT_BYTES :: u64 where "DEFAULT_SEGMENT_BYTES = 128 * 1024 * 1024"
definition SNAPSHOT_RETENTION :: nat where "SNAPSHOT_RETENTION = 2"

record Segment =
  seg_fd :: fd
  seg_max_bytes :: u64

definition segment_path :: "LogIndex \<Rightarrow> string" where
  "segment_path first_index = segment_name first_index"

text \<open>
  Pre-allocation reserves extents without changing the length of the file, and its failure is
  ignored, so it does not appear here.
\<close>

definition segment_open :: "LogIndex \<Rightarrow> u64 \<Rightarrow> (Fs, IoError, Segment) comp" where
  "segment_open first_index max_bytes =
     seq (open_append (segment_path first_index)) (\<lambda>f. ret \<lparr>seg_fd = f, seg_max_bytes = max_bytes\<rparr>)"

definition segment_append_record :: "Segment \<Rightarrow> RecordType \<Rightarrow> bytes \<Rightarrow> (Fs, IoError, unit) comp" where
  "segment_append_record seg record_type payload = write_all (seg_fd seg) (encode_record record_type payload)"

definition segment_size :: "Segment \<Rightarrow> (Fs, IoError, nat) comp" where
  "segment_size seg = fd_len (seg_fd seg)"

definition segment_try_clone :: "Segment \<Rightarrow> (Fs, IoError, fd) comp" where
  "segment_try_clone seg = prim (ret (seg_fd seg))"

definition segment_sync :: "Segment \<Rightarrow> (Fs, IoError, unit) comp" where
  "segment_sync seg = sync_all (seg_fd seg)"

definition segment_truncate_at :: "Segment \<Rightarrow> nat \<Rightarrow> (Fs, IoError, unit) comp" where
  "segment_truncate_at seg offset = set_len (seg_fd seg) offset"

subsection \<open>The open log\<close>

record FlushJob =
  fj_id :: u64
  fj_segment :: LogIndex
  fj_fd :: fd

record FlushJobResult =
  fr_id :: u64
  fr_segment :: LogIndex
  fr_ok :: bool
  fr_owner :: bool

record Offloaded =
  off_jobs :: "FlushJob list"
  off_done :: "FlushJobResult list"
  off_next_id :: u64
  off_syncs :: u64

record WalStorage =
  wal_segment :: Segment
  segment_first_index :: LogIndex
  max_entry_in_segment :: LogIndex
  wal_entries :: "LogEntry list"
  compacted_to :: LogIndex
  wal_snapshot :: "Snapshot option"
  wal_meta :: Meta
  wal_hard_state :: HardState
  wal_conf_state :: ConfState
  wal_conf_change_index :: LogIndex
  pending_entry_fsync :: bool
  fsync_policy :: FsyncPolicy
  segment_bytes :: u64
  trailing_keep_bytes :: u64
  wal_stats :: StorageStats
  observed :: "(LogIndex \<times> LogIndex) list"
  offloaded :: "Offloaded option"

record World =
  the_fs :: Fs
  the_wal :: WalStorage

type_synonym 'a wal_op = "(World, StorageError, 'a) comp"

text \<open>A file-system computation inside an operation of the log.\<close>

definition on_fs :: "(Fs, 'e, 'a) comp \<Rightarrow> ('e \<Rightarrow> StorageError) \<Rightarrow> 'a wal_op" where
  "on_fs m err w = (case m (the_fs w) of (fs', r) \<Rightarrow> (w\<lparr>the_fs := fs'\<rparr>, map_err err r))"

abbreviation io :: "(Fs, IoError, 'a) comp \<Rightarrow> 'a wal_op" where
  "io m \<equiv> on_fs m Io"

abbreviation wal :: "(WalStorage \<Rightarrow> 'a) \<Rightarrow> 'a wal_op" where
  "wal f \<equiv> gets (\<lambda>w. f (the_wal w))"

abbreviation set_wal :: "(WalStorage \<Rightarrow> WalStorage) \<Rightarrow> unit wal_op" where
  "set_wal f \<equiv> modify (\<lambda>w. w\<lparr>the_wal := f (the_wal w)\<rparr>)"

definition count_stats :: "(StorageStats \<Rightarrow> StorageStats) \<Rightarrow> unit wal_op" where
  "count_stats f = set_wal (\<lambda>s. s\<lparr>wal_stats := f (wal_stats s)\<rparr>)"

text \<open>\<open>notify_fsynced\<close>: what the fsync observer is told.\<close>

definition notify_fsynced :: "unit wal_op" where
  "notify_fsynced = set_wal (\<lambda>s.
     s\<lparr>observed := observed s @ [(segment_first_index s, max_entry_in_segment s)]\<rparr>)"

subsection \<open>Helpers\<close>

text \<open>The indices of the segment files, ascending.\<close>

definition segment_indices_of :: "string list \<Rightarrow> LogIndex list" where
  "segment_indices_of names =
     sort (List.map_filter (\<lambda>n. case parse_segment_name n of Inr i \<Rightarrow> Some i | Inl _ \<Rightarrow> None) names)"

definition list_segment_indices :: "(Fs, IoError, LogIndex list) comp" where
  "list_segment_indices = seq fs_read_dir (\<lambda>names. ret (segment_indices_of names))"

definition truncate_file_at :: "string \<Rightarrow> nat \<Rightarrow> (Fs, IoError, unit) comp" where
  "truncate_file_at name offset = seq (open_existing name) (\<lambda>f. set_len f offset)"

definition last_entry_index :: "LogEntry list \<Rightarrow> LogIndex \<Rightarrow> LogIndex" where
  "last_entry_index entries d = (case last_opt entries of Some e \<Rightarrow> le_index e | None \<Rightarrow> d)"

text \<open>\<open>Storage::last_index\<close> and \<open>Storage::first_index\<close>.\<close>

definition last_index :: "WalStorage \<Rightarrow> LogIndex" where
  "last_index s = last_entry_index (wal_entries s) (compacted_to s)"

definition first_index :: "WalStorage \<Rightarrow> LogIndex" where
  "first_index s = compacted_to s + 1"

text \<open>The frame at the front of what is left of a segment: \<open>None\<close> is a structural tear.\<close>

definition frame :: "bytes \<Rightarrow> (bytes \<times> bytes) option" where
  "frame rest =
     (if length rest < 8 then None
      else let n = 8 + unat (of_le32 (take 4 rest))
           in if n > length rest then None else Some (take n rest, drop n rest))"

lemma frame_shrinks: "frame rest = Some (rec, rest') \<Longrightarrow> length rest' < length rest"
  by (auto simp: frame_def Let_def split: if_splits)

lemma frame_length: "frame rest = Some (rec, rest') \<Longrightarrow> rest = rec @ rest' \<and> 8 \<le> length rec"
  by (auto simp: frame_def Let_def split: if_splits)

end
