(* ===== verification/Wal.thy ===== *)
theory Wal
  imports WalTypes
begin

text \<open>
  The operations of the write-ahead log (\<open>arachne/src/storage/wal.rs\<close>), in the order of the
  source: recovery and \<open>open\<close>, rollover, truncation, forced recovery, off-thread durability,
  and the methods of the \<open>Storage\<close> trait.
\<close>

subsection \<open>Recovery\<close>

definition recover_meta :: "WalOptions \<Rightarrow> (Fs, StorageError, Meta \<times> StorageStats) comp" where
  "recover_meta opts fs =
     (if fs_exists ''META'' fs then
        seq (with_err (\<lambda>e. Unrecoverable (MetaUnreadable e)) read_meta) (\<lambda>meta.
          if m_cluster_id meta \<noteq> op_cluster_id opts then throw (Unrecoverable ClusterIdMismatch)
          else if m_node_id meta \<noteq> op_node_id opts then throw (Unrecoverable NodeIdMismatch)
          else if m_format_version meta \<noteq> FORMAT_VERSION then
            throw (Unrecoverable (FormatVersionMismatch (m_format_version meta)))
          else ret (meta, stats_default)) fs
      else
        let meta = \<lparr>m_cluster_id = op_cluster_id opts, m_node_id = op_node_id opts,
               m_format_version = FORMAT_VERSION, m_created_at = op_created_at_millis opts,
               m_snapshot_index = 0, m_snapshot_term = 0\<rparr>
        in seq (with_err (\<lambda>e. Unrecoverable (MetaUnwritable e)) (write_meta meta)) (\<lambda>_.
             ret (meta, stats_default\<lparr>dir_fsyncs := 1\<rparr>)) fs)"

text \<open>
  The record loop of \<open>recover_wal\<close> over one segment, at \<open>offset\<close> with \<open>rest\<close> left to read.  It
  returns the entries and the hard state replayed so far, and the offset to cut the file at
  when it ends in a tear that may be dropped.
\<close>

function scan_segment ::
    "LogIndex \<Rightarrow> bool \<Rightarrow> LogIndex \<Rightarrow> nat \<Rightarrow> bytes \<Rightarrow> LogEntry list \<Rightarrow> HardState
      \<Rightarrow> StorageError + (LogEntry list \<times> HardState \<times> nat option)" where
  "scan_segment idx is_last compacted offset rest entries hs =
     (if rest = [] then Inr (entries, hs, None)
      else case frame rest of
        None \<Rightarrow>
          if \<not> is_last then Inl (Unrecoverable (TearInOlderSegment idx offset))
          else
            let estimated_index = last_entry_index entries compacted + 1
            in if estimated_index \<le> hs_commit hs + 1
               then Inl (Unrecoverable (TearInCommitWindow estimated_index (hs_commit hs)))
               else Inr (entries, hs, Some offset)
      | Some (record_bytes, rest') \<Rightarrow>
          let record_end = offset + length record_bytes in
          (case decode_record record_bytes of
             Inl e \<Rightarrow> Inl (Unrecoverable (CorruptRecord idx offset e))
           | Inr (HardState, payload) \<Rightarrow>
               (case decode_hard_state payload of
                  Inl e \<Rightarrow> Inl (Unrecoverable (CorruptHardState e))
                | Inr (term, vote, commit) \<Rightarrow>
                    scan_segment idx is_last compacted record_end rest' entries
                      \<lparr>hs_term = term, hs_vote = vote, hs_commit = commit\<rparr>)
           | Inr (Entry, payload) \<Rightarrow>
               (case decode_entry payload of
                  Inl e \<Rightarrow> Inl (Unrecoverable (CorruptEntry e))
                | Inr (index, term, entry_type, bs) \<Rightarrow>
                    scan_segment idx is_last compacted record_end rest'
                      (entries @ [\<lparr>le_index = index, le_term = term,
                         le_type = entry_type_to_seam entry_type, le_data = bs\<rparr>]) hs)
           | Inr (Meta, payload) \<Rightarrow> Inl (Unrecoverable UnexpectedMeta)))"
  by pat_completeness auto
termination
  by (relation "measure (\<lambda>(idx, is_last, compacted, offset, rest, entries, hs). length rest)")
    (auto dest: frame_shrinks)

declare scan_segment.simps [simp del]

fun recover_segments ::
    "LogIndex \<Rightarrow> LogIndex list \<Rightarrow> LogEntry list \<Rightarrow> HardState \<Rightarrow> u64
      \<Rightarrow> (Fs, StorageError, LogEntry list \<times> HardState \<times> u64) comp" where
  "recover_segments compacted [] entries hs truncated = ret (entries, hs, truncated)"
| "recover_segments compacted (idx # idxs) entries hs truncated =
     seq (with_err Io (fs_read (segment_path idx))) (\<lambda>raw.
     seq (lift_res (scan_segment idx (idxs = []) compacted 0 raw entries hs)) (\<lambda>(entries, hs, cut).
     case cut of
       None \<Rightarrow> recover_segments compacted idxs entries hs truncated
     | Some offset \<Rightarrow>
         seq (with_err Io (truncate_file_at (segment_path idx) offset)) (\<lambda>_.
           recover_segments compacted idxs entries hs (truncated + 1))))"

definition recover_wal ::
    "LogIndex \<Rightarrow> (Fs, StorageError, LogEntry list \<times> HardState \<times> u64) comp" where
  "recover_wal compacted =
     seq (with_err Io list_segment_indices) (\<lambda>idxs.
       recover_segments compacted idxs [] hs_default 0)"

fun check_continuity :: "LogIndex \<Rightarrow> LogEntry list \<Rightarrow> StorageError + unit" where
  "check_continuity expect [] = Inr ()"
| "check_continuity expect (e # es) =
     (if le_index e \<noteq> expect then Inl (Unrecoverable (IndexGap expect (le_index e)))
      else check_continuity (expect + 1) es)"

definition verify_continuity :: "LogEntry list \<Rightarrow> StorageError + unit" where
  "verify_continuity entries =
     (case entries of [] \<Rightarrow> Inr () | e # _ \<Rightarrow> check_continuity (le_index e) entries)"

text \<open>The snapshot candidates of a directory listing, newest first.\<close>

definition snapshot_candidates :: "(LogIndex \<Rightarrow> bool) \<Rightarrow> string list \<Rightarrow> (LogIndex \<times> string) list" where
  "snapshot_candidates keep names =
     sort_key (\<lambda>(i, _). - uint i)
       (List.map_filter (\<lambda>n. case parse_snapshot_file_name n of
          Some (i, _) \<Rightarrow> if keep i then Some (i, n) else None
        | None \<Rightarrow> None) names)"

fun first_valid_snapshot :: "(LogIndex \<times> string) list \<Rightarrow> (Fs, StorageError, Snapshot option) comp" where
  "first_valid_snapshot [] = ret None"
| "first_valid_snapshot ((index, name) # cs) =
     seq (with_err Io (fs_read name)) (\<lambda>bs.
       case decode_snapshot_file bs of
         Inr snapshot \<Rightarrow>
           if sm_index (sn_meta snapshot) = index then ret (Some snapshot)
           else first_valid_snapshot cs
       | Inl _ \<Rightarrow> first_valid_snapshot cs)"

definition load_snapshot :: "LogIndex \<Rightarrow> (Fs, StorageError, Snapshot option) comp" where
  "load_snapshot expected_index =
     (if expected_index = 0 then ret None
      else
        seq (with_err Io fs_read_dir) (\<lambda>names.
          first_valid_snapshot (snapshot_candidates (\<lambda>i. i \<le> expected_index) names)))"

definition membership_err_to_storage_err :: "MembershipError \<Rightarrow> StorageError" where
  "membership_err_to_storage_err e =
     (case e of MembershipIo io_err \<Rightarrow> Io io_err | Corrupt detail \<Rightarrow> Corruption detail)"

text \<open>Steps 3 to 6 of \<open>open\<close>, with the lock held and META read.\<close>

definition open_recovered :: "WalOptions \<Rightarrow> Meta \<Rightarrow> StorageStats \<Rightarrow> (Fs, StorageError, WalStorage) comp" where
  "open_recovered opts meta stats =
     seq (load_snapshot (m_snapshot_index meta)) (\<lambda>snapshot.
     let compacted = (case snapshot of Some s \<Rightarrow> sm_index (sn_meta s) | None \<Rightarrow> 0) in
     seq (recover_wal compacted) (\<lambda>(entries, hard_state, truncated).
     let stats = stats\<lparr>wal_truncated_records := truncated\<rparr>;
         first = (case entries of e # _ \<Rightarrow> le_index e | [] \<Rightarrow> 1)
     in if m_snapshot_index meta \<noteq> 0 \<and> snapshot = None \<and> first \<noteq> 1
        then throw (Unrecoverable (SnapshotMissing (m_snapshot_index meta) first))
        else
          seq (lift_res (verify_continuity entries)) (\<lambda>_.
          if (case entries of e # _ \<Rightarrow> le_index e > compacted + 1 | [] \<Rightarrow> False)
          then throw (Unrecoverable (SnapshotGap compacted first))
          else
            let entries = filter (\<lambda>e. le_index e > compacted) entries;
                last = last_entry_index entries compacted
            in if hs_commit hard_state > last
               then throw (Unrecoverable (CommitBeyondLog (hs_commit hard_state) last))
               else
                 seq (with_err Io list_segment_indices) (\<lambda>idxs.
                 let active = (case last_opt idxs of Some i \<Rightarrow> i | None \<Rightarrow> 1) in
                 seq (with_err Io (segment_open active (cf_segment_bytes (op_config opts)))) (\<lambda>segment.
                 seq (if idxs = [] then with_err Io fsync_dir else ret ()) (\<lambda>_.
                 let stats = (if idxs = [] then stats\<lparr>dir_fsyncs := dir_fsyncs stats + 1\<rparr> else stats) in
                 seq (with_err membership_err_to_storage_err read_membership) (\<lambda>membership.
                 let (conf_change_index, conf_state) =
                       (case membership of
                          Some (index, cs) \<Rightarrow> if index > compacted then (index, cs) else (compacted, cs_default)
                        | None \<Rightarrow> (compacted, cs_default))
                 in ret \<lparr>wal_segment = segment, segment_first_index = active,
                         max_entry_in_segment = last_entry_index entries 0,
                         wal_entries = entries, compacted_to = compacted, wal_snapshot = snapshot,
                         wal_meta = meta, wal_hard_state = hard_state, wal_conf_state = conf_state,
                         wal_conf_change_index = conf_change_index, pending_entry_fsync = False,
                         fsync_policy = cf_fsync_policy (op_config opts),
                         segment_bytes = cf_segment_bytes (op_config opts), trailing_keep_bytes = 0,
                         wal_stats = stats, observed = [], offloaded = None\<rparr>)))))))"

text \<open>The lock file is released when \<open>open\<close> returns an error, since the handle is dropped.\<close>

definition releasing_lock :: "(Fs, 'e, 'a) comp \<Rightarrow> (Fs, 'e, 'a) comp" where
  "releasing_lock m fs =
     (case m fs of (fs', Inl e) \<Rightarrow> (fs'\<lparr>fs_lock := False\<rparr>, Inl e) | (fs', Inr x) \<Rightarrow> (fs', Inr x))"

definition try_lock :: "(Fs, StorageError, unit) comp" where
  "try_lock fs =
     (if fs_lock fs then (fs, Inl (Unrecoverable LockHeld))
      else with_err (\<lambda>_. Unrecoverable LockFailed) (prim (modify (\<lambda>fs. fs\<lparr>fs_lock := True\<rparr>))) fs)"

definition wal_open :: "WalOptions \<Rightarrow> (Fs, StorageError, WalStorage) comp" where
  "wal_open opts =
     seq (with_err Io (open_append ''LOCK'')) (\<lambda>_.
     seq try_lock (\<lambda>_.
       releasing_lock
         (seq (recover_meta opts) (\<lambda>(meta, stats). open_recovered opts meta stats))))"

subsection \<open>Rollover\<close>

definition maybe_rollover :: "LogIndex \<Rightarrow> unit wal_op" where
  "maybe_rollover next_entry_index =
     seq (wal id) (\<lambda>s.
     seq (io (segment_size (wal_segment s))) (\<lambda>current_size.
     if current_size \<ge> unat (segment_bytes s) then
       seq (if pending_entry_fsync s then
              seq (io (segment_sync (wal_segment s))) (\<lambda>_.
              seq (count_stats (\<lambda>t. t\<lparr>entry_fsyncs := entry_fsyncs t + 1\<rparr>)) (\<lambda>_.
              seq (set_wal (\<lambda>s. s\<lparr>pending_entry_fsync := False\<rparr>)) (\<lambda>_.
                notify_fsynced)))
            else ret ()) (\<lambda>_.
       seq (io (segment_open next_entry_index (segment_bytes s))) (\<lambda>new_segment.
       seq (io fsync_dir) (\<lambda>_.
       seq (count_stats (\<lambda>t. t\<lparr>dir_fsyncs := dir_fsyncs t + 1\<rparr>)) (\<lambda>_.
         set_wal (\<lambda>s. s\<lparr>wal_segment := new_segment, segment_first_index := next_entry_index,
           max_entry_in_segment := 0\<rparr>)))))
     else ret ()))"

subsection \<open>Truncation\<close>

text \<open>The offset just past the record of entry \<open>keep\<close> in a segment, if the segment holds it.\<close>

function find_entry_end :: "LogIndex \<Rightarrow> nat \<Rightarrow> bytes \<Rightarrow> nat option" where
  "find_entry_end keep offset rest =
     (if rest = [] then None
      else case frame rest of
        None \<Rightarrow> None
      | Some (record_bytes, rest') \<Rightarrow>
          let record_end = offset + length record_bytes in
          (case decode_record record_bytes of
             Inr (Entry, payload) \<Rightarrow>
               (case decode_entry payload of
                  Inr (index, _) \<Rightarrow>
                    if index = keep then Some record_end else find_entry_end keep record_end rest'
                | Inl _ \<Rightarrow> find_entry_end keep record_end rest')
           | _ \<Rightarrow> find_entry_end keep record_end rest'))"
  by pat_completeness auto
termination
  by (relation "measure (\<lambda>(keep, offset, rest). length rest)") (auto dest: frame_shrinks)

declare find_entry_end.simps [simp del]

fun find_holding :: "LogIndex \<Rightarrow> LogIndex list \<Rightarrow> (LogIndex \<times> nat) option wal_op" where
  "find_holding keep [] = ret None"
| "find_holding keep (idx # idxs) =
     seq (io (fs_read (segment_path idx))) (\<lambda>raw.
       case find_entry_end keep 0 raw of
         Some record_end \<Rightarrow> ret (Some (idx, record_end))
       | None \<Rightarrow> find_holding keep idxs)"

definition truncate_log_to :: "LogIndex \<Rightarrow> u64 wal_op" where
  "truncate_log_to keep =
     seq (wal id) (\<lambda>s.
     let last = last_entry_index (wal_entries s) 0 in
     if last \<le> keep then ret 0
     else
       seq (io list_segment_indices) (\<lambda>idxs.
       seq (find_holding keep idxs) (\<lambda>holding.
       seq (case holding of
              Some (seg_first, offset) \<Rightarrow>
                seq (io (segment_open seg_first (segment_bytes s))) (\<lambda>seg.
                seq (io (segment_truncate_at seg offset)) (\<lambda>_.
                seq (io (segment_sync seg)) (\<lambda>_.
                seq (each (\<lambda>idx. io (remove_file (segment_path idx))) (filter (\<lambda>idx. idx > seg_first) idxs)) (\<lambda>_.
                seq (io fsync_dir) (\<lambda>_.
                  set_wal (\<lambda>s. s\<lparr>wal_segment := seg, segment_first_index := seg_first,
                    max_entry_in_segment := keep\<rparr>))))))
            | None \<Rightarrow>
                seq (each (\<lambda>idx. io (remove_file (segment_path idx))) idxs) (\<lambda>_.
                seq (io fsync_dir) (\<lambda>_.
                seq (io (segment_open 1 (segment_bytes s))) (\<lambda>seg.
                seq (set_wal (\<lambda>s. s\<lparr>wal_segment := seg, segment_first_index := 1,
                    max_entry_in_segment := 0\<rparr>)) (\<lambda>_.
                  io fsync_dir))))) (\<lambda>_.
       seq (set_wal (\<lambda>s. s\<lparr>wal_entries := take (unat keep) (wal_entries s),
              pending_entry_fsync := False\<rparr>)) (\<lambda>_.
         ret (last - keep))))))"

subsection \<open>The write side of the trait\<close>

text \<open>The body of the loop of \<open>append\<close>.\<close>

definition append_entry :: "LogEntry \<Rightarrow> unit wal_op" where
  "append_entry entry =
     seq (wal last_index) (\<lambda>last.
     if le_index entry \<noteq> last + 1 then
       throw (Unrecoverable (AppendContinuity (last + 1) (le_index entry)))
     else
       let payload = encode_entry (le_index entry) (le_term entry)
             (seam_entry_type_to_u8 (le_type entry)) (le_data entry);
           framed_size = 8 + 1 + length payload
       in if framed_size > unat MAX_RECORD_BYTES then
            throw (Unrecoverable (RecordTooLarge (le_index entry) framed_size))
          else
            seq (maybe_rollover (le_index entry)) (\<lambda>_.
            seq (wal wal_segment) (\<lambda>seg.
            seq (io (segment_append_record seg Entry payload)) (\<lambda>_.
              set_wal (\<lambda>s. s\<lparr>wal_entries := wal_entries s @ [entry],
                max_entry_in_segment := le_index entry, pending_entry_fsync := True\<rparr>)))))"

definition wal_append :: "LogEntry list \<Rightarrow> unit wal_op" where
  "wal_append entries =
     seq (case entries of
            [] \<Rightarrow> ret ()
          | e # _ \<Rightarrow>
              seq (wal id) (\<lambda>s.
              if le_index e \<le> last_index s then
                let keep = le_index e - 1
                in if keep < compacted_to s then
                     throw (Unrecoverable (AppendBelowWatermark (le_index e) (compacted_to s)))
                   else if keep < hs_commit (wal_hard_state s) then
                     throw (Unrecoverable (AppendOverCommitted (le_index e) (hs_commit (wal_hard_state s))))
                   else seq (truncate_log_to keep) (\<lambda>_. ret ())
              else ret ())) (\<lambda>_.
       each append_entry entries)"

abbreviation hard_state_payload :: "HardState \<Rightarrow> bytes" where
  "hard_state_payload hs \<equiv> encode_hard_state (hs_term hs) (hs_vote hs) (hs_commit hs)"

definition set_hard_state :: "HardState \<Rightarrow> unit wal_op" where
  "set_hard_state hs =
     seq (wal wal_segment) (\<lambda>seg.
     seq (io (segment_append_record seg HardState (hard_state_payload hs))) (\<lambda>_.
     seq (io (segment_sync seg)) (\<lambda>_.
     seq (count_stats (\<lambda>t. t\<lparr>hard_state_fsyncs := hard_state_fsyncs t + 1\<rparr>)) (\<lambda>_.
     seq notify_fsynced (\<lambda>_.
       set_wal (\<lambda>s. s\<lparr>wal_hard_state := hs\<rparr>))))))"

definition set_hard_state_buffered :: "HardState \<Rightarrow> unit wal_op" where
  "set_hard_state_buffered hs =
     seq (wal wal_segment) (\<lambda>seg.
     seq (io (segment_append_record seg HardState (hard_state_payload hs))) (\<lambda>_.
       set_wal (\<lambda>s. s\<lparr>pending_entry_fsync := True, wal_hard_state := hs\<rparr>)))"

text \<open>The fsync both policies share.\<close>

definition sync_active :: "unit wal_op" where
  "sync_active =
     seq (wal wal_segment) (\<lambda>seg.
     seq (io (segment_sync seg)) (\<lambda>_.
     seq (count_stats (\<lambda>t. t\<lparr>entry_fsyncs := entry_fsyncs t + 1,
           entry_sync_batches := entry_sync_batches t + 1\<rparr>)) (\<lambda>_.
     seq (set_wal (\<lambda>s. s\<lparr>pending_entry_fsync := False\<rparr>)) (\<lambda>_.
       notify_fsynced))))"

definition sync_entries :: "unit wal_op" where
  "sync_entries =
     seq (wal id) (\<lambda>s.
       case fsync_policy s of
         Always \<Rightarrow> sync_active
       | BatchMs _ \<Rightarrow> if pending_entry_fsync s then sync_active else ret ())"

definition save_conf_state :: "LogIndex \<Rightarrow> ConfState \<Rightarrow> unit wal_op" where
  "save_conf_state conf_change_index conf_state =
     seq (on_fs (write_membership conf_change_index conf_state) membership_err_to_storage_err) (\<lambda>_.
     seq (count_stats (\<lambda>t. t\<lparr>dir_fsyncs := dir_fsyncs t + 1\<rparr>)) (\<lambda>_.
       set_wal (\<lambda>s. s\<lparr>wal_conf_change_index := conf_change_index, wal_conf_state := conf_state\<rparr>)))"

subsection \<open>Snapshots and compaction\<close>

definition prune_snapshots :: "unit wal_op" where
  "prune_snapshots =
     seq (io fs_read_dir) (\<lambda>names.
     let extra = drop SNAPSHOT_RETENTION (snapshot_candidates (\<lambda>_. True) names) in
     seq (each (\<lambda>(_, name). io (remove_file name)) extra) (\<lambda>_.
       if extra \<noteq> [] then io fsync_dir else ret ()))"

text \<open>The snapshot's member table takes over when it is newer than the membership file.\<close>

definition adopt_conf_state :: "Snapshot \<Rightarrow> unit wal_op" where
  "adopt_conf_state snapshot = set_wal (\<lambda>s.
     if sm_index (sn_meta snapshot) > wal_conf_change_index s then
       s\<lparr>wal_conf_state := sm_conf_state (sn_meta snapshot),
         wal_conf_change_index := sm_index (sn_meta snapshot)\<rparr>
     else s)"

definition save_snapshot :: "Snapshot \<Rightarrow> unit wal_op" where
  "save_snapshot snapshot =
     seq (wal id) (\<lambda>s.
     if (case wal_snapshot s of
           Some existing \<Rightarrow> sm_index (sn_meta existing) \<ge> sm_index (sn_meta snapshot)
         | None \<Rightarrow> False)
     then ret ()
     else
       let name = snapshot_file_name (sm_index (sn_meta snapshot)) (sm_term (sn_meta snapshot));
           meta = (wal_meta s)\<lparr>m_snapshot_index := sm_index (sn_meta snapshot),
             m_snapshot_term := sm_term (sn_meta snapshot)\<rparr>
       in seq (adopt_conf_state snapshot) (\<lambda>_.
          seq (io (atomic_replace (name @ ''.tmp'') name (encode_snapshot snapshot))) (\<lambda>_.
          seq (on_fs (write_meta meta) (\<lambda>e. Unrecoverable (MetaUnwritable e))) (\<lambda>_.
          seq (set_wal (\<lambda>s. s\<lparr>wal_meta := meta, wal_snapshot := Some snapshot\<rparr>)) (\<lambda>_.
            prune_snapshots)))))"

text \<open>\<open>remove_file\<close> where a missing file is not an error.\<close>

definition remove_if_present :: "string \<Rightarrow> unit wal_op" where
  "remove_if_present name w =
     (case io (remove_file name) w of
        (w', Inl (Io NotFound)) \<Rightarrow> (w', Inr ())
      | r \<Rightarrow> r)"

definition replace_log_with_snapshot :: "LogIndex \<Rightarrow> unit wal_op" where
  "replace_log_with_snapshot snapshot_index =
     (let next = snapshot_index + 1 in
      seq (wal segment_bytes) (\<lambda>max.
      seq (io list_segment_indices) (\<lambda>old.
      seq (each (\<lambda>index. remove_if_present (segment_path index)) old) (\<lambda>_.
      seq (io (segment_open next max)) (\<lambda>seg.
      seq (set_wal (\<lambda>s. s\<lparr>wal_segment := seg, segment_first_index := next,
            max_entry_in_segment := 0, pending_entry_fsync := False\<rparr>)) (\<lambda>_.
        if old \<noteq> [] then io fsync_dir else ret ()))))))"

definition install_snapshot :: "Snapshot \<Rightarrow> unit wal_op" where
  "install_snapshot snapshot =
     seq (wal id) (\<lambda>s.
     let index = sm_index (sn_meta snapshot) in
     if index < compacted_to s then throw (Unrecoverable (OlderSnapshot index (compacted_to s)))
     else if index = compacted_to s \<and> wal_entries s = [] then ret ()
     else
       seq (adopt_conf_state snapshot) (\<lambda>_.
       seq (save_snapshot snapshot) (\<lambda>_.
       seq (set_wal (\<lambda>s. s\<lparr>wal_entries := [], compacted_to := index\<rparr>)) (\<lambda>_.
         replace_log_with_snapshot index))))"

text \<open>\<open>indices.windows(2)\<close>.\<close>

fun windows2 :: "'a list \<Rightarrow> ('a \<times> 'a) list" where
  "windows2 (x # y # xs) = (x, y) # windows2 (y # xs)"
| "windows2 _ = []"

definition delete_segments_below :: "LogIndex \<Rightarrow> unit wal_op" where
  "delete_segments_below watermark =
     seq (wal segment_first_index) (\<lambda>active.
     seq (io list_segment_indices) (\<lambda>indices.
     let doomed = map fst (filter (\<lambda>(this, next). next \<le> watermark + 1 \<and> this \<noteq> active)
           (windows2 indices)) in
     seq (each (\<lambda>this. io (remove_file (segment_path this))) doomed) (\<lambda>_.
       if doomed \<noteq> [] then io fsync_dir else ret ())))"

text \<open>Bytes held by the segments from \<open>from\<close> on; a missing file counts nothing.\<close>

fun sum_sizes :: "string list \<Rightarrow> nat \<Rightarrow> nat wal_op" where
  "sum_sizes [] acc = ret acc"
| "sum_sizes (name # names) acc =
     (\<lambda>w. case io (fs_len name) w of
            (w', Inr n) \<Rightarrow> sum_sizes names (acc + n) w'
          | (w', Inl (Io NotFound)) \<Rightarrow> sum_sizes names acc w'
          | (w', Inl e) \<Rightarrow> (w', Inl e))"

definition retained_bytes_from :: "LogIndex list \<Rightarrow> LogIndex \<Rightarrow> nat wal_op" where
  "retained_bytes_from indices from =
     sum_sizes (map segment_path (filter (\<lambda>index. index \<ge> from) indices)) 0"

definition log_bytes :: "nat wal_op" where
  "log_bytes = seq (io list_segment_indices) (\<lambda>indices. sum_sizes (map segment_path indices) 0)"

text \<open>The trailing-window loop of \<open>compact\<close>: the watermark reached, and whether a file went.\<close>

fun compact_windows ::
    "LogIndex \<Rightarrow> LogIndex list \<Rightarrow> (LogIndex \<times> LogIndex) list \<Rightarrow> LogIndex \<Rightarrow> bool
      \<Rightarrow> (LogIndex \<times> bool) wal_op" where
  "compact_windows compact_to indices [] effective removed = ret (effective, removed)"
| "compact_windows compact_to indices ((this, next) # ws) effective removed =
     (if next > compact_to + 1 then ret (effective, removed)
      else
        seq (wal id) (\<lambda>s.
        if this = segment_first_index s then compact_windows compact_to indices ws effective removed
        else
          seq (retained_bytes_from indices next) (\<lambda>retained.
          if retained < unat (trailing_keep_bytes s) then ret (effective, removed)
          else
            seq (io (remove_file (segment_path this))) (\<lambda>_.
              compact_windows compact_to indices ws (next - 1) True))))"

definition wal_compact :: "LogIndex \<Rightarrow> unit wal_op" where
  "wal_compact compact_to =
     seq (wal id) (\<lambda>s.
     if compact_to \<le> compacted_to s then ret ()
     else if compact_to > last_index s then
       throw (Unrecoverable (CompactBeyondLast compact_to (last_index s)))
     else
       (case wal_snapshot s of
          None \<Rightarrow> throw (Unrecoverable CompactWithoutSnapshot)
        | Some snapshot \<Rightarrow>
            if \<not> sm_index (sn_meta snapshot) \<ge> compact_to then
              throw (Unrecoverable (CompactBeyondSnapshot compact_to (sm_index (sn_meta snapshot))))
            else if trailing_keep_bytes s = 0 then
              seq (delete_segments_below compact_to) (\<lambda>_.
                set_wal (\<lambda>s. s\<lparr>wal_entries := filter (\<lambda>e. le_index e > compact_to) (wal_entries s),
                  compacted_to := compact_to\<rparr>))
            else
              seq (io list_segment_indices) (\<lambda>indices.
              seq (compact_windows compact_to indices (windows2 indices) (compacted_to s) False)
                (\<lambda>(effective, removed).
              seq (if removed then io fsync_dir else ret ()) (\<lambda>_.
                set_wal (\<lambda>s. s\<lparr>wal_entries := filter (\<lambda>e. le_index e > effective) (wal_entries s),
                  compacted_to := effective\<rparr>))))))"

definition set_trailing_keep_bytes :: "u64 \<Rightarrow> unit wal_op" where
  "set_trailing_keep_bytes bytes = set_wal (\<lambda>s. s\<lparr>trailing_keep_bytes := bytes\<rparr>)"

subsection \<open>Reads\<close>

text \<open>\<open>stats\<close>, with the flusher's count added (\<open>saturating_add\<close>).\<close>

definition stats_now :: "WalStorage \<Rightarrow> StorageStats" where
  "stats_now s =
     (case offloaded s of
        None \<Rightarrow> wal_stats s
      | Some off \<Rightarrow> (wal_stats s)\<lparr>offloaded_fsyncs :=
          (let n = unat (offloaded_fsyncs (wal_stats s)) + unat (off_syncs off)
           in if n < 2 ^ 64 then of_nat n else - 1)\<rparr>)"

definition initial_state :: "WalStorage \<Rightarrow> RaftState" where
  "initial_state s =
     \<lparr>rs_hard_state = wal_hard_state s,
      rs_conf_state =
        (if cs_voters (wal_conf_state s) = [] \<and> cs_learners (wal_conf_state s) = [] then
           (case wal_snapshot s of Some sn \<Rightarrow> sm_conf_state (sn_meta sn) | None \<Rightarrow> cs_default)
         else wal_conf_state s)\<rparr>"

text \<open>How many entries fit the size limit; the sizes are added in \<open>u64\<close>.\<close>

fun fit_count :: "u64 \<Rightarrow> u64 \<Rightarrow> LogEntry list \<Rightarrow> nat" where
  "fit_count limit used [] = 0"
| "fit_count limit used (e # es) =
     (let add = len64 (le_data e)
      in if used + add > limit then 0 else Suc (fit_count limit (used + add) es))"

definition storage_entries ::
    "WalStorage \<Rightarrow> LogIndex \<Rightarrow> LogIndex \<Rightarrow> u64 option \<Rightarrow> StorageError + LogEntry list" where
  "storage_entries s low high max_size =
     (if low \<ge> high then Inr []
      else
        let first = compacted_to s + 1;
            last = last_index s
        in if low < first then Inl Compacted
           else if high > last + 1 then Inl Compacted
           else
             and_then (ok_or (Unrecoverable Panicked)
                 (slice_get (wal_entries s) (unat (low - first)) (unat (high - first)))) (\<lambda>out.
               case max_size of
                 None \<Rightarrow> Inr out
               | Some limit \<Rightarrow> Inr (take (fit_count limit 0 out) out)))"

definition storage_term :: "WalStorage \<Rightarrow> LogIndex \<Rightarrow> StorageError + Term" where
  "storage_term s index =
     (let first = compacted_to s + 1 in
      if index < first then
        (case wal_snapshot s of
           Some sn \<Rightarrow> if index = sm_index (sn_meta sn) then Inr (sm_term (sn_meta sn)) else Inl Compacted
         | None \<Rightarrow> Inl Compacted)
      else if index > last_index s then Inl Compacted
      else
        let i = unat (index - first)
        in if i < length (wal_entries s) then Inr (le_term (wal_entries s ! i))
           else Inl (Unrecoverable Panicked))"

subsection \<open>Off-thread durability\<close>

text \<open>
  The channel to the flusher thread is the queue \<open>off_jobs\<close>, its results are \<open>off_done\<close>, and
  starting the thread may fail.  The callback that wakes the node up is not part of the state.
\<close>

definition enable_offloaded_durability :: "unit wal_op" where
  "enable_offloaded_durability =
     seq (wal offloaded) (\<lambda>off.
       if off \<noteq> None then ret ()
       else
         seq (io (prim (ret ()))) (\<lambda>_.
           set_wal (\<lambda>s. s\<lparr>offloaded :=
             Some \<lparr>off_jobs = [], off_done = [], off_next_id = 0, off_syncs = 0\<rparr>\<rparr>)))"

definition submit_flush :: "u64 wal_op" where
  "submit_flush =
     seq (wal id) (\<lambda>s.
     seq (io (segment_try_clone (wal_segment s))) (\<lambda>file.
       case offloaded s of
         None \<Rightarrow> throw (Unrecoverable OffloadingDisabled)
       | Some off \<Rightarrow>
           let job = \<lparr>fj_id = off_next_id off, fj_segment = segment_first_index s, fj_fd = file\<rparr>
           in seq (set_wal (\<lambda>s. s\<lparr>offloaded := Some (off\<lparr>off_jobs := off_jobs off @ [job],
                  off_next_id := off_next_id off + 1\<rparr>)\<rparr>)) (\<lambda>_.
                ret (off_next_id off))))"

text \<open>
  One round of the flusher thread.  It takes the first job and the \<open>extra\<close> ones that have
  arrived behind it, groups them by segment
  in order of first occurrence keeping the last descriptor and the last id of each group,
  syncs the groups in order until one fails, and reports every job of the batch; the job that
  owns its segment is the last one of its group.
\<close>

fun group_job :: "FlushJob \<Rightarrow> (LogIndex \<times> fd \<times> u64) list \<Rightarrow> (LogIndex \<times> fd \<times> u64) list" where
  "group_job job [] = [(fj_segment job, fj_fd job, fj_id job)]"
| "group_job job ((seg, f, i) # gs) =
     (if seg = fj_segment job then (seg, fj_fd job, fj_id job) # gs
      else (seg, f, i) # group_job job gs)"

definition group_jobs :: "FlushJob list \<Rightarrow> (LogIndex \<times> fd \<times> u64) list" where
  "group_jobs batch = fold group_job batch []"

definition owner_of :: "(LogIndex \<times> fd \<times> u64) list \<Rightarrow> FlushJob \<Rightarrow> bool" where
  "owner_of groups job = (map_of (map (\<lambda>(seg, f, i). (seg, i)) groups) (fj_segment job) = Some (fj_id job))"

text \<open>The number of syncs tried, and whether all of them succeeded.\<close>

fun sync_groups :: "(LogIndex \<times> fd \<times> u64) list \<Rightarrow> nat \<Rightarrow> Fs \<Rightarrow> Fs \<times> nat \<times> bool" where
  "sync_groups [] n fs = (fs, n, True)"
| "sync_groups ((seg, f, i) # gs) n fs =
     (case sync_all f fs of
        (fs', Inr _) \<Rightarrow> sync_groups gs (Suc n) fs'
      | (fs', Inl _) \<Rightarrow> (fs', Suc n, False))"

definition flusher_round :: "nat \<Rightarrow> World \<Rightarrow> World" where
  "flusher_round extra w =
     (case offloaded (the_wal w) of
        None \<Rightarrow> w
      | Some off \<Rightarrow>
          let batch = take (Suc extra) (off_jobs off) in
          if batch = [] then w
          else
            let groups = group_jobs batch;
                (fs', n, good) = sync_groups groups 0 (the_fs w);
                results = map (\<lambda>job. \<lparr>fr_id = fj_id job, fr_segment = fj_segment job,
                  fr_ok = good, fr_owner = owner_of groups job\<rparr>) batch;
                off' = off\<lparr>off_jobs := drop (Suc extra) (off_jobs off),
                  off_done := off_done off @ results, off_syncs := off_syncs off + of_nat n\<rparr>
            in w\<lparr>the_fs := fs', the_wal := (the_wal w)\<lparr>offloaded := Some off'\<rparr>\<rparr>)"

datatype PersistSubmit = Durable | OffloadedToken u64

definition persist_ready_records :: "LogEntry list \<Rightarrow> HardState option \<Rightarrow> PersistSubmit wal_op" where
  "persist_ready_records entries hard_state =
     seq (wal offloaded) (\<lambda>off.
     case off of
       None \<Rightarrow>
         seq (if entries \<noteq> [] then seq (wal_append entries) (\<lambda>_. sync_entries) else ret ()) (\<lambda>_.
         seq (case hard_state of Some hs \<Rightarrow> set_hard_state hs | None \<Rightarrow> ret ()) (\<lambda>_.
           ret Durable))
     | Some _ \<Rightarrow>
         seq (if entries \<noteq> [] then wal_append entries else ret ()) (\<lambda>_.
         seq (case hard_state of Some hs \<Rightarrow> set_hard_state_buffered hs | None \<Rightarrow> ret ()) (\<lambda>_.
           if entries \<noteq> [] \<or> hard_state \<noteq> None
           then seq submit_flush (\<lambda>token. ret (OffloadedToken token))
           else ret Durable)))"

text \<open>\<open>done.remove(position)\<close> of the first result with the token's id.\<close>

fun take_result :: "u64 \<Rightarrow> FlushJobResult list \<Rightarrow> (FlushJobResult \<times> FlushJobResult list) option" where
  "take_result token [] = None"
| "take_result token (r # rs) =
     (if fr_id r = token then Some (r, rs)
      else map_option (\<lambda>(x, rest). (x, r # rest)) (take_result token rs))"

text \<open>\<open>Some (Some ok)\<close> is a finished flush and its result, \<open>None\<close> one still in flight.\<close>

definition poll_flush :: "u64 \<Rightarrow> bool option wal_op" where
  "poll_flush token =
     seq (wal id) (\<lambda>s.
     case offloaded s of
       None \<Rightarrow> ret (Some True)
     | Some off \<Rightarrow>
         (case take_result token (off_done off) of
            None \<Rightarrow> ret None
          | Some (finished, rest) \<Rightarrow>
              seq (set_wal (\<lambda>s. s\<lparr>offloaded := Some (off\<lparr>off_done := rest\<rparr>)\<rparr>)) (\<lambda>_.
              seq (if fr_ok finished \<and> fr_owner finished \<and> fr_segment finished = segment_first_index s
                   then seq (set_wal (\<lambda>s. s\<lparr>pending_entry_fsync := False\<rparr>)) (\<lambda>_. notify_fsynced)
                   else ret ()) (\<lambda>_.
                ret (Some (fr_ok finished))))))"

text \<open>A flush handle, its \<open>flush\<close> by a worker, and \<open>note_flushed\<close> after that succeeded.\<close>

record FlushHandle =
  fh_file :: fd
  fh_segment :: LogIndex

definition flush_handle :: "FlushHandle wal_op" where
  "flush_handle =
     seq (wal id) (\<lambda>s.
     seq (io (segment_try_clone (wal_segment s))) (\<lambda>file.
       ret \<lparr>fh_file = file, fh_segment = segment_first_index s\<rparr>))"

definition handle_flush :: "FlushHandle \<Rightarrow> (Fs, StorageError, unit) comp" where
  "handle_flush handle = with_err Io (sync_all (fh_file handle))"

definition note_flushed :: "FlushHandle \<Rightarrow> unit wal_op" where
  "note_flushed handle =
     seq (count_stats (\<lambda>t. t\<lparr>offloaded_fsyncs := offloaded_fsyncs t + 1\<rparr>)) (\<lambda>_.
     seq (wal id) (\<lambda>s.
       if fh_segment handle = segment_first_index s
       then seq (set_wal (\<lambda>s. s\<lparr>pending_entry_fsync := False\<rparr>)) (\<lambda>_. notify_fsynced)
       else ret ()))"

subsection \<open>Forced recovery\<close>

record ForceRecoveryReport =
  fc_previous_cluster_id :: bytes
  fc_cluster_id :: bytes
  fc_term :: Term
  fc_commit :: LogIndex
  fc_discarded_entries :: u64

text \<open>Running operations of the log on a freshly opened one, which is dropped afterwards.\<close>

definition with_wal :: "WalStorage \<Rightarrow> 'a wal_op \<Rightarrow> (Fs, StorageError, 'a) comp" where
  "with_wal s m fs =
     (case m \<lparr>the_fs = fs, the_wal = s\<rparr> of (w, r) \<Rightarrow> ((the_fs w)\<lparr>fs_lock := False\<rparr>, r))"

definition force_recovery ::
    "bytes \<Rightarrow> bytes option \<Rightarrow> WalConfig \<Rightarrow> u64 \<Rightarrow> (Fs, StorageError, ForceRecoveryReport) comp" where
  "force_recovery node_id new_cluster_id config created_at_millis =
     seq (with_err (\<lambda>e. Unrecoverable (MetaUnreadable e)) read_meta) (\<lambda>meta.
     if m_node_id meta \<noteq> node_id then throw (Unrecoverable RecoveryNodeIdMismatch)
     else
       let previous = m_cluster_id meta;
           target = (case new_cluster_id of Some c \<Rightarrow> c | None \<Rightarrow> previous)
       in if target = [] then throw (Unrecoverable EmptyClusterId)
          else
            seq (wal_open \<lparr>op_cluster_id = previous, op_node_id = node_id, op_config = config,
                 op_created_at_millis = created_at_millis\<rparr>) (\<lambda>s.
            let commit = hs_commit (wal_hard_state s);
                previous_term = hs_term (wal_hard_state s)
            in seq (with_wal s
                 (seq (truncate_log_to commit) (\<lambda>discarded.
                  seq (set_hard_state \<lparr>hs_term = previous_term + 1, hs_vote = Some 1, hs_commit = commit\<rparr>) (\<lambda>_.
                    ret discarded)))) (\<lambda>discarded.
               seq (with_err (\<lambda>e. Unrecoverable (MetaUnwritable e)) (write_meta (meta\<lparr>m_cluster_id := target\<rparr>))) (\<lambda>_.
               seq (with_err Io fsync_dir) (\<lambda>_.
                 ret \<lparr>fc_previous_cluster_id = previous, fc_cluster_id = target,
                      fc_term = previous_term + 1, fc_commit = commit,
                      fc_discarded_entries = discarded\<rparr>)))))"

end
