(* ===== verification/WalRecords.thy ===== *)
theory WalRecords
  imports Wal
begin

text \<open>
  The log as a sequence of records.  A segment file is a concatenation of encoded records; the
  scanner of \<open>recover_wal\<close> and the search of \<open>truncate_log_to\<close> are described on that view.  The
  lemmas cover a complete file, a file cut in the middle of its last record, and what a crash
  leaves of a file whose end was not yet synced.
\<close>

subsection \<open>Records\<close>

datatype LogRec = REntry LogEntry | RHard HardState

fun enc :: "LogRec \<Rightarrow> bytes" where
  "enc (REntry e) = encode_record Entry
     (encode_entry (le_index e) (le_term e) (seam_entry_type_to_u8 (le_type e)) (le_data e))"
| "enc (RHard hs) = encode_record HardState (hard_state_payload hs)"

fun rec_ok :: "LogRec \<Rightarrow> bool" where
  "rec_ok (REntry e) \<longleftrightarrow> 26 + length (le_data e) \<le> unat MAX_RECORD_BYTES"
| "rec_ok (RHard hs) \<longleftrightarrow> True"

abbreviation enc_all :: "LogRec list \<Rightarrow> bytes" where
  "enc_all rs \<equiv> concat (map enc rs)"

fun entries_of :: "LogRec list \<Rightarrow> LogEntry list" where
  "entries_of [] = []"
| "entries_of (REntry e # rs) = e # entries_of rs"
| "entries_of (RHard _ # rs) = entries_of rs"

fun hard_of :: "HardState \<Rightarrow> LogRec list \<Rightarrow> HardState" where
  "hard_of hs [] = hs"
| "hard_of hs (REntry _ # rs) = hard_of hs rs"
| "hard_of hs (RHard h # rs) = hard_of h rs"

lemma entries_of_append [simp]: "entries_of (xs @ ys) = entries_of xs @ entries_of ys"
  by (induction xs rule: entries_of.induct) auto

lemma hard_of_append [simp]: "hard_of hs (xs @ ys) = hard_of (hard_of hs xs) ys"
  by (induction hs xs rule: hard_of.induct) auto

lemma enc_length: "9 \<le> length (enc r)"
  by (cases r) auto

lemma enc_not_Nil [simp]: "enc r \<noteq> []"
  using enc_length [of r] by auto

lemma record_header:
  "length p < 67108864 \<Longrightarrow> 8 + unat (of_le32 (take 4 (encode_record t p))) = length (encode_record t p)"
  by (simp add: encode_record_def Let_def unat_of_nat del: of_nat_Suc of_nat_add)

lemma enc_header: "rec_ok r \<Longrightarrow> 8 + unat (of_le32 (take 4 (enc r))) = length (enc r)"
  by (cases r) (simp_all only: enc.simps, simp_all add: record_header del: length_encode_record)

lemma frame_enc: "rec_ok r \<Longrightarrow> frame (enc r @ rest) = Some (enc r, rest)"
  using enc_header [of r] enc_length [of r] by (simp add: frame_def Let_def)

lemma frame_torn:
  assumes "rec_ok r" "k < length (enc r)"
  shows "frame (take k (enc r)) = None"
proof (cases "k < 8")
  case False
  then have "take 4 (take k (enc r)) = take 4 (enc r)" by (simp add: min_def)
  with assms enc_header [of r] show ?thesis by (simp add: frame_def Let_def)
qed (use assms in \<open>simp add: frame_def\<close>)

lemma decode_enc:
  "rec_ok (REntry e) \<Longrightarrow> decode_record (enc (REntry e)) =
     Inr (Entry, encode_entry (le_index e) (le_term e) (seam_entry_type_to_u8 (le_type e)) (le_data e))"
  "decode_record (enc (RHard hs)) = Inr (HardState, hard_state_payload hs)"
  by (simp_all add: decode_encode_record)

lemma record_eta [simp]:
  "\<lparr>le_index = le_index e, le_term = le_term e, le_type = le_type e, le_data = le_data e\<rparr> = e"
  "\<lparr>hs_term = hs_term h, hs_vote = hs_vote h, hs_commit = hs_commit h\<rparr> = h"
  by simp_all

subsection \<open>The scanner\<close>

lemma scan_segment_Nil [simp]: "scan_segment idx l c off [] es hs = Inr (es, hs, None)"
  by (simp add: scan_segment.simps)

lemma scan_segment_record:
  "rec_ok r \<Longrightarrow> scan_segment idx l c off (enc r @ rest) es hs =
     scan_segment idx l c (off + length (enc r)) rest (es @ entries_of [r]) (hard_of hs [r])"
  by (subst scan_segment.simps, cases r)
    (simp_all add: frame_enc decode_enc del: enc.simps)

lemma scan_segment_records:
  "\<forall>r \<in> set rs. rec_ok r \<Longrightarrow> scan_segment idx l c off (enc_all rs @ rest) es hs =
     scan_segment idx l c (off + length (enc_all rs)) rest (es @ entries_of rs) (hard_of hs rs)"
proof (induction rs arbitrary: off es hs)
  case (Cons r rs)
  have "entries_of (r # rs) = entries_of [r] @ entries_of rs" "hard_of hs (r # rs) = hard_of (hard_of hs [r]) rs"
    using entries_of_append [of "[r]" rs] hard_of_append [of hs "[r]" rs] by simp_all
  then show ?case using Cons by (simp add: scan_segment_record add.assoc)
qed simp

lemma scan_segment_complete:
  "\<forall>r \<in> set rs. rec_ok r \<Longrightarrow>
     scan_segment idx l c off (enc_all rs) es hs = Inr (es @ entries_of rs, hard_of hs rs, None)"
  using scan_segment_records [of rs idx l c off "[]"] by simp

definition tear_result ::
    "LogIndex \<Rightarrow> bool \<Rightarrow> LogIndex \<Rightarrow> nat \<Rightarrow> LogEntry list \<Rightarrow> HardState
      \<Rightarrow> StorageError + (LogEntry list \<times> HardState \<times> nat option)" where
  "tear_result idx is_last c off es hs =
     (if \<not> is_last then Inl (Unrecoverable (TearInOlderSegment idx off))
      else if last_entry_index es c + 1 \<le> hs_commit hs + 1
      then Inl (Unrecoverable (TearInCommitWindow (last_entry_index es c + 1) (hs_commit hs)))
      else Inr (es, hs, Some off))"

lemma scan_segment_torn:
  assumes "\<forall>r \<in> set rs. rec_ok r" "rec_ok r" "0 < k" "k < length (enc r)"
  shows "scan_segment idx l c off (enc_all rs @ take k (enc r)) es hs =
     tear_result idx l c (off + length (enc_all rs)) (es @ entries_of rs) (hard_of hs rs)"
proof -
  have "take k (enc r) \<noteq> []" using assms(3) by simp
  then show ?thesis
    using scan_segment_records [OF assms(1)] frame_torn [OF assms(2,4)]
    by (simp add: scan_segment.simps [where rest = "take k (enc r)"] tear_result_def Let_def)
qed

text \<open>A cut anywhere falls between two records or inside one.\<close>

lemma take_enc_all:
  obtains n where "n \<le> length rs" "take k (enc_all rs) = enc_all (take n rs)"
  | n j where "n < length rs" "0 < j" "j < length (enc (rs ! n))"
      "take k (enc_all rs) = enc_all (take n rs) @ take j (enc (rs ! n))"
proof (induction rs arbitrary: k thesis)
  case Nil
  show ?case using Nil(1) [of 0] by simp
next
  case (Cons r rs)
  consider "k = 0" | "0 < k" "k < length (enc r)" | "length (enc r) \<le> k" by linarith
  then show ?case
  proof cases
    case 1
    then show ?thesis using Cons.prems(1) [of 0] by simp
  next
    case 2
    then show ?thesis using Cons.prems(2) [of 0 k] by simp
  next
    case 3
    then have k: "take k (enc_all (r # rs)) = enc r @ take (k - length (enc r)) (enc_all rs)" by simp
    show ?thesis
    proof (rule Cons.IH [of "k - length (enc r)"])
      fix n assume "n \<le> length rs" "take (k - length (enc r)) (enc_all rs) = enc_all (take n rs)"
      then show ?thesis using Cons.prems(1) [of "Suc n"] k by simp
    next
      fix n j assume "n < length rs" "0 < j" "j < length (enc (rs ! n))"
        "take (k - length (enc r)) (enc_all rs) = enc_all (take n rs) @ take j (enc (rs ! n))"
      then show ?thesis using Cons.prems(2) [of "Suc n" j] k by simp
    qed
  qed
qed

text \<open>
  A file cut at any length: the scanner returns the records that are complete, or reports the
  tear.
\<close>

lemma scan_segment_cut:
  assumes "\<forall>r \<in> set rs. rec_ok r"
  obtains n cut where "n \<le> length rs" "length (enc_all (take n rs)) \<le> k"
    "scan_segment idx True c off (take k (enc_all rs)) es hs =
       Inr (es @ entries_of (take n rs), hard_of hs (take n rs), cut)"
    "cut = None \<and> take k (enc_all rs) = enc_all (take n rs) \<or> cut = Some (off + length (enc_all (take n rs)))"
  | n where "n < length rs" "last_entry_index (es @ entries_of (take n rs)) c + 1
         \<le> hs_commit (hard_of hs (take n rs)) + 1"
    "scan_segment idx True c off (take k (enc_all rs)) es hs =
       Inl (Unrecoverable (TearInCommitWindow (last_entry_index (es @ entries_of (take n rs)) c + 1)
         (hs_commit (hard_of hs (take n rs)))))"
proof -
  have ok: "\<forall>r \<in> set (take n rs). rec_ok r" for n
    using assms by (meson in_set_takeD)
  from take_enc_all [of rs k] show ?thesis
  proof cases
    case (1 n)
    then have "length (enc_all (take n rs)) \<le> k" by (metis length_take min.cobounded2)
    with 1 show ?thesis using that(1) [of n None] scan_segment_complete [OF ok] by simp
  next
    case (2 n j)
    have len: "length (enc_all (take n rs)) \<le> k"
      using arg_cong [OF 2(4), of length] by simp
    have "rec_ok (rs ! n)" using assms 2(1) by simp
    note torn = scan_segment_torn [OF ok [of n] this 2(2,3)]
    show ?thesis
      using 2 len torn [of idx True c off es hs]
        that(1) [of n "Some (off + length (enc_all (take n rs)))"] that(2) [of n]
      by (cases "last_entry_index (es @ entries_of (take n rs)) c + 1
         \<le> hs_commit (hard_of hs (take n rs)) + 1") (auto simp: tear_result_def)
  qed
qed

subsection \<open>The search for an entry\<close>

lemma find_entry_end_record:
  "rec_ok r \<Longrightarrow> find_entry_end keep off (enc r @ rest) =
     (if map le_index (entries_of [r]) = [keep] then Some (off + length (enc r))
      else find_entry_end keep (off + length (enc r)) rest)"
  by (subst find_entry_end.simps, cases r)
    (auto simp: frame_enc decode_enc simp del: enc.simps)

lemma find_entry_end_Nil [simp]: "find_entry_end keep off [] = None"
  by (simp add: find_entry_end.simps)

lemma find_entry_end_absent:
  "\<forall>r \<in> set rs. rec_ok r \<Longrightarrow> keep \<notin> le_index ` set (entries_of rs) \<Longrightarrow>
     find_entry_end keep off (enc_all rs @ rest) = find_entry_end keep (off + length (enc_all rs)) rest"
proof (induction rs arbitrary: off)
  case (Cons r rs)
  then show ?case by (cases r) (auto simp: find_entry_end_record add.assoc simp del: enc.simps)
qed simp

lemma find_entry_end_present:
  assumes "\<forall>r \<in> set rs1. rec_ok r" "keep \<notin> le_index ` set (entries_of rs1)"
    and "rec_ok (REntry e)" "le_index e = keep"
  shows "find_entry_end keep 0 (enc_all (rs1 @ REntry e # rs2)) = Some (length (enc_all (rs1 @ [REntry e])))"
  using find_entry_end_absent [OF assms(1,2), of 0 "enc (REntry e) @ enc_all rs2"] assms(3,4)
  by (simp add: find_entry_end_record del: enc.simps)

end
