(* ===== verification/WalDurable.thy ===== *)
theory WalDurable
  imports WalRecords "HOL-Library.Multiset"
begin

text \<open>
  The log on disk and in memory.  \<open>disk_log\<close> reads the segment files as lists of records,
  \<open>log_mem\<close> relates the records to the fields of the open log, and \<open>store_inv\<close> puts both
  together with the other files of the data directory.  The operations of the synchronous path
  keep the invariant, a crash of a synced store changes nothing, and \<open>wal_open\<close> on such a store
  brings the same log back.
\<close>

subsection \<open>Runs that return\<close>

lemma seq_Inr: "seq m f s = (s', Inr x) \<longleftrightarrow> (\<exists>s1 y. m s = (s1, Inr y) \<and> f y s1 = (s', Inr x))"
  by (auto simp: seq_def split: prod.splits sum.splits)

lemma on_fs_Inr: "on_fs m err w = (w', Inr x) \<longleftrightarrow> (\<exists>fs'. m (the_fs w) = (fs', Inr x) \<and> w' = w\<lparr>the_fs := fs'\<rparr>)"
  by (auto simp: on_fs_def res_simps split: prod.splits)

lemma simple_Inr:
  "ret y s = (s', Inr x) \<longleftrightarrow> s' = s \<and> x = y"
  "throw e s = (s', Inr x) \<longleftrightarrow> False"
  "gets f s = (s', Inr z) \<longleftrightarrow> s' = s \<and> z = f s"
  "modify g s = (s', Inr u) \<longleftrightarrow> s' = g s"
  by (auto simp: ret_def throw_def gets_def modify_def)

lemmas run_Inr = seq_Inr on_fs_Inr simple_Inr

lemma prim_Inr: "prim m fs = (fs', Inr x) \<Longrightarrow> \<exists>b. m (fs\<lparr>fs_budget := b\<rparr>) = (fs', Inr x)"
  by (erule prim_cases) auto

lemma upd_inode_budget [simp]: "upd_inode i f (fs\<lparr>fs_budget := b\<rparr>) = (upd_inode i f fs)\<lparr>fs_budget := b\<rparr>"
  by (simp add: upd_inode_def)

lemma new_file_budget [simp]: "new_file n (fs\<lparr>fs_budget := b\<rparr>) = (new_file n fs)\<lparr>fs_budget := b\<rparr>"
  by (simp add: new_file_def dir_op_def)

lemma upd_prim_Inr:
  "prim (modify (upd_inode i f)) fs = (fs', Inr x) \<Longrightarrow> \<exists>b. fs' = (upd_inode i f fs)\<lparr>fs_budget := b\<rparr>"
  by (drule prim_Inr) (auto simp: modify_def)

lemma segment_append_record_Inr:
  "segment_append_record seg t p fs = (fs', Inr x) \<Longrightarrow>
     \<exists>b. fs' = (upd_inode (seg_fd seg) (\<lambda>f. f\<lparr>f_data := f_data f @ encode_record t p\<rparr>) fs)\<lparr>fs_budget := b\<rparr>"
  unfolding segment_append_record_def write_all_def by (rule upd_prim_Inr)

lemma segment_sync_Inr:
  "segment_sync seg fs = (fs', Inr x) \<Longrightarrow>
     \<exists>b. fs' = (upd_inode (seg_fd seg) (\<lambda>f. f\<lparr>f_synced := f_data f, f_low := length (f_data f)\<rparr>) fs)\<lparr>fs_budget := b\<rparr>"
  unfolding segment_sync_def sync_all_def by (rule upd_prim_Inr)

lemma segment_size_Inr: "segment_size seg fs = (fs', Inr n) \<Longrightarrow>
    n = length (f_data (fs_inodes fs ! seg_fd seg)) \<and> (\<exists>b. fs' = fs\<lparr>fs_budget := b\<rparr>)"
  unfolding segment_size_def fd_len_def by (drule prim_Inr) (auto simp: gets_def)

subsection \<open>A settled directory\<close>

definition dir_wf :: "Fs \<Rightarrow> bool" where
  "dir_wf fs \<longleftrightarrow> fs_pending fs = [] \<and> fs_dsynced fs = fs_dir fs \<and>
     distinct (map fst (fs_dir fs)) \<and> distinct (map snd (fs_dir fs)) \<and>
     (\<forall>i \<in> snd ` set (fs_dir fs). i < length (fs_inodes fs))"

lemma dir_wf_budget [simp]: "dir_wf (fs\<lparr>fs_budget := b\<rparr>) = dir_wf fs"
  by (simp add: dir_wf_def)

lemma dir_wf_upd [simp]: "dir_wf (upd_inode i f fs) = dir_wf fs"
  by (simp add: dir_wf_def)

lemma dir_wf_fs_wf: "dir_wf fs \<Longrightarrow> fs_wf fs"
  by (simp add: dir_wf_def fs_wf_def)

lemma dir_wf_bound: "dir_wf fs \<Longrightarrow> map_of (fs_dir fs) n = Some i \<Longrightarrow> i < length (fs_inodes fs)"
  by (drule map_of_SomeD) (force simp: dir_wf_def)

lemma map_of_inj:
  assumes "distinct (map snd d)" "map_of d n = Some i" "map_of d n' = Some i"
  shows "n = n'"
proof -
  have "(n, i) \<in> set d" "(n', i) \<in> set d" using assms(2,3) map_of_SomeD by fastforce+
  with assms(1) show ?thesis by (metis distinct_map inj_onD snd_conv prod.inject)
qed

lemma contents_upd:
  assumes "dir_wf fs" "map_of (fs_dir fs) n = Some i"
  shows "contents (upd_inode i f fs) name =
    (if name = n then Some (f_data (f (fs_inodes fs ! i))) else contents fs name)"
proof (cases "name = n")
  case True
  then show ?thesis using assms dir_wf_bound [OF assms] by (simp add: contents_def)
next
  case False
  then have "map_of (fs_dir fs) name \<noteq> Some i"
    using map_of_inj [of "fs_dir fs" n i name] assms by (auto simp: dir_wf_def)
  then show ?thesis using False by (simp add: upd_inode_frame)
qed

lemma contents_fd:
  "map_of (fs_dir fs) n = Some i \<Longrightarrow> contents fs n = Some (f_data (fs_inodes fs ! i))"
  by (simp add: contents_def)

text \<open>A new file whose directory entry has been synced.\<close>

definition add_file :: "string \<Rightarrow> Fs \<Rightarrow> Fs" where
  "add_file name fs = (let g = new_file name fs in g\<lparr>fs_dsynced := fs_dir g, fs_pending := []\<rparr>)"

lemma AList_update_absent: "map_of d name = None \<Longrightarrow> AList.update name i d = d @ [(name, i)]"
  by (induction d) (auto split: if_splits)

lemma add_file_simps:
  assumes "map_of (fs_dir fs) name = None"
  shows "fs_dir (add_file name fs) = fs_dir fs @ [(name, length (fs_inodes fs))]"
    and "fs_inodes (add_file name fs) = fs_inodes fs @ [\<lparr>f_data = [], f_synced = [], f_low = 0\<rparr>]"
    and "fs_lock (add_file name fs) = fs_lock fs" "fs_budget (add_file name fs) = fs_budget fs"
  using assms by (simp_all add: add_file_def Let_def AList_update_absent)

lemma dir_wf_add_file:
  "dir_wf fs \<Longrightarrow> map_of (fs_dir fs) name = None \<Longrightarrow> dir_wf (add_file name fs)"
  by (auto simp: dir_wf_def add_file_def Let_def AList_update_absent map_of_eq_None_iff)

lemma contents_add_file:
  assumes "dir_wf fs" "map_of (fs_dir fs) name = None"
  shows "contents (add_file name fs) n = (if n = name then Some [] else contents fs n)"
  using assms dir_wf_bound [OF assms(1)]
  by (auto simp: contents_def add_file_simps nth_append map_add_def map_option_case split: option.splits)

lemma segment_open_fsync_Inr:
  assumes "segment_open idx mb fs = (fs1, Inr seg)" "fsync_dir fs1 = (fs2, Inr u)" "dir_wf fs"
  shows "(\<exists>i b. map_of (fs_dir fs) (segment_path idx) = Some i \<and> seg = \<lparr>seg_fd = i, seg_max_bytes = mb\<rparr> \<and>
            fs2 = fs\<lparr>fs_budget := b\<rparr>) \<or>
    (\<exists>b. map_of (fs_dir fs) (segment_path idx) = None \<and>
       seg = \<lparr>seg_fd = length (fs_inodes fs), seg_max_bytes = mb\<rparr> \<and>
       fs2 = (add_file (segment_path idx) fs)\<lparr>fs_budget := b\<rparr>)"
proof -
  obtain f where f: "open_append (segment_path idx) fs = (fs1, Inr f)" "seg = \<lparr>seg_fd = f, seg_max_bytes = mb\<rparr>"
    using assms(1) by (auto simp: segment_open_def run_Inr)
  obtain b where b: "(case map_of (fs_dir fs) (segment_path idx) of
      Some i \<Rightarrow> (fs\<lparr>fs_budget := b\<rparr>, Inr i)
    | None \<Rightarrow> (new_file (segment_path idx) (fs\<lparr>fs_budget := b\<rparr>),
        Inr (length (fs_inodes (fs\<lparr>fs_budget := b\<rparr>))))) = (fs1, Inr f :: IoError + fd)"
    using prim_Inr [OF f(1) [unfolded open_append_def]] by auto
  obtain b' where b': "fs2 = fs1\<lparr>fs_budget := b', fs_dsynced := fs_dir fs1, fs_pending := []\<rparr>"
    using prim_Inr [OF assms(2) [unfolded fsync_dir_def]] by (auto simp: modify_def)
  show ?thesis
  proof (cases "map_of (fs_dir fs) (segment_path idx)")
    case None
    then have "fs1 = new_file (segment_path idx) (fs\<lparr>fs_budget := b\<rparr>)" "f = length (fs_inodes fs)"
      using b by auto
    with b' None f(2) show ?thesis by (auto simp: add_file_def Let_def intro!: exI [of _ b'])
  next
    case (Some i)
    then have "fs1 = fs\<lparr>fs_budget := b\<rparr>" "f = i" using b by auto
    moreover have "fs\<lparr>fs_budget := b', fs_dsynced := fs_dir fs, fs_pending := []\<rparr> = fs\<lparr>fs_budget := b'\<rparr>"
      using assms(3) by (simp add: dir_wf_def)
    ultimately show ?thesis using b' Some f(2) by auto
  qed
qed

text \<open>A crash of a settled directory in which every file is clean.\<close>

definition all_clean :: "Fs \<Rightarrow> bool" where
  "all_clean fs \<longleftrightarrow> (\<forall>i \<in> snd ` set (fs_dir fs). clean (fs_inodes fs ! i))"

lemma all_clean_budget [simp]: "all_clean (fs\<lparr>fs_budget := b\<rparr>) = all_clean fs"
  by (simp add: all_clean_def)

lemma crash_all_clean:
  assumes "dir_wf fs" "all_clean fs" "crash fs fs'"
  shows "fs_dir fs' = fs_dir fs" "contents fs' = contents fs" "dir_wf fs'" "all_clean fs'"
    "fs_budget fs' = None" "\<not> fs_lock fs'"
proof -
  show dir: "fs_dir fs' = fs_dir fs"
    using assms(1,3) by (auto simp: crash_def dir_wf_def dest!: list_emb_Nil2)
  have "quiet fs n" for n
    using assms(1,2) dir_wf_bound [OF assms(1), of n]
    by (auto simp: quiet_def settled_def dir_wf_def all_clean_def dest!: map_of_SomeD)
  then show "contents fs' = contents fs"
    using crash_quiet [OF dir_wf_fs_wf [OF assms(1)] _ assms(3)] by auto
  show "dir_wf fs'" "all_clean fs'" "fs_budget fs' = None" "\<not> fs_lock fs'"
    using assms(1,3) dir by (auto simp: crash_def dir_wf_def all_clean_def)
qed

subsection \<open>Contiguous entries\<close>

lemma unat64_bound: "unat (w :: u64) < 2 ^ 64"
  by (rule order_less_le_trans [OF unsigned_less]) simp

fun contig :: "nat \<Rightarrow> LogEntry list \<Rightarrow> bool" where
  "contig n [] = True"
| "contig n (e # es) = (unat (le_index e) = n \<and> contig (Suc n) es)"

lemma contig_append [simp]: "contig n (xs @ ys) \<longleftrightarrow> contig n xs \<and> contig (n + length xs) ys"
  by (induction xs arbitrary: n) auto

lemma contig_index: "contig n es \<Longrightarrow> k < length es \<Longrightarrow> unat (le_index (es ! k)) = n + k"
  by (induction es arbitrary: n k) (auto simp: nth_Cons split: nat.splits)

lemma contig_last: "contig n es \<Longrightarrow> es \<noteq> [] \<Longrightarrow> Suc (unat (le_index (last es))) = n + length es"
  using contig_index [of n es "length es - 1"] by (simp add: last_conv_nth)

lemma check_continuity_contig: "contig (unat f) es \<Longrightarrow> check_continuity f es = Inr ()"
proof (induction es arbitrary: f)
  case (Cons e es)
  show ?case
  proof (cases es)
    case Nil
    then show ?thesis using Cons.prems by (auto simp: word_unat_eq_iff)
  next
    case (Cons e' es')
    then have "Suc (unat f) < 2 ^ 64" using \<open>contig (unat f) (e # es)\<close> unat64_bound [of "le_index e'"] by auto
    then have "unat (f + 1) = Suc (unat f)" by (simp add: unat_word_ariths)
    then show ?thesis using Cons.IH [of "f + 1"] Cons.prems by (auto simp: word_unat_eq_iff)
  qed
qed simp

lemma verify_continuity_contig: "contig n es \<Longrightarrow> verify_continuity es = Inr ()"
  using check_continuity_contig [of "le_index (hd es)" es]
  by (cases es) (auto simp: verify_continuity_def simp del: check_continuity.simps)

lemma contig_filter:
  "contig n es \<Longrightarrow> filter (\<lambda>e. le_index e > c) es = drop (Suc (unat c) - n) es"
proof (induction es arbitrary: n)
  case (Cons e es)
  have "le_index e > c \<longleftrightarrow> unat c < n" using Cons.prems by (auto simp: word_less_nat_alt)
  then show ?case using Cons by (cases "Suc (unat c) - n") (auto simp: Suc_diff_le)
qed simp

subsection \<open>The segments as records\<close>

type_synonym segs = "(LogIndex \<times> LogRec list) list"

definition recs_of :: "segs \<Rightarrow> LogRec list" where
  "recs_of segs = concat (map snd segs)"

definition disk_log :: "Fs \<Rightarrow> segs \<Rightarrow> bool" where
  "disk_log fs segs \<longleftrightarrow> segment_indices_of (map fst (fs_dir fs)) = map fst segs \<and> segs \<noteq> [] \<and>
     distinct (map fst segs) \<and>
     (\<forall>(i, rs) \<in> set segs. contents fs (segment_path i) = Some (enc_all rs) \<and> (\<forall>r \<in> set rs. rec_ok r))"

lemma disk_log_cong:
  "fs_dir fs' = fs_dir fs \<Longrightarrow> contents fs' = contents fs \<Longrightarrow> disk_log fs' segs = disk_log fs segs"
  by (simp add: disk_log_def)

lemma disk_log_budget [simp]: "disk_log (fs\<lparr>fs_budget := b\<rparr>) segs = disk_log fs segs"
  by (rule disk_log_cong) (simp_all add: contents_def fun_eq_iff)

lemma disk_log_rec_ok: "disk_log fs segs \<Longrightarrow> r \<in> set (recs_of segs) \<Longrightarrow> rec_ok r"
  by (fastforce simp: disk_log_def recs_of_def)

lemma recover_segments_ok:
  assumes "fs_budget fs = None"
    and "\<forall>(i, rs) \<in> set segs. contents fs (segment_path i) = Some (enc_all rs) \<and> (\<forall>r \<in> set rs. rec_ok r)"
  shows "recover_segments c (map fst segs) es hs t fs =
    (fs, Inr (es @ entries_of (recs_of segs), hard_of hs (recs_of segs), t))"
  using assms
  by (induction segs arbitrary: es hs)
    (auto simp: recs_of_def comp_defs fs_read_def scan_segment_complete)

lemma recover_wal_ok:
  assumes "disk_log fs segs" "fs_budget fs = None"
  shows "recover_wal c fs = (fs, Inr (entries_of (recs_of segs), hard_of hs_default (recs_of segs), 0))"
  using assms recover_segments_ok [of fs segs c "[]" hs_default 0]
  by (simp add: recover_wal_def list_segment_indices_def comp_defs fs_read_dir_def disk_log_def)

subsection \<open>Memory and disk\<close>

text \<open>The entries on disk reach from at most one past the watermark to at least the watermark.\<close>

definition log_shape :: "LogIndex \<Rightarrow> LogEntry list \<Rightarrow> bool" where
  "log_shape c es \<longleftrightarrow> (es \<noteq> [] \<longrightarrow> (\<exists>n. contig n es \<and> n \<le> Suc (unat c) \<and> Suc (unat c) \<le> n + length es))"

definition log_mem :: "WalStorage \<Rightarrow> LogRec list \<Rightarrow> bool" where
  "log_mem s rs \<longleftrightarrow> log_shape (compacted_to s) (entries_of rs) \<and>
     wal_entries s = filter (\<lambda>e. le_index e > compacted_to s) (entries_of rs) \<and>
     wal_hard_state s = hard_of hs_default rs \<and>
     hs_commit (wal_hard_state s) \<le> last_index s"

lemma log_shape_last:
  assumes "log_shape c es"
  shows "last_entry_index (filter (\<lambda>e. le_index e > c) es) c = last_entry_index es c"
proof (cases "es = []")
  case False
  then obtain n where n: "contig n es" "n \<le> Suc (unat c)" "Suc (unat c) \<le> n + length es"
    using assms by (auto simp: log_shape_def)
  let ?d = "Suc (unat c) - n"
  have e: "filter (\<lambda>e. le_index e > c) es = drop ?d es" using contig_filter [OF n(1)] .
  show ?thesis
  proof (cases "?d < length es")
    case True
    then show ?thesis using False by (simp add: e last_entry_index_def last_opt_def)
  next
    case d: False
    then have "unat (le_index (last es)) = unat c" using contig_last [OF n(1) False] n(2,3) by simp
    then show ?thesis using d False by (simp add: e last_entry_index_def last_opt_def word_unat_eq_iff)
  qed
qed simp

lemma log_mem_last: "log_mem s rs \<Longrightarrow> last_index s = last_entry_index (entries_of rs) (compacted_to s)"
  using log_shape_last by (simp add: log_mem_def last_index_def)

text \<open>The records contain the log up to the last index; appending the next entry extends it.\<close>

lemma log_mem_append:
  assumes "log_mem s rs" "le_index e = last_index s + 1" "last_index s \<noteq> - 1"
    and s': "wal_entries s' = wal_entries s @ [e]" "compacted_to s' = compacted_to s"
      "wal_hard_state s' = wal_hard_state s"
  shows "log_mem s' (rs @ [REntry e])"
proof -
  note last = log_mem_last [OF assms(1)]
  have ie: "unat (le_index e) = Suc (unat (last_index s))"
    using assms(2,3) by (simp add: unat_succ)
  have cl: "unat (compacted_to s) \<le> unat (last_index s)"
    and c: "\<exists>n. contig n (entries_of rs @ [e]) \<and> n \<le> Suc (unat (compacted_to s)) \<and>
      Suc (unat (compacted_to s)) \<le> n + length (entries_of rs @ [e])"
  proof -
    show "unat (compacted_to s) \<le> unat (last_index s)"
    proof (cases "entries_of rs = []")
      case False
      then show ?thesis using assms(1) last contig_last [of _ "entries_of rs"]
        by (fastforce simp: log_mem_def log_shape_def last_entry_index_def last_opt_def)
    qed (simp add: last last_entry_index_def)
    show "\<exists>n. contig n (entries_of rs @ [e]) \<and> n \<le> Suc (unat (compacted_to s)) \<and>
      Suc (unat (compacted_to s)) \<le> n + length (entries_of rs @ [e])"
    proof (cases "entries_of rs = []")
      case True
      then show ?thesis using ie last by (intro exI [of _ "Suc (unat (compacted_to s))"])
          (simp add: last_entry_index_def)
    next
      case False
      then obtain n where n: "contig n (entries_of rs)" "n \<le> Suc (unat (compacted_to s))"
          "Suc (unat (compacted_to s)) \<le> n + length (entries_of rs)"
        using assms(1) by (auto simp: log_mem_def log_shape_def)
      then show ?thesis using contig_last [OF n(1) False] False ie last
        by (intro exI [of _ n]) (simp add: last_entry_index_def last_opt_def)
    qed
  qed
  have "compacted_to s < le_index e" using cl ie by (simp add: word_less_nat_alt)
  moreover have "hs_commit (wal_hard_state s) \<le> le_index e"
    using assms(1) ie by (auto simp: log_mem_def word_le_nat_alt)
  ultimately show ?thesis
    using assms(1) c s' by (simp add: log_mem_def log_shape_def last_index_def last_entry_index_def)
qed

lemma log_mem_hard:
  assumes "log_mem s rs" "hs_commit hs \<le> last_index s"
    and "wal_entries s' = wal_entries s" "compacted_to s' = compacted_to s" "wal_hard_state s' = hs"
  shows "log_mem s' (rs @ [RHard hs])"
  using assms by (simp add: log_mem_def last_index_def)

lemma log_mem_cong:
  assumes "wal_entries s' = wal_entries s" "compacted_to s' = compacted_to s" "wal_hard_state s' = wal_hard_state s"
  shows "log_mem s' rs = log_mem s rs"
  using assms by (simp add: log_mem_def last_index_def)

subsection \<open>The files under writes\<close>

text \<open>The active segment is the last one; every other file is clean.\<close>

definition disk_inv :: "Fs \<Rightarrow> segs \<Rightarrow> LogIndex \<Rightarrow> fd \<Rightarrow> bool" where
  "disk_inv fs segs idx f \<longleftrightarrow> dir_wf fs \<and> disk_log fs segs \<and> fst (last segs) = idx \<and>
     map_of (fs_dir fs) (segment_path idx) = Some f \<and>
     (\<forall>i \<in> snd ` set (fs_dir fs). i \<noteq> f \<longrightarrow> clean (fs_inodes fs ! i))"

lemma disk_inv_budget [simp]: "disk_inv (fs\<lparr>fs_budget := b\<rparr>) segs idx f = disk_inv fs segs idx f"
  by (simp add: disk_inv_def)

text \<open>A record at the end of the active segment.\<close>

definition put_rec :: "segs \<Rightarrow> LogRec \<Rightarrow> segs" where
  "put_rec segs r = butlast segs @ [(fst (last segs), snd (last segs) @ [r])]"

lemma put_rec_simps [simp]:
  "segs \<noteq> [] \<Longrightarrow> recs_of (put_rec segs r) = recs_of segs @ [r]"
  "segs \<noteq> [] \<Longrightarrow> map fst (put_rec segs r) = map fst segs"
  "fst (last (put_rec segs r)) = fst (last segs)" "put_rec segs r \<noteq> []"
proof -
  assume "segs \<noteq> []"
  then obtain a b where "segs = a @ [b]" by (metis append_butlast_last_id)
  then show "recs_of (put_rec segs r) = recs_of segs @ [r]" "map fst (put_rec segs r) = map fst segs"
    by (simp_all add: put_rec_def recs_of_def)
qed (simp_all add: put_rec_def)

definition write_fd :: "fd \<Rightarrow> bytes \<Rightarrow> Fs \<Rightarrow> Fs" where
  "write_fd i bs = upd_inode i (\<lambda>f. f\<lparr>f_data := f_data f @ bs\<rparr>)"

definition sync_fd :: "fd \<Rightarrow> Fs \<Rightarrow> Fs" where
  "sync_fd i = upd_inode i (\<lambda>f. f\<lparr>f_synced := f_data f, f_low := length (f_data f)\<rparr>)"

lemma segment_path_inject [simp]: "segment_path i = segment_path j \<longleftrightarrow> i = j"
  by (simp add: segment_path_def)

lemma disk_log_write:
  assumes "dir_wf fs" "disk_log fs segs" "map_of (fs_dir fs) (segment_path (fst (last segs))) = Some f" "rec_ok r"
  shows "disk_log (write_fd f (enc r) fs) (put_rec segs r)"
proof -
  from assms(2) obtain a i rs where segs: "segs = a @ [(i, rs)]"
    by (auto simp: disk_log_def) (metis append_butlast_last_id surj_pair)
  have i: "map_of (fs_dir fs) (segment_path i) = Some f" using assms(3) by (simp add: segs)
  have rs: "f_data (fs_inodes fs ! f) = enc_all rs" "\<forall>r \<in> set rs. rec_ok r" "i \<notin> fst ` set a"
    using assms(2) contents_fd [OF i] by (auto simp: disk_log_def segs)
  have "contents (write_fd f (enc r) fs) n = (if n = segment_path i then Some (enc_all rs @ enc r) else contents fs n)" for n
    using contents_upd [OF assms(1) i] rs(1) by (simp add: write_fd_def)
  moreover have "fs_dir (write_fd f (enc r) fs) = fs_dir fs" by (simp add: write_fd_def)
  ultimately show ?thesis
    using assms(2,4) rs(2,3) unfolding disk_log_def segs put_rec_def by (fastforce simp: image_iff)
qed

lemma disk_inv_write:
  "disk_inv fs segs idx f \<Longrightarrow> rec_ok r \<Longrightarrow> disk_inv (write_fd f (enc r) fs) (put_rec segs r) idx f"
  using disk_log_write [of fs segs f r] dir_wf_def [of fs]
  by (auto simp: disk_inv_def write_fd_def image_iff) 

lemma disk_inv_sync:
  assumes "disk_inv fs segs idx f"
  shows "disk_inv (sync_fd f fs) segs idx f" "all_clean (sync_fd f fs)"
proof -
  have wf: "dir_wf fs" and f: "map_of (fs_dir fs) (segment_path idx) = Some f"
    using assms by (auto simp: disk_inv_def)
  have "contents (sync_fd f fs) = contents fs"
    using contents_upd [OF wf f] contents_fd [OF f] by (auto simp: sync_fd_def)
  then have "disk_log (sync_fd f fs) segs"
    using assms disk_log_cong [of "sync_fd f fs" fs segs] by (simp add: sync_fd_def disk_inv_def)
  moreover have "i < length (fs_inodes fs)" if "i \<in> snd ` set (fs_dir fs)" for i
    using wf that by (auto simp: dir_wf_def)
  ultimately show "disk_inv (sync_fd f fs) segs idx f" "all_clean (sync_fd f fs)"
    using assms by (auto simp: disk_inv_def sync_fd_def clean_def all_clean_def)
qed

lemma segment_indices_snoc:
  assumes "segment_indices_of names = is" "\<forall>i \<in> set is. i < next"
  shows "segment_indices_of (names @ [segment_path next]) = is @ [next]"
proof -
  let ?f = "\<lambda>n. case parse_segment_name n of Inr i \<Rightarrow> Some i | Inl _ \<Rightarrow> None"
  have idx: "is = sort (List.map_filter ?f names)" using assms(1) by (simp add: segment_indices_of_def)
  have "List.map_filter ?f (names @ [segment_path next]) = List.map_filter ?f names @ [next]"
    by (simp add: map_filter_def segment_path_def)
  moreover have "sort (List.map_filter ?f names @ [next]) = is @ [next]"
    using assms(2) by (intro properties_for_sort) (auto simp: idx sorted_append)
  ultimately show ?thesis by (simp add: segment_indices_of_def)
qed

lemma disk_inv_roll:
  assumes "disk_inv fs segs idx f" "all_clean fs" "\<forall>i \<in> set (map fst segs). i < next"
    and "map_of (fs_dir fs) (segment_path next) = None"
  shows "disk_inv (add_file (segment_path next) fs) (segs @ [(next, [])]) next (length (fs_inodes fs))"
    "all_clean (add_file (segment_path next) fs)"
proof -
  have wf: "dir_wf fs" and log: "disk_log fs segs" using assms(1) by (auto simp: disk_inv_def)
  note a = add_file_simps [OF assms(4)] contents_add_file [OF wf assms(4)]
  have "disk_log (add_file (segment_path next) fs) (segs @ [(next, [])])"
    using log assms(3) segment_indices_snoc [of "map fst (fs_dir fs)" "map fst segs" "next"]
    by (fastforce simp: disk_log_def a)
  moreover have "i < length (fs_inodes fs)" if "i \<in> snd ` set (fs_dir fs)" for i
    using wf that by (auto simp: dir_wf_def)
  ultimately show "disk_inv (add_file (segment_path next) fs) (segs @ [(next, [])]) next (length (fs_inodes fs))"
    "all_clean (add_file (segment_path next) fs)"
    using assms(2,4) dir_wf_add_file [OF wf assms(4)]
    by (auto simp: disk_inv_def all_clean_def a nth_append clean_def map_add_def split: option.splits)
qed

subsection \<open>The operations of the synchronous path\<close>

definition log_inv :: "World \<Rightarrow> segs \<Rightarrow> bool" where
  "log_inv w segs \<longleftrightarrow>
     disk_inv (the_fs w) segs (segment_first_index (the_wal w)) (seg_fd (wal_segment (the_wal w))) \<and>
     log_mem (the_wal w) (recs_of segs) \<and>
     unat (segment_first_index (the_wal w)) \<le> Suc (unat (last_index (the_wal w))) \<and>
     (\<not> pending_entry_fsync (the_wal w) \<longrightarrow> all_clean (the_fs w))"

text \<open>The fields of the log proper, and the fields none of these operations changes.\<close>

definition same_log :: "WalStorage \<Rightarrow> WalStorage \<Rightarrow> bool" where
  "same_log s s' \<longleftrightarrow> wal_entries s' = wal_entries s \<and> wal_hard_state s' = wal_hard_state s \<and>
     segment_first_index s' = segment_first_index s \<and> wal_segment s' = wal_segment s"

definition same_env :: "WalStorage \<Rightarrow> WalStorage \<Rightarrow> bool" where
  "same_env s s' \<longleftrightarrow> compacted_to s' = compacted_to s \<and> wal_snapshot s' = wal_snapshot s \<and>
     wal_meta s' = wal_meta s \<and> wal_conf_state s' = wal_conf_state s \<and>
     segment_bytes s' = segment_bytes s \<and> fsync_policy s' = fsync_policy s \<and> offloaded s' = offloaded s"

text \<open>On the file system only segments change, and new ones are added.\<close>

definition same_files :: "Fs \<Rightarrow> Fs \<Rightarrow> bool" where
  "same_files fs fs' \<longleftrightarrow> (\<exists>is. map fst (fs_dir fs') = map fst (fs_dir fs) @ map segment_path is) \<and>
     fs_lock fs' = fs_lock fs \<and> (\<forall>n. n \<notin> range segment_path \<longrightarrow> contents fs' n = contents fs n)"

lemma same_env_refl [simp]: "same_env s s" and same_env_trans: "same_env s s1 \<Longrightarrow> same_env s1 s2 \<Longrightarrow> same_env s s2"
  by (simp_all add: same_env_def)

lemma same_files_refl [simp]: "same_files fs fs"
  by (auto simp: same_files_def intro: exI [of _ "[]"])

lemma same_files_budget [simp]: "same_files fs (fs'\<lparr>fs_budget := b\<rparr>) = same_files fs fs'"
  by (simp add: same_files_def)

lemma same_files_trans:
  assumes "same_files fs fs1" "same_files fs1 fs2"
  shows "same_files fs fs2"
proof -
  obtain ks js where "map fst (fs_dir fs1) = map fst (fs_dir fs) @ map segment_path ks"
    "map fst (fs_dir fs2) = map fst (fs_dir fs1) @ map segment_path js"
    using assms by (auto simp: same_files_def)
  then have "map fst (fs_dir fs2) = map fst (fs_dir fs) @ map segment_path (ks @ js)" by simp
  then show ?thesis using assms unfolding same_files_def by metis
qed

lemma same_files_upd:
  "dir_wf fs \<Longrightarrow> map_of (fs_dir fs) (segment_path i) = Some f \<Longrightarrow> same_files fs (upd_inode f g fs)"
  using contents_upd [of fs "segment_path i" f g] by (auto simp: same_files_def intro: exI [of _ "[]"])

lemma same_files_add:
  assumes "dir_wf fs" "map_of (fs_dir fs) (segment_path i) = None"
  shows "same_files fs (add_file (segment_path i) fs)"
  using contents_add_file [OF assms] add_file_simps [OF assms(2)]
  by (auto simp: same_files_def intro: exI [of _ "[i]"])

lemma log_mem_same:
  assumes "same_log s s'" "compacted_to s' = compacted_to s"
  shows "log_mem s' rs = log_mem s rs" "last_index s' = last_index s"
  using assms by (simp_all add: log_mem_def last_index_def same_log_def)

lemma count_notify_Inr:
  "count_stats g w = (w', Inr u) \<longleftrightarrow> w' = w\<lparr>the_wal := (the_wal w)\<lparr>wal_stats := g (wal_stats (the_wal w))\<rparr>\<rparr>"
  "notify_fsynced w = (w', Inr u) \<longleftrightarrow> w' = w\<lparr>the_wal := (the_wal w)\<lparr>observed := observed (the_wal w) @
     [(segment_first_index (the_wal w), max_entry_in_segment (the_wal w))]\<rparr>\<rparr>"
  by (auto simp: count_stats_def notify_fsynced_def run_Inr)

text \<open>The outcome of an operation: what it may change, and the entries and hard state it leaves.\<close>

definition leaves :: "World \<Rightarrow> World \<Rightarrow> LogEntry list \<Rightarrow> HardState \<Rightarrow> bool" where
  "leaves w w' es hs \<longleftrightarrow> same_env (the_wal w) (the_wal w') \<and> same_files (the_fs w) (the_fs w') \<and>
     wal_entries (the_wal w') = es \<and> wal_hard_state (the_wal w') = hs"

abbreviation ents :: "World \<Rightarrow> LogEntry list" where "ents w \<equiv> wal_entries (the_wal w)"
abbreviation hard :: "World \<Rightarrow> HardState" where "hard w \<equiv> wal_hard_state (the_wal w)"

lemma leaves_refl [simp]: "leaves w w (ents w) (hard w)"
  by (simp add: leaves_def)

lemma leaves_trans: "leaves w w1 es1 hs1 \<Longrightarrow> leaves w1 w2 es2 hs2 \<Longrightarrow> leaves w w2 es2 hs2"
  by (auto simp: leaves_def intro: same_env_trans same_files_trans)

lemma log_inv_fd:
  "log_inv w segs \<Longrightarrow> dir_wf (the_fs w)"
  "log_inv w segs \<Longrightarrow> map_of (fs_dir (the_fs w)) (segment_path (segment_first_index (the_wal w))) =
     Some (seg_fd (wal_segment (the_wal w)))"
  "log_inv w segs \<Longrightarrow> segs \<noteq> []" "log_inv w segs \<Longrightarrow> disk_log (the_fs w) segs"
  by (simp_all add: log_inv_def disk_inv_def disk_log_def)

text \<open>An fsync of the active segment, followed by bookkeeping.\<close>

lemma log_inv_sync:
  assumes "log_inv w segs" "segment_sync (wal_segment (the_wal w)) (the_fs w) = (the_fs w', Inr u)"
    and "same_log (the_wal w) (the_wal w')" "same_env (the_wal w) (the_wal w')"
  shows "log_inv w' segs" "all_clean (the_fs w')" "leaves w w' (ents w) (hard w)"
proof -
  obtain b where fs': "the_fs w' = (sync_fd (seg_fd (wal_segment (the_wal w))) (the_fs w))\<lparr>fs_budget := b\<rparr>"
    using segment_sync_Inr [OF assms(2)] by (auto simp: sync_fd_def)
  have c: "compacted_to (the_wal w') = compacted_to (the_wal w)" using assms(4) by (simp add: same_env_def)
  have "disk_inv (the_fs w) segs (segment_first_index (the_wal w)) (seg_fd (wal_segment (the_wal w)))"
    using assms(1) by (simp add: log_inv_def)
  note d = disk_inv_sync [OF this]
  show "log_inv w' segs" "all_clean (the_fs w')"
    using assms(1,3) d log_mem_same [OF assms(3) c] by (simp_all add: log_inv_def fs' same_log_def)
  show "leaves w w' (ents w) (hard w)"
    using assms(3,4) same_files_upd [OF log_inv_fd(1,2) [OF assms(1)]]
    by (simp add: leaves_def fs' same_log_def sync_fd_def)
qed

lemma sync_active_keeps:
  assumes "sync_active w = (w', Inr u)" "log_inv w segs"
  shows "log_inv w' segs" "all_clean (the_fs w')" "leaves w w' (ents w) (hard w)"
proof -
  have "segment_sync (wal_segment (the_wal w)) (the_fs w) = (the_fs w', Inr ()) \<and>
      same_log (the_wal w) (the_wal w') \<and> same_env (the_wal w) (the_wal w')"
    using assms(1) by (auto simp: sync_active_def run_Inr count_notify_Inr same_log_def same_env_def)
  then show "log_inv w' segs" "all_clean (the_fs w')" "leaves w w' (ents w) (hard w)"
    using log_inv_sync [OF assms(2)] by blast+
qed

lemma sync_entries_keeps:
  assumes "sync_entries w = (w', Inr u)" "log_inv w segs"
  shows "log_inv w' segs" "all_clean (the_fs w')" "leaves w w' (ents w) (hard w)"
proof -
  consider "sync_active w = (w', Inr u)" | "w' = w" "\<not> pending_entry_fsync (the_wal w)"
    using assms(1) by (auto simp: sync_entries_def run_Inr split: FsyncPolicy.splits if_splits)
  then have "log_inv w' segs \<and> all_clean (the_fs w') \<and> leaves w w' (ents w) (hard w)"
  proof cases
    case 1
    then show ?thesis using sync_active_keeps [OF 1 assms(2)] by blast
  next
    case 2
    then show ?thesis using assms(2) by (simp add: leaves_def log_inv_def)
  qed
  then show "log_inv w' segs" "all_clean (the_fs w')" "leaves w w' (ents w) (hard w)" by blast+
qed

lemma segs_below_active:
  assumes "disk_log fs segs" "fst (last segs) = idx" "i \<in> set (map fst segs)"
  shows "i \<le> idx"
proof -
  have eq: "segment_indices_of (map fst (fs_dir fs)) = map fst segs" and "segs \<noteq> []"
    using assms(1) by (simp_all add: disk_log_def)
  then obtain a x where segs: "segs = a @ [x]" by (metis append_butlast_last_id)
  have "sorted (map fst segs)" unfolding eq [symmetric] segment_indices_of_def by simp
  then show ?thesis using assms(2,3) by (auto simp: segs sorted_append)
qed

lemma segment_known:
  assumes "disk_log fs segs" "map_of (fs_dir fs) (segment_path i) = Some f"
  shows "i \<in> set (map fst segs)"
proof -
  have "segment_path i \<in> set (map fst (fs_dir fs))" using assms(2) by (force dest: map_of_SomeD)
  then have "i \<in> set (segment_indices_of (map fst (fs_dir fs)))"
    by (force simp: segment_indices_of_def map_filter_def segment_path_def)
  then show ?thesis using assms(1) by (simp add: disk_log_def)
qed

lemma leaves_add:
  assumes "log_inv w segs" "map_of (fs_dir (the_fs w)) (segment_path i) = None"
    and "the_fs w' = (add_file (segment_path i) (the_fs w))\<lparr>fs_budget := b\<rparr>"
    and "same_env (the_wal w) (the_wal w')" "ents w' = ents w" "hard w' = hard w"
  shows "leaves w w' (ents w) (hard w)"
  using assms same_files_add [OF log_inv_fd(1) [OF assms(1)] assms(2)] by (simp add: leaves_def)

lemma recs_of_snoc [simp]: "recs_of (segs @ [(i, [])]) = recs_of segs"
  by (simp add: recs_of_def)

text \<open>The switch to another segment, once the outgoing one is durable.\<close>

lemma switch_segment:
  assumes inv: "log_inv w segs" "all_clean (the_fs w)"
    and idx: "unat idx = Suc (unat (last_index (the_wal w)))"
    and run: "segment_open idx mb (the_fs w) = (fs1, Inr seg)" "fsync_dir fs1 = (the_fs w', Inr u)"
    and w': "wal_segment (the_wal w') = seg" "segment_first_index (the_wal w') = idx"
      "same_env (the_wal w) (the_wal w')" "ents w' = ents w" "hard w' = hard w"
  shows "\<exists>segs'. log_inv w' segs' \<and> recs_of segs' = recs_of segs \<and> leaves w w' (ents w) (hard w)"
proof -
  have c: "compacted_to (the_wal w') = compacted_to (the_wal w)" using w'(3) by (simp add: same_env_def)
  have mem: "log_mem (the_wal w') rs = log_mem (the_wal w) rs" "last_index (the_wal w') = last_index (the_wal w)" for rs
    using w'(4,5) c by (simp_all add: log_mem_def last_index_def)
  have old: "disk_inv (the_fs w) segs (segment_first_index (the_wal w)) (seg_fd (wal_segment (the_wal w)))"
    "log_mem (the_wal w) (recs_of segs)" "unat (segment_first_index (the_wal w)) \<le> unat idx"
    using inv(1) idx by (simp_all add: log_inv_def)
  note d = log_inv_fd(4) [OF inv(1)]
  have below: "i \<le> segment_first_index (the_wal w)" if "i \<in> set (map fst segs)" for i
    using segs_below_active [OF d _ that] old(1) by (simp add: disk_inv_def)
  from segment_open_fsync_Inr [OF run log_inv_fd(1) [OF inv(1)]] show ?thesis
  proof (elim disjE exE conjE)
    fix i b assume i: "map_of (fs_dir (the_fs w)) (segment_path idx) = Some i"
      and s: "seg = \<lparr>seg_fd = i, seg_max_bytes = mb\<rparr>" "the_fs w' = (the_fs w)\<lparr>fs_budget := b\<rparr>"
    have "idx \<le> segment_first_index (the_wal w)" using below segment_known [OF d i] by blast
    then have "idx = segment_first_index (the_wal w)" using old(3) by (simp add: word_le_nat_alt word_unat_eq_iff)
    with i log_inv_fd(2) [OF inv(1)] have "segment_first_index (the_wal w) = idx"
      "seg_fd (wal_segment (the_wal w)) = i" by auto
    then have "log_inv w' segs" using old inv(2) mem w' s idx by (simp add: log_inv_def)
    moreover have "leaves w w' (ents w) (hard w)" using w' s by (simp add: leaves_def)
    ultimately show ?thesis by auto
  next
    fix b assume n: "map_of (fs_dir (the_fs w)) (segment_path idx) = None"
      and s: "seg = \<lparr>seg_fd = length (fs_inodes (the_fs w)), seg_max_bytes = mb\<rparr>"
        "the_fs w' = (add_file (segment_path idx) (the_fs w))\<lparr>fs_budget := b\<rparr>"
    have "segment_first_index (the_wal w) \<noteq> idx" using n log_inv_fd(2) [OF inv(1)] by auto
    then have "\<forall>i \<in> set (map fst segs). i < idx"
      using below old(3) by (fastforce simp: word_le_nat_alt word_less_nat_alt word_unat_eq_iff)
    note r = disk_inv_roll [OF old(1) inv(2) this n]
    then have "log_inv w' (segs @ [(idx, [])])"
      using old(2) mem w' s idx by (simp add: log_inv_def)
    then show ?thesis using leaves_add [OF inv(1) n s(2) w'(3-5)] by (intro exI [of _ "segs @ [(idx, [])]"]) simp
  qed
qed

lemma budget_world [simp]:
  "log_inv (w\<lparr>the_fs := (the_fs w)\<lparr>fs_budget := b\<rparr>\<rparr>) segs = log_inv w segs"
  "leaves w (w\<lparr>the_fs := (the_fs w)\<lparr>fs_budget := b\<rparr>\<rparr>) (ents w) (hard w)"
  by (simp_all add: log_inv_def leaves_def)

text \<open>The part of a rollover that makes the outgoing segment durable.\<close>

definition flush_outgoing :: "unit wal_op" where
  "flush_outgoing =
     seq (wal id) (\<lambda>s.
       if pending_entry_fsync s then
         seq (io (segment_sync (wal_segment s))) (\<lambda>_.
         seq (count_stats (\<lambda>t. t\<lparr>entry_fsyncs := entry_fsyncs t + 1\<rparr>)) (\<lambda>_.
         seq (set_wal (\<lambda>s. s\<lparr>pending_entry_fsync := False\<rparr>)) (\<lambda>_.
           notify_fsynced)))
       else ret ())"

lemma flush_outgoing_keeps:
  assumes "flush_outgoing w = (w', Inr u)" "log_inv w segs"
  shows "log_inv w' segs \<and> all_clean (the_fs w') \<and> leaves w w' (ents w) (hard w)"
proof (cases "pending_entry_fsync (the_wal w)")
  case True
  then have "segment_sync (wal_segment (the_wal w)) (the_fs w) = (the_fs w', Inr ()) \<and>
      same_log (the_wal w) (the_wal w') \<and> same_env (the_wal w) (the_wal w')"
    using assms(1) by (auto simp: flush_outgoing_def run_Inr count_notify_Inr same_log_def same_env_def)
  then show ?thesis using log_inv_sync [OF assms(2)] by blast
next
  case False
  then have "w' = w" using assms(1) by (simp add: flush_outgoing_def run_Inr)
  then show ?thesis using False assms(2) by (simp add: log_inv_def)
qed

lemma maybe_rollover_Inr:
  assumes "maybe_rollover idx w = (w', Inr u)"
  obtains b where "w' = w\<lparr>the_fs := (the_fs w)\<lparr>fs_budget := b\<rparr>\<rparr>"
  | b w1 fs1 seg where "flush_outgoing (w\<lparr>the_fs := (the_fs w)\<lparr>fs_budget := b\<rparr>\<rparr>) = (w1, Inr ())"
      "segment_open idx (segment_bytes (the_wal w)) (the_fs w1) = (fs1, Inr seg)"
      "fsync_dir fs1 = (the_fs w', Inr ())" "wal_segment (the_wal w') = seg"
      "segment_first_index (the_wal w') = idx" "same_env (the_wal w1) (the_wal w')"
      "ents w' = ents w1" "hard w' = hard w1"
proof -
  from assms obtain n b where size: "segment_size (wal_segment (the_wal w)) (the_fs w) = ((the_fs w)\<lparr>fs_budget := b\<rparr>, Inr n)"
    using segment_size_Inr by (fastforce simp: maybe_rollover_def run_Inr)
  show thesis
  proof (cases "n \<ge> unat (segment_bytes (the_wal w))")
    case False
    then have "w' = w\<lparr>the_fs := (the_fs w)\<lparr>fs_budget := b\<rparr>\<rparr>"
      using assms by (auto simp: maybe_rollover_def run_Inr size)
    then show thesis by (rule that(1))
  next
    case True
    then show thesis using assms
      by (auto simp: maybe_rollover_def run_Inr size flush_outgoing_def count_notify_Inr same_env_def
          intro!: that(2) [of b] split: if_splits)
  qed
qed

lemma maybe_rollover_keeps:
  assumes run: "maybe_rollover idx w = (w', Inr u)" and inv: "log_inv w segs"
    and idx: "unat idx = Suc (unat (last_index (the_wal w)))"
  shows "\<exists>segs'. log_inv w' segs' \<and> recs_of segs' = recs_of segs \<and> leaves w w' (ents w) (hard w)"
  using run
proof (rule maybe_rollover_Inr)
  fix b assume "w' = w\<lparr>the_fs := (the_fs w)\<lparr>fs_budget := b\<rparr>\<rparr>"
  then show ?thesis using inv by (metis budget_world)
next
  fix b w1 fs1 seg assume w1: "flush_outgoing (w\<lparr>the_fs := (the_fs w)\<lparr>fs_budget := b\<rparr>\<rparr>) = (w1, Inr ())"
    and sw: "segment_open idx (segment_bytes (the_wal w)) (the_fs w1) = (fs1, Inr seg)"
      "fsync_dir fs1 = (the_fs w', Inr ())" "wal_segment (the_wal w') = seg"
      "segment_first_index (the_wal w') = idx" "same_env (the_wal w1) (the_wal w')"
      "ents w' = ents w1" "hard w' = hard w1"
  have 1: "log_inv w1 segs" "all_clean (the_fs w1)" and l: "leaves w w1 (ents w) (hard w)"
    using flush_outgoing_keeps [OF w1, of segs] inv leaves_trans [OF budget_world(2) [where w = w and b = b], of w1] by auto
  have "last_index (the_wal w1) = last_index (the_wal w)"
    using l by (simp add: leaves_def same_env_def last_index_def)
  then have "unat idx = Suc (unat (last_index (the_wal w1)))" using idx by simp
  from switch_segment [OF 1 this sw(1,2,3,4,5,6,7)] leaves_trans [OF l] l show ?thesis
    by (auto simp: leaves_def)
qed


lemma write_record_keeps:
  assumes inv: "log_inv w segs" and ok: "rec_ok r"
    and run: "the_fs w' = (write_fd (seg_fd (wal_segment (the_wal w))) (enc r) (the_fs w))\<lparr>fs_budget := b\<rparr>"
    and mem: "log_mem (the_wal w') (recs_of segs @ [r])"
    and w': "wal_segment (the_wal w') = wal_segment (the_wal w)"
      "segment_first_index (the_wal w') = segment_first_index (the_wal w)"
      "unat (last_index (the_wal w)) \<le> unat (last_index (the_wal w'))" "pending_entry_fsync (the_wal w')"
      "same_env (the_wal w) (the_wal w')"
  shows "log_inv w' (put_rec segs r)" "leaves w w' (ents w') (hard w')"
proof -
  have d: "disk_inv (the_fs w) segs (segment_first_index (the_wal w)) (seg_fd (wal_segment (the_wal w)))"
    and n: "unat (segment_first_index (the_wal w)) \<le> Suc (unat (last_index (the_wal w)))"
    using inv by (simp_all add: log_inv_def)
  show "log_inv w' (put_rec segs r)"
    using disk_inv_write [OF d ok] mem w' n log_inv_fd(3) [OF inv] by (simp add: log_inv_def run)
  show "leaves w w' (ents w') (hard w')"
    using same_files_upd [OF log_inv_fd(1,2) [OF inv]] w'(5) by (simp add: leaves_def run write_fd_def)
qed

lemma append_entry_keeps:
  assumes run: "append_entry e w = (w', Inr u)" and inv: "log_inv w segs"
    and room: "last_index (the_wal w) \<noteq> - 1"
  shows "\<exists>segs'. log_inv w' segs' \<and> leaves w w' (ents w @ [e]) (hard w) \<and> le_index e = last_index (the_wal w) + 1"
proof -
  let ?p = "encode_entry (le_index e) (le_term e) (seam_entry_type_to_u8 (le_type e)) (le_data e)"
  have e: "le_index e = last_index (the_wal w) + 1" "rec_ok (REntry e)"
    using run by (simp_all add: append_entry_def run_Inr Let_def split: if_splits)
  obtain w1 fs2 where roll: "maybe_rollover (le_index e) w = (w1, Inr ())"
    and fs2: "segment_append_record (wal_segment (the_wal w1)) Entry ?p (the_fs w1) = (fs2, Inr ())"
    and w2: "w' = w1\<lparr>the_fs := fs2, the_wal := (the_wal w1)\<lparr>wal_entries := ents w1 @ [e],
      max_entry_in_segment := le_index e, pending_entry_fsync := True\<rparr>\<rparr>"
    using run by (auto simp: append_entry_def run_Inr Let_def split: if_splits)
  obtain b where w': "the_fs w' = (write_fd (seg_fd (wal_segment (the_wal w1))) (enc (REntry e)) (the_fs w1))\<lparr>fs_budget := b\<rparr>"
      "ents w' = ents w1 @ [e]" "hard w' = hard w1" "wal_segment (the_wal w') = wal_segment (the_wal w1)"
      "segment_first_index (the_wal w') = segment_first_index (the_wal w1)"
      "pending_entry_fsync (the_wal w')" "same_env (the_wal w1) (the_wal w')"
    using segment_append_record_Inr [OF fs2] by (auto simp: w2 write_fd_def same_env_def)
  have ie: "unat (le_index e) = Suc (unat (last_index (the_wal w)))" using e(1) room by (simp add: unat_succ)
  from maybe_rollover_keeps [OF roll inv ie] obtain segs1 where
    1: "log_inv w1 segs1" "recs_of segs1 = recs_of segs" and l: "leaves w w1 (ents w) (hard w)" by blast
  have last: "last_index (the_wal w1) = last_index (the_wal w)"
    using l by (simp add: leaves_def same_env_def last_index_def)
  have c: "compacted_to (the_wal w') = compacted_to (the_wal w1)" using w'(7) by (simp add: same_env_def)
  have "log_mem (the_wal w1) (recs_of segs1)" using 1(1) by (simp add: log_inv_def)
  from log_mem_append [OF this _ _ w'(2) c w'(3)] e(1) room last
  have mem: "log_mem (the_wal w') (recs_of segs1 @ [REntry e])" by simp
  have "unat (last_index (the_wal w1)) \<le> unat (last_index (the_wal w'))"
    using ie last w'(2) by (simp add: last_index_def [of "the_wal w'"] last_entry_index_def)
  from write_record_keeps [OF 1(1) e(2) w'(1) mem w'(4,5) this w'(6,7)]
  show ?thesis using leaves_trans [OF l] l w'(2,3) e(1) by (auto simp: leaves_def)
qed

lemma append_all_keep:
  assumes "each append_entry es w = (w', Inr u)" "log_inv w segs"
    and "unat (last_index (the_wal w)) + length es < 2 ^ 64"
  shows "\<exists>segs'. log_inv w' segs' \<and> leaves w w' (ents w @ es) (hard w) \<and>
    unat (last_index (the_wal w')) = unat (last_index (the_wal w)) + length es"
  using assms
proof (induction es arbitrary: w segs)
  case Nil
  then show ?case by (auto simp: run_Inr)
next
  case (Cons e es)
  then obtain w1 where w1: "append_entry e w = (w1, Inr ())" "each append_entry es w1 = (w', Inr u)"
    by (auto simp: run_Inr)
  have room: "last_index (the_wal w) \<noteq> - 1" using Cons.prems(3) unat_max64 by auto
  from append_entry_keeps [OF w1(1) Cons.prems(2) room] obtain segs1 where
    1: "log_inv w1 segs1" "leaves w w1 (ents w @ [e]) (hard w)" "le_index e = last_index (the_wal w) + 1"
    by blast
  then have l: "unat (last_index (the_wal w1)) = Suc (unat (last_index (the_wal w)))"
    using room by (simp add: leaves_def last_index_def [of "the_wal w1"] last_entry_index_def unat_succ)
  show ?case
    using Cons.IH [OF w1(2) 1(1)] Cons.prems(3) l 1(2) leaves_trans [OF 1(2)]
    by (auto simp: leaves_def)
qed

text \<open>A hard state is written and synced before memory changes.\<close>

lemma set_hard_state_keeps:
  assumes run: "set_hard_state hs w = (w', Inr u)" and inv: "log_inv w segs"
    and commit: "hs_commit hs \<le> last_index (the_wal w)"
  shows "\<exists>segs'. log_inv w' segs' \<and> all_clean (the_fs w') \<and> leaves w w' (ents w) hs"
proof -
  obtain fs1 fs2 where fs1: "segment_append_record (wal_segment (the_wal w)) HardState (hard_state_payload hs)
      (the_fs w) = (fs1, Inr ())"
    and fs2: "segment_sync (wal_segment (the_wal w)) fs1 = (fs2, Inr ())" and fs': "the_fs w' = fs2"
    and w': "hard w' = hs" "ents w' = ents w" "segment_first_index (the_wal w') = segment_first_index (the_wal w)"
      "wal_segment (the_wal w') = wal_segment (the_wal w)" "same_env (the_wal w) (the_wal w')"
    using run by (auto simp: set_hard_state_def run_Inr count_notify_Inr same_env_def)
  define w1 where "w1 = w\<lparr>the_fs := fs1, the_wal := (the_wal w)\<lparr>wal_hard_state := hs, pending_entry_fsync := True\<rparr>\<rparr>"
  have "log_mem (the_wal w) (recs_of segs)" using inv by (simp add: log_inv_def)
  from log_mem_hard [OF this commit, of "the_wal w1"]
  have mem: "log_mem (the_wal w1) (recs_of segs @ [RHard hs])" by (simp add: w1_def)
  obtain b where "the_fs w1 = (write_fd (seg_fd (wal_segment (the_wal w))) (enc (RHard hs)) (the_fs w))\<lparr>fs_budget := b\<rparr>"
    using segment_append_record_Inr [OF fs1] by (auto simp: w1_def write_fd_def)
  note 1 = write_record_keeps [OF inv _ this mem]
  have 2: "log_inv w1 (put_rec segs (RHard hs))" "leaves w w1 (ents w) hs"
    using 1 by (simp_all add: w1_def same_env_def last_index_def)
  have "log_inv w' (put_rec segs (RHard hs))" "all_clean (the_fs w')" "leaves w1 w' (ents w1) (hard w1)"
    using log_inv_sync [OF 2(1), of w' "()"] fs2 fs' w' by (simp_all add: w1_def same_log_def same_env_def)
  then show ?thesis using leaves_trans [OF 2(2)] by (auto simp: w1_def)
qed

text \<open>A batch that extends the log needs no truncation.\<close>

lemma wal_append_extends:
  assumes "es = [] \<or> le_index (hd es) = last_index (the_wal w) + 1" "last_index (the_wal w) \<noteq> - 1"
  shows "wal_append es w = each append_entry es w"
proof (cases es)
  case (Cons e es')
  then have "unat (le_index e) = Suc (unat (last_index (the_wal w)))" using assms by (simp add: unat_succ)
  then have "\<not> le_index e \<le> last_index (the_wal w)" by (simp add: word_le_nat_alt)
  then show ?thesis by (simp add: wal_append_def Cons comp_defs del: each.simps)
qed (simp add: wal_append_def comp_defs)

definition new_hard :: "World \<Rightarrow> HardState option \<Rightarrow> HardState" where
  "new_hard w h = (case h of Some hs \<Rightarrow> hs | None \<Rightarrow> hard w)"

text \<open>What the consensus core hands over: a batch that extends the log and a commit index in it.\<close>

definition extends_log :: "World \<Rightarrow> LogEntry list \<Rightarrow> HardState option \<Rightarrow> bool" where
  "extends_log w es h \<longleftrightarrow> (es = [] \<or> le_index (hd es) = last_index (the_wal w) + 1) \<and>
     unat (last_index (the_wal w)) + length es < 2 ^ 64 - 1 \<and>
     (case h of None \<Rightarrow> True
      | Some hs \<Rightarrow> unat (hs_commit hs) \<le> unat (last_index (the_wal w)) + length es)"

lemma persist_keeps:
  assumes run: "persist_ready_records es h w = (w', Inr d)" and inv: "log_inv w segs" "all_clean (the_fs w)"
    and off: "offloaded (the_wal w) = None" and ext: "extends_log w es h"
  shows "\<exists>segs'. log_inv w' segs' \<and> all_clean (the_fs w') \<and> leaves w w' (ents w @ es) (new_hard w h) \<and>
    unat (last_index (the_wal w')) = unat (last_index (the_wal w)) + length es \<and> d = Durable"
proof -
  have room: "last_index (the_wal w) \<noteq> - 1" using ext unat_max64 by (auto simp: extends_log_def)
  have fit: "unat (last_index (the_wal w)) + length es < 2 ^ 64" using ext by (simp add: extends_log_def)
  obtain w1 where 1: "w1 = w \<and> es = [] \<or> (\<exists>w0. each append_entry es w = (w0, Inr ()) \<and> sync_entries w0 = (w1, Inr ()))"
    and 2: "case h of Some hs \<Rightarrow> set_hard_state hs w1 = (w', Inr ()) | None \<Rightarrow> w' = w1" and d: "d = Durable"
    using run off wal_append_extends [of es w] ext room
    by (auto simp: persist_ready_records_def run_Inr extends_log_def split: option.splits if_splits)
  have "\<exists>segs1. log_inv w1 segs1 \<and> all_clean (the_fs w1) \<and> leaves w w1 (ents w @ es) (hard w) \<and>
      unat (last_index (the_wal w1)) = unat (last_index (the_wal w)) + length es"
    using 1
  proof (elim disjE exE conjE)
    fix w0 assume w0: "each append_entry es w = (w0, Inr ())" "sync_entries w0 = (w1, Inr ())"
    from append_all_keep [OF w0(1) inv(1) fit] obtain segs0 where
      0: "log_inv w0 segs0" "leaves w w0 (ents w @ es) (hard w)"
        "unat (last_index (the_wal w0)) = unat (last_index (the_wal w)) + length es" by blast
    note s = sync_entries_keeps [OF w0(2) 0(1)]
    have "last_index (the_wal w1) = last_index (the_wal w0)"
      using s(3) by (simp add: leaves_def same_env_def last_index_def)
    then show ?thesis using s leaves_trans [OF 0(2) s(3)] 0 by (auto simp: leaves_def)
  qed (use inv in auto)
  then obtain segs1 where 3: "log_inv w1 segs1" "all_clean (the_fs w1)" "leaves w w1 (ents w @ es) (hard w)"
      "unat (last_index (the_wal w1)) = unat (last_index (the_wal w)) + length es" by blast
  show ?thesis
  proof (cases h)
    case None
    then show ?thesis using 2 3 d by (auto simp: new_hard_def)
  next
    case (Some hs)
    then have "hs_commit hs \<le> last_index (the_wal w1)" "set_hard_state hs w1 = (w', Inr ())"
      using ext 2 3(4) by (simp_all add: extends_log_def word_le_nat_alt)
    from set_hard_state_keeps [OF this(2) 3(1) this(1)] obtain segs' where
      4: "log_inv w' segs'" "all_clean (the_fs w')" "leaves w1 w' (ents w1) hs" by blast
    then have "last_index (the_wal w') = last_index (the_wal w1)"
      by (simp add: leaves_def same_env_def last_index_def)
    then show ?thesis
      using 4 leaves_trans [OF 3(3) 4(3)] 3(3,4) d Some by (auto simp: leaves_def new_hard_def)
  qed
qed

end
