(* ===== verification/WalReopen.thy ===== *)
theory WalReopen
  imports WalDurable
begin

text \<open>
  Opening a store again.  \<open>store_inv\<close> is the invariant of an open store: the log of
  \<open>WalDurable\<close> together with the lock file, META, the snapshot META names and the membership
  file.  The operations of the synchronous path keep it, and \<open>wal_open\<close> re-establishes it with
  the same log after any crash of a synced store.
\<close>

subsection \<open>The snapshot on disk\<close>

text \<open>\<open>load_snapshot\<close> as a function of the directory listing and the file contents.\<close>

fun pick_snapshot :: "(string \<Rightarrow> bytes option) \<Rightarrow> (LogIndex \<times> string) list \<Rightarrow> StorageError + Snapshot option" where
  "pick_snapshot f [] = Inr None"
| "pick_snapshot f ((index, name) # cs) =
     (case f name of
        None \<Rightarrow> Inl (Io NotFound)
      | Some bs \<Rightarrow>
          (case decode_snapshot_file bs of
             Inr snapshot \<Rightarrow> if sm_index (sn_meta snapshot) = index then Inr (Some snapshot) else pick_snapshot f cs
           | Inl _ \<Rightarrow> pick_snapshot f cs))"

definition stored_snapshot :: "Fs \<Rightarrow> LogIndex \<Rightarrow> StorageError + Snapshot option" where
  "stored_snapshot fs idx =
     (if idx = 0 then Inr None
      else pick_snapshot (contents fs) (snapshot_candidates (\<lambda>i. i \<le> idx) (map fst (fs_dir fs))))"

lemma first_valid_snapshot_pick:
  "fs_budget fs = None \<Longrightarrow> first_valid_snapshot cs fs = (fs, pick_snapshot (contents fs) cs)"
  by (induction cs rule: first_valid_snapshot.induct)
    (auto simp: comp_defs fs_read_def split: option.splits sum.splits)

lemma load_snapshot_stored: "fs_budget fs = None \<Longrightarrow> load_snapshot idx fs = (fs, stored_snapshot fs idx)"
  by (simp add: load_snapshot_def stored_snapshot_def comp_defs fs_read_dir_def first_valid_snapshot_pick)

lemma parse_snapshot_segment [simp]: "parse_snapshot_file_name (segment_path i) = None"
  by (simp add: parse_snapshot_file_name_def segment_path_def segment_name_def strip_prefix_def
      SNAPSHOT_PREFIX_def SEGMENT_PREFIX_def)

lemma candidates_segments [simp]:
  "snapshot_candidates p (names @ map segment_path is) = snapshot_candidates p names"
  by (simp add: snapshot_candidates_def map_filter_def comp_def)

lemma candidates_names: "(i, n) \<in> set (snapshot_candidates p names) \<Longrightarrow> parse_snapshot_file_name n \<noteq> None"
  by (auto simp: snapshot_candidates_def map_filter_def split: option.splits if_splits)

lemma pick_snapshot_cong: "\<forall>(i, n) \<in> set cs. f n = g n \<Longrightarrow> pick_snapshot f cs = pick_snapshot g cs"
  by (induction f cs rule: pick_snapshot.induct) (auto split: option.splits sum.splits)

lemma stored_snapshot_same_files:
  assumes "same_files fs fs'"
  shows "stored_snapshot fs' idx = stored_snapshot fs idx"
proof -
  obtain js where dir: "map fst (fs_dir fs') = map fst (fs_dir fs) @ map segment_path js"
    and c: "\<And>n. n \<notin> range segment_path \<Longrightarrow> contents fs' n = contents fs n"
    using assms by (auto simp: same_files_def)
  have "\<forall>(i, n) \<in> set (snapshot_candidates p (map fst (fs_dir fs))). contents fs' n = contents fs n" for p
  proof clarify
    fix i n assume "(i, n) \<in> set (snapshot_candidates p (map fst (fs_dir fs)))"
    then have "n \<notin> range segment_path" using candidates_names by fastforce
    then show "contents fs' n = contents fs n" by (rule c)
  qed
  from pick_snapshot_cong [OF this] show ?thesis by (simp add: stored_snapshot_def dir)
qed

subsection \<open>The invariant of an open store\<close>

definition base_of :: "WalStorage \<Rightarrow> LogIndex" where
  "base_of s = (case wal_snapshot s of Some sn \<Rightarrow> sm_index (sn_meta sn) | None \<Rightarrow> 0)"

text \<open>The member table \<open>open\<close> adopts, given the membership file and the snapshot.\<close>

definition adopted_conf :: "(LogIndex \<times> ConfState) option \<Rightarrow> LogIndex \<Rightarrow> ConfState" where
  "adopted_conf m base =
     (case m of Some (i, cs) \<Rightarrow> if i > base then cs else cs_default | None \<Rightarrow> cs_default)"

definition stored_membership :: "Fs \<Rightarrow> (LogIndex \<times> ConfState) option \<Rightarrow> bool" where
  "stored_membership fs m \<longleftrightarrow>
     (case m of
        None \<Rightarrow> contents fs MEMBERSHIP_FILE = None
      | Some (i, cs) \<Rightarrow> contents fs MEMBERSHIP_FILE = Some (membership_blob i cs) \<and> conf_state_ok cs)"

definition files_inv :: "Fs \<Rightarrow> WalStorage \<Rightarrow> (LogIndex \<times> ConfState) option \<Rightarrow> bool" where
  "files_inv fs s m \<longleftrightarrow> contents fs ''LOCK'' \<noteq> None \<and>
     contents fs ''META'' = Some (encode_meta (wal_meta s)) \<and> meta_ok (wal_meta s) \<and>
     m_format_version (wal_meta s) = FORMAT_VERSION \<and>
     stored_snapshot fs (m_snapshot_index (wal_meta s)) = Inr (wal_snapshot s) \<and>
     (wal_snapshot s = None \<longrightarrow> m_snapshot_index (wal_meta s) = 0) \<and>
     stored_membership fs m \<and>
     rs_conf_state (initial_state s) =
       rs_conf_state (initial_state (s\<lparr>wal_conf_state := adopted_conf m (base_of s)\<rparr>))"

definition store_inv :: "World \<Rightarrow> segs \<Rightarrow> bool" where
  "store_inv w segs \<longleftrightarrow> log_inv w segs \<and> all_clean (the_fs w) \<and> (\<exists>m. files_inv (the_fs w) (the_wal w) m) \<and>
     compacted_to (the_wal w) \<le> base_of (the_wal w) \<and> base_of (the_wal w) \<le> last_index (the_wal w) \<and>
     base_of (the_wal w) \<noteq> - 1"

lemma not_segment [simp]:
  "''LOCK'' \<notin> range segment_path" "''META'' \<notin> range segment_path" "MEMBERSHIP_FILE \<notin> range segment_path"
  by (auto simp: segment_path_def segment_name_def SEGMENT_PREFIX_def MEMBERSHIP_FILE_def)

lemma files_inv_same:
  assumes "files_inv fs s m" "same_files fs fs'" "same_env s s'"
  shows "files_inv fs' s' m"
proof -
  have c: "contents fs' n = contents fs n" if "n \<notin> range segment_path" for n
    using assms(2) that by (simp add: same_files_def)
  show ?thesis
    using assms(1,3) stored_snapshot_same_files [OF assms(2)] c
    by (auto simp: files_inv_def same_env_def stored_membership_def initial_state_def base_of_def
        split: option.splits)
qed

lemma persist_store_inv:
  assumes "persist_ready_records es h w = (w', Inr d)" "store_inv w segs"
    and "offloaded (the_wal w) = None" "extends_log w es h"
  shows "\<exists>segs'. store_inv w' segs' \<and> leaves w w' (ents w @ es) (new_hard w h)"
proof -
  obtain m where w: "log_inv w segs" "all_clean (the_fs w)" "files_inv (the_fs w) (the_wal w) m"
      "compacted_to (the_wal w) \<le> base_of (the_wal w)" "base_of (the_wal w) \<le> last_index (the_wal w)"
      "base_of (the_wal w) \<noteq> - 1"
    using assms(2) by (auto simp: store_inv_def)
  from persist_keeps [OF assms(1) w(1,2) assms(3,4)] obtain segs' where
    1: "log_inv w' segs'" "all_clean (the_fs w')" "leaves w w' (ents w @ es) (new_hard w h)"
      "unat (last_index (the_wal w')) = unat (last_index (the_wal w)) + length es" by blast
  then have env: "same_env (the_wal w) (the_wal w')" "same_files (the_fs w) (the_fs w')" by (auto simp: leaves_def)
  have "last_index (the_wal w) \<le> last_index (the_wal w')" using 1(4) by (simp add: word_le_nat_alt)
  moreover have "base_of (the_wal w') = base_of (the_wal w)" "compacted_to (the_wal w') = compacted_to (the_wal w)"
    using env(1) by (simp_all add: base_of_def same_env_def)
  ultimately show ?thesis
    using 1 w(4-6) files_inv_same [OF w(3) env(2,1)] by (auto simp: store_inv_def)
qed

subsection \<open>Opening\<close>

definition opts_match :: "WalOptions \<Rightarrow> Meta \<Rightarrow> bool" where
  "opts_match opts meta \<longleftrightarrow> op_cluster_id opts = m_cluster_id meta \<and> op_node_id opts = m_node_id meta"

lemma recover_meta_ok:
  assumes "fs_budget fs = None" "contents fs ''META'' = Some (encode_meta meta)" "meta_ok meta"
    "m_format_version meta = FORMAT_VERSION" "opts_match opts meta"
  shows "recover_meta opts fs = (fs, Inr (meta, stats_default))"
proof -
  have "fs_exists ''META'' fs" using assms(2) by (auto simp: fs_exists_def contents_def)
  then show ?thesis
    using assms by (simp add: recover_meta_def comp_defs read_meta_def fs_read_def decode_encode_meta opts_match_def)
qed

lemma read_membership_ok:
  assumes "fs_budget fs = None" "stored_membership fs m"
  shows "read_membership fs = (fs, Inr m)"
  using assms
  by (auto simp: read_membership_def stored_membership_def fs_read_def decode_membership_blob split: option.splits)

lemma segment_open_existing:
  "fs_budget fs = None \<Longrightarrow> map_of (fs_dir fs) (segment_path i) = Some f \<Longrightarrow>
     segment_open i mb fs = (fs, Inr \<lparr>seg_fd = f, seg_max_bytes = mb\<rparr>)"
  by (simp add: segment_open_def comp_defs open_append_def)

lemma list_segments_ok:
  "fs_budget fs = None \<Longrightarrow> disk_log fs segs \<Longrightarrow> list_segment_indices fs = (fs, Inr (map fst segs))"
  by (simp add: list_segment_indices_def comp_defs fs_read_dir_def disk_log_def)

text \<open>The store \<open>open\<close> builds from what it finds on disk.\<close>

definition reopened ::
    "WalOptions \<Rightarrow> Meta \<Rightarrow> Snapshot option \<Rightarrow> (LogIndex \<times> ConfState) option \<Rightarrow> LogRec list
      \<Rightarrow> LogIndex \<Rightarrow> fd \<Rightarrow> WalStorage" where
  "reopened opts meta snapshot m rs active f =
     (let base = (case snapshot of Some sn \<Rightarrow> sm_index (sn_meta sn) | None \<Rightarrow> 0);
          es = filter (\<lambda>e. le_index e > base) (entries_of rs)
      in \<lparr>wal_segment = \<lparr>seg_fd = f, seg_max_bytes = cf_segment_bytes (op_config opts)\<rparr>,
          segment_first_index = active, max_entry_in_segment = last_entry_index es 0,
          wal_entries = es, compacted_to = base, wal_snapshot = snapshot, wal_meta = meta,
          wal_hard_state = hard_of hs_default rs, wal_conf_state = adopted_conf m base,
          wal_conf_change_index = (case m of Some (i, cs) \<Rightarrow> if i > base then i else base | None \<Rightarrow> base),
          pending_entry_fsync = False, fsync_policy = cf_fsync_policy (op_config opts),
          segment_bytes = cf_segment_bytes (op_config opts), trailing_keep_bytes = 0,
          wal_stats = stats_default, observed = [], offloaded = None\<rparr>)"

lemma open_recovered_ok:
  fixes snapshot :: "Snapshot option"
  defines "base \<equiv> (case snapshot of Some sn \<Rightarrow> sm_index (sn_meta sn) | None \<Rightarrow> 0)"
  assumes fs: "fs_budget fs = None" "disk_log fs segs" "stored_membership fs m"
    and sn: "stored_snapshot fs (m_snapshot_index meta) = Inr snapshot" "snapshot = None \<longrightarrow> m_snapshot_index meta = 0"
    and max: "base \<noteq> - 1" and es: "log_shape base (entries_of (recs_of segs))"
    and commit: "hs_commit (hard_of hs_default (recs_of segs)) \<le> last_entry_index (entries_of (recs_of segs)) base"
    and f: "map_of (fs_dir fs) (segment_path (fst (last segs))) = Some f"
  shows "open_recovered opts meta stats_default fs =
    (fs, Inr (reopened opts meta snapshot m (recs_of segs) (fst (last segs)) f))"
proof -
  let ?es = "entries_of (recs_of segs)"
  have load: "load_snapshot (m_snapshot_index meta) fs = (fs, Inr snapshot)"
    using load_snapshot_stored [OF fs(1)] sn(1) by simp
  have cont: "verify_continuity ?es = Inr ()"
    using es verify_continuity_contig by (cases "?es = []") (auto simp: log_shape_def verify_continuity_def)
  have gap: "\<not> (case ?es of e # _ \<Rightarrow> le_index e > base + 1 | [] \<Rightarrow> False)"
  proof (cases ?es)
    case (Cons e es')
    then have "unat (le_index e) \<le> Suc (unat base)" using es by (auto simp: log_shape_def)
    then show ?thesis using Cons unat_succ [OF max] by (simp add: word_less_nat_alt)
  qed simp
  have last: "last_opt (map fst segs) = Some (fst (last segs))"
    using fs(2) by (simp add: disk_log_def last_opt_def last_map)
  have "\<not> hs_commit (hard_of hs_default (recs_of segs)) > last_entry_index (filter (\<lambda>e. le_index e > base) ?es) base"
    using commit log_shape_last [OF es] by simp
  moreover have "segs \<noteq> []" using fs(2) by (simp add: disk_log_def)
  ultimately show ?thesis
    using load recover_wal_ok [OF fs(2,1), of base] cont gap last sn(2) list_segments_ok [OF fs(1,2)]
      segment_open_existing [OF fs(1) f] read_membership_ok [OF fs(1,3)] fs(2)
    unfolding base_def
    by (cases m) (simp_all add: open_recovered_def comp_defs reopened_def Let_def
        adopted_conf_def stats_default_def split: prod.splits, blast+)
qed

text \<open>
  A store in which everything is synced, after a crash: \<open>wal_open\<close> succeeds and returns the log
  above the snapshot, the hard state and the member table of the store before the crash.
\<close>

definition same_store :: "WalStorage \<Rightarrow> WalStorage \<Rightarrow> bool" where
  "same_store s s' \<longleftrightarrow> wal_entries s' = filter (\<lambda>e. le_index e > base_of s) (wal_entries s) \<and>
     wal_hard_state s' = wal_hard_state s \<and> wal_snapshot s' = wal_snapshot s \<and> wal_meta s' = wal_meta s \<and>
     compacted_to s' = base_of s \<and> last_index s' = last_index s \<and> offloaded s' = None \<and>
     rs_conf_state (initial_state s') = rs_conf_state (initial_state s)"

lemma files_inv_cong:
  "fs_dir fs' = fs_dir fs \<Longrightarrow> contents fs' = contents fs \<Longrightarrow> files_inv fs' s m = files_inv fs s m"
  by (cases m) (simp_all add: files_inv_def stored_snapshot_def stored_membership_def)

lemma lock_irrelevant [simp]:
  "contents (fs\<lparr>fs_lock := l\<rparr>) = contents fs" "dir_wf (fs\<lparr>fs_lock := l\<rparr>) = dir_wf fs"
  "all_clean (fs\<lparr>fs_lock := l\<rparr>) = all_clean fs" "disk_log (fs\<lparr>fs_lock := l\<rparr>) segs = disk_log fs segs"
  "files_inv (fs\<lparr>fs_lock := l\<rparr>) s m = files_inv fs s m"
proof -
  show c: "contents (fs\<lparr>fs_lock := l\<rparr>) = contents fs" by (simp add: contents_def fun_eq_iff)
  show "disk_log (fs\<lparr>fs_lock := l\<rparr>) segs = disk_log fs segs" by (rule disk_log_cong) (simp_all add: c)
  show "files_inv (fs\<lparr>fs_lock := l\<rparr>) s m = files_inv fs s m" by (rule files_inv_cong) (simp_all add: c)
qed (simp_all add: dir_wf_def all_clean_def)

lemma log_mem_rebase:
  assumes "log_mem s rs" "compacted_to s \<le> base" "base \<le> last_index s"
  shows "log_shape base (entries_of rs)" "last_entry_index (entries_of rs) base = last_index s"
proof -
  note last = log_mem_last [OF assms(1)]
  have "log_shape base (entries_of rs) \<and> last_entry_index (entries_of rs) base = last_index s"
  proof (cases "entries_of rs = []")
    case True
    then show ?thesis using last assms(2,3) by (simp add: log_shape_def last_entry_index_def)
  next
    case False
    then obtain n where n: "contig n (entries_of rs)" "n \<le> Suc (unat (compacted_to s))"
      using assms(1) by (auto simp: log_mem_def log_shape_def)
    have l: "last_index s = le_index (last (entries_of rs))"
      using last False by (simp add: last_entry_index_def last_opt_def)
    then show ?thesis using n contig_last [OF n(1) False] assms(2,3) False
      by (auto simp: log_shape_def last_entry_index_def last_opt_def word_le_nat_alt intro!: exI [of _ n])
  qed
  then show "log_shape base (entries_of rs)" "last_entry_index (entries_of rs) base = last_index s" by auto
qed

lemma reopened_log:
  assumes "log_mem s rs" "compacted_to s \<le> base_of s" "base_of s \<le> last_index s"
    and s': "s' = reopened opts (wal_meta s) (wal_snapshot s) m rs i f" and files: "files_inv fs s m"
  shows "same_store s s'" "log_mem s' rs" "files_inv fs s' m"
proof -
  have b: "base_of s = compacted_to s'" "base_of s' = base_of s" by (simp_all add: s' reopened_def base_of_def Let_def)
  have e: "wal_entries s' = filter (\<lambda>e. le_index e > base_of s) (entries_of rs)" "wal_hard_state s' = hard_of hs_default rs"
      "wal_snapshot s' = wal_snapshot s" "wal_meta s' = wal_meta s" "wal_conf_state s' = adopted_conf m (base_of s)"
      "offloaded s' = None"
    by (simp_all add: s' reopened_def base_of_def Let_def)
  note r = log_mem_rebase [OF assms(1-3)]
  have l: "last_index s' = last_index s"
    using log_shape_last [OF r(1)] r(2) e(1) by (simp add: last_index_def b(1) [symmetric])
  have "filter (\<lambda>e. le_index e > base_of s) (wal_entries s) = wal_entries s'"
    using assms(1,2) by (auto simp: log_mem_def e(1) intro!: filter_cong)
  moreover have c: "rs_conf_state (initial_state s') = rs_conf_state (initial_state s)"
    using files e(3,5) by (auto simp: files_inv_def initial_state_def)
  ultimately show "same_store s s'" using assms(1) e l b by (simp add: same_store_def log_mem_def)
  show "log_mem s' rs" using assms(1) r(1) e(1,2) l b(1) by (auto simp: log_mem_def)
  show "files_inv fs s' m" using files e b(2) by (simp add: files_inv_def initial_state_def)
qed

lemma reopen_after_crash:
  assumes inv: "store_inv w segs" and crash: "crash (the_fs w) fs" and opts: "opts_match opts (wal_meta (the_wal w))"
  shows "\<exists>fs' s'. wal_open opts fs = (fs', Inr s') \<and> same_store (the_wal w) s' \<and>
    store_inv \<lparr>the_fs = fs', the_wal = s'\<rparr> segs"
proof -
  let ?s = "the_wal w" and ?g = "fs\<lparr>fs_lock := True\<rparr>"
  obtain m where w: "log_inv w segs" "all_clean (the_fs w)" "files_inv (the_fs w) ?s m"
    and base: "compacted_to ?s \<le> base_of ?s" "base_of ?s \<le> last_index ?s" "base_of ?s \<noteq> - 1"
    using inv by (auto simp: store_inv_def)
  note fs = crash_all_clean [OF log_inv_fd(1) [OF w(1)] w(2) crash]
  have files: "files_inv fs ?s m" and disk: "disk_log fs segs"
    using w(3) files_inv_cong [OF fs(1,2)] log_inv_fd(4) [OF w(1)] disk_log_cong [OF fs(1,2)] by simp_all
  obtain l where l: "map_of (fs_dir fs) ''LOCK'' = Some l"
    using files by (auto simp: files_inv_def contents_def)
  have lock: "wal_open opts fs = releasing_lock
      (seq (recover_meta opts) (\<lambda>(meta, stats). open_recovered opts meta stats)) ?g"
    using l fs(5,6) by (simp add: wal_open_def comp_defs open_append_def try_lock_def)
  have meta: "recover_meta opts ?g = (?g, Inr (wal_meta ?s, stats_default))"
    using files opts fs(5) by (intro recover_meta_ok) (simp_all add: files_inv_def)
  have d: "disk_inv (the_fs w) segs (segment_first_index ?s) (seg_fd (wal_segment ?s))"
    and mem: "log_mem ?s (recs_of segs)" "unat (segment_first_index ?s) \<le> Suc (unat (last_index ?s))"
    using w(1) by (simp_all add: log_inv_def)
  have f: "map_of (fs_dir ?g) (segment_path (fst (last segs))) = Some (seg_fd (wal_segment ?s))"
    and first: "fst (last segs) = segment_first_index ?s"
    using d fs(1) by (simp_all add: disk_inv_def)
  define s' where "s' = reopened opts (wal_meta ?s) (wal_snapshot ?s) m (recs_of segs) (fst (last segs)) (seg_fd (wal_segment ?s))"
  have g: "stored_membership ?g m" "stored_snapshot ?g (m_snapshot_index (wal_meta ?s)) = Inr (wal_snapshot ?s)"
      "wal_snapshot ?s = None \<longrightarrow> m_snapshot_index (wal_meta ?s) = 0"
    using lock_irrelevant(5) [where fs = fs and l = True and s = ?s and m = m] files
    unfolding files_inv_def by blast+
  have "hs_commit (hard_of hs_default (recs_of segs)) \<le> last_index ?s"
    using mem(1) by (auto simp: log_mem_def)
  then have "open_recovered opts (wal_meta ?s) stats_default ?g = (?g, Inr s')"
    unfolding s'_def
    using open_recovered_ok [OF _ _ g _ _ _ f] log_mem_rebase [OF mem(1) base(1,2)] base(3) fs(5) disk
    by (simp add: base_of_def)
  then have opened: "wal_open opts fs = (?g, Inr s')"
    by (simp add: lock releasing_lock_def comp_defs meta)
  note r = reopened_log [OF mem(1) base(1,2) s'_def files]
  have sf: "segment_first_index s' = segment_first_index ?s" "seg_fd (wal_segment s') = seg_fd (wal_segment ?s)"
      "base_of s' = base_of ?s"
    by (simp_all add: s'_def reopened_def Let_def first base_of_def)
  have "store_inv \<lparr>the_fs = ?g, the_wal = s'\<rparr> segs"
    using fs(3,4) disk f first r sf mem(2) base
    by (auto simp: store_inv_def log_inv_def disk_inv_def same_store_def all_clean_def)
  with opened r(1) show ?thesis by blast
qed

end
