(* ===== verification/WalRuns.thy ===== *)
theory WalRuns
  imports WalReopen
begin

text \<open>
  Histories of a store: it is created, batches that extend its log are persisted and
  acknowledged, and it may crash and be opened again at any time.  The history carries the log and
  the hard state that were acknowledged; the theorem says that memory always holds exactly those,
  and that every crash leaves them on disk.
\<close>

subsection \<open>A new data directory\<close>

definition empty_fs :: Fs where
  "empty_fs = \<lparr>fs_dir = [], fs_dsynced = [], fs_pending = [], fs_inodes = [], fs_lock = False, fs_budget = None\<rparr>"

definition new_meta :: "WalOptions \<Rightarrow> Meta" where
  "new_meta opts = \<lparr>m_cluster_id = op_cluster_id opts, m_node_id = op_node_id opts,
     m_format_version = FORMAT_VERSION, m_created_at = op_created_at_millis opts,
     m_snapshot_index = 0, m_snapshot_term = 0\<rparr>"

definition new_fs :: "WalOptions \<Rightarrow> Fs" where
  "new_fs opts =
     (let blob = encode_meta (new_meta opts); d = [(''LOCK'', 0), (''META'', 1), (segment_path 1, 2)]
      in \<lparr>fs_dir = d, fs_dsynced = d, fs_pending = [],
          fs_inodes = [\<lparr>f_data = [], f_synced = [], f_low = 0\<rparr>,
            \<lparr>f_data = blob, f_synced = blob, f_low = length blob\<rparr>, \<lparr>f_data = [], f_synced = [], f_low = 0\<rparr>],
          fs_lock = True, fs_budget = None\<rparr>)"

lemma segment_path_neq [simp]:
  "segment_path i \<noteq> ''LOCK''" "segment_path i \<noteq> ''META''" "segment_path i \<noteq> MEMBERSHIP_FILE"
  "''LOCK'' \<noteq> segment_path i" "''META'' \<noteq> segment_path i" "MEMBERSHIP_FILE \<noteq> segment_path i"
  using not_segment by (metis rangeI)+

lemma no_segments [simp]: "segment_indices_of [''LOCK'', ''META''] = []"
  by (simp add: segment_indices_of_def map_filter_def parse_segment_name_def strip_suffix_def SEGMENT_SUFFIX_def)

lemma membership_file_neq [simp]:
  "MEMBERSHIP_FILE \<noteq> ''META''" "MEMBERSHIP_FILE \<noteq> ''LOCK''"
  by (simp_all add: MEMBERSHIP_FILE_def)

lemma new_meta_snapshot [simp]: "m_snapshot_index (new_meta opts) = 0"
  by (simp add: new_meta_def)

lemmas fs_runs = open_append_def new_file_def dir_op_def open_truncate_def write_all_def sync_all_def
  fs_rename_def fsync_dir_def upd_inode_def fs_read_dir_def fs_read_def contents_def fs_exists_def

lemma wal_open_new:
  "wal_open opts empty_fs =
     (new_fs opts, Inr ((reopened opts (new_meta opts) None None [] 1 2)
        \<lparr>wal_stats := stats_default\<lparr>dir_fsyncs := 2\<rparr>\<rparr>))"
  by (simp add: wal_open_def comp_defs empty_fs_def fs_runs try_lock_def
    releasing_lock_def recover_meta_def write_meta_def atomic_replace_def open_recovered_def
    load_snapshot_def recover_wal_def list_segment_indices_def verify_continuity_def
    last_entry_index_def hs_default_def segment_open_def read_membership_def Let_def
    new_fs_def reopened_def adopted_conf_def new_meta_def [symmetric] stats_default_def numeral_2_eq_2)

definition opts_ok :: "WalOptions \<Rightarrow> bool" where
  "opts_ok opts \<longleftrightarrow> length (op_cluster_id opts) < 2 ^ 16 \<and> length (op_node_id opts) < 2 ^ 16 \<and>
     utf8_valid (op_cluster_id opts) \<and> utf8_valid (op_node_id opts)"

lemma segment_indices_new: "segment_indices_of [''LOCK'', ''META'', segment_path 1] = [1]"
  using segment_indices_snoc [of "[''LOCK'', ''META'']" "[]" 1] by simp

lemma new_store_inv:
  assumes "wal_open opts empty_fs = (fs, Inr s)" "opts_ok opts"
  shows "store_inv \<lparr>the_fs = fs, the_wal = s\<rparr> [(1, [])]" "offloaded s = None" "wal_entries s = []"
    "wal_hard_state s = hs_default" "base_of s = 0" "wal_meta s = new_meta opts"
proof -
  have s: "fs = new_fs opts" "wal_entries s = []" "wal_hard_state s = hs_default" "base_of s = 0"
    "wal_meta s = new_meta opts" "offloaded s = None" "wal_segment s = \<lparr>seg_fd = 2, seg_max_bytes = cf_segment_bytes (op_config opts)\<rparr>"
    "segment_first_index s = 1" "compacted_to s = 0" "wal_snapshot s = None" "wal_conf_state s = cs_default"
    using assms(1) by (auto simp: wal_open_new reopened_def Let_def base_of_def adopted_conf_def)
  have d: "disk_inv (new_fs opts) [(1, [])] 1 2" "all_clean (new_fs opts)"
    by (auto simp: disk_inv_def dir_wf_def disk_log_def segment_indices_new new_fs_def Let_def contents_def
        clean_def all_clean_def)
  have l: "log_mem s []" "last_index s = 0"
    using s by (simp_all add: log_mem_def log_shape_def last_index_def last_entry_index_def hs_default_def)
  have "files_inv (new_fs opts) s None"
    using assms(2) s by (simp add: files_inv_def new_fs_def Let_def contents_def stored_snapshot_def
        stored_membership_def adopted_conf_def new_meta_def meta_ok_def opts_ok_def initial_state_def)
  then show "store_inv \<lparr>the_fs = fs, the_wal = s\<rparr> [(1, [])]"
    using d l s by (auto simp: store_inv_def log_inv_def recs_of_def)
  show "offloaded s = None" "wal_entries s = []" "wal_hard_state s = hs_default" "base_of s = 0"
    "wal_meta s = new_meta opts" by (simp_all add: s)
qed

lemma store_inv_budget [simp]: "store_inv (w\<lparr>the_fs := (the_fs w)\<lparr>fs_budget := b\<rparr>\<rparr>) segs = store_inv w segs"
  using files_inv_cong [of "(the_fs w)\<lparr>fs_budget := b\<rparr>" "the_fs w"] by (simp add: store_inv_def)

subsection \<open>Histories\<close>

inductive wal_run :: "WalOptions \<Rightarrow> World \<Rightarrow> LogEntry list \<Rightarrow> HardState \<Rightarrow> bool"
  for opts :: WalOptions where
  start: "wal_open opts empty_fs = (fs, Inr s) \<Longrightarrow> wal_run opts \<lparr>the_fs = fs, the_wal = s\<rparr> [] hs_default"
| persist: "wal_run opts w log hs \<Longrightarrow> extends_log w es h \<Longrightarrow>
    persist_ready_records es h (w\<lparr>the_fs := (the_fs w)\<lparr>fs_budget := b\<rparr>\<rparr>) = (w', Inr d) \<Longrightarrow>
    wal_run opts w' (log @ es) (case h of Some hs' \<Rightarrow> hs' | None \<Rightarrow> hs)"
| restart: "wal_run opts w log hs \<Longrightarrow> crash (the_fs w) fs \<Longrightarrow> wal_open opts fs = (fs', Inr s) \<Longrightarrow>
    wal_run opts \<lparr>the_fs = fs', the_wal = s\<rparr> log hs"

definition run_inv :: "WalOptions \<Rightarrow> World \<Rightarrow> LogEntry list \<Rightarrow> HardState \<Rightarrow> bool" where
  "run_inv opts w log hs \<longleftrightarrow> (\<exists>segs. store_inv w segs) \<and> offloaded (the_wal w) = None \<and> base_of (the_wal w) = 0 \<and>
     wal_meta (the_wal w) = new_meta opts \<and> ents w = log \<and> hard w = hs"

lemma run_inv_reopen:
  assumes "run_inv opts w log hs" "crash (the_fs w) fs"
  shows "\<exists>fs' s. wal_open opts fs = (fs', Inr s) \<and> run_inv opts \<lparr>the_fs = fs', the_wal = s\<rparr> log hs"
proof -
  obtain segs where w: "store_inv w segs" "base_of (the_wal w) = 0" "wal_meta (the_wal w) = new_meta opts"
      "ents w = log" "hard w = hs"
    using assms(1) by (auto simp: run_inv_def)
  have "opts_match opts (wal_meta (the_wal w))" by (simp add: w opts_match_def new_meta_def)
  from reopen_after_crash [OF w(1) assms(2) this] obtain fs' s where
    s: "wal_open opts fs = (fs', Inr s)" "same_store (the_wal w) s" "store_inv \<lparr>the_fs = fs', the_wal = s\<rparr> segs"
    by blast
  have "compacted_to (the_wal w) = 0" using w(1,2) by (simp add: store_inv_def)
  then have pos: "filter (\<lambda>e. le_index e > 0) (ents w) = ents w"
    using w(1) by (auto simp: store_inv_def log_inv_def log_mem_def)
  have "run_inv opts \<lparr>the_fs = fs', the_wal = s\<rparr> log hs"
    using s(2,3) w pos by (auto simp: run_inv_def same_store_def base_of_def)
  with s(1) show ?thesis by blast
qed

lemma wal_run_inv: "wal_run opts w log hs \<Longrightarrow> opts_ok opts \<Longrightarrow> run_inv opts w log hs"
proof (induction rule: wal_run.induct)
  case (start fs s)
  show ?case using new_store_inv [OF start] by (auto simp: run_inv_def)
next
  case (persist w log hs es h b w' d)
  let ?w = "w\<lparr>the_fs := (the_fs w)\<lparr>fs_budget := b\<rparr>\<rparr>"
  from persist.IH [OF persist.prems] obtain segs where w: "store_inv w segs" "offloaded (the_wal w) = None"
    and rest: "base_of (the_wal w) = 0" "wal_meta (the_wal w) = new_meta opts" "ents w = log" "hard w = hs"
    by (auto simp: run_inv_def)
  have "store_inv ?w segs" using w(1) by simp
  moreover have "extends_log ?w es h" using persist.hyps(2) by (cases h) (simp_all add: extends_log_def)
  ultimately obtain segs' where "store_inv w' segs'" "leaves ?w w' (ents ?w @ es) (new_hard ?w h)"
    using persist_store_inv [OF persist.hyps(3)] w(2) by auto
  then show ?case using rest w(2)
    by (auto simp: run_inv_def leaves_def same_env_def base_of_def new_hard_def split: option.splits)
next
  case (restart w log hs fs fs' s)
  then show ?case using run_inv_reopen [of opts w log hs fs] by auto
qed

lemma crash_clean_files:
  assumes "dir_wf fs" "\<And>i. i < length (fs_inodes fs) \<Longrightarrow> clean (fs_inodes fs ! i)" "fs_budget fs = None"
  shows "crash fs (fs\<lparr>fs_lock := False\<rparr>)"
  using assms by (auto simp: crash_def dir_wf_def crash_content_clean intro: exI [of _ "[]"])

lemmas wal_runs = persist_ready_records_def wal_append_def append_entry_def maybe_rollover_def sync_entries_def
  sync_active_def set_hard_state_def count_stats_def notify_fsynced_def on_fs_def segment_append_record_def
  segment_sync_def segment_size_def fd_len_def

subsection \<open>Properties\<close>

text \<open>
  C1: what was acknowledged survives.  Take any history of a store that consists of its creation,
  of batches that extend the log without a conflict and were acknowledged on the synchronous path of
  \<open>persist_ready_records\<close>, each with any budget of I/O operations, and of crashes followed by
  restarts.  Then the open log holds exactly the acknowledged entries and the last acknowledged
  hard state, and after a crash at this point \<open>wal_open\<close> succeeds and returns them again.  Batches
  that overwrite a suffix, snapshots, compaction and failed batches are not part of these
  histories; a truncation may in fact lose an acknowledged hard state.
\<close>

theorem acknowledged_records_survive:
  assumes "wal_run opts w log hs" "opts_ok opts"
  shows "wal_entries (the_wal w) = log \<and> wal_hard_state (the_wal w) = hs \<and>
    (\<forall>fs. crash (the_fs w) fs \<longrightarrow> (\<exists>fs' s. wal_open opts fs = (fs', Inr s) \<and>
       wal_entries s = log \<and> wal_hard_state s = hs))"
proof -
  have inv: "run_inv opts w log hs" using wal_run_inv [OF assms] .
  then show ?thesis using run_inv_reopen [OF inv] by (fastforce simp: run_inv_def)
qed

theorem acknowledged_records_survive_witness:
  "let opts = \<lparr>op_cluster_id = [99], op_node_id = [110],
         op_config = \<lparr>cf_fsync_policy = Always, cf_segment_bytes = 1048576\<rparr>, op_created_at_millis = 7\<rparr>;
       e = \<lparr>le_index = 1, le_term = 2, le_type = NormalEntry, le_data = [5]\<rparr>;
       hs = \<lparr>hs_term = 2, hs_vote = Some 3, hs_commit = 1\<rparr>
   in \<exists>fs s w d fs' s'. wal_open opts empty_fs = (fs, Inr s) \<and>
        persist_ready_records [e] (Some hs) \<lparr>the_fs = fs, the_wal = s\<rparr> = (w, Inr d) \<and>
        wal_open opts ((the_fs w)\<lparr>fs_lock := False\<rparr>) = (fs', Inr s') \<and>
        wal_entries s' = [e] \<and> wal_hard_state s' = hs"
proof -
  define opts where "opts = \<lparr>op_cluster_id = [99], op_node_id = [110],
    op_config = \<lparr>cf_fsync_policy = Always, cf_segment_bytes = 1048576\<rparr>, op_created_at_millis = 7\<rparr>"
  define e where "e = \<lparr>le_index = 1, le_term = 2, le_type = NormalEntry, le_data = [5]\<rparr>"
  define hs where "hs = \<lparr>hs_term = 2, hs_vote = Some 3, hs_commit = 1\<rparr>"
  define w0 where "w0 = \<lparr>the_fs = new_fs opts, the_wal = (reopened opts (new_meta opts) None None [] 1 2)
        \<lparr>wal_stats := stats_default\<lparr>dir_fsyncs := 2\<rparr>\<rparr>\<rparr>"
  have o: "wal_open opts empty_fs = (the_fs w0, Inr (the_wal w0))" by (simp add: wal_open_new w0_def)
  have ok: "opts_ok opts" by (simp add: opts_def opts_ok_def)
  obtain w1 where w1: "persist_ready_records [e] (Some hs) w0 = (w1, Inr Durable)"
    and dir: "length (fs_inodes (the_fs w1)) = 3" "snd ` set (fs_dir (the_fs w1)) = {0, 1, 2}"
      "fs_budget (the_fs w1) = None"
    by (simp add: w0_def new_fs_def reopened_def Let_def opts_def e_def wal_runs comp_defs
        last_index_def last_entry_index_def fs_runs adopted_conf_def insert_commute)
  have eta: "\<lparr>the_fs = the_fs w0, the_wal = the_wal w0\<rparr> = w0" by simp
  have "extends_log w0 [e] (Some hs)"
    by (simp add: w0_def reopened_def Let_def e_def hs_def extends_log_def last_index_def last_entry_index_def)
  moreover have "w0\<lparr>the_fs := (the_fs w0)\<lparr>fs_budget := None\<rparr>\<rparr> = w0" by (simp add: w0_def new_fs_def Let_def)
  moreover have "wal_run opts w0 [] hs_default" using wal_run.start [OF o] unfolding eta .
  ultimately have run: "wal_run opts w1 [e] hs"
    using wal_run.persist [of opts w0 "[]" hs_default "[e]" "Some hs" None w1 Durable] w1 by simp
  obtain segs where inv: "store_inv w1 segs" using wal_run_inv [OF run ok] by (auto simp: run_inv_def)
  then have "dir_wf (the_fs w1)" "all_clean (the_fs w1)" by (auto simp: store_inv_def dest: log_inv_fd(1))
  moreover have "clean (fs_inodes (the_fs w1) ! i)" if "i < length (fs_inodes (the_fs w1))" for i
  proof -
    have "i \<in> snd ` set (fs_dir (the_fs w1))" unfolding dir(2) using that dir(1) by auto
    then show ?thesis using calculation(2) unfolding all_clean_def by blast
  qed
  ultimately have "crash (the_fs w1) ((the_fs w1)\<lparr>fs_lock := False\<rparr>)"
    using crash_clean_files dir(3) by blast
  then obtain fs' s' where "wal_open opts ((the_fs w1)\<lparr>fs_lock := False\<rparr>) = (fs', Inr s')"
      "wal_entries s' = [e]" "wal_hard_state s' = hs"
    using acknowledged_records_survive [OF run ok] by blast
  moreover have "persist_ready_records [e] (Some hs) \<lparr>the_fs = the_fs w0, the_wal = the_wal w0\<rparr> = (w1, Inr Durable)"
    unfolding eta by (rule w1)
  ultimately show ?thesis using o
    unfolding Let_def opts_def [symmetric] e_def [symmetric] hs_def [symmetric] by blast
qed

end
