(* ===== verification/WalReads.thy ===== *)
theory WalReads
  imports WalRuns
begin

text \<open>
  Properties of single operations of the log: what a crash in the middle of a write leaves for
  the scanner, what the read side returns, and what compaction may drop.
\<close>

subsection \<open>A crash with unsynced records\<close>

lemma take_longer:
  assumes "length (enc_all a) \<le> k"
  obtains j where "take k (enc_all (a @ b)) = enc_all a @ take j (enc_all b)"
  using assms by (simp add: that)

lemma scan_segment_after:
  "\<forall>r \<in> set a. rec_ok r \<Longrightarrow> scan_segment idx l c 0 (enc_all a @ bs) es hs =
     scan_segment idx l c (length (enc_all a)) bs (es @ entries_of a) (hard_of hs a)"
  using scan_segment_records [of a idx l c 0 bs es hs] by simp

subsection \<open>The read side\<close>

text \<open>The entries in memory start right after the watermark.\<close>

definition aligned :: "WalStorage \<Rightarrow> bool" where
  "aligned s \<longleftrightarrow> contig (Suc (unat (compacted_to s))) (wal_entries s)"

lemma contig_drop: "contig n es \<Longrightarrow> contig (n + k) (drop k es)"
  by (induction es arbitrary: n k) (auto simp: drop_Cons split: nat.splits, fastforce)

lemma log_mem_aligned: "log_mem s rs \<Longrightarrow> aligned s"
proof (cases "entries_of rs = []")
  case False
  assume "log_mem s rs"
  with False obtain n where n: "contig n (entries_of rs)" "n \<le> Suc (unat (compacted_to s))"
    and e: "wal_entries s = filter (\<lambda>e. le_index e > compacted_to s) (entries_of rs)"
    by (auto simp: log_mem_def log_shape_def)
  then show ?thesis
    using contig_drop [OF n(1), of "Suc (unat (compacted_to s)) - n"]
    by (simp add: aligned_def contig_filter [OF n(1)])
qed (simp add: log_mem_def aligned_def)

lemma aligned_last:
  "aligned s \<Longrightarrow> unat (last_index s) = unat (compacted_to s) + length (wal_entries s)"
  using contig_last [of "Suc (unat (compacted_to s))" "wal_entries s"]
  by (cases "wal_entries s = []") (auto simp: aligned_def last_index_def last_entry_index_def last_opt_def)

lemma contig_indices: "contig n es \<Longrightarrow> map (\<lambda>e. unat (le_index e)) es = [n..<n + length es]"
  by (induction es arbitrary: n) (auto simp: upt_rec)

lemma contig_take: "contig n es \<Longrightarrow> contig n (take k es)"
  by (induction es arbitrary: n k) (auto simp: take_Cons split: nat.splits)

lemma unat_diff_le: "b \<le> a \<Longrightarrow> unat (a - b) = unat a - unat b" for a b :: u64
  by (simp add: unat_sub_if' word_le_nat_alt)

text \<open>\<open>entries\<close> without a limit, as one expression.\<close>

lemma storage_entries_eq:
  assumes "aligned s" "last_index s \<noteq> - 1" "low < high"
  shows "storage_entries s low high None =
    (if low \<le> compacted_to s \<or> last_index s + 1 < high then Inl Compacted
     else Inr (take (unat high - unat low) (drop (unat low - Suc (unat (compacted_to s))) (wal_entries s))))"
proof -
  have c: "compacted_to s \<noteq> - 1" using aligned_last [OF assms(1)] assms(2) unat64_bound [of "last_index s"]
    by (auto simp: word_unat_eq_iff unat_max64)
  note u = unat_succ [OF c] unat_succ [OF assms(2)]
  have l: "low < compacted_to s + 1 \<longleftrightarrow> low \<le> compacted_to s" using u(1) by (auto simp: word_less_nat_alt word_le_nat_alt)
  show ?thesis
  proof (cases "low \<le> compacted_to s \<or> last_index s + 1 < high")
    case True
    then show ?thesis using assms(3) l by (auto simp: storage_entries_def Let_def)
  next
    case False
    have "compacted_to s + 1 \<le> low" "compacted_to s + 1 \<le> high"
      using False assms(3) u(1) by (auto simp: word_less_nat_alt word_le_nat_alt)
    then have "unat (low - (compacted_to s + 1)) = unat low - Suc (unat (compacted_to s))"
      "unat (high - (compacted_to s + 1)) = unat high - Suc (unat (compacted_to s))"
      using unat_diff_le u(1) by auto
    moreover have "unat high \<le> Suc (unat (last_index s))" "Suc (unat (compacted_to s)) \<le> unat low" "unat low < unat high"
      using False u assms(3) by (auto simp: word_less_nat_alt word_le_nat_alt)
    ultimately show ?thesis
      using False l assms(3) aligned_last [OF assms(1)]
      by (auto simp: storage_entries_def Let_def slice_get_def)
  qed
qed

lemma storage_term_entry:
  assumes "aligned s" "e \<in> set (wal_entries s)"
  shows "storage_term s (le_index e) = Inr (le_term e)"
proof -
  obtain k where k: "k < length (wal_entries s)" "e = wal_entries s ! k" using assms(2) by (auto simp: in_set_conv_nth)
  have i: "unat (le_index e) = Suc (unat (compacted_to s)) + k" using contig_index assms(1) k by (simp add: aligned_def)
  have c: "compacted_to s \<noteq> - 1" using i unat64_bound [of "le_index e"] unat_max64 by auto
  have "unat (le_index e - (compacted_to s + 1)) = k"
    using i unat_succ [OF c] by (subst unat_diff_le) (simp_all add: word_le_nat_alt)
  moreover have "\<not> le_index e < compacted_to s + 1" "\<not> last_index s < le_index e"
    using i unat_succ [OF c] aligned_last [OF assms(1)] k(1) by (auto simp: word_less_nat_alt)
  ultimately show ?thesis using k by (simp add: storage_term_def Let_def)
qed

abbreviation data_size :: "LogEntry list \<Rightarrow> nat" where
  "data_size es \<equiv> sum_list (map (\<lambda>e. length (le_data e)) es)"

lemma fit_count_spec:
  assumes "unat used + data_size es < 2 ^ 64"
  shows "fit_count limit used es \<le> length es \<and>
    (fit_count limit used es = 0 \<or> unat used + data_size (take (fit_count limit used es) es) \<le> unat limit) \<and>
    (fit_count limit used es < length es \<longrightarrow>
       unat limit < unat used + data_size (take (Suc (fit_count limit used es)) es))"
  using assms
proof (induction limit used es rule: fit_count.induct)
  case (2 limit used e es)
  have u: "unat (used + len64 (le_data e)) = unat used + length (le_data e)"
    using 2(2) by (simp add: unat_word_ariths len64_def unat_of_nat)
  show ?case
  proof (cases "used + len64 (le_data e) > limit")
    case False
    then show ?thesis using 2 u by (auto simp: word_less_nat_alt Let_def)
  qed (use u in \<open>auto simp: word_less_nat_alt Let_def\<close>)
qed simp

subsection \<open>Properties\<close>

text \<open>
  C23: a crash never costs a synced record.  Take the active segment with some records synced and
  more written since.  Whatever the crash leaves of the file, the scanner of \<open>recover_wal\<close> either
  replays all the synced records followed by a prefix of the others, and if the file ends in a
  torn record says where to cut it, exactly after the last replayed record; or it refuses to
  start, and then the torn record directly follows entries that are all committed.
\<close>

theorem crash_keeps_synced_records:
  assumes "\<forall>r \<in> set (synced @ written). rec_ok r"
    and "f_synced f = enc_all synced" "f_data f = enc_all (synced @ written)" "length (f_synced f) \<le> f_low f"
    and "crash_content f bs"
  shows "\<exists>n \<le> length written.
    let rs = synced @ take n written; es' = es @ entries_of rs; hs' = hard_of hs rs in
    (\<exists>cut. scan_segment idx True c 0 bs es hs = Inr (es', hs', cut) \<and>
       (cut = None \<and> bs = enc_all rs \<or> cut = Some (length (enc_all rs)) \<and> prefix (enc_all rs) bs)) \<or>
    (last_entry_index es' c + 1 \<le> hs_commit hs' + 1 \<and>
     scan_segment idx True c 0 bs es hs =
       Inl (Unrecoverable (TearInCommitWindow (last_entry_index es' c + 1) (hs_commit hs'))))"
proof -
  have ok: "\<forall>r \<in> set synced. rec_ok r" "\<forall>r \<in> set written. rec_ok r" using assms(1) by auto
  obtain k where k: "length (enc_all synced) \<le> k" "bs = take k (enc_all (synced @ written))"
    using assms(2-5) by (auto simp: crash_content_def)
  then obtain j where bs: "bs = enc_all synced @ take j (enc_all written)" using take_longer by metis
  note after = scan_segment_after [OF ok(1), of idx True c "take j (enc_all written)" es hs]
  let ?es = "es @ entries_of synced" and ?hs = "hard_of hs synced"
  from scan_segment_cut [OF ok(2), of j idx c "length (enc_all synced)" ?es ?hs] show ?thesis
  proof cases
    case (1 n cut)
    have "prefix (enc_all (take n written)) (take j (enc_all written))"
    proof -
      have "prefix (enc_all (take n written)) (enc_all written)"
        by (metis append_take_drop_id concat_append map_append prefixI)
      then show ?thesis using 1(2) by (metis append_eq_conv_conj prefix_def take_all_iff take_append
            take_take min.absorb2 prefixI append_take_drop_id)
    qed
    then show ?thesis using 1 after bs by (intro exI [of _ n]) (auto simp: Let_def)
  next
    case (2 n)
    then show ?thesis using after bs by (intro exI [of _ n]) (auto simp: Let_def)
  qed
qed

theorem crash_keeps_synced_records_witness:
  "let h = \<lparr>hs_term = 1, hs_vote = Some 2, hs_commit = 0\<rparr>;
       e = \<lparr>le_index = 1, le_term = 1, le_type = NormalEntry, le_data = [7]\<rparr>;
       bs = take 40 (enc (RHard h) @ enc (REntry e))
   in \<exists>n \<le> 1. let rs = [RHard h] @ take n [REntry e] in
     (\<exists>cut. scan_segment 1 True 0 0 bs [] hs_default = Inr (entries_of rs, hard_of hs_default rs, cut)) \<or>
     (\<exists>i c. scan_segment 1 True 0 0 bs [] hs_default = Inl (Unrecoverable (TearInCommitWindow i c)))"
proof -
  define h where "h = \<lparr>hs_term = 1, hs_vote = Some 2, hs_commit = 0\<rparr>"
  define e where "e = \<lparr>le_index = 1, le_term = 1, le_type = NormalEntry, le_data = [7]\<rparr>"
  define bs where "bs = take 40 (enc (RHard h) @ enc (REntry e))"
  have "length (enc (RHard h)) = 34" "rec_ok (REntry e)" by (simp_all add: e_def)
  then have "\<exists>n \<le> length [REntry e].
    let rs = [RHard h] @ take n [REntry e]; es' = [] @ entries_of rs; hs' = hard_of hs_default rs in
    (\<exists>cut. scan_segment 1 True 0 0 bs [] hs_default = Inr (es', hs', cut) \<and>
       (cut = None \<and> bs = enc_all rs \<or> cut = Some (length (enc_all rs)) \<and> prefix (enc_all rs) bs)) \<or>
    (last_entry_index es' 0 + 1 \<le> hs_commit hs' + 1 \<and>
     scan_segment 1 True 0 0 bs [] hs_default =
       Inl (Unrecoverable (TearInCommitWindow (last_entry_index es' 0 + 1) (hs_commit hs'))))"
    by (intro crash_keeps_synced_records [of "[RHard h]" "[REntry e]" "\<lparr>f_data = enc (RHard h) @ enc (REntry e),
          f_synced = enc (RHard h), f_low = 34\<rparr>" bs])
      (auto simp: crash_content_def bs_def simp del: enc.simps intro: exI [of _ 40])
  then show ?thesis unfolding Let_def h_def [symmetric] e_def [symmetric] bs_def [symmetric]
    by (metis append_Nil length_Cons list.size(3) One_nat_def)
qed

text \<open>
  C27: the read side of the log.  In a log whose entries follow the watermark without a gap,
  \<open>entries(low, high)\<close> returns exactly the entries with indices from \<open>low\<close> to \<open>high - 1\<close>, and fails
  with \<open>Compacted\<close> exactly when that range is not held.  \<open>term\<close> returns the term of the entry for
  every index that is held, and outside the log the term of the snapshot for an index below the log
  that is the snapshot's, and \<open>Compacted\<close> for every other.
\<close>

theorem reads_return_the_log:
  assumes "aligned s" "last_index s \<noteq> - 1"
  shows "(low < high \<longrightarrow>
     (case storage_entries s low high None of
        Inr es \<Rightarrow> map (\<lambda>e. unat (le_index e)) es = [unat low..<unat high] \<and> set es \<subseteq> set (wal_entries s)
      | Inl err \<Rightarrow> err = Compacted \<and> (low < first_index s \<or> last_index s + 1 < high))) \<and>
    (\<forall>e \<in> set (wal_entries s). storage_term s (le_index e) = Inr (le_term e)) \<and>
    (first_index s \<le> i \<and> i \<le> last_index s \<longrightarrow> i \<in> le_index ` set (wal_entries s)) \<and>
    (last_index s < i \<longrightarrow> storage_term s i = Inl Compacted) \<and>
    (i < first_index s \<longrightarrow> storage_term s i =
       (case wal_snapshot s of
          Some sn \<Rightarrow> if sm_index (sn_meta sn) = i then Inr (sm_term (sn_meta sn)) else Inl Compacted
        | None \<Rightarrow> Inl Compacted))"
proof (intro conjI impI ballI)
  have c: "compacted_to s \<noteq> - 1" using aligned_last [OF assms(1)] assms(2) unat64_bound [of "last_index s"]
    by (auto simp: word_unat_eq_iff unat_max64)
  note u = unat_succ [OF c] unat_succ [OF assms(2)]
  show "storage_term s (le_index e) = Inr (le_term e)" if "e \<in> set (wal_entries s)" for e
    using storage_term_entry [OF assms(1) that] .
  show "storage_term s i = Inl Compacted" if "last_index s < i"
  proof -
    have "\<not> i < compacted_to s + 1" using that u aligned_last [OF assms(1)] by (auto simp: word_less_nat_alt)
    then show ?thesis using that by (simp add: storage_term_def)
  qed
  show "i \<in> le_index ` set (wal_entries s)" if "first_index s \<le> i \<and> i \<le> last_index s"
  proof -
    let ?k = "unat i - Suc (unat (compacted_to s))"
    have k: "Suc (unat (compacted_to s)) \<le> unat i" "?k < length (wal_entries s)"
      using that u(1) aligned_last [OF assms(1)] by (auto simp: first_index_def word_le_nat_alt)
    then have "le_index (wal_entries s ! ?k) = i"
      using contig_index [OF assms(1) [unfolded aligned_def] k(2)] by (simp add: word_unat_eq_iff)
    then show ?thesis using nth_mem [OF k(2)] by (metis image_eqI)
  qed
  show "storage_term s i = (case wal_snapshot s of
          Some sn \<Rightarrow> if sm_index (sn_meta sn) = i then Inr (sm_term (sn_meta sn)) else Inl Compacted
        | None \<Rightarrow> Inl Compacted)" if "i < first_index s"
    using that by (auto simp: storage_term_def first_index_def split: option.split)
  assume lt: "low < high"
  show "case storage_entries s low high None of
        Inr es \<Rightarrow> map (\<lambda>e. unat (le_index e)) es = [unat low..<unat high] \<and> set es \<subseteq> set (wal_entries s)
      | Inl err \<Rightarrow> err = Compacted \<and> (low < first_index s \<or> last_index s + 1 < high)"
  proof (cases "low \<le> compacted_to s \<or> last_index s + 1 < high")
    case True
    then show ?thesis using storage_entries_eq [OF assms lt] u(1)
      by (auto simp: first_index_def word_less_nat_alt word_le_nat_alt)
  next
    case False
    let ?d = "unat low - Suc (unat (compacted_to s))"
    let ?es = "take (unat high - unat low) (drop ?d (wal_entries s))"
    have n: "Suc (unat (compacted_to s)) \<le> unat low" "unat high \<le> Suc (unat (last_index s))" "unat low < unat high"
      using False lt u by (auto simp: word_less_nat_alt word_le_nat_alt)
    then have "length ?es = unat high - unat low" using aligned_last [OF assms(1)] by auto
    moreover have "contig (unat low) ?es"
      using contig_take [OF contig_drop [of "Suc (unat (compacted_to s))" "wal_entries s" ?d]] assms(1) n(1)
      by (simp add: aligned_def)
    ultimately have "map (\<lambda>e. unat (le_index e)) ?es = [unat low..<unat high]"
      using contig_indices [of "unat low" ?es] n(3) by simp
    moreover have "set ?es \<subseteq> set (wal_entries s)" by (meson set_drop_subset set_take_subset subset_trans)
    ultimately show ?thesis using False storage_entries_eq [OF assms lt] by simp
  qed
qed

theorem reads_return_the_log_witness:
  "let e = (\<lambda>i. \<lparr>le_index = i, le_term = 3, le_type = NormalEntry, le_data = []\<rparr>);
       s = (reopened \<lparr>op_cluster_id = [], op_node_id = [], op_config = \<lparr>cf_fsync_policy = Always, cf_segment_bytes = 0\<rparr>,
         op_created_at_millis = 0\<rparr> \<lparr>m_cluster_id = [], m_node_id = [], m_format_version = 4, m_created_at = 0,
         m_snapshot_index = 0, m_snapshot_term = 0\<rparr> None None [] 1 0)\<lparr>wal_entries := [e 5, e 6, e 7], compacted_to := 4,
         wal_snapshot := Some \<lparr>sn_meta = \<lparr>sm_index = 4, sm_term = 2, sm_conf_state = cs_default\<rparr>, sn_data = []\<rparr>\<rparr>
   in storage_entries s 5 7 None = Inr [e 5, e 6] \<and> storage_term s 6 = Inr 3 \<and>
     storage_term s 8 = Inl Compacted \<and> storage_term s 4 = Inr 2 \<and> storage_term s 3 = Inl Compacted"
proof -
  define e where "e = (\<lambda>i. \<lparr>le_index = i, le_term = 3, le_type = NormalEntry, le_data = []\<rparr>)"
  define s where "s = (reopened \<lparr>op_cluster_id = [], op_node_id = [], op_config = \<lparr>cf_fsync_policy = Always, cf_segment_bytes = 0\<rparr>,
         op_created_at_millis = 0\<rparr> \<lparr>m_cluster_id = [], m_node_id = [], m_format_version = 4, m_created_at = 0,
         m_snapshot_index = 0, m_snapshot_term = 0\<rparr> None None [] 1 0)\<lparr>wal_entries := [e 5, e 6, e 7], compacted_to := 4,
         wal_snapshot := Some \<lparr>sn_meta = \<lparr>sm_index = 4, sm_term = 2, sm_conf_state = cs_default\<rparr>, sn_data = []\<rparr>\<rparr>"
  have s: "wal_entries s = [e 5, e 6, e 7]" "compacted_to s = 4" by (simp_all add: s_def)
  have a: "aligned s" "last_index s = 7" by (simp_all add: aligned_def s last_index_def last_entry_index_def last_opt_def e_def)
  have f: "first_index s = 5" "wal_snapshot s = Some \<lparr>sn_meta = \<lparr>sm_index = 4, sm_term = 2, sm_conf_state = cs_default\<rparr>, sn_data = []\<rparr>"
    by (simp_all add: first_index_def s_def)
  have "storage_term s 4 = Inr 2" "storage_term s 3 = Inl Compacted"
    using reads_return_the_log [OF a(1), of 5 7 4] reads_return_the_log [OF a(1), of 5 7 3] by (simp_all add: a(2) f)
  moreover from reads_return_the_log [OF a(1), of 5 7 8] a(2)
  have "storage_term s 8 = Inl Compacted" "\<forall>x \<in> set (wal_entries s). storage_term s (le_index x) = Inr (le_term x)" by auto
  moreover have "storage_entries s 5 7 None = Inr [e 5, e 6]"
    using storage_entries_eq [OF a(1), of 5 7] by (simp add: a(2) s)
  ultimately have "storage_entries s 5 7 None = Inr [e 5, e 6] \<and> storage_term s 6 = Inr 3 \<and>
     storage_term s 8 = Inl Compacted \<and> storage_term s 4 = Inr 2 \<and> storage_term s 3 = Inl Compacted"
    by (simp add: s e_def)
  then show ?thesis unfolding Let_def s_def e_def .
qed

text \<open>
  C40: the size limit of \<open>entries\<close>.  With a limit the result is the longest prefix of the range whose
  data fits the limit, so a first entry that is larger than the limit gives an empty result, where
  the storage interface of the consensus library asks for at least one entry.
\<close>

theorem entries_limit_longest_prefix:
  assumes "storage_entries s low high None = Inr es" "data_size es < 2 ^ 64"
  shows "\<exists>n \<le> length es. storage_entries s low high (Some limit) = Inr (take n es) \<and>
    data_size (take n es) \<le> unat limit \<and> (n < length es \<longrightarrow> unat limit < data_size (take (Suc n) es)) \<and>
    (es \<noteq> [] \<and> unat limit < length (le_data (hd es)) \<longrightarrow> n = 0)"
proof -
  let ?n = "fit_count limit 0 es"
  have "storage_entries s low high (Some limit) = Inr (take ?n es)"
    using assms(1) by (auto simp: storage_entries_def Let_def res_simps split: if_splits)
  moreover have "es \<noteq> [] \<and> unat limit < length (le_data (hd es)) \<longrightarrow> ?n = 0"
    using assms(2) by (cases es) (auto simp: word_less_nat_alt Let_def)
  ultimately show ?thesis
    using fit_count_spec [of 0 es limit] assms(2) by (intro exI [of _ ?n]) auto
qed

theorem entries_limit_longest_prefix_witness:
  "let e = \<lparr>le_index = 1, le_term = 3, le_type = NormalEntry, le_data = [1, 2, 3]\<rparr>;
       s = (reopened \<lparr>op_cluster_id = [], op_node_id = [], op_config = \<lparr>cf_fsync_policy = Always, cf_segment_bytes = 0\<rparr>,
         op_created_at_millis = 0\<rparr> \<lparr>m_cluster_id = [], m_node_id = [], m_format_version = 4, m_created_at = 0,
         m_snapshot_index = 0, m_snapshot_term = 0\<rparr> None None [] 1 0)\<lparr>wal_entries := [e]\<rparr>
   in storage_entries s 1 2 None = Inr [e] \<and> storage_entries s 1 2 (Some 2) = Inr []"
proof -
  define e where "e = \<lparr>le_index = 1, le_term = 3, le_type = NormalEntry, le_data = [1, 2, 3]\<rparr>"
  define s where "s = (reopened \<lparr>op_cluster_id = [], op_node_id = [], op_config = \<lparr>cf_fsync_policy = Always, cf_segment_bytes = 0\<rparr>,
         op_created_at_millis = 0\<rparr> \<lparr>m_cluster_id = [], m_node_id = [], m_format_version = 4, m_created_at = 0,
         m_snapshot_index = 0, m_snapshot_term = 0\<rparr> None None [] 1 0)\<lparr>wal_entries := [e]\<rparr>"
  have s: "wal_entries s = [e]" "compacted_to s = 0" by (simp_all add: s_def reopened_def Let_def)
  have "storage_entries s 1 2 None = Inr [e]"
    using storage_entries_eq [of s 1 2]
    by (simp add: aligned_def s last_index_def last_entry_index_def last_opt_def e_def)
  from entries_limit_longest_prefix [OF this, of 2] this
  have "storage_entries s 1 2 None = Inr [e] \<and> storage_entries s 1 2 (Some 2) = Inr []"
    by (auto simp: e_def)
  then show ?thesis unfolding Let_def s_def e_def .
qed

end
