(* ===== verification/WalCompact.thy ===== *)
theory WalCompact
  imports WalReads
begin

text \<open>
  Compaction and conflicting appends (\<open>compact\<close>, \<open>append\<close> of \<open>arachne/src/storage/wal.rs\<close>): what
  a compaction does to the log in memory, when the trailing window moves the watermark back, and
  what an append that overwrites a suffix does to a compacted log.
\<close>

subsection \<open>Operations that only touch files\<close>

definition keeps_wal :: "'a wal_op \<Rightarrow> bool" where
  "keeps_wal m \<longleftrightarrow> (\<forall>w. the_wal (fst (m w)) = the_wal w)"

named_theorems keeps \<open>operations that leave the open log as it is\<close>

lemma keeps_walD: "keeps_wal m \<Longrightarrow> m w = (w', r) \<Longrightarrow> the_wal w' = the_wal w"
  by (metis fst_conv keeps_wal_def)

lemma keeps_basic [keeps]:
  "keeps_wal (on_fs m err)" "keeps_wal (ret x)" "keeps_wal (throw e)" "keeps_wal (gets f)"
  by (auto simp: keeps_wal_def on_fs_def comp_defs split: prod.splits)

lemma keeps_seq [keeps]: "keeps_wal m \<Longrightarrow> (\<And>x. keeps_wal (f x)) \<Longrightarrow> keeps_wal (seq m f)"
  by (simp add: keeps_wal_def seq_def split: prod.splits sum.splits) (metis fst_conv)

lemma keeps_if [keeps]: "keeps_wal a \<Longrightarrow> keeps_wal b \<Longrightarrow> keeps_wal (if c then a else b)"
  by simp

lemma keeps_each [keeps]: "(\<And>x. keeps_wal (f x)) \<Longrightarrow> keeps_wal (each f xs)"
  by (induction xs) (auto intro: keeps)

lemma keeps_sum_sizes [keeps]: "keeps_wal (sum_sizes names acc)"
proof (induction names arbitrary: acc)
  case (Cons n ns)
  show ?case unfolding keeps_wal_def
  proof
    fix w
    obtain w1 r where r: "io (fs_len n) w = (w1, r)" by fastforce
    then have "the_wal w1 = the_wal w" using keeps_walD keeps_basic(1) by blast
    then show "the_wal (fst (sum_sizes (n # ns) acc w)) = the_wal w"
      using Cons by (simp add: r keeps_wal_def split: sum.split StorageError.split IoError.split)
  qed
qed (simp add: keeps)

lemma keeps_delete_segments_below [keeps]: "keeps_wal (delete_segments_below n)"
  unfolding delete_segments_below_def Let_def by (intro keeps)

lemma keeps_compact_windows [keeps]: "keeps_wal (compact_windows n idxs ws eff removed)"
  by (induction ws arbitrary: eff removed)
    (auto simp: retained_bytes_from_def intro!: keeps)

lemma keeps_find_holding [keeps]: "keeps_wal (find_holding keep idxs)"
proof (induction idxs)
  case (Cons i idxs)
  then show ?case by (auto intro!: keeps split: option.splits)
qed (simp add: keeps)

text \<open>The watermark the trailing-window loop reaches is its start value or just below a segment.\<close>

lemma compact_windows_effective:
  "compact_windows n idxs ws eff removed w = (w', Inr (eff', removed')) \<Longrightarrow>
   eff' = eff \<or> (\<exists>this. (this, eff' + 1) \<in> set ws \<and> eff' + 1 \<le> n + 1)"
proof (induction ws arbitrary: eff removed w)
  case (Cons p ws)
  obtain this nxt where p: "p = (this, nxt)" by fastforce
  have IH: "\<And>eff removed w. compact_windows n idxs ws eff removed w = (w', Inr (eff', removed')) \<Longrightarrow>
    eff' = eff \<or> (\<exists>this. (this, eff' + 1) \<in> set (p # ws) \<and> eff' + 1 \<le> n + 1)"
    using Cons.IH by (meson list.set_intros(2))
  consider "compact_windows n idxs (p # ws) eff removed w = (w', Inr (eff, removed))"
    | w1 e r where "compact_windows n idxs ws e r w1 = (w', Inr (eff', removed'))" "e = eff"
    | w1 r where "compact_windows n idxs ws (nxt - 1) r w1 = (w', Inr (eff', removed'))" "nxt \<le> n + 1"
    using Cons.prems by (auto simp: p run_Inr split: if_splits)
  then show ?case
  proof cases
    case 1
    then show ?thesis using Cons.prems by simp
  next
    case 2
    then show ?thesis using IH by blast
  next
    case 3
    then show ?thesis using IH [OF 3(1)] by (auto simp: p)
  qed
qed (simp add: comp_defs)

lemma windows2_set: "(a, b) \<in> set (windows2 xs) \<Longrightarrow> a \<in> set xs \<and> b \<in> set xs"
  by (induction xs rule: windows2.induct) auto

lemma list_segment_indices_run:
  "list_segment_indices fs = (fs', Inr idxs) \<Longrightarrow> idxs = segment_indices_of (map fst (fs_dir fs))"
  by (auto simp: list_segment_indices_def comp_defs fs_read_dir_def prim_def split: option.splits nat.splits)

text \<open>A successful or failed compaction, read off its guards.\<close>

definition compacted_at :: "LogIndex \<Rightarrow> WalStorage \<Rightarrow> WalStorage" where
  "compacted_at eff s = s\<lparr>wal_entries := filter (\<lambda>e. le_index e > eff) (wal_entries s), compacted_to := eff\<rparr>"

lemma wal_compact_effect:
  assumes "wal_compact n w = (w', Inr ())" "\<not> n \<le> compacted_to (the_wal w)"
  obtains eff sn where "the_wal w' = compacted_at eff (the_wal w)" "wal_snapshot (the_wal w) = Some sn"
    "n \<le> sm_index (sn_meta sn)" "\<not> last_index (the_wal w) < n"
    "trailing_keep_bytes (the_wal w) = 0 \<Longrightarrow> eff = n"
    "trailing_keep_bytes (the_wal w) \<noteq> 0 \<Longrightarrow> eff = compacted_to (the_wal w) \<or>
     (eff + 1 \<le> n + 1 \<and> eff + 1 \<in> set (segment_indices_of (map fst (fs_dir (the_fs w)))))"
proof -
  let ?s = "the_wal w"
  have last: "\<not> n > last_index ?s" using assms by (auto simp: wal_compact_def run_Inr split: if_splits)
  obtain sn where sn: "wal_snapshot ?s = Some sn" "n \<le> sm_index (sn_meta sn)"
    using assms by (auto simp: wal_compact_def run_Inr split: if_splits option.splits)
  show thesis
  proof (cases "trailing_keep_bytes ?s = 0")
    case True
    have "seq (delete_segments_below n) (\<lambda>_. set_wal (compacted_at n)) w = (w', Inr ())"
      using assms last sn True by (simp add: wal_compact_def run_Inr compacted_at_def [abs_def])
    then have "the_wal w' = compacted_at n ?s"
      using keeps_walD [OF keeps_delete_segments_below] by (auto simp: run_Inr)
    then show ?thesis using that sn last True by simp
  next
    case False
    obtain w1 w2 w3 idxs eff removed where r: "io list_segment_indices w = (w1, Inr idxs)"
      "compact_windows n idxs (windows2 idxs) (compacted_to ?s) False w1 = (w2, Inr (eff, removed))"
      "(if removed then io fsync_dir else ret ()) w2 = (w3, Inr ())"
      "w' = w3\<lparr>the_wal := compacted_at eff (the_wal w3)\<rparr>"
      using assms last sn False
      by (simp add: wal_compact_def seq_Inr simple_Inr compacted_at_def del: compact_windows.simps split: prod.splits)
        blast
    have "keeps_wal (if removed then io fsync_dir else ret ())" by (intro keeps)
    then have k: "the_wal w1 = ?s" "the_wal w2 = the_wal w1" "the_wal w3 = the_wal w2"
      using keeps_walD [OF keeps_basic(1) r(1)] keeps_walD [OF keeps_compact_windows r(2)] keeps_walD r(3)
      by blast+
    have "idxs = segment_indices_of (map fst (fs_dir (the_fs w)))"
      using r(1) by (auto simp: on_fs_Inr dest: list_segment_indices_run)
    then have "eff = compacted_to ?s \<or> eff + 1 \<le> n + 1 \<and> eff + 1 \<in> set (segment_indices_of (map fst (fs_dir (the_fs w))))"
      using compact_windows_effective [OF r(2)] windows2_set by fastforce
    then show ?thesis using that [of eff sn] k r(4) sn last False by (simp add: not_less)
  qed
qed

text \<open>Operations whose failure leaves the open log as it is.\<close>

definition fails_clean :: "'a wal_op \<Rightarrow> bool" where
  "fails_clean m \<longleftrightarrow> (\<forall>w w' e. m w = (w', Inl e) \<longrightarrow> the_wal w' = the_wal w)"

lemma fails_clean_seq: "keeps_wal m \<Longrightarrow> (\<And>x. fails_clean (f x)) \<Longrightarrow> fails_clean (seq m f)"
  by (simp add: fails_clean_def keeps_wal_def seq_def split: prod.splits sum.splits) (metis fst_conv)

lemma fails_clean_basic: "fails_clean (ret x)" "fails_clean (throw e)" "fails_clean (modify f)"
  by (auto simp: fails_clean_def comp_defs)

lemma fails_clean_compact: "fails_clean (wal_compact n)"
  unfolding wal_compact_def
  by (intro fails_clean_seq keeps) (auto intro!: fails_clean_seq fails_clean_basic keeps split: option.splits)

lemma aligned_compacted:
  assumes "aligned s" "compacted_to s \<le> eff"
  shows "aligned (compacted_at eff s)"
proof -
  let ?n = "Suc (unat (compacted_to s))"
  have "contig (?n + (Suc (unat eff) - ?n)) (drop (Suc (unat eff) - ?n) (wal_entries s))"
    using contig_drop assms(1) unfolding aligned_def .
  then show ?thesis
    using assms(2) contig_filter [of ?n "wal_entries s" eff] assms(1)
    by (simp add: aligned_def compacted_at_def word_le_nat_alt)
qed

subsection \<open>Appends that overwrite a suffix\<close>

lemma truncate_log_to_memory:
  assumes "truncate_log_to keep w = (w', Inr n)" "keep < last_entry_index (ents w) 0"
  shows "ents w' = take (unat keep) (ents w)" "compacted_to (the_wal w') = compacted_to (the_wal w)"
    "wal_hard_state (the_wal w') = wal_hard_state (the_wal w)"
proof -
  define body where "body = (\<lambda>(holding :: (LogIndex \<times> nat) option) idxs. case holding of
              Some (seg_first, offset) \<Rightarrow>
                seq (io (segment_open seg_first (segment_bytes (the_wal w)))) (\<lambda>seg.
                seq (io (segment_truncate_at seg offset)) (\<lambda>_.
                seq (io (segment_sync seg)) (\<lambda>_.
                seq (each (\<lambda>idx. io (remove_file (segment_path idx))) (filter (\<lambda>idx. idx > seg_first) idxs)) (\<lambda>_.
                seq (io fsync_dir) (\<lambda>_.
                  set_wal (\<lambda>s. s\<lparr>wal_segment := seg, segment_first_index := seg_first,
                    max_entry_in_segment := keep\<rparr>))))))
            | None \<Rightarrow>
                seq (each (\<lambda>idx. io (remove_file (segment_path idx))) idxs) (\<lambda>_.
                seq (io fsync_dir) (\<lambda>_.
                seq (io (segment_open 1 (segment_bytes (the_wal w)))) (\<lambda>seg.
                seq (set_wal (\<lambda>s. s\<lparr>wal_segment := seg, segment_first_index := 1,
                    max_entry_in_segment := 0\<rparr>)) (\<lambda>_.
                  io fsync_dir)))))"
  define same where "same = (\<lambda>a b. ents b = ents a \<and> compacted_to (the_wal b) = compacted_to (the_wal a) \<and>
    wal_hard_state (the_wal b) = wal_hard_state (the_wal a))"
  have eachk: "the_wal b = the_wal a" if "each (\<lambda>idx. io (remove_file (segment_path idx))) xs a = (b, r)" for xs a b r
    using keeps_walD [OF keeps_each that] keeps_basic(1) by blast
  have body: "same a b" if "body h idxs a = (b, Inr ())" for h idxs a b
    using that by (auto simp: body_def same_def run_Inr dest!: eachk split: option.splits prod.splits)
  obtain w1 w2 w3 idxs h where r: "io list_segment_indices w = (w1, Inr idxs)" "find_holding keep idxs w1 = (w2, Inr h)"
    "body h idxs w2 = (w3, Inr ())"
    "w' = w3\<lparr>the_wal := (the_wal w3)\<lparr>wal_entries := take (unat keep) (ents w3), pending_entry_fsync := False\<rparr>\<rparr>"
    using assms unfolding truncate_log_to_def Let_def body_def
    by (simp add: seq_Inr simple_Inr del: find_holding.simps split: if_splits) blast
  have "the_wal w2 = the_wal w"
    using keeps_walD [OF keeps_basic(1) r(1)] keeps_walD [OF keeps_find_holding r(2)] by simp
  then show "ents w' = take (unat keep) (ents w)" "compacted_to (the_wal w') = compacted_to (the_wal w)"
    "wal_hard_state (the_wal w') = wal_hard_state (the_wal w)"
    using body [OF r(3)] r(4) by (simp_all add: same_def)
qed

end
