(* ===== verification/WalTruncate.thy ===== *)
theory WalTruncate
  imports WalCompact WalRuns
begin

text \<open>
  \<open>truncate_log_to\<close> (\<open>arachne/src/storage/wal.rs\<close>) on the files: the segment that holds the last
  kept entry is cut behind it and the later segments are removed.  Every record behind the cut
  goes, the hard states among them included.
\<close>

subsection \<open>Removing segment files\<close>

definition drop_names :: "string set \<Rightarrow> Fs \<Rightarrow> Fs" where
  "drop_names ns fs = fs\<lparr>fs_dir := filter (\<lambda>(n, i). n \<notin> ns) (fs_dir fs)\<rparr>"

lemma AList_delete_filter: "AList.delete k d = filter (\<lambda>(n, i). n \<noteq> k) d"
  by (auto simp: AList.delete_eq intro!: filter_cong)

lemma map_of_drop: "map_of (filter (\<lambda>(n, i). n \<notin> ns) d) name = (if name \<in> ns then None else map_of d name)"
  by (induction d) auto

lemma contents_drop_names: "contents (drop_names ns fs) name = (if name \<in> ns then None else contents fs name)"
  by (simp add: contents_def drop_names_def map_of_drop)

lemma each_remove_run:
  assumes "fs_budget (the_fs w) = None" "distinct idxs"
    "\<forall>i \<in> set idxs. map_of (fs_dir (the_fs w)) (segment_path i) \<noteq> None"
  shows "each (\<lambda>idx. io (remove_file (segment_path idx))) idxs w =
    (w\<lparr>the_fs := (drop_names (segment_path ` set idxs) (the_fs w))
        \<lparr>fs_pending := fs_pending (the_fs w) @ map (\<lambda>i. DRemove (segment_path i)) idxs\<rparr>\<rparr>, Inr ())"
  using assms
proof (induction idxs arbitrary: w)
  case Nil
  then show ?case by (simp add: comp_defs drop_names_def)
next
  case (Cons i idxs)
  let ?w = "w\<lparr>the_fs := dir_op (DRemove (segment_path i)) (the_fs w)\<rparr>"
  obtain f where f: "map_of (fs_dir (the_fs w)) (segment_path i) = Some f" using Cons.prems(3) by auto
  have step: "io (remove_file (segment_path i)) w = (?w, Inr ())"
    using Cons.prems(1) f by (simp add: on_fs_def remove_file_def prim_def)
  have dir: "fs_dir (the_fs ?w) = filter (\<lambda>(n, j). n \<noteq> segment_path i) (fs_dir (the_fs w))"
    by (simp add: dir_op_def AList_delete_filter)
  have "each (\<lambda>idx. io (remove_file (segment_path idx))) idxs ?w =
    (?w\<lparr>the_fs := (drop_names (segment_path ` set idxs) (the_fs ?w))
        \<lparr>fs_pending := fs_pending (the_fs ?w) @ map (\<lambda>i. DRemove (segment_path i)) idxs\<rparr>\<rparr>, Inr ())"
  proof (rule Cons.IH)
    show "\<forall>j \<in> set idxs. map_of (fs_dir (the_fs ?w)) (segment_path j) \<noteq> None"
      using Cons.prems(2,3) map_of_drop [of "{segment_path i}" "fs_dir (the_fs w)"] unfolding dir by auto
  qed (use Cons.prems in \<open>auto simp: dir_op_def\<close>)
  moreover have "(drop_names (segment_path ` set idxs) (the_fs ?w))
        \<lparr>fs_pending := fs_pending (the_fs ?w) @ map (\<lambda>i. DRemove (segment_path i)) idxs\<rparr> =
     (drop_names (segment_path ` set (i # idxs)) (the_fs w))
        \<lparr>fs_pending := fs_pending (the_fs w) @ map (\<lambda>i. DRemove (segment_path i)) (i # idxs)\<rparr>"
    by (simp add: drop_names_def dir_op_def AList_delete_filter case_prod_unfold)
  ultimately show ?case using step by (simp add: seq_def)
qed

text \<open>Only one name of the directory stands for a segment.\<close>

lemma map_filter_unique:
  "distinct (List.map_filter g xs) \<Longrightarrow> x \<in> set xs \<Longrightarrow> y \<in> set xs \<Longrightarrow> g x = Some i \<Longrightarrow> g y = Some i \<Longrightarrow> x = y"
  by (induction xs) (force simp: map_filter_simps map_filter_def split: option.splits if_splits)+

lemma segment_indices_drop:
  assumes "distinct (segment_indices_of names)" "\<forall>i \<in> P. segment_path i \<in> set names"
  shows "segment_indices_of (filter (\<lambda>n. n \<notin> segment_path ` P) names) =
    filter (\<lambda>i. i \<notin> P) (segment_indices_of names)"
proof -
  let ?g = "\<lambda>n. case parse_segment_name n of Inr i \<Rightarrow> Some i | Inl _ \<Rightarrow> None"
  have d: "distinct (List.map_filter ?g names)" using assms(1) by (simp add: segment_indices_of_def)
  have eq: "n \<in> segment_path ` P \<longleftrightarrow> i \<in> P" if "n \<in> set names" "?g n = Some i" for n i
  proof
    assume "i \<in> P"
    then show "n \<in> segment_path ` P"
      using map_filter_unique [OF d that(1) _ that(2)] assms(2) by (auto simp: segment_path_def)
  qed (use that in \<open>auto simp: segment_path_def\<close>)
  have "List.map_filter ?g (filter (\<lambda>n. n \<notin> segment_path ` P) ns) = filter (\<lambda>i. i \<notin> P) (List.map_filter ?g ns)"
    if "set ns \<subseteq> set names" for ns
    using that by (induction ns) (auto simp: map_filter_simps eq split: option.splits)
  then show ?thesis
    by (simp add: segment_indices_of_def filter_sort)
qed

subsection \<open>The search through the segments\<close>

lemma find_holding_run:
  assumes "fs_budget (the_fs w) = None"
    "\<forall>(j, rs) \<in> set (pre @ [(i, rs1 @ REntry e # rs2)]).
       contents (the_fs w) (segment_path j) = Some (enc_all rs) \<and> (\<forall>r \<in> set rs. rec_ok r)"
    "le_index e = keep" "keep \<notin> le_index ` set (entries_of (recs_of pre @ rs1))"
  shows "find_holding keep (map fst pre @ i # idxs) w = (w, Inr (Some (i, length (enc_all (rs1 @ [REntry e])))))"
  using assms
proof (induction pre)
  case Nil
  then have "find_entry_end keep 0 (enc_all (rs1 @ REntry e # rs2)) = Some (length (enc_all (rs1 @ [REntry e])))"
    by (intro find_entry_end_present) (auto simp: recs_of_def)
  with Nil show ?case
    by (simp add: comp_defs on_fs_def fs_read_def prim_def recs_of_def del: enc.simps)
next
  case (Cons p pre)
  obtain j rs where p: "p = (j, rs)" by fastforce
  have "find_entry_end keep 0 (enc_all rs @ []) = find_entry_end keep (0 + length (enc_all rs)) []"
    using Cons.prems by (intro find_entry_end_absent) (auto simp: p recs_of_def)
  then have none: "find_entry_end keep 0 (enc_all rs) = None" by simp
  have "find_holding keep (map fst pre @ i # idxs) w = (w, Inr (Some (i, length (enc_all (rs1 @ [REntry e])))))"
    using Cons.prems by (intro Cons.IH) (auto simp: p recs_of_def simp del: enc.simps)
  moreover have "contents (the_fs w) (segment_path j) = Some (enc_all rs)" using Cons.prems(2) by (auto simp: p)
  ultimately show ?case using Cons.prems(1) none
    by (simp add: p comp_defs on_fs_def fs_read_def prim_def del: enc.simps)
qed

definition cut_fs :: "fd \<Rightarrow> nat \<Rightarrow> string set \<Rightarrow> Fs \<Rightarrow> Fs" where
  "cut_fs f n ns fs =
     (let g = drop_names ns (sync_fd f (upd_inode f (\<lambda>x. x\<lparr>f_data := take n (f_data x), f_low := min (f_low x) n\<rparr>) fs))
      in g\<lparr>fs_dsynced := fs_dir g, fs_pending := []\<rparr>)"

lemma cut_fs_simps [simp]:
  "fs_dir (cut_fs f n ns fs) = filter (\<lambda>(n, i). n \<notin> ns) (fs_dir fs)"
  "fs_budget (cut_fs f n ns fs) = fs_budget fs"
  by (simp_all add: cut_fs_def Let_def drop_names_def sync_fd_def)

lemma contents_cut_fs:
  assumes "dir_wf fs" "map_of (fs_dir fs) p = Some f" "p \<notin> ns"
  shows "contents (cut_fs f n ns fs) name =
    (if name \<in> ns then None else if name = p then map_option (take n) (contents fs p) else contents fs name)"
proof -
  let ?g = "upd_inode f (\<lambda>x. x\<lparr>f_data := take n (f_data x), f_low := min (f_low x) n\<rparr>) fs"
  have "contents (cut_fs f n ns fs) = contents (drop_names ns (sync_fd f ?g))"
    by (simp add: cut_fs_def Let_def contents_def fun_eq_iff)
  moreover have "contents (sync_fd f ?g) m = contents ?g m" for m
    using contents_upd [of ?g p f] assms(1,2) by (auto simp: sync_fd_def contents_fd)
  ultimately show ?thesis
    using contents_upd [OF assms(1,2)] contents_fd [OF assms(2)] assms(3)
    by (auto simp: contents_drop_names)
qed

lemma dir_wf_cut_fs: "dir_wf fs \<Longrightarrow> dir_wf (cut_fs f n ns fs)"
  by (auto simp: dir_wf_def cut_fs_def Let_def drop_names_def sync_fd_def distinct_map inj_on_def)

lemma disk_log_cut:
  assumes "disk_log fs (pre @ (i, rs1 @ rs2) # post)" "dir_wf fs" "map_of (fs_dir fs) (segment_path i) = Some f"
  shows "disk_log (cut_fs f (length (enc_all rs1)) (segment_path ` set (map fst post)) fs) (pre @ [(i, rs1)])"
proof -
  let ?P = "set (map fst post)"
  have d: "segment_indices_of (map fst (fs_dir fs)) = map fst pre @ i # map fst post"
    "distinct (map fst pre @ i # map fst post)"
    "\<forall>(j, rs) \<in> set (pre @ (i, rs1 @ rs2) # post). contents fs (segment_path j) = Some (enc_all rs) \<and> (\<forall>r \<in> set rs. rec_ok r)"
    using assms(1) by (auto simp: disk_log_def)
  have "segment_path j \<in> set (map fst (fs_dir fs))" if j: "j \<in> ?P" for j
  proof -
    obtain rs where "(j, rs) \<in> set post" using j by fastforce
    then have "(j, rs) \<in> set (pre @ (i, rs1 @ rs2) # post)" by simp
    then have "contents fs (segment_path j) \<noteq> None" using d(3) by blast
    then show ?thesis by (auto simp: contents_def) (metis fst_conv image_eqI map_of_SomeD)
  qed
  then have "segment_indices_of (filter (\<lambda>n. n \<notin> segment_path ` ?P) (map fst (fs_dir fs))) =
      filter (\<lambda>j. j \<notin> ?P) (map fst pre @ i # map fst post)"
    using segment_indices_drop [of "map fst (fs_dir fs)" ?P] d(1,2) by simp
  also have "\<dots> = map fst pre @ [i]" using d(2) by (simp add: filter_empty_conv filter_id_conv) blast
  finally have idx: "segment_indices_of (map fst (filter (\<lambda>(n, i). n \<notin> segment_path ` ?P) (fs_dir fs))) = map fst pre @ [i]"
    by (simp add: filter_map comp_def case_prod_unfold)
  have i: "segment_path i \<notin> segment_path ` ?P" using d(2) by (simp add: inj_image_mem_iff inj_def)
  have pre: "j \<noteq> i" "segment_path j \<notin> segment_path ` ?P" if "(j, rs) \<in> set pre" for j rs
    using d(2) that by force+
  have ok: "contents fs (segment_path i) = Some (enc_all rs1 @ enc_all rs2)" "\<forall>r \<in> set rs1. rec_ok r"
    "\<And>j rs. (j, rs) \<in> set pre \<Longrightarrow> contents fs (segment_path j) = Some (enc_all rs) \<and> (\<forall>r \<in> set rs. rec_ok r)"
    using d(3) by force+
  show ?thesis
    unfolding disk_log_def cut_fs_simps idx
    using d(2) i pre ok contents_cut_fs [OF assms(2,3) i] by auto
qed

subsection \<open>The whole operation\<close>

lemma disk_log_present:
  "disk_log fs segs \<Longrightarrow> (j, rs) \<in> set segs \<Longrightarrow> map_of (fs_dir fs) (segment_path j) \<noteq> None"
  by (fastforce simp: disk_log_def contents_def)

definition truncated_wal :: "WalStorage \<Rightarrow> LogIndex \<Rightarrow> fd \<Rightarrow> LogIndex \<Rightarrow> WalStorage" where
  "truncated_wal s i f keep = s\<lparr>wal_segment := \<lparr>seg_fd = f, seg_max_bytes = segment_bytes s\<rparr>,
     segment_first_index := i, max_entry_in_segment := keep,
     wal_entries := take (unat keep) (wal_entries s), pending_entry_fsync := False\<rparr>"

lemma truncate_log_to_run:
  assumes log: "disk_log (the_fs w) (pre @ (i, rs1 @ REntry e # rs2) # post)" and wf: "dir_wf (the_fs w)"
    and b: "fs_budget (the_fs w) = None" and f: "map_of (fs_dir (the_fs w)) (segment_path i) = Some f"
    and keep: "le_index e = keep" "keep \<notin> le_index ` set (entries_of (recs_of pre @ rs1))"
    and last: "keep < last_entry_index (ents w) 0"
    and idx: "\<forall>j \<in> set (map fst pre). j < i" "\<forall>j \<in> set (map fst post). i < j"
  shows "truncate_log_to keep w =
    (\<lparr>the_fs = cut_fs f (length (enc_all (rs1 @ [REntry e]))) (segment_path ` set (map fst post)) (the_fs w),
      the_wal = truncated_wal (the_wal w) i f keep\<rparr>, Inr (last_entry_index (ents w) 0 - keep))"
proof -
  let ?n = "length (enc_all (rs1 @ [REntry e]))" and ?idxs = "map fst pre @ i # map fst post"
  let ?fs1 = "sync_fd f (upd_inode f (\<lambda>x. x\<lparr>f_data := take ?n (f_data x), f_low := min (f_low x) ?n\<rparr>) (the_fs w))"
  let ?seg = "\<lparr>seg_fd = f, seg_max_bytes = segment_bytes (the_wal w)\<rparr>"
  have d: "segment_indices_of (map fst (fs_dir (the_fs w))) = ?idxs" "distinct ?idxs"
    "contents (the_fs w) (segment_path i) = Some (enc_all (rs1 @ REntry e # rs2))"
    and recs: "\<forall>(j, rs) \<in> set (pre @ (i, rs1 @ REntry e # rs2) # post).
       contents (the_fs w) (segment_path j) = Some (enc_all rs) \<and> (\<forall>r \<in> set rs. rec_ok r)"
    using log by (auto simp: disk_log_def simp del: enc.simps)
  have list: "io list_segment_indices w = (w, Inr ?idxs)"
    using b d(1) by (simp add: on_fs_def list_segment_indices_def comp_defs fs_read_dir_def prim_def)
  have find: "find_holding keep ?idxs w = (w, Inr (Some (i, ?n)))"
    using recs by (intro find_holding_run [OF b _ keep]) auto
  have "?n \<le> length (f_data (fs_inodes (the_fs w) ! f))"
    using d(3) contents_fd [OF f] by (simp del: enc.simps)
  then have cut: "io (segment_truncate_at ?seg ?n) w =
      (w\<lparr>the_fs := upd_inode f (\<lambda>x. x\<lparr>f_data := take ?n (f_data x), f_low := min (f_low x) ?n\<rparr>) (the_fs w)\<rparr>, Inr ())"
    using b by (simp add: on_fs_def segment_truncate_at_def set_len_def prim_def modify_def upd_inode_def del: enc.simps)
  have op: "io (segment_open i (segment_bytes (the_wal w))) w = (w, Inr ?seg)"
    using b f by (simp add: on_fs_def segment_open_def open_append_def prim_def comp_defs)
  have gt: "filter (\<lambda>j. i < j) ?idxs = map fst post"
    using idx by (auto simp: filter_empty_conv filter_id_conv)
  let ?w1 = "w\<lparr>the_fs := ?fs1\<rparr>"
  have rem: "each (\<lambda>idx. io (remove_file (segment_path idx))) (map fst post) ?w1 =
    (?w1\<lparr>the_fs := (drop_names (segment_path ` set (map fst post)) ?fs1)
        \<lparr>fs_pending := fs_pending ?fs1 @ map (\<lambda>i. DRemove (segment_path i)) (map fst post)\<rparr>\<rparr>, Inr ())"
    using each_remove_run [of ?w1 "map fst post"] b d(2) disk_log_present [OF log]
    by (fastforce simp: sync_fd_def)
  have sync: "io (segment_sync ?seg) (w\<lparr>the_fs := upd_inode f g (the_fs w)\<rparr>) =
      (w\<lparr>the_fs := sync_fd f (upd_inode f g (the_fs w))\<rparr>, Inr ())" for g
    using b by (simp add: on_fs_def segment_sync_def sync_all_def prim_def modify_def sync_fd_def)
  have dsync: "io fsync_dir (w\<lparr>the_fs := fs\<rparr>) = (w\<lparr>the_fs := fs\<lparr>fs_dsynced := fs_dir fs, fs_pending := []\<rparr>\<rparr>, Inr ())"
    if "fs_budget fs = None" for fs
    using that by (simp add: on_fs_def fsync_dir_def prim_def modify_def)
  have b1: "fs_budget (drop_names ns ?fs1) = None" for ns using b by (simp add: drop_names_def sync_fd_def)
  show ?thesis
    using last [unfolded not_le [symmetric]] list find op cut gt rem b1
    by (simp add: truncate_log_to_def Let_def seq_def ret_def gets_def modify_def sync dsync
        truncated_wal_def cut_fs_def del: enc.simps find_holding.simps map_append filter_append)
qed

text \<open>The record of an entry splits the segments.\<close>

lemma entries_split: "e \<in> set (entries_of rs) \<Longrightarrow> \<exists>rs1 rs2. rs = rs1 @ REntry e # rs2"
proof (induction rs rule: entries_of.induct)
  case (2 e' rs)
  then show ?case by (metis append_Cons append_Nil entries_of.simps(2) set_ConsD)
next
  case (3 h rs)
  then show ?case by (metis append_Cons entries_of.simps(3))
qed simp

lemma segs_split:
  "e \<in> set (entries_of (recs_of segs)) \<Longrightarrow> \<exists>pre i rs1 rs2 post. segs = pre @ (i, rs1 @ REntry e # rs2) # post"
proof (induction segs)
  case (Cons p segs)
  then consider "e \<in> set (entries_of (snd p))" | "e \<in> set (entries_of (recs_of segs))" by (auto simp: recs_of_def)
  then show ?case
  proof cases
    case 1
    then obtain rs1 rs2 where "snd p = rs1 @ REntry e # rs2" using entries_split by blast
    then have "p # segs = [] @ (fst p, rs1 @ REntry e # rs2) # segs" by (metis append_Nil prod.collapse)
    then show ?thesis by blast
  next
    case 2
    then obtain pre i rs1 rs2 post where "segs = pre @ (i, rs1 @ REntry e # rs2) # post" using Cons.IH by blast
    then have "p # segs = (p # pre) @ (i, rs1 @ REntry e # rs2) # post" by simp
    then show ?thesis by blast
  qed
qed (simp add: recs_of_def)

lemma contig_before: "contig n (xs @ e # ys) \<Longrightarrow> le_index e \<notin> le_index ` set xs"
  by (induction xs arbitrary: n) (fastforce dest: contig_index [where k = "length xs" for xs])+

lemma segment_indices_sorted: "sorted (segment_indices_of names)"
  by (simp add: segment_indices_of_def)

lemma disk_log_order:
  assumes "disk_log fs (pre @ (i, rs) # post)"
  shows "\<forall>j \<in> set (map fst pre). j < i" "\<forall>j \<in> set (map fst post). i < j"
proof -
  have "sorted (map fst pre @ i # map fst post)" "distinct (map fst pre @ i # map fst post)"
    using assms segment_indices_sorted [of "map fst (fs_dir fs)"] by (auto simp: disk_log_def)
  then have "sorted_wrt (<) (map fst pre @ i # map fst post)" by (simp add: strict_sorted_iff)
  then show "\<forall>j \<in> set (map fst pre). j < i" "\<forall>j \<in> set (map fst post). i < j"
    by (simp_all add: sorted_wrt_append)
qed

lemma truncation_effect:
  assumes inv: "log_inv w segs" and b: "fs_budget (the_fs w) = None"
    and keep: "compacted_to (the_wal w) < keep" "keep < last_index (the_wal w)"
  obtains w' segs' rs e rest where "truncate_log_to keep w = (w', Inr (last_index (the_wal w) - keep))"
    "recs_of segs = rs @ REntry e # rest" "le_index e = keep" "disk_log (the_fs w') segs'"
    "recs_of segs' = rs @ [REntry e]" "ents w' = take (unat keep) (ents w)" "hard w' = hard w" "fs_budget (the_fs w') = None"
    "compacted_to (the_wal w') = compacted_to (the_wal w)"
proof -
  let ?s = "the_wal w"
  have mem: "log_mem ?s (recs_of segs)" and wf: "dir_wf (the_fs w)" and log: "disk_log (the_fs w) segs"
    using inv by (auto simp: log_inv_def disk_inv_def)
  have a: "aligned ?s" using log_mem_aligned [OF mem] .
  let ?k = "unat keep - Suc (unat (compacted_to ?s))"
  have k: "?k < length (ents w)" using keep aligned_last [OF a] by (simp add: word_less_nat_alt)
  then have ne: "ents w \<noteq> []" by auto
  have i: "le_index (ents w ! ?k) = keep"
    using contig_index [OF a [unfolded aligned_def] k] keep(1) by (simp add: word_less_nat_alt word_unat_eq_iff)
  have "ents w ! ?k \<in> set (ents w)" using nth_mem [OF k] .
  then have "ents w ! ?k \<in> set (entries_of (recs_of segs))" using mem by (auto simp: log_mem_def)
  from segs_split [OF this] obtain pre j rs1 rs2 post where segs: "segs = pre @ (j, rs1 @ REntry (ents w ! ?k) # rs2) # post"
    by blast
  let ?e = "ents w ! ?k"
  have recs: "recs_of segs = (recs_of pre @ rs1) @ REntry ?e # (rs2 @ recs_of post)" by (simp add: segs recs_of_def)
  have "entries_of (recs_of segs) \<noteq> []" by (simp add: recs)
  then obtain n where "contig n (entries_of (recs_of segs))" using mem by (auto simp: log_mem_def log_shape_def)
  then have fresh: "keep \<notin> le_index ` set (entries_of (recs_of pre @ rs1))"
    using contig_before [of n "entries_of (recs_of pre @ rs1)" ?e "entries_of (rs2 @ recs_of post)"]
    unfolding recs entries_of_append [of _ "REntry ?e # _"] entries_of.simps i by blast
  obtain f where f: "map_of (fs_dir (the_fs w)) (segment_path j) = Some f"
    using disk_log_present [OF log, of j] segs by auto
  have last: "last_entry_index (ents w) 0 = last_index ?s"
    using ne by (simp add: last_index_def last_entry_index_def last_opt_def)
  note log' = log [unfolded segs]
  note run = truncate_log_to_run [OF log' wf b f i fresh _ disk_log_order [OF log']]
  have "disk_log (cut_fs f (length (enc_all (rs1 @ [REntry ?e]))) (segment_path ` set (map fst post)) (the_fs w))
      (pre @ [(j, rs1 @ [REntry ?e])])"
    using disk_log_cut [of "the_fs w" pre j "rs1 @ [REntry ?e]" rs2 post f] log' wf f by (simp del: enc.simps)
  moreover have "recs_of (pre @ [(j, rs1 @ [REntry ?e])]) = (recs_of pre @ rs1) @ [REntry ?e]" by (simp add: recs_of_def)
  ultimately show thesis
    using that [OF _ recs i] run keep(2) b unfolding last by (simp add: truncated_wal_def)
qed

lemma contig_less: "contig n es \<Longrightarrow> x \<in> set es \<Longrightarrow> n \<le> unat (le_index x) \<and> unat (le_index x) < n + length es"
  by (induction es arbitrary: n) fastforce+

lemma contig_prefix:
  assumes "contig 1 (xs @ e # ys)"
  shows "take (unat (le_index e)) (xs @ e # ys) = xs @ [e]" "filter (\<lambda>x. le_index x \<le> le_index e) (xs @ e # ys) = xs @ [e]"
proof -
  have c: "contig 1 xs" "unat (le_index e) = 1 + length xs" "contig (2 + length xs) ys" using assms by auto
  show "take (unat (le_index e)) (xs @ e # ys) = xs @ [e]" using c(2) by simp
  have "le_index x \<le> le_index e" if "x \<in> set xs" for x
    using contig_less [OF c(1) that] c(2) by (simp add: word_le_nat_alt)
  moreover have "\<not> le_index x \<le> le_index e" if "x \<in> set ys" for x
    using contig_less [OF c(3) that] c(2) by (simp add: word_le_nat_alt)
  ultimately show "filter (\<lambda>x. le_index x \<le> le_index e) (xs @ e # ys) = xs @ [e]"
    by (simp add: filter_empty_conv filter_id_conv)
qed

text \<open>A store with one segment that holds given records, compacted up to a given index.\<close>

definition sample_opts :: WalOptions where
  "sample_opts = \<lparr>op_cluster_id = [99], op_node_id = [110],
     op_config = \<lparr>cf_fsync_policy = Always, cf_segment_bytes = 1048576\<rparr>, op_created_at_millis = 7\<rparr>"

definition sample_world :: "LogIndex \<Rightarrow> LogRec list \<Rightarrow> World" where
  "sample_world c rs =
     \<lparr>the_fs = (new_fs sample_opts)\<lparr>fs_inodes := (fs_inodes (new_fs sample_opts))
        [2 := \<lparr>f_data = enc_all rs, f_synced = enc_all rs, f_low = length (enc_all rs)\<rparr>]\<rparr>,
      the_wal = compacted_at c (reopened sample_opts (new_meta sample_opts) None None rs 1 2)\<rparr>"

lemma sample_simps [simp]:
  "compacted_to (the_wal (sample_world c rs)) = c" "segment_first_index (the_wal (sample_world c rs)) = 1"
  "seg_fd (wal_segment (the_wal (sample_world c rs))) = 2" "hard (sample_world c rs) = hard_of hs_default rs"
  "fs_budget (the_fs (sample_world c rs)) = None"
  by (simp_all add: sample_world_def reopened_def Let_def compacted_at_def new_fs_def)

lemma sample_inv:
  assumes "\<forall>r \<in> set rs. rec_ok r" "contig 1 (entries_of rs)" "unat c \<le> length (entries_of rs)"
    "unat (hs_commit (hard_of hs_default rs)) \<le> length (entries_of rs)"
  shows "log_inv (sample_world c rs) [(1, rs)]" "ents (sample_world c rs) = drop (unat c) (entries_of rs)"
    "unat (last_index (the_wal (sample_world c rs))) = length (entries_of rs)"
proof -
  let ?s = "the_wal (sample_world c rs)"
  have "0 < le_index e" if "e \<in> set (entries_of rs)" for e
    using contig_less [OF assms(2) that] by (simp add: word_less_nat_alt)
  then have f: "filter (\<lambda>e. c < le_index e) (filter (\<lambda>e. 0 < le_index e) (entries_of rs)) = drop (unat c) (entries_of rs)"
    using contig_filter [OF assms(2), of c] by (simp add: filter_True cong: filter_cong)
  then show e: "ents (sample_world c rs) = drop (unat c) (entries_of rs)"
    by (simp add: sample_world_def reopened_def Let_def compacted_at_def del: filter_filter)
  then have a: "aligned ?s" using contig_drop [OF assms(2), of "unat c"] by (simp add: aligned_def)
  show l: "unat (last_index ?s) = length (entries_of rs)" using aligned_last [OF a] assms(3) e by simp
  have "log_shape c (entries_of rs)" using assms(2,3) by (auto simp: log_shape_def intro!: exI [of _ 1])
  then have "log_mem ?s rs"
    using e l assms(4) contig_filter [OF assms(2), of c] by (simp add: log_mem_def word_le_nat_alt)
  moreover have "disk_inv (the_fs (sample_world c rs)) [(1, rs)] 1 2" "all_clean (the_fs (sample_world c rs))"
    using assms(1) by (auto simp: sample_world_def disk_inv_def dir_wf_def disk_log_def segment_indices_new new_fs_def Let_def
      contents_def clean_def all_clean_def)
  ultimately show "log_inv (sample_world c rs) [(1, rs)]"
    by (simp add: log_inv_def recs_of_def)
qed

text \<open>The size of the files that a compaction would keep.\<close>

lemma sum_sizes_run:
  assumes "fs_budget (the_fs w) = None"
    "\<forall>(j, rs) \<in> set segs. contents (the_fs w) (segment_path j) = Some (enc_all rs)"
  shows "sum_sizes (map segment_path (map fst segs)) acc w =
    (w, Inr (acc + sum_list (map (\<lambda>(j, rs). length (enc_all rs)) segs)))"
  using assms(2)
proof (induction segs arbitrary: acc)
  case (Cons p segs)
  obtain j rs where p: "p = (j, rs)" by fastforce
  have "io (fs_len (segment_path j)) w = (w, Inr (length (enc_all rs)))"
    using assms(1) Cons.prems by (simp add: p on_fs_def fs_len_def prim_def)
  then show ?case using Cons by (simp add: p add.assoc)
qed (simp add: comp_defs)

lemma remove_first_run:
  assumes "fs_budget (the_fs w) = None" "map_of (fs_dir (the_fs w)) (segment_path a) = Some f"
  shows "io (remove_file (segment_path a)) w =
    (w\<lparr>the_fs := (drop_names {segment_path a} (the_fs w))\<lparr>fs_pending := fs_pending (the_fs w) @ [DRemove (segment_path a)]\<rparr>\<rparr>, Inr ())"
  using assms by (simp add: on_fs_def remove_file_def prim_def dir_op_def AList_delete_filter drop_names_def)

abbreviation segs_size :: "segs \<Rightarrow> nat" where
  "segs_size segs \<equiv> sum_list (map (\<lambda>(j, rs). length (enc_all rs)) segs)"

lemma retained_run:
  assumes "fs_budget (the_fs w) = None" "\<forall>(j, rs) \<in> set post. contents (the_fs w) (segment_path j) = Some (enc_all rs)"
    "\<forall>j \<in> set idxs. j < b" "\<forall>j \<in> set (map fst post). b \<le> j"
  shows "retained_bytes_from (idxs @ map fst post) b w = (w, Inr (segs_size post))"
proof -
  have "filter (\<lambda>j. b \<le> j) (idxs @ map fst post) = map fst post"
    using assms(3,4) by (auto simp: filter_empty_conv filter_id_conv not_le)
  then show ?thesis using sum_sizes_run [OF assms(1,2), of 0] by (simp add: retained_bytes_from_def)
qed

lemma compact_windows_step_back:
  assumes log: "disk_log (the_fs w) ((a, rs1) # (b, rs2) # (c, rs3) # post)" and bud: "fs_budget (the_fs w) = None"
    and act: "segment_first_index (the_wal w) \<notin> {a, b}" and n: "b \<le> n + 1"
    and keep: "unat (trailing_keep_bytes (the_wal w)) \<le> segs_size ((b, rs2) # (c, rs3) # post)"
      "segs_size ((c, rs3) # post) < unat (trailing_keep_bytes (the_wal w))"
  shows "\<exists>fs'. io list_segment_indices w = (w, Inr (a # b # c # map fst post)) \<and> fs_budget fs' = None \<and>
    compact_windows n (a # b # c # map fst post) (windows2 (a # b # c # map fst post)) eff removed w =
      (w\<lparr>the_fs := fs'\<rparr>, Inr (b - 1, True))"
proof -
  let ?tail = "(b, rs2) # (c, rs3) # post" and ?idxs = "a # b # c # map fst post"
  have d: "segment_indices_of (map fst (fs_dir (the_fs w))) = ?idxs" "distinct ?idxs"
    and recs: "\<forall>(j, rs) \<in> set ?tail. contents (the_fs w) (segment_path j) = Some (enc_all rs)"
    using log by (auto simp: disk_log_def)
  have ord: "a < b" "b < c" "\<forall>j \<in> set (map fst post). c < j"
    using disk_log_order [of "the_fs w" "[]" a rs1 ?tail] disk_log_order [of "the_fs w" "[(a, rs1)]" b rs2 "(c, rs3) # post"]
      disk_log_order [of "the_fs w" "[(a, rs1), (b, rs2)]" c rs3 post] log by auto
  obtain f where f: "map_of (fs_dir (the_fs w)) (segment_path a) = Some f" using disk_log_present [OF log] by fastforce
  define fs' where "fs' = (drop_names {segment_path a} (the_fs w))\<lparr>fs_pending := fs_pending (the_fs w) @ [DRemove (segment_path a)]\<rparr>"
  have b': "fs_budget fs' = None" using bud by (simp add: fs'_def drop_names_def)
  have list: "io list_segment_indices w = (w, Inr ?idxs)"
    using bud d(1) by (simp add: on_fs_def list_segment_indices_def comp_defs fs_read_dir_def prim_def)
  have post: "b \<le> j" "c \<le> j" "b < j" if "j \<in> set (map fst post)" for j using ord that by fastforce+
  have "\<forall>j \<in> set [a]. j < b" "\<forall>j \<in> set (map fst ?tail). b \<le> j" using ord post(1) by auto
  from retained_run [OF bud recs this] have r1: "retained_bytes_from ?idxs b w = (w, Inr (segs_size ?tail))" by simp
  have "contents fs' = contents (drop_names {segment_path a} (the_fs w))"
    by (simp add: contents_def fun_eq_iff fs'_def)
  moreover have "contents (drop_names {segment_path a} (the_fs w)) (segment_path j) = Some (enc_all rs)"
    if j: "(j, rs) \<in> set ((c, rs3) # post)" for j rs
  proof -
    have "j \<in> fst ` set ((c, rs3) # post)" using j by (metis fst_conv image_eqI)
    then have "segment_path a \<noteq> segment_path j" using d(2) by auto
    moreover have "(j, rs) \<in> set ?tail" using j by simp
    then have "contents (the_fs w) (segment_path j) = Some (enc_all rs)" using recs by blast
    ultimately show ?thesis by (simp add: contents_drop_names)
  qed
  ultimately have recs': "\<forall>(j, rs) \<in> set ((c, rs3) # post). contents (the_fs (w\<lparr>the_fs := fs'\<rparr>)) (segment_path j) = Some (enc_all rs)"
    by (auto simp del: list.set(2))
  have "\<forall>j \<in> set [a, b]. j < c" "\<forall>j \<in> set (map fst ((c, rs3) # post)). c \<le> j" using ord post(2) by auto
  from retained_run [OF _ recs' this]
  have r2: "retained_bytes_from ?idxs c (w\<lparr>the_fs := fs'\<rparr>) = (w\<lparr>the_fs := fs'\<rparr>, Inr (segs_size ((c, rs3) # post)))"
    using b' by simp
  have rm: "io (remove_file (segment_path a)) w = (w\<lparr>the_fs := fs'\<rparr>, Inr ())"
    using remove_first_run [OF bud f] by (simp add: fs'_def)
  have neq: "a \<noteq> segment_first_index (the_wal w)" "b \<noteq> segment_first_index (the_wal w)" using act by auto
  have "compact_windows n ?idxs (windows2 ?idxs) eff removed w = (w\<lparr>the_fs := fs'\<rparr>, Inr (b - 1, True))"
    using neq n [unfolded not_less [symmetric]] keep r1 r2 rm by (simp add: comp_defs)
  then show ?thesis using list b' by blast
qed

lemma contig_filter_upto: "contig n es \<Longrightarrow> filter (\<lambda>x. le_index x \<le> keep) es = take (Suc (unat keep) - n) es"
proof (induction es arbitrary: n)
  case (Cons e es)
  have "le_index e \<le> keep \<longleftrightarrow> n \<le> unat keep" using Cons.prems by (auto simp: word_le_nat_alt)
  then show ?case using Cons by (cases "Suc (unat keep) - n") (auto simp: Suc_diff_le)
qed simp

subsection \<open>Properties\<close>

text \<open>
  C24: truncation.  Where no I/O operation fails and the entry \<open>keep\<close> lies above the watermark and below
  the last index, \<open>truncate_log_to\<close> drops from the segments exactly the records behind the entry
  \<open>keep\<close>.  The hard states are records too: what \<open>recover_wal\<close> finds afterwards is the last hard state
  written before the entry \<open>keep\<close>, while memory still has the newest one.  Memory keeps exactly the
  entries up to \<open>keep\<close> if the log was never compacted, and more than those if it was.
\<close>

theorem truncation_keeps_prefix:
  assumes "log_inv w segs" "fs_budget (the_fs w) = None"
    "compacted_to (the_wal w) < keep" "keep < last_index (the_wal w)"
  shows "\<exists>w' rs e rest. truncate_log_to keep w = (w', Inr (last_index (the_wal w) - keep)) \<and>
    recs_of segs = rs @ REntry e # rest \<and> le_index e = keep \<and>
    recover_wal c (the_fs w') = (the_fs w', Inr (entries_of (rs @ [REntry e]), hard_of hs_default rs, 0)) \<and>
    wal_hard_state (the_wal w') = wal_hard_state (the_wal w) \<and>
    (wal_entries (the_wal w') = filter (\<lambda>x. le_index x \<le> keep) (wal_entries (the_wal w)) \<longleftrightarrow>
       compacted_to (the_wal w) = 0) \<and>
    prefix (filter (\<lambda>x. le_index x \<le> keep) (wal_entries (the_wal w))) (wal_entries (the_wal w'))"
proof -
  let ?c = "unat (compacted_to (the_wal w))" and ?k = "unat keep"
  from truncation_effect [OF assms] obtain w' segs' rs e rest where
    t: "truncate_log_to keep w = (w', Inr (last_index (the_wal w) - keep))"
      "recs_of segs = rs @ REntry e # rest" "le_index e = keep" "disk_log (the_fs w') segs'"
      "recs_of segs' = rs @ [REntry e]" "ents w' = take ?k (ents w)" "hard w' = hard w" "fs_budget (the_fs w') = None"
    by metis
  have al: "aligned (the_wal w)" using assms(1) log_mem_aligned by (auto simp: log_inv_def)
  have n: "length (ents w) = unat (last_index (the_wal w)) - ?c" "?c < ?k" "?k < unat (last_index (the_wal w))"
    using aligned_last [OF al] assms(3,4) by (simp_all add: word_less_nat_alt)
  have f: "filter (\<lambda>x. le_index x \<le> keep) (ents w) = take (?k - ?c) (ents w)"
    using contig_filter_upto [OF al [unfolded aligned_def]] by simp
  have "take ?k (ents w) = take (?k - ?c) (ents w) \<longleftrightarrow> ?c = 0"
    using n by (auto dest: arg_cong [of _ _ length])
  moreover have "prefix (take (?k - ?c) (ents w)) (take ?k (ents w))" by (metis diff_le_self min.absorb1 take_is_prefix take_take)
  ultimately show ?thesis
    using t recover_wal_ok [OF t(4,8), of c] f by (auto simp: unat_eq_zero)
qed

theorem truncation_keeps_prefix_witness:
  "let e = (\<lambda>i. \<lparr>le_index = i, le_term = 2, le_type = NormalEntry, le_data = [5]\<rparr>);
       hs = \<lparr>hs_term = 2, hs_vote = Some 3, hs_commit = 0\<rparr>;
       w = sample_world 0 [REntry (e 1), REntry (e 2), RHard hs]
   in \<exists>w'. truncate_log_to 1 w = (w', Inr 1) \<and> wal_entries (the_wal w') = [e 1] \<and>
        wal_hard_state (the_wal w') = hs \<and>
        recover_wal 0 (the_fs w') = (the_fs w', Inr ([e 1], hs_default, 0))"
proof -
  define e where "e = (\<lambda>i. \<lparr>le_index = i, le_term = 2, le_type = NormalEntry, le_data = [5]\<rparr>)"
  define hs where "hs = \<lparr>hs_term = 2, hs_vote = Some 3, hs_commit = 0\<rparr>"
  define rs where "rs = [REntry (e 1), REntry (e 2), RHard hs]"
  have inv: "log_inv (sample_world 0 rs) [(1, rs)]" "ents (sample_world 0 rs) = [e 1, e 2]"
      "unat (last_index (the_wal (sample_world 0 rs))) = 2"
    using sample_inv [of rs 0] by (simp_all add: rs_def e_def hs_def)
  then have last: "last_index (the_wal (sample_world 0 rs)) = 2" by (simp add: word_unat_eq_iff)
  have w: "fs_budget (the_fs (sample_world 0 rs)) = None" "compacted_to (the_wal (sample_world 0 rs)) = 0"
      "hard (sample_world 0 rs) = hs"
    by (simp_all add: rs_def)
  have filt: "filter (\<lambda>x. le_index x \<le> 1) [e 1, e 2] = [e 1]" by (simp add: e_def word_le_nat_alt)
  obtain w' rs1 x rest where t: "truncate_log_to 1 (sample_world 0 rs) = (w', Inr 1)"
      "recs_of [(1, rs)] = rs1 @ REntry x # rest" "le_index x = 1"
      "wal_entries (the_wal w') = [e 1]" "wal_hard_state (the_wal w') = hs"
      "recover_wal 0 (the_fs w') = (the_fs w', Inr (entries_of (rs1 @ [REntry x]), hard_of hs_default rs1, 0))"
    using truncation_keeps_prefix [OF inv(1) w(1), of 1 0] unfolding last inv(2) w(2,3) filt by auto
  have "rs1 = [] \<and> x = e 1"
    using t(2,3) by (auto simp: recs_of_def rs_def Cons_eq_append_conv e_def)
  then show ?thesis using t unfolding Let_def e_def hs_def rs_def by auto
qed

text \<open>
  C38: a conflicting append on a compacted log.  When the log has been compacted and an append
  overwrites an uncommitted suffix, the truncation keeps too many entries in memory (it counts
  entries from index 1 instead of from the watermark), so the append fails with the continuity
  error and appends nothing.
\<close>

theorem conflicting_append_on_compacted_log:
  assumes "log_inv w segs" "fs_budget (the_fs w) = None" "compacted_to (the_wal w) \<noteq> 0"
    "compacted_to (the_wal w) < le_index e - 1" "hs_commit (wal_hard_state (the_wal w)) < le_index e"
    "le_index e \<le> last_index (the_wal w)"
  shows "\<exists>w'. wal_append (e # es) w =
      (w', Inl (Unrecoverable (AppendContinuity (last_index (the_wal w') + 1) (le_index e)))) \<and>
    le_index e \<noteq> last_index (the_wal w') + 1"
proof -
  let ?s = "the_wal w" and ?k = "le_index e - 1"
  have a: "aligned ?s" using log_mem_aligned assms(1) by (auto simp: log_inv_def)
  have "le_index e \<noteq> 0" using assms(5) by auto
  then have k: "unat (le_index e) = Suc (unat ?k)" by (metis Suc_diff_1 unat_gt_0 unat_minus_one)
  have lt: "?k < last_index ?s" using assms(6) k by (simp add: word_less_nat_alt word_le_nat_alt)
  from truncation_effect [OF assms(1,2,4) lt] obtain w' where
    w': "truncate_log_to ?k w = (w', Inr (last_index ?s - ?k))" "ents w' = take (unat ?k) (ents w)"
      "compacted_to (the_wal w') = compacted_to ?s"
    by metis
  have "aligned (the_wal w')" using a contig_take w'(2,3) by (simp add: aligned_def)
  then have "unat (last_index (the_wal w')) = unat (compacted_to ?s) + min (unat ?k) (length (ents w))"
    using aligned_last [of "the_wal w'"] w'(2,3) by simp
  moreover have "0 < unat (compacted_to ?s)" using assms(3) by (simp add: unat_gt_0)
  ultimately have "unat (last_index (the_wal w')) \<noteq> unat ?k"
    using lt aligned_last [OF a] by (auto simp: word_less_nat_alt)
  then have ne: "le_index e \<noteq> last_index (the_wal w') + 1" by (metis add_diff_cancel_right')
  have "\<not> ?k < compacted_to ?s" "\<not> ?k < hs_commit (hard w)"
    using assms(4,5) k by (auto simp: word_less_nat_alt)
  then have "wal_append (e # es) w =
      (w', Inl (Unrecoverable (AppendContinuity (last_index (the_wal w') + 1) (le_index e))))"
    using assms(6) w'(1) ne by (simp add: wal_append_def append_entry_def comp_defs)
  then show ?thesis using ne by blast
qed

theorem conflicting_append_on_compacted_log_witness:
  "let e = (\<lambda>i. \<lparr>le_index = i, le_term = 2, le_type = NormalEntry, le_data = [5]\<rparr>);
       w = sample_world 1 [REntry (e 1), REntry (e 2), REntry (e 3)]
   in \<exists>w'. wal_append [(e 3)\<lparr>le_term := 4\<rparr>] w =
      (w', Inl (Unrecoverable (AppendContinuity (last_index (the_wal w') + 1) 3)))"
proof -
  define e where "e = (\<lambda>i. \<lparr>le_index = i, le_term = 2, le_type = NormalEntry, le_data = [5]\<rparr>)"
  define rs where "rs = [REntry (e 1), REntry (e 2), REntry (e 3)]"
  have inv: "log_inv (sample_world 1 rs) [(1, rs)]" "unat (last_index (the_wal (sample_world 1 rs))) = 3"
    using sample_inv [of rs 1] by (simp_all add: rs_def e_def hs_default_def)
  then have "last_index (the_wal (sample_world 1 rs)) = 3" by (simp add: word_unat_eq_iff)
  then have "\<exists>w'. wal_append [(e 3)\<lparr>le_term := 4\<rparr>] (sample_world 1 rs) =
      (w', Inl (Unrecoverable (AppendContinuity (last_index (the_wal w') + 1) 3)))"
    using conflicting_append_on_compacted_log [OF inv(1), of "(e 3)\<lparr>le_term := 4\<rparr>" "[]"]
    by (simp add: e_def rs_def hs_default_def) metis
  then show ?thesis unfolding Let_def e_def rs_def .
qed



text \<open>
  The trailing window can move the watermark back.  Take a log whose watermark lies inside
  files that were kept for slow followers, as after a restart with a snapshot.  If the window
  releases the oldest segment but not the second one, and that second segment starts at or below
  the watermark, then \<open>compact\<close> succeeds, lowers the watermark below its old value, and the
  entries no longer follow it: \<open>term\<close> of the first index returns the term of a later entry.
\<close>

theorem compaction_moves_watermark_back:
  assumes "disk_log (the_fs w) ((a, rs1) # (b, rs2) # (c, rs3) # post)" "fs_budget (the_fs w) = None"
    "segment_first_index (the_wal w) \<notin> {a, b}" "aligned (the_wal w)" "wal_entries (the_wal w) \<noteq> []"
    "b \<le> compacted_to (the_wal w)" "compacted_to (the_wal w) < n" "n \<le> last_index (the_wal w)"
    "wal_snapshot (the_wal w) = Some sn" "n \<le> sm_index (sn_meta sn)" "n \<noteq> - 1"
    "unat (trailing_keep_bytes (the_wal w)) \<le> segs_size ((b, rs2) # (c, rs3) # post)"
    "segs_size ((c, rs3) # post) < unat (trailing_keep_bytes (the_wal w))"
  shows "\<exists>w'. wal_compact n w = (w', Inr ()) \<and> compacted_to (the_wal w') = b - 1 \<and>
    compacted_to (the_wal w') < compacted_to (the_wal w) \<and>
    wal_entries (the_wal w') = wal_entries (the_wal w) \<and> \<not> aligned (the_wal w') \<and>
    storage_term (the_wal w') (first_index (the_wal w')) = Inr (le_term (hd (wal_entries (the_wal w))))"
proof -
  let ?s = "the_wal w"
  have "a < b" using disk_log_order [of "the_fs w" "[]" a rs1 "(b, rs2) # (c, rs3) # post"] assms(1) by auto
  then have "b \<noteq> 0" by auto
  then have b: "Suc (unat (b - 1)) = unat b" "b - 1 + 1 = b"
    using unat_minus_one [of b] unat_gt_0 [of b] by simp_all
  have n: "b \<le> n + 1" using assms(6,7) unat_succ [OF assms(11)] by (simp add: word_le_nat_alt word_less_nat_alt)
  from compact_windows_step_back [OF assms(1,2,3) n assms(12,13)] obtain fs' where
    run: "io list_segment_indices w = (w, Inr (a # b # c # map fst post))" "fs_budget fs' = None"
      "compact_windows n (a # b # c # map fst post) (windows2 (a # b # c # map fst post)) (compacted_to ?s) False w =
      (w\<lparr>the_fs := fs'\<rparr>, Inr (b - 1, True))"
    by blast
  let ?w' = "\<lparr>the_fs = fs'\<lparr>fs_dsynced := fs_dir fs', fs_pending := []\<rparr>, the_wal = compacted_at (b - 1) ?s\<rparr>"
  have t: "trailing_keep_bytes ?s \<noteq> 0" using assms(13) by auto
  have "\<not> last_index ?s < n" "\<not> n \<le> compacted_to ?s" using assms(7,8) by auto
  then have r: "wal_compact n w = (?w', Inr ())"
    using run assms(9,10) t
    by (simp add: wal_compact_def seq_def gets_def modify_def compacted_at_def fsync_dir_def prim_def on_fs_def [of "prim _"]
        del: compact_windows.simps windows2.simps)
  have gt: "b - 1 < le_index e" if "e \<in> set (ents w)" for e
    using contig_less [OF assms(4) [unfolded aligned_def] that] assms(6) b(1) by (simp add: word_less_nat_alt word_le_nat_alt)
  then have e: "wal_entries (compacted_at (b - 1) ?s) = ents w" by (simp add: compacted_at_def)
  have c: "compacted_to (compacted_at (b - 1) ?s) = b - 1" by (simp add: compacted_at_def)
  have lt: "b - 1 < compacted_to ?s" using assms(6) b(1) by (simp add: word_less_nat_alt word_le_nat_alt)
  have "\<not> aligned (compacted_at (b - 1) ?s)"
    using assms(4,5) lt by (cases "ents w") (auto simp: aligned_def e c word_less_nat_alt)
  moreover have "last_index (compacted_at (b - 1) ?s) = last_index ?s"
    using assms(5) by (simp add: last_index_def e c last_entry_index_def last_opt_def)
  then have "storage_term (compacted_at (b - 1) ?s) b = Inr (le_term (hd (ents w)))"
    using assms(5-8) b(2) by (auto simp: storage_term_def Let_def e c hd_conv_nth)
  ultimately show ?thesis using r e c lt b(2) by (simp add: first_index_def)
qed

theorem compaction_moves_watermark_back_witness:
  "let e = (\<lambda>i. \<lparr>le_index = i, le_term = i, le_type = NormalEntry, le_data = [5]\<rparr>);
       sn = (\<lambda>i. \<lparr>sn_meta = \<lparr>sm_index = i, sm_term = i, sm_conf_state = cs_default\<rparr>, sn_data = []\<rparr>);
       s1 = [REntry (e 1), REntry (e 2)]; s2 = [REntry (e 3), REntry (e 4)]; s3 = [REntry (e 5), REntry (e 6)];
       d = [(segment_path 1, 0 :: fd), (segment_path 3, 1), (segment_path 5, 2)];
       node = (\<lambda>rs. \<lparr>f_data = enc_all rs, f_synced = enc_all rs, f_low = length (enc_all rs)\<rparr>);
       w = \<lparr>the_fs = \<lparr>fs_dir = d, fs_dsynced = d, fs_pending = [], fs_inodes = [node s1, node s2, node s3],
              fs_lock = True, fs_budget = None\<rparr>,
            the_wal = (reopened sample_opts (new_meta sample_opts) (Some (sn 4)) None (s1 @ s2 @ s3) 5 2)
              \<lparr>trailing_keep_bytes := 100, wal_snapshot := Some (sn 6)\<rparr>\<rparr>
   in compacted_to (the_wal w) = 4 \<and> storage_term (the_wal w) 5 = Inr 5 \<and>
      (\<exists>w'. wal_compact 6 w = (w', Inr ()) \<and> compacted_to (the_wal w') = 2 \<and>
        storage_term (the_wal w') 3 = Inr 5)"
proof -
  define e where "e = (\<lambda>i. \<lparr>le_index = i, le_term = i, le_type = NormalEntry, le_data = [5]\<rparr>)"
  define sn where "sn = (\<lambda>i. \<lparr>sn_meta = \<lparr>sm_index = i, sm_term = i, sm_conf_state = cs_default\<rparr>, sn_data = []\<rparr>)"
  define s1 where "s1 = [REntry (e 1), REntry (e 2)]"
  define s2 where "s2 = [REntry (e 3), REntry (e 4)]"
  define s3 where "s3 = [REntry (e 5), REntry (e 6)]"
  define d where "d = [(segment_path 1, 0 :: fd), (segment_path 3, 1), (segment_path 5, 2)]"
  define node where "node = (\<lambda>rs. \<lparr>f_data = enc_all rs, f_synced = enc_all rs, f_low = length (enc_all rs)\<rparr>)"
  define w where "w = \<lparr>the_fs = \<lparr>fs_dir = d, fs_dsynced = d, fs_pending = [], fs_inodes = [node s1, node s2, node s3],
              fs_lock = True, fs_budget = None\<rparr>,
            the_wal = (reopened sample_opts (new_meta sample_opts) (Some (sn 4)) None (s1 @ s2 @ s3) 5 2)
              \<lparr>trailing_keep_bytes := 100, wal_snapshot := Some (sn 6)\<rparr>\<rparr>"
  have es: "entries_of (s1 @ s2 @ s3) = [e 1, e 2, e 3, e 4, e 5, e 6]" by (simp add: s1_def s2_def s3_def)
  have "filter (\<lambda>x. 4 < le_index x) (entries_of (s1 @ s2 @ s3)) = [e 5, e 6]"
    unfolding es by (simp add: e_def word_less_nat_alt)
  then have s: "ents w = [e 5, e 6]" "compacted_to (the_wal w) = 4" "segment_first_index (the_wal w) = 5"
      "trailing_keep_bytes (the_wal w) = 100" "wal_snapshot (the_wal w) = Some (sn 6)"
    by (simp_all add: w_def reopened_def Let_def sn_def)
  have a: "aligned (the_wal w)" "last_index (the_wal w) = 6"
    by (simp_all add: aligned_def s last_index_def last_entry_index_def last_opt_def e_def)
  have "segment_indices_of ([] @ [segment_path 1]) = [] @ [1]"
    by (rule segment_indices_snoc) (simp_all add: segment_indices_of_def map_filter_def)
  then have "segment_indices_of ([segment_path 1] @ [segment_path 3]) = [1] @ [3]"
    by (intro segment_indices_snoc) (simp_all add: word_less_nat_alt)
  then have "segment_indices_of ([segment_path 1, segment_path 3] @ [segment_path 5]) = [1, 3] @ [5]"
    by (intro segment_indices_snoc) (simp_all add: word_less_nat_alt)
  then have log: "disk_log (the_fs w) [(1, s1), (3, s2), (5, s3)]"
    by (auto simp: disk_log_def w_def d_def contents_def node_def s1_def s2_def s3_def e_def simp del: enc.simps)
  have "\<exists>w'. wal_compact 6 w = (w', Inr ()) \<and> compacted_to (the_wal w') = 3 - 1 \<and>
    compacted_to (the_wal w') < compacted_to (the_wal w) \<and>
    wal_entries (the_wal w') = wal_entries (the_wal w) \<and> \<not> aligned (the_wal w') \<and>
    storage_term (the_wal w') (first_index (the_wal w')) = Inr (le_term (hd (wal_entries (the_wal w))))"
  proof (rule compaction_moves_watermark_back [OF log _ _ a(1)])
    show "fs_budget (the_fs w) = None" by (simp add: w_def)
  qed (simp_all add: s a(2) word_le_nat_alt word_less_nat_alt, simp_all add: sn_def s2_def s3_def e_def)
  moreover have "storage_term (the_wal w) 5 = Inr 5"
    using storage_term_entry [OF a(1), of "e 5"] by (simp add: s e_def)
  ultimately have "compacted_to (the_wal w) = 4 \<and> storage_term (the_wal w) 5 = Inr 5 \<and>
      (\<exists>w'. wal_compact 6 w = (w', Inr ()) \<and> compacted_to (the_wal w') = 2 \<and> storage_term (the_wal w') 3 = Inr 5)"
    by (auto simp: s e_def first_index_def)
  then show ?thesis unfolding Let_def e_def sn_def s1_def s2_def s3_def d_def node_def w_def .
qed

end
