(* ===== verification/WalFlush.thy ===== *)
theory WalFlush
  imports WalDurable
begin

text \<open>
  The flusher thread (\<open>flusher_loop\<close> of \<open>arachne/src/storage/wal.rs\<close>): grouping of the jobs
  of a batch by segment, one sync per segment, and the reports that \<open>poll_flush\<close> consumes.
\<close>

subsection \<open>Groups\<close>

lemma group_job_map: "map_of (group_job j gs) = (map_of gs)(fj_segment j \<mapsto> (fj_fd j, fj_id j))"
  by (induction j gs rule: group_job.induct) auto

lemma group_job_keys: "map fst (group_job j gs) = (if fj_segment j \<in> fst ` set gs then map fst gs else map fst gs @ [fj_segment j])"
  by (induction j gs rule: group_job.induct) (auto split: if_splits)

lemma fold_group_distinct: "distinct (map fst gs) \<Longrightarrow> distinct (map fst (fold group_job js gs))"
proof (induction js arbitrary: gs)
  case (Cons j js)
  have "distinct (map fst (group_job j gs))" using Cons.prems by (simp add: group_job_keys)
  then show ?case using Cons.IH by simp
qed simp

text \<open>The group of a segment carries the descriptor and the id of its last job.\<close>

lemma group_jobs_last:
  "map_of (fold group_job js gs) seg =
     (case filter (\<lambda>j. fj_segment j = seg) js of [] \<Rightarrow> map_of gs seg
      | _ \<Rightarrow> (let j = last (filter (\<lambda>j. fj_segment j = seg) js) in Some (fj_fd j, fj_id j)))"
  by (induction js arbitrary: gs) (auto simp: group_job_map Let_def split: list.splits)

lemma map_of_id: "map_of (map (\<lambda>(seg, f, i). (seg, i)) gs) seg = map_option snd (map_of gs seg)"
  by (induction gs) auto

lemma owner_last:
  assumes "j \<in> set batch"
  shows "owner_of (group_jobs batch) j \<longleftrightarrow> fj_id j = fj_id (last (filter (\<lambda>x. fj_segment x = fj_segment j) batch))"
proof -
  have "j \<in> set (filter (\<lambda>x. fj_segment x = fj_segment j) batch)" using assms by simp
  then obtain x xs where "filter (\<lambda>x. fj_segment x = fj_segment j) batch = x # xs" by (metis list.set_cases)
  then show ?thesis
    using group_jobs_last [of batch "[]" "fj_segment j"]
    by (auto simp: owner_of_def map_of_id group_jobs_def Let_def)
qed

subsection \<open>Syncs\<close>

lemma sync_all_cases:
  "sync_all f fs = (fs', r) \<Longrightarrow> (r = Inr () \<and> (\<exists>b. fs' = (sync_fd f fs)\<lparr>fs_budget := b\<rparr>)) \<or> (r = Inl IoFailed \<and> fs' = fs)"
  using upd_prim_Inr [of f _ fs fs'] unfolding sync_all_def sync_fd_def
  by (cases "fs_budget fs = Some 0") (auto simp: prim_def modify_def split: option.splits nat.splits)

lemma sync_fd_inodes:
  "fs_inodes (sync_fd f fs) ! i =
     (if i = f \<and> f < length (fs_inodes fs)
      then (fs_inodes fs ! f)\<lparr>f_synced := f_data (fs_inodes fs ! f), f_low := length (f_data (fs_inodes fs ! f))\<rparr>
      else fs_inodes fs ! i)"
  by (cases "f < length (fs_inodes fs)") (simp_all add: sync_fd_def upd_inode_def nth_list_update list_update_beyond)

text \<open>The groups are synced in order: what was clean stays clean, and on success every group is clean.\<close>

lemma sync_groups_clean:
  assumes "sync_groups gs n fs = (fs', n', good)" "\<forall>(seg, f, i) \<in> set gs. f < length (fs_inodes fs)"
  shows "length (fs_inodes fs') = length (fs_inodes fs) \<and> fs_dir fs' = fs_dir fs \<and>
    (\<forall>i. f_data (fs_inodes fs' ! i) = f_data (fs_inodes fs ! i)) \<and>
    (\<forall>i. clean (fs_inodes fs ! i) \<longrightarrow> clean (fs_inodes fs' ! i)) \<and>
    (good \<longrightarrow> (\<forall>(seg, f, i) \<in> set gs. clean (fs_inodes fs' ! f)))"
  using assms
proof (induction gs n fs rule: sync_groups.induct)
  case (2 seg f i gs n fs)
  show ?case
  proof (cases "sync_all f fs")
    case (Pair fs1 r)
    from sync_all_cases [OF Pair] consider (ok) b where "r = Inr ()" "fs1 = (sync_fd f fs)\<lparr>fs_budget := b\<rparr>"
      | (bad) "r = Inl IoFailed" "fs1 = fs" by blast
    then show ?thesis
    proof cases
      case ok
      have f: "f < length (fs_inodes fs)" using "2.prems"(2) by simp
      have len: "length (fs_inodes fs1) = length (fs_inodes fs)" "fs_dir fs1 = fs_dir fs"
        by (simp_all add: ok sync_fd_def)
      have run: "sync_groups gs (Suc n) fs1 = (fs', n', good)" using "2.prems"(1) Pair ok(1) by simp
      have "\<forall>(seg, f, i) \<in> set gs. f < length (fs_inodes fs1)" using "2.prems"(2) len by auto
      note IH = "2.IH" [OF Pair [symmetric] ok(1) run this]
      have step: "f_data (fs_inodes fs1 ! j) = f_data (fs_inodes fs ! j)"
        "clean (fs_inodes fs ! j) \<longrightarrow> clean (fs_inodes fs1 ! j)" "clean (fs_inodes fs1 ! f)" for j
        using f by (auto simp: ok sync_fd_inodes clean_def)
      show ?thesis using IH len step by auto
    next
      case bad
      then show ?thesis using "2.prems"(1) Pair by auto
    qed
  qed
qed simp

lemma group_jobs_keys: "distinct (map fst (group_jobs batch))"
  using fold_group_distinct [of "[]" batch] by (simp add: group_jobs_def)

lemma group_of_job:
  assumes "j \<in> set batch"
  shows "\<exists>k \<in> set batch. fj_segment k = fj_segment j \<and> (fj_segment j, fj_fd k, fj_id k) \<in> set (group_jobs batch)"
proof -
  let ?js = "filter (\<lambda>x. fj_segment x = fj_segment j) batch"
  have ne: "?js \<noteq> []" using assms by (auto simp: filter_empty_conv)
  then have "last ?js \<in> set ?js" by (rule last_in_set)
  moreover have "map_of (group_jobs batch) (fj_segment j) = Some (fj_fd (last ?js), fj_id (last ?js))"
    using group_jobs_last [of batch "[]" "fj_segment j"] ne by (auto simp: group_jobs_def Let_def split: list.splits)
  ultimately show ?thesis using map_of_SomeD by fastforce
qed

lemma job_of_group:
  assumes "(seg, f, i) \<in> set (group_jobs batch)"
  shows "\<exists>k \<in> set batch. fj_segment k = seg \<and> fj_fd k = f"
proof -
  let ?js = "filter (\<lambda>x. fj_segment x = seg) batch"
  have "map_of (group_jobs batch) seg = Some (f, i)" using assms group_jobs_keys by (simp add: map_of_eq_Some_iff)
  then have "?js \<noteq> []" "f = fj_fd (last ?js)"
    using group_jobs_last [of batch "[]" seg] by (auto simp: group_jobs_def Let_def split: list.splits)
  then show ?thesis using last_in_set [of ?js] by auto
qed

lemma one_owner:
  assumes "distinct (map fj_id batch)" "j \<in> set batch"
  shows "\<exists>!r. r \<in> (\<lambda>job. \<lparr>fr_id = fj_id job, fr_segment = fj_segment job, fr_ok = good,
      fr_owner = owner_of (group_jobs batch) job\<rparr>) ` set batch \<and> fr_segment r = fj_segment j \<and> fr_owner r"
proof -
  let ?js = "filter (\<lambda>x. fj_segment x = fj_segment j) batch"
  let ?r = "\<lambda>job. \<lparr>fr_id = fj_id job, fr_segment = fj_segment job, fr_ok = good,
      fr_owner = owner_of (group_jobs batch) job\<rparr>"
  have "?js \<noteq> []" using assms(2) by (auto simp: filter_empty_conv)
  then have l: "last ?js \<in> set batch" "fj_segment (last ?js) = fj_segment j" using last_in_set [of ?js] by auto
  have own: "owner_of (group_jobs batch) k \<longleftrightarrow> k = last ?js" if "k \<in> set batch" "fj_segment k = fj_segment j" for k
    using owner_last [OF that(1)] that l(1) assms(1) by (auto simp: distinct_map inj_on_eq_iff)
  show ?thesis
  proof (rule ex1I [of _ "?r (last ?js)"])
    fix r assume r: "r \<in> ?r ` set batch \<and> fr_segment r = fj_segment j \<and> fr_owner r"
    then obtain k where k: "k \<in> set batch" "r = ?r k" by blast
    then have "k = last ?js" using r own [OF k(1)] by simp
    then show "r = ?r (last ?js)" using k by simp
  qed (use l own in auto)
qed

subsection \<open>Properties\<close>

text \<open>
  C26: the flusher.  A round takes a batch from the front of the queue and reports every job of it
  once, in order.  If the report of a job is a success then the file of every job of the batch is
  on disk completely, nothing that was on disk is lost, and no file changes its contents.  Every
  segment of the batch has exactly one job that owns it, the last one.
\<close>

theorem flusher_round_reports:
  assumes "offloaded (the_wal w) = Some off" "distinct (map fj_id (off_jobs off))"
    and "\<forall>j \<in> set (off_jobs off). fj_fd j < length (fs_inodes (the_fs w))"
    and "\<forall>j \<in> set (off_jobs off). \<forall>k \<in> set (off_jobs off). fj_segment j = fj_segment k \<longrightarrow> fj_fd j = fj_fd k"
  shows "\<exists>w' off' results. flusher_round extra w = w' \<and> offloaded (the_wal w') = Some off' \<and>
    off_jobs off' = drop (Suc extra) (off_jobs off) \<and> off_done off' = off_done off @ results \<and>
    map fr_id results = map fj_id (take (Suc extra) (off_jobs off)) \<and>
    (\<forall>i. f_data (fs_inodes (the_fs w') ! i) = f_data (fs_inodes (the_fs w) ! i)) \<and>
    (\<forall>i. clean (fs_inodes (the_fs w) ! i) \<longrightarrow> clean (fs_inodes (the_fs w') ! i)) \<and>
    (\<forall>r \<in> set results. fr_ok r \<longrightarrow>
       (\<forall>j \<in> set (take (Suc extra) (off_jobs off)). clean (fs_inodes (the_fs w') ! fj_fd j))) \<and>
    (\<forall>j \<in> set (take (Suc extra) (off_jobs off)).
       \<exists>!r. r \<in> set results \<and> fr_segment r = fj_segment j \<and> fr_owner r)"
proof -
  define batch where "batch = take (Suc extra) (off_jobs off)"
  have sub: "set batch \<subseteq> set (off_jobs off)" by (simp add: batch_def set_take_subset)
  have "distinct (map fj_id batch)" using assms(2) by (simp add: batch_def take_map [symmetric] distinct_take)
  note owner = one_owner [OF this]
  obtain fs' n good where sync: "sync_groups (group_jobs batch) 0 (the_fs w) = (fs', n, good)" by (metis prod_cases3)
  have "\<forall>(seg, f, i) \<in> set (group_jobs batch). f < length (fs_inodes (the_fs w))"
    using assms(3) sub job_of_group by blast
  note s = sync_groups_clean [OF sync this]
  have good: "clean (fs_inodes fs' ! fj_fd j)" if g: "good" and j: "j \<in> set batch" for j
  proof -
    obtain k where "k \<in> set batch" "fj_segment k = fj_segment j" "(fj_segment j, fj_fd k, fj_id k) \<in> set (group_jobs batch)"
      using group_of_job [OF j] by blast
    then have "clean (fs_inodes fs' ! fj_fd k)" "fj_fd k = fj_fd j"
      using s g assms(4) sub j by blast+
    then show ?thesis by simp
  qed
  let ?rs = "map (\<lambda>job. \<lparr>fr_id = fj_id job, fr_segment = fj_segment job, fr_ok = good,
      fr_owner = owner_of (group_jobs batch) job\<rparr>) batch"
  show ?thesis
  proof (cases "batch = []")
    case True
    then have "off_jobs off = []" by (cases "off_jobs off") (auto simp: batch_def)
    then show ?thesis using assms(1) by (simp add: flusher_round_def Let_def)
  next
    case False
    have run: "flusher_round extra w = w\<lparr>the_fs := fs', the_wal := (the_wal w)\<lparr>offloaded :=
        Some (off\<lparr>off_jobs := drop (Suc extra) (off_jobs off), off_done := off_done off @ ?rs,
          off_syncs := off_syncs off + of_nat n\<rparr>)\<rparr>\<rparr>"
      using assms(1) False sync by (simp add: flusher_round_def batch_def [symmetric])
    show ?thesis
      unfolding run batch_def [symmetric]
      using s good owner [where good = good]
      by (intro exI [of _ "off\<lparr>off_jobs := drop (Suc extra) (off_jobs off), off_done := off_done off @ ?rs,
          off_syncs := off_syncs off + of_nat n\<rparr>"] exI [of _ ?rs] exI conjI refl) auto
  qed
qed

theorem flusher_round_reports_witness:
  "let job = (\<lambda>i s. \<lparr>fj_id = i, fj_segment = s, fj_fd = 0\<rparr>);
       f = \<lparr>f_data = [1, 2, 3], f_synced = [1], f_low = 1\<rparr>;
       fs = \<lparr>fs_dir = [(segment_path 1, 0)], fs_dsynced = [], fs_pending = [], fs_inodes = [f], fs_lock = True, fs_budget = None\<rparr>;
       off = \<lparr>off_jobs = [job 7 1, job 8 1, job 9 1], off_done = [], off_next_id = 10, off_syncs = 0\<rparr>
   in \<forall>s. \<exists>off'. offloaded (the_wal (flusher_round 1 \<lparr>the_fs = fs, the_wal = s\<lparr>offloaded := Some off\<rparr>\<rparr>)) = Some off' \<and>
        off_jobs off' = [job 9 1] \<and> map fr_id (off_done off') = [7, 8] \<and>
        map fr_ok (off_done off') = [True, True] \<and>
        clean (fs_inodes (the_fs (flusher_round 1 \<lparr>the_fs = fs, the_wal = s\<lparr>offloaded := Some off\<rparr>\<rparr>)) ! 0)"
proof -
  define job where "job = (\<lambda>i s. \<lparr>fj_id = i, fj_segment = s, fj_fd = 0 :: fd\<rparr>)"
  define f where "f = \<lparr>f_data = [1, 2, 3], f_synced = [1], f_low = 1\<rparr>"
  define fs where "fs = \<lparr>fs_dir = [(segment_path 1, 0)], fs_dsynced = [], fs_pending = [], fs_inodes = [f], fs_lock = True, fs_budget = None\<rparr>"
  define off where "off = \<lparr>off_jobs = [job 7 1, job 8 1, job 9 1], off_done = [], off_next_id = 10, off_syncs = 0\<rparr>"
  have "\<exists>off'. offloaded (the_wal (flusher_round 1 \<lparr>the_fs = fs, the_wal = s\<lparr>offloaded := Some off\<rparr>\<rparr>)) = Some off' \<and>
        off_jobs off' = [job 9 1] \<and> map fr_id (off_done off') = [7, 8] \<and>
        map fr_ok (off_done off') = [True, True] \<and>
        clean (fs_inodes (the_fs (flusher_round 1 \<lparr>the_fs = fs, the_wal = s\<lparr>offloaded := Some off\<rparr>\<rparr>)) ! 0)" for s
  proof -
    let ?w = "\<lparr>the_fs = fs, the_wal = s\<lparr>offloaded := Some off\<rparr>\<rparr>"
    have ok: "map fr_ok (off_done (the (offloaded (the_wal (flusher_round 1 ?w))))) = [True, True]"
      by (simp add: flusher_round_def off_def fs_def job_def f_def group_jobs_def sync_all_def prim_def modify_def Let_def)
    have h: "offloaded (the_wal ?w) = Some off" "distinct (map fj_id (off_jobs off))"
      "\<forall>j \<in> set (off_jobs off). fj_fd j < length (fs_inodes (the_fs ?w))"
      "\<forall>j \<in> set (off_jobs off). \<forall>k \<in> set (off_jobs off). fj_segment j = fj_segment k \<longrightarrow> fj_fd j = fj_fd k"
      by (simp_all add: off_def fs_def job_def)
    have t: "take (Suc 1) (off_jobs off) = [job 7 1, job 8 1]" "drop (Suc 1) (off_jobs off) = [job 9 1]"
      "off_done off = []" by (simp_all add: off_def)
    from flusher_round_reports [OF h, of 1] obtain off' where
      o: "offloaded (the_wal (flusher_round 1 ?w)) = Some off'" "off_jobs off' = [job 9 1]"
      "map fr_id (off_done off') = map fj_id [job 7 1, job 8 1]"
      "\<forall>r \<in> set (off_done off'). fr_ok r \<longrightarrow>
        (\<forall>j \<in> set [job 7 1, job 8 1]. clean (fs_inodes (the_fs (flusher_round 1 ?w)) ! fj_fd j))"
      unfolding t append_Nil by blast
    moreover have "map fr_ok (off_done off') = [True, True]" using ok o(1) by simp
    ultimately show ?thesis by (cases "off_done off'") (auto simp: job_def)
  qed
  then show ?thesis unfolding Let_def job_def f_def fs_def off_def by blast
qed

end
