(* ===== verification/Oracle.thy ===== *)
theory Oracle
  imports OrderedMap FileNames "HOL-Library.Char_ord" "HOL-Library.Product_Lexorder" "HOL-Library.Option_ord"
begin

text \<open>
  The client oracle (\<open>arachne-testsupport/src/oracle.rs\<close>): recorded histories of client calls, the
  merge of retries into logical operations, the structural validation of a history, the
  consistency checks with their reports, and the line format of the record layer.  Timestamps are
  logical \<open>u64\<close>s supplied by the caller; the newtypes around \<open>u64\<close> are synonyms here.
\<close>

type_synonym ValueId = u64
type_synonym ClientId = u64
type_synonym SeqNo = u64
type_synonym CallId = u64

subsection \<open>Operations and results\<close>

datatype OracleOp = Put bytes ValueId | Delete bytes | Get bytes

fun op_key :: "OracleOp \<Rightarrow> bytes" where
  "op_key (Put key _) = key"
| "op_key (Delete key) = key"
| "op_key (Get key) = key"

fun is_logged_op :: "OracleOp \<Rightarrow> bool" where
  "is_logged_op (Put _ _) = True"
| "is_logged_op (Delete _) = True"
| "is_logged_op (Get _) = False"

fun is_put :: "OracleOp \<Rightarrow> bool" where
  "is_put (Put _ _) = True"
| "is_put _ = False"

datatype OracleErrorKind = NotLeader | QuorumUnavailable | Timeout | Busy | SessionExpired

fun error_kind_as_str :: "OracleErrorKind \<Rightarrow> string" where
  "error_kind_as_str NotLeader = ''NotLeader''"
| "error_kind_as_str QuorumUnavailable = ''QuorumUnavailable''"
| "error_kind_as_str Timeout = ''Timeout''"
| "error_kind_as_str Busy = ''Busy''"
| "error_kind_as_str SessionExpired = ''SessionExpired''"

definition is_unknown_outcome :: "OracleErrorKind \<Rightarrow> bool" where
  "is_unknown_outcome k \<longleftrightarrow> k = Timeout \<or> k = SessionExpired"

definition kind_known_not_applied :: "OracleErrorKind \<Rightarrow> bool" where
  "kind_known_not_applied k \<longleftrightarrow> \<not> is_unknown_outcome k"

datatype OpResult = Ok "ValueId option" | Err OracleErrorKind

fun result_is_ok :: "OpResult \<Rightarrow> bool" where
  "result_is_ok (Ok _) = True"
| "result_is_ok (Err _) = False"

subsection \<open>Histories\<close>

datatype Event =
    Invoke CallId ClientId SeqNo OracleOp u64
  | Complete CallId u64 OpResult "u64 option"

record History =
  h_events :: "Event list"

definition history_new :: History where
  "history_new = \<lparr>h_events = []\<rparr>"

definition invoke :: "CallId \<Rightarrow> ClientId \<Rightarrow> SeqNo \<Rightarrow> OracleOp \<Rightarrow> u64 \<Rightarrow> History \<Rightarrow> History" where
  "invoke call client seq op ts h = h\<lparr>h_events := h_events h @ [Invoke call client seq op ts]\<rparr>"

definition complete :: "CallId \<Rightarrow> u64 \<Rightarrow> OpResult \<Rightarrow> History \<Rightarrow> History" where
  "complete call ts result h = h\<lparr>h_events := h_events h @ [Complete call ts result None]\<rparr>"

definition complete_logged :: "CallId \<Rightarrow> u64 \<Rightarrow> OpResult \<Rightarrow> u64 \<Rightarrow> History \<Rightarrow> History" where
  "complete_logged call ts result log_id h =
     h\<lparr>h_events := h_events h @ [Complete call ts result (Some log_id)]\<rparr>"

text \<open>One logical operation after the merge of its retries.\<close>

record LogOp =
  lo_client :: ClientId
  lo_seq :: SeqNo
  lo_op :: OracleOp
  lo_invoke_ts :: u64
  lo_complete_ts :: "u64 option"
  lo_result :: "OpResult option"
  lo_log_ids :: "u64 list"
  lo_calls :: "CallId list"

definition is_linearization_point :: "LogOp \<Rightarrow> bool" where
  "is_linearization_point l \<longleftrightarrow> lo_complete_ts l \<noteq> None \<and>
     (case lo_result l of Some r \<Rightarrow> result_is_ok r | None \<Rightarrow> False)"

definition is_write_op :: "LogOp \<Rightarrow> bool" where
  "is_write_op l = is_logged_op (lo_op l)"

definition is_known_not_applied :: "LogOp \<Rightarrow> bool" where
  "is_known_not_applied l \<longleftrightarrow> (case lo_result l of Some (Err k) \<Rightarrow> kind_known_not_applied k | _ \<Rightarrow> False)"

definition may_have_applied :: "LogOp \<Rightarrow> bool" where
  "may_have_applied l \<longleftrightarrow> \<not> is_known_not_applied l"

definition is_optional_write_point :: "LogOp \<Rightarrow> bool" where
  "is_optional_write_point l \<longleftrightarrow> is_write_op l \<and> \<not> is_known_not_applied l \<and> \<not> is_linearization_point l"

subsection \<open>The merge of retries\<close>

record Group =
  g_op :: "OracleOp option"
  g_invoke_ts :: "u64 option"
  g_calls :: "CallId list"
  g_completes :: "(u64 \<times> OpResult) list"
  g_log_ids :: "u64 list"

definition group_default :: Group where
  "group_default = \<lparr>g_op = None, g_invoke_ts = None, g_calls = [], g_completes = [], g_log_ids = []\<rparr>"

definition into_log_op :: "ClientId \<Rightarrow> SeqNo \<Rightarrow> Group \<Rightarrow> LogOp option" where
  "into_log_op client seq g =
     (case g_op g of
        None \<Rightarrow> None
      | Some op \<Rightarrow>
          let chosen = (case find (\<lambda>(_, r). result_is_ok r) (g_completes g) of
                Some c \<Rightarrow> Some c | None \<Rightarrow> last_opt (g_completes g))
          in Some \<lparr>lo_client = client, lo_seq = seq, lo_op = op,
               lo_invoke_ts = (case g_invoke_ts g of Some t \<Rightarrow> t | None \<Rightarrow> 0),
               lo_complete_ts = map_option fst chosen, lo_result = map_option snd chosen,
               lo_log_ids = g_log_ids g, lo_calls = g_calls g\<rparr>)"

type_synonym call_keys = "(CallId, ClientId \<times> SeqNo) btree_map"
type_synonym groups = "(ClientId \<times> SeqNo, Group) btree_map"

fun note_call :: "Event \<Rightarrow> call_keys \<Rightarrow> call_keys" where
  "note_call (Invoke call client seq _ _) m = bt_insert call (client, seq) m"
| "note_call (Complete _ _ _ _) m = m"

text \<open>\<open>groups.entry(key).or_default()\<close>, changed in place.\<close>

definition upd_group :: "ClientId \<times> SeqNo \<Rightarrow> (Group \<Rightarrow> Group) \<Rightarrow> groups \<Rightarrow> groups" where
  "upd_group key f gs =
     bt_insert key (f (case bt_get gs key of Some g \<Rightarrow> g | None \<Rightarrow> group_default)) gs"

fun group_event :: "call_keys \<Rightarrow> Event \<Rightarrow> groups \<Rightarrow> groups" where
  "group_event keys (Invoke call client seq op ts) gs =
     upd_group (client, seq) (\<lambda>g. g\<lparr>
       g_op := (case g_op g of None \<Rightarrow> Some op | Some p \<Rightarrow> Some p),
       g_invoke_ts := Some (min (case g_invoke_ts g of Some t \<Rightarrow> t | None \<Rightarrow> - 1) ts),
       g_calls := g_calls g @ [call]\<rparr>) gs"
| "group_event keys (Complete call ts result log_id) gs =
     (case bt_get keys call of
        None \<Rightarrow> gs
      | Some key \<Rightarrow> upd_group key (\<lambda>g. g\<lparr>
          g_completes := g_completes g @ [(ts, result)],
          g_log_ids := g_log_ids g @ (case log_id of Some i \<Rightarrow> [i] | None \<Rightarrow> [])\<rparr>) gs)"

definition merge_retries :: "History \<Rightarrow> LogOp list" where
  "merge_retries h =
     (let call_key = fold note_call (h_events h) [];
          groups = fold (group_event call_key) (h_events h) [];
          ops = List.map_filter (\<lambda>((client, seq), g). into_log_op client seq g) groups
      in sort_key (\<lambda>l. (lo_invoke_ts l, lo_client l, lo_seq l)) ops)"

subsection \<open>Reports\<close>

datatype Invariant = PhantomValue | OneLogIdPerSeq | ReadYourWrites | MonotonicReads | LostWrite | Durability | WellFormed

fun invariant_as_str :: "Invariant \<Rightarrow> string" where
  "invariant_as_str PhantomValue = ''phantom''"
| "invariant_as_str OneLogIdPerSeq = ''one-log-id''"
| "invariant_as_str ReadYourWrites = ''ryw''"
| "invariant_as_str MonotonicReads = ''monotonic''"
| "invariant_as_str LostWrite = ''lost-write''"
| "invariant_as_str Durability = ''durability''"
| "invariant_as_str WellFormed = ''well-formed''"

record Failure =
  fl_invariant :: Invariant
  fl_detail :: string
  fl_calls :: "CallId list"

type_synonym OracleReport = "Failure list"

definition passed :: "OracleReport \<Rightarrow> bool" where
  "passed report = (report = [])"

text \<open>The violated invariants, each once, by name; the set is listed in the order of the enum first.\<close>

definition all_invariants :: "Invariant list" where
  "all_invariants = [PhantomValue, OneLogIdPerSeq, ReadYourWrites, MonotonicReads, LostWrite, Durability, WellFormed]"

definition violated :: "OracleReport \<Rightarrow> Invariant list" where
  "violated report = sort_key invariant_as_str
     (filter (\<lambda>i. i \<in> fl_invariant ` set report) all_invariants)"

text \<open>Printing: decimal numbers, \<open>{:?}\<close> of a byte vector, and \<open>join(", ")\<close>.\<close>

fun show_nat :: "nat \<Rightarrow> string" where
  "show_nat n = (if n < 10 then [digit_char n] else show_nat (n div 10) @ [digit_char (n mod 10)])"

declare show_nat.simps [simp del]

definition show_u64 :: "u64 \<Rightarrow> string" where
  "show_u64 n = show_nat (unat n)"

fun join :: "string \<Rightarrow> string list \<Rightarrow> string" where
  "join sep [] = []"
| "join sep [s] = s"
| "join sep (s # ss) = s @ sep @ join sep ss"

definition show_bytes :: "bytes \<Rightarrow> string" where
  "show_bytes bs = ''['' @ join '', '' (map (\<lambda>b. show_nat (unat b)) bs) @ '']''"

definition newline :: string where
  "newline = [char_of (10 :: nat)]"

definition render :: "OracleReport \<Rightarrow> string" where
  "render report =
     (if passed report then ''oracle: PASS (no invariant violations)''
      else concat (map (\<lambda>f. ''['' @ invariant_as_str (fl_invariant f) @ ''] '' @ fl_detail f @
        '' (calls: '' @ join '', '' (map show_u64 (fl_calls f)) @ '')'' @ newline) report))"

subsection \<open>Structural validation\<close>

type_synonym invokes = "(CallId, ClientId \<times> SeqNo \<times> OracleOp) btree_map"

fun validate_invokes :: "Event list \<Rightarrow> invokes \<Rightarrow> invokes \<times> Failure list" where
  "validate_invokes [] m = (m, [])"
| "validate_invokes (Invoke call client seq op ts # es) m =
     (case bt_get m call of
        Some known \<Rightarrow>
          (if known \<noteq> (client, seq, op) then
             (case validate_invokes es m of (m', fs) \<Rightarrow>
                (m', \<lparr>fl_invariant = WellFormed,
                       fl_detail = ''call '' @ show_u64 call @ '' is invoked more than once with differing (client, seq, op)'',
                       fl_calls = [call]\<rparr> # fs))
           else validate_invokes es m)
      | None \<Rightarrow> validate_invokes es (bt_insert call (client, seq, op) m))"
| "validate_invokes (Complete _ _ _ _ # es) m = validate_invokes es m"

fun validate_completes :: "invokes \<Rightarrow> Event list \<Rightarrow> Failure list" where
  "validate_completes m [] = []"
| "validate_completes m (Complete call _ _ _ # es) =
     (if bt_get m call = None then
        \<lparr>fl_invariant = WellFormed,
          fl_detail = ''complete for call '' @ show_u64 call @ '' has no matching invoke'',
          fl_calls = [call]\<rparr> # validate_completes m es
      else validate_completes m es)"
| "validate_completes m (Invoke _ _ _ _ _ # es) = validate_completes m es"

fun validate_groups :: "Event list \<Rightarrow> (ClientId \<times> SeqNo, OracleOp) btree_map \<Rightarrow> Failure list" where
  "validate_groups [] m = []"
| "validate_groups (Invoke _ client seq op _ # es) m =
     (case bt_get m (client, seq) of
        Some prev \<Rightarrow>
          (if prev \<noteq> op then
             \<lparr>fl_invariant = WellFormed,
               fl_detail = ''(client '' @ show_u64 client @ '', seq '' @ show_u64 seq @ '') carries differing ops across retries'',
               fl_calls = []\<rparr> # validate_groups es m
           else validate_groups es m)
      | None \<Rightarrow> validate_groups es (bt_insert (client, seq) op m))"
| "validate_groups (Complete _ _ _ _ # es) m = validate_groups es m"

definition validate :: "History \<Rightarrow> Failure list" where
  "validate h =
     (case validate_invokes (h_events h) [] of (invokes, fs) \<Rightarrow>
        fs @ validate_completes invokes (h_events h) @ validate_groups (h_events h) [])"

subsection \<open>The checks\<close>

text \<open>Check 1: a read value must come from a put that may have applied.\<close>

definition phantom_candidates :: "LogOp list \<Rightarrow> bytes \<Rightarrow> ValueId \<Rightarrow> u64 \<Rightarrow> LogOp list" where
  "phantom_candidates ops key value get_complete =
     filter (\<lambda>p. lo_op p = Put key value \<and> may_have_applied p \<and> lo_invoke_ts p < get_complete) ops"

definition deleted_between :: "LogOp list \<Rightarrow> bytes \<Rightarrow> LogOp \<Rightarrow> LogOp \<Rightarrow> bool" where
  "deleted_between ops key p get = list_ex (\<lambda>d. lo_op d = Delete key \<and> is_linearization_point d \<and>
     (case lo_complete_ts p of Some pc \<Rightarrow> pc \<le> lo_invoke_ts d | None \<Rightarrow> False) \<and>
     (case lo_complete_ts d of Some dc \<Rightarrow> dc \<le> lo_invoke_ts get | None \<Rightarrow> False)) ops"

definition phantom_of :: "LogOp list \<Rightarrow> LogOp \<Rightarrow> Failure list" where
  "phantom_of ops get =
     (case (lo_op get, lo_result get, lo_complete_ts get) of
        (Get key, Some (Ok (Some value)), Some get_complete) \<Rightarrow>
          let candidates = phantom_candidates ops key value get_complete;
              prefix = ''client '' @ show_u64 (lo_client get) @ '' seq '' @ show_u64 (lo_seq get) @
                '' read Some('' @ show_u64 value @ '') for key '' @ show_bytes key
          in if candidates = [] then
               [\<lparr>fl_invariant = PhantomValue,
                 fl_detail = prefix @ '', but no Put of it could have preceded the read'',
                 fl_calls = lo_calls get\<rparr>]
             else if \<not> list_ex (\<lambda>p. \<not> deleted_between ops key p get) candidates then
               [\<lparr>fl_invariant = PhantomValue,
                 fl_detail = prefix @ '', but every earlier Put of it was deleted before the read'',
                 fl_calls = lo_calls get\<rparr>]
             else []
      | _ \<Rightarrow> [])"

definition check_phantom :: "LogOp list \<Rightarrow> Failure list" where
  "check_phantom ops = concat (map (phantom_of ops) ops)"

text \<open>Check 2: one log id per logged operation.  The ids are listed in ascending order.\<close>

definition check_one_log_id :: "LogOp list \<Rightarrow> Failure list" where
  "check_one_log_id ops = concat (map (\<lambda>l.
     if \<not> is_logged_op (lo_op l) then []
     else let ids = sort (remdups (lo_log_ids l)) in
       if length ids \<le> 1 then []
       else [\<lparr>fl_invariant = OneLogIdPerSeq,
              fl_detail = ''client '' @ show_u64 (lo_client l) @ '' seq '' @ show_u64 (lo_seq l) @
                '' logged op carries '' @ show_nat (length ids) @ '' distinct log ids ('' @
                join '', '' (map show_u64 ids) @ '')'',
              fl_calls = lo_calls l\<rparr>]) ops)"

text \<open>\<open>Iterator::max_by_key\<close>: the last element with the greatest key.\<close>

definition max_by_key :: "('a \<Rightarrow> 'k::linorder) \<Rightarrow> 'a list \<Rightarrow> 'a option" where
  "max_by_key key xs = foldl (\<lambda>acc x. case acc of
     None \<Rightarrow> Some x | Some best \<Rightarrow> if key best \<le> key x then Some x else Some best) None xs"

definition ryw_latest :: "LogOp list \<Rightarrow> LogOp \<Rightarrow> LogOp option" where
  "ryw_latest ops get = max_by_key
     (\<lambda>m. (case lo_complete_ts m of Some t \<Rightarrow> t | None \<Rightarrow> 0, lo_seq m))
     (filter (\<lambda>m. lo_client m = lo_client get \<and> op_key (lo_op m) = op_key (lo_op get) \<and>
        is_logged_op (lo_op m) \<and> is_linearization_point m \<and>
        (case lo_complete_ts m of Some mc \<Rightarrow> mc \<le> lo_invoke_ts get | None \<Rightarrow> False)) ops)"

definition ryw_of :: "LogOp list \<Rightarrow> LogOp \<Rightarrow> Failure list" where
  "ryw_of ops get =
     (case (lo_op get, lo_result get) of
        (Get key, Some (Ok ret)) \<Rightarrow>
          (case ryw_latest ops get of
             Some m \<Rightarrow>
               (case lo_op m of
                  Put _ value \<Rightarrow>
                    if (case ret of Some w \<Rightarrow> w \<ge> value | None \<Rightarrow> False) then []
                    else
                      let returned = (case ret of Some w \<Rightarrow> ''Some('' @ show_u64 w @ '')'' | None \<Rightarrow> ''None'')
                      in [\<lparr>fl_invariant = ReadYourWrites,
                           fl_detail = ''client '' @ show_u64 (lo_client get) @ '' seq '' @ show_u64 (lo_seq get) @
                             '' read '' @ returned @ '' for key '' @ show_bytes key @
                             '' after its own latest Put of '' @ show_u64 value @ '' completed'',
                           fl_calls = lo_calls m @ lo_calls get\<rparr>]
                | _ \<Rightarrow> [])
           | None \<Rightarrow> [])
      | _ \<Rightarrow> [])"

definition check_read_your_writes :: "LogOp list \<Rightarrow> Failure list" where
  "check_read_your_writes ops = concat (map (ryw_of ops) ops)"

text \<open>Check 4: the values a client reads from a key do not go back.\<close>

definition by_client_key :: "LogOp list \<Rightarrow> (ClientId \<times> bytes, LogOp list) btree_map" where
  "by_client_key ops = fold (\<lambda>get m.
     case lo_result get of
       Some (Ok (Some _)) \<Rightarrow>
         let k = (lo_client get, op_key (lo_op get))
         in bt_insert k ((case bt_get m k of Some xs \<Rightarrow> xs | None \<Rightarrow> []) @ [get]) m
     | _ \<Rightarrow> m) ops []"

fun regressions :: "ClientId \<Rightarrow> bytes \<Rightarrow> LogOp list \<Rightarrow> Failure list" where
  "regressions client key (prev # cur # rest) =
     (case (lo_result prev, lo_result cur) of
        (Some (Ok (Some prev_v)), Some (Ok (Some cur_v))) \<Rightarrow>
          (if cur_v < prev_v then
             [\<lparr>fl_invariant = MonotonicReads,
               fl_detail = ''client '' @ show_u64 client @ '' read key '' @ show_bytes key @ '' as '' @
                 show_u64 prev_v @ '' and later as '' @ show_u64 cur_v @ '' (regression)'',
               fl_calls = lo_calls prev @ lo_calls cur\<rparr>]
           else [])
      | _ \<Rightarrow> []) @ regressions client key (cur # rest)"
| "regressions client key _ = []"

definition check_monotonic_reads :: "LogOp list \<Rightarrow> Failure list" where
  "check_monotonic_reads ops = concat (map (\<lambda>((client, key), reads).
     regressions client key
       (sort_key (\<lambda>l. (lo_complete_ts l, lo_invoke_ts l, lo_seq l)) reads)) (by_client_key ops))"

definition check :: "History \<Rightarrow> OracleReport" where
  "check h =
     (let ops = merge_retries h
      in sort_key (\<lambda>f. (invariant_as_str (fl_invariant f), fl_calls f))
           (validate h @ check_phantom ops @ check_one_log_id ops @ check_read_your_writes ops @
            check_monotonic_reads ops))"

text \<open>The two checks that need input from the scenario.\<close>

definition acked_values :: "LogOp list \<Rightarrow> bytes \<Rightarrow> ValueId list" where
  "acked_values ops key = List.map_filter (\<lambda>l. case lo_op l of
     Put k value \<Rightarrow> if k = key \<and> (case lo_result l of Some r \<Rightarrow> result_is_ok r | None \<Rightarrow> False)
       then Some value else None
   | _ \<Rightarrow> None) ops"

definition check_lost_writes :: "LogOp list \<Rightarrow> (bytes, ValueId list) btree_map \<Rightarrow> Failure list" where
  "check_lost_writes ops expected_chain = concat (map (\<lambda>(key, chain).
     map (\<lambda>value. \<lparr>fl_invariant = LostWrite,
       fl_detail = ''value '' @ show_u64 value @ '' for key '' @ show_bytes key @
         '' is in the expected version chain but was never acked'', fl_calls = []\<rparr>)
     (filter (\<lambda>value. value \<notin> set (acked_values ops key)) chain)) expected_chain)"

definition check_durability :: "ValueId list \<Rightarrow> ValueId list \<Rightarrow> Failure list" where
  "check_durability acked observed =
     (let missing = filter (\<lambda>a. a \<notin> set observed) acked in
      if missing = [] then []
      else [\<lparr>fl_invariant = Durability,
             fl_detail = show_nat (length missing) @ '' acked value(s) not present in the observed set ('' @
               join '', '' (map show_u64 missing) @ '')'', fl_calls = []\<rparr>])"

subsection \<open>The record layer\<close>

definition hex_digit :: "u8 \<Rightarrow> char" where
  "hex_digit d = ''0123456789abcdef'' ! unat d"

definition hex :: "bytes \<Rightarrow> string" where
  "hex bs = concat (map (\<lambda>b. [hex_digit (drop_bit 4 b), hex_digit (b AND 0x0f)]) bs)"

fun op_name :: "OracleOp \<Rightarrow> string" where
  "op_name (Put _ _) = ''put''"
| "op_name (Delete _) = ''delete''"
| "op_name (Get _) = ''get''"

fun val_field :: "OracleOp \<Rightarrow> string" where
  "val_field (Put _ value) = show_u64 value"
| "val_field _ = ''null''"

fun result_field :: "OpResult option \<Rightarrow> string" where
  "result_field (Some (Ok (Some v))) = ''ok:'' @ show_u64 v"
| "result_field (Some (Ok None)) = ''ok:null''"
| "result_field (Some (Err kind)) = ''err:'' @ error_kind_as_str kind"
| "result_field None = ''null''"

definition jsonl_line :: "LogOp \<Rightarrow> string" where
  "jsonl_line l =
     (let opt = (\<lambda>x. case x of Some t \<Rightarrow> show_u64 t | None \<Rightarrow> ''null'')
      in ''{\"client_id\":'' @ show_u64 (lo_client l) @ '',\"seq\":'' @ show_u64 (lo_seq l) @
         '',\"op\":\"'' @ op_name (lo_op l) @ ''\",\"key\":\"'' @ hex (op_key (lo_op l)) @
         ''\",\"val\":'' @ val_field (lo_op l) @ '',\"invoke_ts\":'' @ show_u64 (lo_invoke_ts l) @
         '',\"complete_ts\":'' @ opt (lo_complete_ts l) @ '',\"result\":\"'' @ result_field (lo_result l) @
         ''\",\"log_id\":'' @ opt (first (lo_log_ids l)) @ ''}'')"

definition to_jsonl :: "History \<Rightarrow> string" where
  "to_jsonl h = concat (map (\<lambda>l. jsonl_line l @ newline) (merge_retries h))"

end
