(* ===== verification/Linearizability.thy ===== *)
theory Linearizability
  imports Oracle "HOL-Library.Sublist"
begin

text \<open>
  The linearizability checker (\<open>arachne-testsupport/src/linearizability.rs\<close>): the reference model,
  the search over linear extensions of the real-time order with optional points, and the
  minimisation of a violation.  The theorems relate the verdict to the definition of
  linearizability: a total order of the operations that took effect, compatible with real time,
  that is a legal sequential execution.
\<close>

subsection \<open>The reference model\<close>

type_synonym KvState = "(bytes, ValueId) btree_map"

definition with_entries :: "(bytes \<times> ValueId) list \<Rightarrow> KvState" where
  "with_entries entries = fold (\<lambda>(k, v). bt_insert k v) entries []"

fun apply_op :: "KvState \<Rightarrow> OracleOp \<Rightarrow> KvState \<times> OpResult" where
  "apply_op st (Put key value) = (bt_insert key value st, Ok None)"
| "apply_op st (Delete key) = (bt_remove key st, Ok None)"
| "apply_op st (Get key) = (st, Ok (bt_get st key))"

subsection \<open>The search\<close>

datatype PointKind = Required | Optional

datatype CheckOutcome =
    Linearizable
  | Violation "CallId list"
  | Inconclusive nat

definition MAX_CHECK_POINTS :: nat where "MAX_CHECK_POINTS = 12"

definition observed_matches :: "OpResult option \<Rightarrow> OpResult \<Rightarrow> bool" where
  "observed_matches observed expected \<longleftrightarrow> observed = Some expected"

text \<open>\<open>a.complete_ts <= b.invoke_ts\<close>.\<close>

definition ends_before :: "LogOp \<Rightarrow> LogOp \<Rightarrow> bool" where
  "ends_before a b \<longleftrightarrow> (case lo_complete_ts a of Some ca \<Rightarrow> ca \<le> lo_invoke_ts b | None \<Rightarrow> False)"

text \<open>One pair of the double loop: the successor lists and the predecessor counts.\<close>

definition add_pair ::
    "LogOp list \<Rightarrow> nat list \<Rightarrow> nat \<times> nat \<Rightarrow> nat list list \<times> nat list \<Rightarrow> nat list list \<times> nat list" where
  "add_pair ops points = (\<lambda>(a, b) (successors, remaining_pred).
     let a_before_b = ends_before (ops ! (points ! a)) (ops ! (points ! b));
         b_before_a = ends_before (ops ! (points ! b)) (ops ! (points ! a))
     in if a_before_b \<and> \<not> b_before_a then
          (successors[a := successors ! a @ [b]], remaining_pred[b := remaining_pred ! b + 1])
        else if b_before_a \<and> \<not> a_before_b then
          (successors[b := successors ! b @ [a]], remaining_pred[a := remaining_pred ! a + 1])
        else (successors, remaining_pred))"

definition pairs :: "nat \<Rightarrow> (nat \<times> nat) list" where
  "pairs n = concat (map (\<lambda>a. map (\<lambda>b. (a, b)) [Suc a..<n]) [0..<n])"

definition release :: "nat list \<Rightarrow> nat list \<Rightarrow> nat list" where
  "release ss remaining_pred = fold (\<lambda>s rp. rp[s := rp ! s - 1]) ss remaining_pred"

text \<open>
  The depth-first search.  The first argument is the number of points that are not resolved yet
  (\<open>n - count\<close> in the code).  Undoing the changes after a failed branch is the persistence of the
  arguments.
\<close>

primrec dfs ::
    "nat \<Rightarrow> LogOp list \<Rightarrow> nat list \<Rightarrow> PointKind list \<Rightarrow> nat list list \<Rightarrow> bool list \<Rightarrow> nat list
      \<Rightarrow> KvState \<Rightarrow> bool" where
  "dfs 0 ops points kinds successors resolved remaining_pred st = True"
| "dfs (Suc k) ops points kinds successors resolved remaining_pred st =
     list_ex (\<lambda>i.
       if resolved ! i \<or> remaining_pred ! i \<noteq> 0 then False
       else
         let point = ops ! (points ! i);
             required = (kinds ! i = Required);
             (next_state, expected) = apply_op st (lo_op point)
         in (\<not> required \<or> observed_matches (lo_result point) expected) \<and>
              dfs k ops points kinds successors (resolved[i := True])
                (release (successors ! i) remaining_pred) next_state \<or>
            \<not> required \<and>
              dfs k ops points kinds successors (resolved[i := True])
                (release (successors ! i) remaining_pred) st)
     [0..<length points]"

definition search :: "LogOp list \<Rightarrow> nat list \<Rightarrow> PointKind list \<Rightarrow> KvState \<Rightarrow> bool" where
  "search ops points kinds initial =
     (let n = length points;
          (successors, remaining_pred) = fold (add_pair ops points) (pairs n) (replicate n [], replicate n 0)
      in dfs n ops points kinds successors (replicate n False) remaining_pred initial)"

definition kind_of :: "LogOp \<Rightarrow> PointKind" where
  "kind_of l = (if is_linearization_point l then Required else Optional)"

text \<open>\<open>trial.remove(i)\<close>.\<close>

definition remove_at :: "nat \<Rightarrow> 'a list \<Rightarrow> 'a list" where
  "remove_at i xs = take i xs @ drop (Suc i) xs"

function shrink_from :: "LogOp list \<Rightarrow> KvState \<Rightarrow> nat list \<Rightarrow> nat \<Rightarrow> nat list" where
  "shrink_from ops initial keep i =
     (if i < length keep then
        let trial = remove_at i keep
        in if search ops trial (map (\<lambda>p. kind_of (ops ! p)) trial) initial
           then shrink_from ops initial keep (Suc i)
           else shrink_from ops initial trial i
      else keep)"
  by pat_completeness auto
termination
  by (relation "measure (\<lambda>(ops, initial, keep, i). length keep - i + length keep)")
    (auto simp: remove_at_def)

declare shrink_from.simps [simp del]

definition shrink_witness :: "LogOp list \<Rightarrow> KvState \<Rightarrow> nat list \<Rightarrow> CallId list" where
  "shrink_witness ops initial points = concat (map (\<lambda>p. lo_calls (ops ! p)) (shrink_from ops initial points 0))"

definition points_of :: "LogOp list \<Rightarrow> nat list" where
  "points_of ops = filter (\<lambda>i. is_linearization_point (ops ! i) \<or> is_optional_write_point (ops ! i)) [0..<length ops]"

definition check_reduced :: "LogOp list \<Rightarrow> KvState \<Rightarrow> CheckOutcome" where
  "check_reduced ops initial =
     (let points = points_of ops in
      if points = [] then Linearizable
      else if length points > MAX_CHECK_POINTS then Inconclusive (length points)
      else if search ops points (map (\<lambda>i. kind_of (ops ! i)) points) initial then Linearizable
      else Violation (shrink_witness ops initial points))"

definition check_linearizable :: "History \<Rightarrow> KvState \<Rightarrow> CheckOutcome" where
  "check_linearizable h initial = check_reduced (merge_retries h) initial"

subsection \<open>The edges the double loop builds\<close>

text \<open>The order of two points: one ends before the other begins, and not the other way round.\<close>

definition edge :: "LogOp list \<Rightarrow> nat list \<Rightarrow> nat \<Rightarrow> nat \<Rightarrow> bool" where
  "edge ops points a b \<longleftrightarrow> ends_before (ops ! (points ! a)) (ops ! (points ! b)) \<and>
     \<not> ends_before (ops ! (points ! b)) (ops ! (points ! a))"

lemma edge_irrefl [simp]: "\<not> edge ops points a a"
  by (simp add: edge_def)

text \<open>What the lists hold after the pairs \<open>ps\<close>.\<close>

definition built :: "LogOp list \<Rightarrow> nat list \<Rightarrow> nat \<Rightarrow> (nat \<times> nat) set \<Rightarrow> nat list list \<times> nat list \<Rightarrow> bool" where
  "built ops points n ps = (\<lambda>(succ, rp). length succ = n \<and> length rp = n \<and>
     (\<forall>a < n. distinct (succ ! a) \<and> set (succ ! a) = {b. b < n \<and> edge ops points a b \<and> ((a, b) \<in> ps \<or> (b, a) \<in> ps)}) \<and>
     (\<forall>b < n. rp ! b = card {a. a < n \<and> edge ops points a b \<and> ((a, b) \<in> ps \<or> (b, a) \<in> ps)}))"

lemma built_edge:
  assumes b: "built ops points n ps (succ, rp)" and ab: "a < n" "b < n" and e: "edge ops points a b"
    and new: "(a, b) \<notin> ps" "(b, a) \<notin> ps" and p: "p = (a, b) \<or> p = (b, a)"
  shows "built ops points n (insert p ps) (succ[a := succ ! a @ [b]], rp[b := rp ! b + 1])"
proof -
  have ne: "a \<noteq> b" "\<not> edge ops points b a" using e by (auto simp: edge_def)
  have len: "length succ = n" "length rp = n" using b by (auto simp: built_def)
  have s: "distinct (succ ! x)" "set (succ ! x) = {y. y < n \<and> edge ops points x y \<and> ((x, y) \<in> ps \<or> (y, x) \<in> ps)}"
    if "x < n" for x using b that by (auto simp: built_def)
  have r: "rp ! y = card {x. x < n \<and> edge ops points x y \<and> ((x, y) \<in> ps \<or> (y, x) \<in> ps)}" if "y < n" for y
    using b that by (auto simp: built_def)
  have upd: "edge ops points x y \<and> ((x, y) \<in> insert p ps \<or> (y, x) \<in> insert p ps) \<longleftrightarrow>
      edge ops points x y \<and> ((x, y) \<in> ps \<or> (y, x) \<in> ps) \<or> x = a \<and> y = b" for x y
    using p e ne by auto
  show ?thesis
    unfolding built_def prod.case
  proof (intro conjI allI impI)
    fix x assume x: "x < n"
    show "distinct (succ[a := succ ! a @ [b]] ! x)" using s x new ab(1) len by (cases "x = a") auto
    show "set (succ[a := succ ! a @ [b]] ! x) = {y. y < n \<and> edge ops points x y \<and> ((x, y) \<in> insert p ps \<or> (y, x) \<in> insert p ps)}"
      unfolding upd using s x ab len by (cases "x = a") auto
    show "rp[b := rp ! b + 1] ! x = card {y. y < n \<and> edge ops points y x \<and> ((y, x) \<in> insert p ps \<or> (x, y) \<in> insert p ps)}"
    proof (cases "x = b")
      case True
      have "{y. y < n \<and> edge ops points y b \<and> ((y, b) \<in> insert p ps \<or> (b, y) \<in> insert p ps)} =
          insert a {y. y < n \<and> edge ops points y b \<and> ((y, b) \<in> ps \<or> (b, y) \<in> ps)}"
        unfolding upd using ab by auto
      moreover have "a \<notin> {y. y < n \<and> edge ops points y b \<and> ((y, b) \<in> ps \<or> (b, y) \<in> ps)}" using new by auto
      ultimately show ?thesis using True r ab len by simp
    next
      case False
      then show ?thesis unfolding upd using r [OF x] by simp
    qed
  qed (use len in auto)
qed

lemma add_pair_built:
  assumes "built ops points n ps x" "a < n" "b < n" "(a, b) \<notin> ps" "(b, a) \<notin> ps"
  shows "built ops points n (insert (a, b) ps) (add_pair ops points (a, b) x)"
proof -
  obtain succ rp where x: "x = (succ, rp)" by fastforce
  consider "edge ops points a b" | "edge ops points b a" | "\<not> edge ops points a b" "\<not> edge ops points b a" by blast
  then show ?thesis
  proof cases
    case 1
    then show ?thesis using built_edge [of ops points n ps succ rp a b "(a, b)"] assms
      by (simp add: x add_pair_def Let_def edge_def)
  next
    case 2
    then show ?thesis using built_edge [of ops points n ps succ rp b a "(a, b)"] assms
      by (simp add: x add_pair_def Let_def edge_def)
  next
    case 3
    then have "edge ops points u v \<and> ((u, v) \<in> insert (a, b) ps \<or> (v, u) \<in> insert (a, b) ps) \<longleftrightarrow>
        edge ops points u v \<and> ((u, v) \<in> ps \<or> (v, u) \<in> ps)" for u v by auto
    then have "built ops points n (insert (a, b) ps) x" using assms(1) by (simp add: built_def)
    moreover have "add_pair ops points (a, b) x = x" using 3 by (auto simp: x add_pair_def Let_def edge_def)
    ultimately show ?thesis by simp
  qed
qed

lemma fold_add_pair_built:
  assumes "built ops points n qs x" "distinct ps" "\<forall>(a, b) \<in> set ps. a < b \<and> b < n"
    "set ps \<inter> qs = {}" "\<forall>(a, b) \<in> qs. a < b"
  shows "built ops points n (set ps \<union> qs) (fold (add_pair ops points) ps x)"
  using assms
proof (induction ps arbitrary: qs x)
  case (Cons p ps)
  obtain a b where p: "p = (a, b)" by fastforce
  have "built ops points n (insert (a, b) qs) (add_pair ops points (a, b) x)"
    using Cons.prems by (intro add_pair_built) (auto simp: p)
  then have "built ops points n (set ps \<union> insert (a, b) qs) (fold (add_pair ops points) ps (add_pair ops points (a, b) x))"
    using Cons.prems by (intro Cons.IH) (auto simp: p)
  then show ?case by (simp add: p)
qed simp

lemma set_pairs: "set (pairs n) = {(a, b). a < b \<and> b < n}"
  by (force simp: pairs_def)

lemma distinct_concat_pairs:
  "distinct xs \<Longrightarrow> (\<And>a. distinct (f a)) \<Longrightarrow> distinct (concat (map (\<lambda>a. map (\<lambda>b. (a, b)) (f a)) xs))"
  by (induction xs) (auto simp: distinct_map inj_on_def)

lemma search_lists:
  obtains succ rp where "fold (add_pair ops points) (pairs n) (replicate n [], replicate n 0) = (succ, rp)"
    "length succ = n" "length rp = n" "\<And>a. a < n \<Longrightarrow> distinct (succ ! a)"
    "\<And>a. a < n \<Longrightarrow> set (succ ! a) = {b. b < n \<and> edge ops points a b}"
    "\<And>b. b < n \<Longrightarrow> rp ! b = card {a. a < n \<and> edge ops points a b}"
proof -
  have "built ops points n {} (replicate n [], replicate n 0)" by (simp add: built_def)
  then have b: "built ops points n (set (pairs n) \<union> {}) (fold (add_pair ops points) (pairs n) (replicate n [], replicate n 0))"
    by (rule fold_add_pair_built) (auto simp: set_pairs, simp add: pairs_def distinct_concat_pairs)
  obtain succ rp where f: "fold (add_pair ops points) (pairs n) (replicate n [], replicate n 0) = (succ, rp)" by fastforce
  have "(a, b) \<in> set (pairs n) \<or> (b, a) \<in> set (pairs n)" if "a < n" "b < n" "edge ops points a b" for a b
    using that by (cases "a = b") (auto simp: set_pairs)
  then have "{b. b < n \<and> edge ops points a b \<and> ((a, b) \<in> set (pairs n) \<union> {} \<or> (b, a) \<in> set (pairs n) \<union> {})} = {b. b < n \<and> edge ops points a b}"
    "{b. b < n \<and> edge ops points b a \<and> ((b, a) \<in> set (pairs n) \<union> {} \<or> (a, b) \<in> set (pairs n) \<union> {})} = {b. b < n \<and> edge ops points b a}"
    if "a < n" for a using that by blast+
  then show thesis using that [OF f] b unfolding f built_def by simp
qed

text \<open>Resolving a point takes one from the count of each of its successors.\<close>

lemma release_nth:
  "distinct ss \<Longrightarrow> \<forall>s \<in> set ss. s < length rp \<Longrightarrow> i < length rp \<Longrightarrow>
     length (release ss rp) = length rp \<and> release ss rp ! i = (if i \<in> set ss then rp ! i - 1 else rp ! i)"
  unfolding release_def by (induction ss arbitrary: rp) (auto simp: nth_list_update)

subsection \<open>Resolutions\<close>

text \<open>
  A resolution lists points with the decision to place or to skip them.  It is legal from a state
  if only optional points are skipped and every required point observes what the model returns.
\<close>

fun legal :: "LogOp list \<Rightarrow> nat list \<Rightarrow> PointKind list \<Rightarrow> KvState \<Rightarrow> (nat \<times> bool) list \<Rightarrow> bool" where
  "legal ops points kinds st [] = True"
| "legal ops points kinds st ((i, placed) # xs) =
     (if placed then
        (kinds ! i = Optional \<or>
           lo_result (ops ! (points ! i)) = Some (snd (apply_op st (lo_op (ops ! (points ! i)))))) \<and>
        legal ops points kinds (fst (apply_op st (lo_op (ops ! (points ! i))))) xs
      else kinds ! i = Optional \<and> legal ops points kinds st xs)"

text \<open>Every point is resolved after the ones before it, given the ones resolved already.\<close>

fun ordered :: "(nat \<Rightarrow> nat \<Rightarrow> bool) \<Rightarrow> nat set \<Rightarrow> nat list \<Rightarrow> bool" where
  "ordered before done [] = True"
| "ordered before done (i # is) =
     ((\<forall>a. before a i \<longrightarrow> a \<in> done) \<and> ordered before (insert i done) is)"

text \<open>What the search keeps: the resolved points and the counts that belong to them.\<close>

definition dfs_inv :: "LogOp list \<Rightarrow> nat list \<Rightarrow> nat set \<Rightarrow> bool list \<Rightarrow> nat list \<Rightarrow> bool" where
  "dfs_inv ops points R resolved rp \<longleftrightarrow>
     length resolved = length points \<and> length rp = length points \<and>
     R = {i. i < length points \<and> resolved ! i} \<and>
     (\<forall>b < length points. rp ! b = card {a. a < length points \<and> edge ops points a b \<and> a \<notin> R})"

definition resolves :: "LogOp list \<Rightarrow> nat list \<Rightarrow> PointKind list \<Rightarrow> nat set \<Rightarrow> KvState \<Rightarrow> (nat \<times> bool) list \<Rightarrow> bool" where
  "resolves ops points kinds R st xs \<longleftrightarrow>
     distinct (map fst xs) \<and> set (map fst xs) = {..<length points} - R \<and>
     ordered (\<lambda>a b. a < length points \<and> edge ops points a b) R (map fst xs) \<and>
     legal ops points kinds st xs"

lemma dfs_inv_step:
  assumes inv: "dfs_inv ops points R resolved rp" and i: "i < length points" "i \<notin> R"
    and succ: "distinct (succ ! i)" "set (succ ! i) = {b. b < length points \<and> edge ops points i b}"
  shows "dfs_inv ops points (insert i R) (resolved[i := True]) (release (succ ! i) rp)"
proof -
  let ?n = "length points"
  have len: "length resolved = ?n" "length rp = ?n" and R: "R = {i. i < ?n \<and> resolved ! i}"
    and rp: "rp ! b = card {a. a < ?n \<and> edge ops points a b \<and> a \<notin> R}" if "b < ?n" for b
    using inv that by (auto simp: dfs_inv_def)
  have rel: "length (release (succ ! i) rp) = ?n"
    "release (succ ! i) rp ! b = (if edge ops points i b then rp ! b - 1 else rp ! b)" if "b < ?n" for b
    using release_nth [OF succ(1), of rp b] succ(2) len(2) that by auto
  have "release (succ ! i) rp ! b = card {a. a < ?n \<and> edge ops points a b \<and> a \<notin> insert i R}" if b: "b < ?n" for b
  proof (cases "edge ops points i b")
    case True
    let ?A = "{a. a < ?n \<and> edge ops points a b \<and> a \<notin> R}"
    have "{a. a < ?n \<and> edge ops points a b \<and> a \<notin> insert i R} = ?A - {i}" by auto
    moreover have "i \<in> ?A" using True i by simp
    ultimately show ?thesis using True rel(2) [OF b] rp [OF b] by simp
  next
    case False
    then have "{a. a < ?n \<and> edge ops points a b \<and> a \<notin> insert i R} = {a. a < ?n \<and> edge ops points a b \<and> a \<notin> R}" by auto
    then show ?thesis using False rel(2) [OF b] rp [OF b] by simp
  qed
  moreover have "insert i R = {j. j < ?n \<and> resolved[i := True] ! j}"
    using R i len by (auto simp: nth_list_update)
  ultimately show ?thesis using len rel(1) i(1) by (auto simp: dfs_inv_def)
qed

lemma resolves_Cons:
  "resolves ops points kinds R st ((i, placed) # xs) \<longleftrightarrow>
     i < length points \<and> i \<notin> R \<and> (\<forall>a < length points. edge ops points a i \<longrightarrow> a \<in> R) \<and>
     resolves ops points kinds (insert i R)
       (if placed then fst (apply_op st (lo_op (ops ! (points ! i)))) else st) xs \<and>
     (kinds ! i = Optional \<or> placed \<and>
        lo_result (ops ! (points ! i)) = Some (snd (apply_op st (lo_op (ops ! (points ! i))))))"
proof -
  have keys: "i \<notin> fst ` set xs \<and> insert i (fst ` set xs) = {..<length points} - R \<longleftrightarrow>
    i < length points \<and> i \<notin> R \<and> fst ` set xs = {..<length points} - insert i R"
  proof (intro iffI conjI)
    assume a: "i \<notin> fst ` set xs \<and> insert i (fst ` set xs) = {..<length points} - R"
    then have "i \<in> {..<length points} - R" by blast
    then show "i < length points" "i \<notin> R" by auto
    show "fst ` set xs = {..<length points} - insert i R" using a by (metis Diff_insert Diff_insert_absorb)
  next
    assume a: "i < length points \<and> i \<notin> R \<and> fst ` set xs = {..<length points} - insert i R"
    then show "i \<notin> fst ` set xs" "insert i (fst ` set xs) = {..<length points} - R" by auto
  qed
  have "resolves ops points kinds R st ((i, placed) # xs) \<longleftrightarrow>
    (i \<notin> fst ` set xs \<and> insert i (fst ` set xs) = {..<length points} - R) \<and> distinct (map fst xs) \<and>
    (\<forall>a < length points. edge ops points a i \<longrightarrow> a \<in> R) \<and>
    ordered (\<lambda>a b. a < length points \<and> edge ops points a b) (insert i R) (map fst xs) \<and>
    legal ops points kinds st ((i, placed) # xs)"
    unfolding resolves_def by (simp del: legal.simps add: imp_conjL) argo
  also have "\<dots> \<longleftrightarrow> i < length points \<and> i \<notin> R \<and> (\<forall>a < length points. edge ops points a i \<longrightarrow> a \<in> R) \<and>
     (distinct (map fst xs) \<and> fst ` set xs = {..<length points} - insert i R \<and>
      ordered (\<lambda>a b. a < length points \<and> edge ops points a b) (insert i R) (map fst xs)) \<and>
     legal ops points kinds st ((i, placed) # xs)"
    unfolding keys by argo
  finally show ?thesis by (cases placed) (simp_all add: resolves_def conj_ac)
qed

lemma dfs_resolves:
  assumes succ: "\<And>a. a < length points \<Longrightarrow> distinct (succ ! a)"
    "\<And>a. a < length points \<Longrightarrow> set (succ ! a) = {b. b < length points \<and> edge ops points a b}"
  shows "dfs_inv ops points R resolved rp \<Longrightarrow> k = card ({..<length points} - R) \<Longrightarrow>
    dfs k ops points kinds succ resolved rp st \<longleftrightarrow> (\<exists>xs. resolves ops points kinds R st xs)"
proof (induction k arbitrary: R resolved rp st)
  case 0
  then have "resolves ops points kinds R st []" by (auto simp: resolves_def)
  then show ?case by auto
next
  case (Suc k)
  let ?n = "length points" and ?op = "\<lambda>i. lo_op (ops ! (points ! i))"
  have R: "R = {i. i < ?n \<and> resolved ! i}"
    and rp: "rp ! b = card {a. a < ?n \<and> edge ops points a b \<and> a \<notin> R}" if "b < ?n" for b
    using Suc.prems(1) that by (auto simp: dfs_inv_def)
  have free: "resolved ! i \<or> rp ! i \<noteq> 0 \<longleftrightarrow> i \<in> R \<or> \<not> (\<forall>a < ?n. edge ops points a i \<longrightarrow> a \<in> R)" if "i < ?n" for i
    using that rp [OF that] by (auto simp: R)
  have IH: "dfs k ops points kinds succ (resolved[i := True]) (release (succ ! i) rp) st' \<longleftrightarrow>
      (\<exists>xs. resolves ops points kinds (insert i R) st' xs)" if i: "i < ?n" "i \<notin> R" for i st'
  proof (rule Suc.IH)
    show "dfs_inv ops points (insert i R) (resolved[i := True]) (release (succ ! i) rp)"
      using dfs_inv_step Suc.prems(1) i succ by blast
    have "{..<?n} - insert i R = ({..<?n} - R) - {i}" by auto
    then show "k = card ({..<?n} - insert i R)" using Suc.prems(2) i by simp
  qed
  have opt: "kinds ! i \<noteq> Required \<longleftrightarrow> kinds ! i = Optional" for i by (cases "kinds ! i") simp_all
  let ?go = "\<lambda>i st'. dfs k ops points kinds succ (resolved[i := True]) (release (succ ! i) rp) st'"
  have "dfs (Suc k) ops points kinds succ resolved rp st \<longleftrightarrow>
      (\<exists>i. i < ?n \<and> \<not> (resolved ! i \<or> rp ! i \<noteq> 0) \<and>
        ((kinds ! i = Optional \<or> lo_result (ops ! (points ! i)) = Some (snd (apply_op st (?op i)))) \<and>
           ?go i (fst (apply_op st (?op i))) \<or> kinds ! i = Optional \<and> ?go i st))"
    unfolding dfs.simps list_ex_iff Let_def case_prod_unfold observed_matches_def opt
    by (simp add: Bex_def, intro ex_cong1, argo)
  also have "\<dots> \<longleftrightarrow>
      (\<exists>i. i < ?n \<and> (i \<notin> R \<and> (\<forall>a < ?n. edge ops points a i \<longrightarrow> a \<in> R)) \<and>
        ((kinds ! i = Optional \<or> lo_result (ops ! (points ! i)) = Some (snd (apply_op st (?op i)))) \<and>
           (\<exists>xs. resolves ops points kinds (insert i R) (fst (apply_op st (?op i))) xs) \<or>
         kinds ! i = Optional \<and> (\<exists>xs. resolves ops points kinds (insert i R) st xs)))"
  proof (intro ex_cong1 conj_cong refl)
    fix i assume i: "i < ?n"
    show "\<not> (resolved ! i \<or> rp ! i \<noteq> 0) \<longleftrightarrow> i \<notin> R \<and> (\<forall>a < ?n. edge ops points a i \<longrightarrow> a \<in> R)"
      using free [OF i] by blast
    assume "i \<notin> R \<and> (\<forall>a < ?n. edge ops points a i \<longrightarrow> a \<in> R)"
    then show "((kinds ! i = Optional \<or> lo_result (ops ! (points ! i)) = Some (snd (apply_op st (?op i)))) \<and>
           ?go i (fst (apply_op st (?op i))) \<or> kinds ! i = Optional \<and> ?go i st) \<longleftrightarrow>
        ((kinds ! i = Optional \<or> lo_result (ops ! (points ! i)) = Some (snd (apply_op st (?op i)))) \<and>
           (\<exists>xs. resolves ops points kinds (insert i R) (fst (apply_op st (?op i))) xs) \<or>
         kinds ! i = Optional \<and> (\<exists>xs. resolves ops points kinds (insert i R) st xs))"
      using IH [OF i] by presburger
  qed
  also have "\<dots> \<longleftrightarrow> (\<exists>i placed xs. resolves ops points kinds R st ((i, placed) # xs))"
    unfolding resolves_Cons by (intro ex_cong1, simp add: ex_bool_eq, argo)
  also have "\<dots> \<longleftrightarrow> (\<exists>xs. resolves ops points kinds R st xs)"
  proof
    assume "\<exists>xs. resolves ops points kinds R st xs"
    then obtain xs where xs: "resolves ops points kinds R st xs" ..
    have "{..<?n} - R \<noteq> {}" using Suc.prems(2) by (metis card.empty nat.distinct(1))
    then have "xs \<noteq> []" using xs by (auto simp: resolves_def)
    then show "\<exists>i placed xs. resolves ops points kinds R st ((i, placed) # xs)"
      using xs by (cases xs) auto
  qed blast
  finally show ?case .
qed

lemma search_resolves:
  "search ops points kinds initial \<longleftrightarrow> (\<exists>xs. resolves ops points kinds {} initial xs)"
proof -
  let ?n = "length points"
  obtain succ rp where l: "fold (add_pair ops points) (pairs ?n) (replicate ?n [], replicate ?n 0) = (succ, rp)"
    "length succ = ?n" "length rp = ?n" "\<And>a. a < ?n \<Longrightarrow> distinct (succ ! a)"
    "\<And>a. a < ?n \<Longrightarrow> set (succ ! a) = {b. b < ?n \<and> edge ops points a b}"
    "\<And>b. b < ?n \<Longrightarrow> rp ! b = card {a. a < ?n \<and> edge ops points a b}"
    by (rule search_lists [of ops points ?n]) blast
  have inv: "dfs_inv ops points {} (replicate ?n False) rp" using l by (auto simp: dfs_inv_def)
  show ?thesis
    using dfs_resolves [of points succ ops "{}" "replicate ?n False" rp ?n kinds initial] l inv
    by (simp add: search_def)
qed

subsection \<open>Linearizability\<close>

text \<open>A sequential execution in which every operation that succeeded observes the model's result.\<close>

fun legal_run :: "KvState \<Rightarrow> LogOp list \<Rightarrow> bool" where
  "legal_run st [] = True"
| "legal_run st (l # ls) =
     ((is_linearization_point l \<longrightarrow> lo_result l = Some (snd (apply_op st (lo_op l)))) \<and>
      legal_run (fst (apply_op st (lo_op l))) ls)"

text \<open>
  A linearization of some of the operations: an order of a selection of them that has every
  operation that succeeded, in which no operation comes after one that begins only when it has
  ended, and which is a sequential execution.
\<close>

definition linearization :: "LogOp list \<Rightarrow> nat list \<Rightarrow> KvState \<Rightarrow> nat list \<Rightarrow> bool" where
  "linearization ops points initial ord \<longleftrightarrow>
     distinct ord \<and> set ord \<subseteq> set points \<and>
     (\<forall>p \<in> set points. is_linearization_point (ops ! p) \<longrightarrow> p \<in> set ord) \<and>
     sorted_wrt (\<lambda>p q. \<not> ends_before (ops ! q) (ops ! p)) ord \<and>
     legal_run initial (map (\<lambda>p. ops ! p) ord)"

text \<open>An operation ends after it begins.\<close>

definition timed :: "LogOp \<Rightarrow> bool" where
  "timed l \<longleftrightarrow> (case lo_complete_ts l of Some c \<Rightarrow> lo_invoke_ts l < c | None \<Rightarrow> True)"

lemma ends_before_invoke: "timed a \<Longrightarrow> ends_before a b \<Longrightarrow> lo_invoke_ts a < lo_invoke_ts b"
  by (auto simp: ends_before_def timed_def split: option.splits)

lemma ends_before_trans: "timed b \<Longrightarrow> ends_before a b \<Longrightarrow> ends_before b c \<Longrightarrow> ends_before a c"
  by (auto simp: ends_before_def timed_def split: option.splits)

lemma edge_timed:
  assumes "timed (ops ! (points ! a))" "timed (ops ! (points ! b))"
  shows "edge ops points a b \<longleftrightarrow> ends_before (ops ! (points ! a)) (ops ! (points ! b))"
  using ends_before_invoke [OF assms(1)] ends_before_invoke [OF assms(2)] unfolding edge_def by fastforce

lemma edge_trans:
  assumes "timed (ops ! (points ! a))" "timed (ops ! (points ! b))" "timed (ops ! (points ! c))"
    "edge ops points a b" "edge ops points b c"
  shows "edge ops points a c"
proof -
  have "ends_before (ops ! (points ! a)) (ops ! (points ! b))" "ends_before (ops ! (points ! b)) (ops ! (points ! c))"
    using assms(4,5) by (simp_all add: edge_def)
  then show ?thesis using ends_before_trans [OF assms(2)] by (simp add: edge_timed [OF assms(1,3)])
qed

lemma ordered_sorted:
  "ordered before D ks \<Longrightarrow> distinct ks \<Longrightarrow> set ks \<inter> D = {} \<Longrightarrow> sorted_wrt (\<lambda>a b. \<not> before b a) ks"
  by (induction ks arbitrary: D) auto

lemma legal_placed:
  assumes "\<And>i. i < length points \<Longrightarrow> kinds ! i = kind_of (ops ! (points ! i))"
  shows "legal ops points kinds st xs \<Longrightarrow> set (map fst xs) \<subseteq> {..<length points} \<Longrightarrow>
    legal_run st (map (\<lambda>i. ops ! (points ! i)) (map fst (filter snd xs))) \<and>
    (\<forall>(i, p) \<in> set xs. is_linearization_point (ops ! (points ! i)) \<longrightarrow> p)"
proof (induction xs arbitrary: st)
  case (Cons x xs)
  obtain i p where x: "x = (i, p)" by fastforce
  have k: "kinds ! i = kind_of (ops ! (points ! i))" using assms Cons.prems(2) x by auto
  have "set (map fst xs) \<subseteq> {..<length points}" using Cons.prems(2) by simp
  note IH = Cons.IH [OF _ this]
  define st' where "st' = (if p then fst (apply_op st (lo_op (ops ! (points ! i)))) else st)"
  have l: "legal ops points kinds st' xs" "p \<or> \<not> is_linearization_point (ops ! (points ! i))"
    "p \<and> is_linearization_point (ops ! (points ! i)) \<longrightarrow>
       lo_result (ops ! (points ! i)) = Some (snd (apply_op st (lo_op (ops ! (points ! i)))))"
    using Cons.prems(1) k by (auto simp: x st'_def kind_of_def split: if_splits)
  show ?case using IH [OF l(1)] l(2,3) by (simp add: x st'_def split: if_splits)
qed simp

text \<open>A run of all the selected operations, with the others skipped.\<close>

lemma legal_run_legal:
  assumes "\<And>i. i \<in> set js \<Longrightarrow> kinds ! i = kind_of (ops ! (points ! i))"
    "legal_run st (map (\<lambda>i. ops ! (points ! i)) js)"
  shows "legal ops points kinds st (map (\<lambda>i. (i, True)) js)"
  using assms by (induction js arbitrary: st) (auto simp: kind_of_def)

lemma minimal_unresolved:
  assumes "\<And>i. i < length points \<Longrightarrow> timed (ops ! (points ! i))" "A \<noteq> {}" "A \<subseteq> {..<length points}"
  obtains a where "a \<in> A" "\<And>b. b \<in> A \<Longrightarrow> \<not> edge ops points b a"
proof -
  let ?t = "\<lambda>i. unat (lo_invoke_ts (ops ! (points ! i)))"
  have fin: "finite A" using assms(3) finite_subset by blast
  have "Min (?t ` A) \<in> ?t ` A" using fin assms(2) by simp
  then obtain a where "a \<in> A" "?t a = Min (?t ` A)" by force
  with fin have a: "a \<in> A" "\<forall>b \<in> A. ?t a \<le> ?t b" by simp_all
  show thesis
  proof (rule that [OF a(1)])
    fix b assume "b \<in> A"
    then have "\<not> lo_invoke_ts (ops ! (points ! b)) < lo_invoke_ts (ops ! (points ! a))"
      using a(2) by (auto simp: word_less_nat_alt)
    then show "\<not> edge ops points b a"
      using ends_before_invoke assms(1,3) \<open>b \<in> A\<close> unfolding edge_def by (meson lessThan_iff subsetD)
  qed
qed

lemma complete_resolution:
  assumes timed: "\<And>i. i < length points \<Longrightarrow> timed (ops ! (points ! i))"
  shows "k = card ({..<length points} - R) \<Longrightarrow> distinct js \<Longrightarrow> set js \<subseteq> {..<length points} - R \<Longrightarrow>
    (\<forall>i < length points. i \<notin> R \<longrightarrow> kinds ! i = Required \<longrightarrow> i \<in> set js) \<Longrightarrow>
    sorted_wrt (\<lambda>a b. \<not> edge ops points b a) js \<Longrightarrow>
    legal ops points kinds st (map (\<lambda>i. (i, True)) js) \<Longrightarrow> \<exists>xs. resolves ops points kinds R st xs"
proof (induction k arbitrary: R js st)
  case 0
  then have "resolves ops points kinds R st []" by (auto simp: resolves_def)
  then show ?case by blast
next
  case (Suc k)
  let ?n = "length points"
  have card: "k = card ({..<?n} - insert i R)" if "i < ?n" "i \<notin> R" for i
  proof -
    have "{..<?n} - insert i R = ({..<?n} - R) - {i}" by auto
    then show ?thesis using Suc.prems(1) that by simp
  qed
  let ?ready = "\<lambda>i. \<forall>a < ?n. edge ops points a i \<longrightarrow> a \<in> R"
  show ?case
  proof (cases "\<exists>i < ?n. i \<notin> R \<and> i \<notin> set js \<and> ?ready i")
    case True
    then obtain i where i: "i < ?n" "i \<notin> R" "i \<notin> set js" "?ready i" by blast
    have "\<exists>xs. resolves ops points kinds (insert i R) st xs"
      using Suc.prems i by (intro Suc.IH [OF card]) auto
    then obtain xs where xs: "resolves ops points kinds (insert i R) st xs" ..
    have "kinds ! i = Optional" using Suc.prems(4) i by (cases "kinds ! i") auto
    then have "resolves ops points kinds R st ((i, False) # xs)"
      unfolding resolves_Cons using i xs by simp
    then show ?thesis by blast
  next
    case False
    then have stuck: "\<not> ?ready i" if "i < ?n" "i \<notin> R" "i \<notin> set js" for i using that by blast
    have below: "\<exists>a \<in> set js. edge ops points a i" if i: "i < ?n" "i \<notin> R" "i \<notin> set js" for i
      using i
    proof (induction "unat (lo_invoke_ts (ops ! (points ! i)))" arbitrary: i rule: less_induct)
      case less
      obtain a where a: "a < ?n" "edge ops points a i" "a \<notin> R" using stuck less.prems by blast
      show ?case
      proof (cases "a \<in> set js")
        case False
        have "unat (lo_invoke_ts (ops ! (points ! a))) < unat (lo_invoke_ts (ops ! (points ! i)))"
          using a(2) ends_before_invoke timed [OF a(1)] by (simp add: edge_def word_less_nat_alt)
        then obtain c where c: "c \<in> set js" "edge ops points c a" using less.hyps a False by blast
        have "c < ?n" using Suc.prems(3) c(1) by auto
        then have "edge ops points c i"
          by (rule edge_trans [OF timed timed timed c(2) a(2)]) (use a(1) less.prems(1) in auto)
        then show ?thesis using c(1) by blast
      qed (use a in blast)
    qed
    have "js \<noteq> []"
    proof
      assume "js = []"
      moreover have "{..<?n} - R \<noteq> {}" using Suc.prems(1) by (metis card.empty nat.distinct(1))
      ultimately show False using below by auto
    qed
    then obtain j js' where js: "js = j # js'" by (cases js) auto
    have j: "j < ?n" "j \<notin> R" using Suc.prems(3) js by auto
    have notbefore: "\<not> edge ops points a j" if "a \<in> set js" for a using Suc.prems(5) that js by auto
    have ready: "?ready j"
    proof (intro allI impI)
      fix a assume a: "a < ?n" "edge ops points a j"
      show "a \<in> R"
      proof (rule ccontr)
        assume "a \<notin> R"
        moreover have "a \<notin> set js" using notbefore a(2) by blast
        ultimately obtain c where c: "c \<in> set js" "edge ops points c a" using below a(1) by blast
        then have "c < ?n" using Suc.prems(3) by auto
        then have "edge ops points c j" by (rule edge_trans [OF timed timed timed c(2) a(2)]) (use a(1) j(1) in auto)
        then show False using notbefore c(1) by blast
      qed
    qed
    let ?st = "fst (apply_op st (lo_op (ops ! (points ! j))))"
    have "\<exists>xs. resolves ops points kinds (insert j R) ?st xs"
      using Suc.prems js by (intro Suc.IH [OF card [OF j], of js']) auto
    then obtain xs where "resolves ops points kinds (insert j R) ?st xs" ..
    then have "resolves ops points kinds R st ((j, True) # xs)"
      unfolding resolves_Cons using j ready Suc.prems(6) js by simp
    then show ?thesis by blast
  qed
qed

lemma search_sound:
  assumes "search ops points (map (\<lambda>p. kind_of (ops ! p)) points) initial" "distinct points"
    "\<forall>p \<in> set points. timed (ops ! p)"
  shows "\<exists>ord. linearization ops points initial ord"
proof -
  let ?n = "length points"
  obtain xs where xs: "resolves ops points (map (\<lambda>p. kind_of (ops ! p)) points) {} initial xs"
    using assms(1) search_resolves by blast
  then have d: "distinct (map fst xs)" "set (map fst xs) = {..<?n}" by (auto simp: resolves_def)
  let ?js = "map fst (filter snd xs)"
  have l: "legal_run initial (map (\<lambda>i. ops ! (points ! i)) ?js)"
    "\<forall>(i, p) \<in> set xs. is_linearization_point (ops ! (points ! i)) \<longrightarrow> p"
    using legal_placed [of points "map (\<lambda>p. kind_of (ops ! p)) points" ops initial xs] xs d by (auto simp: resolves_def)
  have sub: "set ?js \<subseteq> {..<?n}" using d(2) by auto
  have dj: "distinct ?js" using d(1) by (simp add: distinct_map_filter)
  have "sorted_wrt (\<lambda>a b. \<not> (b < ?n \<and> edge ops points b a)) (map fst xs)"
    using xs by (intro ordered_sorted) (auto simp: resolves_def)
  then have "sorted_wrt (\<lambda>a b. \<not> (b < ?n \<and> edge ops points b a)) ?js"
    by (simp add: sorted_wrt_map sorted_wrt_filter)
  then have "sorted_wrt (\<lambda>a b. \<not> ends_before (ops ! (points ! b)) (ops ! (points ! a))) ?js"
    using sub edge_timed [of ops points] assms(3) by (auto elim!: sorted_wrt_mono_rel [rotated] simp: subset_iff)
  then have "sorted_wrt (\<lambda>p q. \<not> ends_before (ops ! q) (ops ! p)) (map (\<lambda>i. points ! i) ?js)"
    by (simp add: sorted_wrt_map)
  moreover have "distinct (map (\<lambda>i. points ! i) ?js)"
    unfolding distinct_map [of "\<lambda>i. points ! i"] using dj sub [THEN subsetD] assms(2) by (intro conjI inj_on_nth ballI) blast+
  moreover have "set (map (\<lambda>i. points ! i) ?js) \<subseteq> set points" using sub by auto
  moreover have "p \<in> set (map (\<lambda>i. points ! i) ?js)" if p: "p \<in> set points" "is_linearization_point (ops ! p)" for p
  proof -
    obtain i where i: "i < ?n" "points ! i = p" using p(1) by (auto simp: in_set_conv_nth)
    then have "i \<in> fst ` set xs" using d(2) by simp
    then obtain b where b: "(i, b) \<in> set xs" by force
    then have "b" using l(2) i(2) p(2) by auto
    then have "(i, True) \<in> set (filter snd xs)" using b by simp
    then have "i \<in> set ?js" by force
    then show ?thesis using i(2) by auto
  qed
  ultimately have "linearization ops points initial (map (\<lambda>i. points ! i) ?js)"
    using l(1) by (simp add: linearization_def comp_def)
  then show ?thesis by blast
qed

lemma search_complete:
  assumes "linearization ops points initial ord" "distinct points" "\<forall>p \<in> set points. timed (ops ! p)"
  shows "search ops points (map (\<lambda>p. kind_of (ops ! p)) points) initial"
proof -
  let ?n = "length points" and ?kinds = "map (\<lambda>p. kind_of (ops ! p)) points"
  have o: "distinct ord" "set ord \<subseteq> set points" "\<forall>p \<in> set points. is_linearization_point (ops ! p) \<longrightarrow> p \<in> set ord"
    "sorted_wrt (\<lambda>p q. \<not> ends_before (ops ! q) (ops ! p)) ord" "legal_run initial (map (\<lambda>p. ops ! p) ord)"
    using assms(1) by (auto simp: linearization_def)
  have "\<forall>p \<in> set ord. \<exists>i < ?n. points ! i = p" using o(2) by (auto simp: in_set_conv_nth)
  then obtain f where f: "\<And>p. p \<in> set ord \<Longrightarrow> f p < ?n \<and> points ! f p = p" by metis
  let ?js = "map f ord"
  have bk: "map (\<lambda>i. points ! i) ?js = ord" using f by (simp add: map_idI)
  have "sorted_wrt (\<lambda>a b. \<not> ends_before (ops ! (points ! b)) (ops ! (points ! a))) ?js"
    unfolding sorted_wrt_map by (rule sorted_wrt_mono_rel [OF _ o(4)]) (use f in auto)
  then have "sorted_wrt (\<lambda>a b. \<not> edge ops points b a) ?js"
    by (rule sorted_wrt_mono_rel [rotated]) (simp add: edge_def)
  moreover have "distinct ?js" using o(1) bk distinct_map by metis
  moreover have "set ?js \<subseteq> {..<?n} - {}" using f by auto
  moreover have "i \<in> set ?js" if i: "i < ?n" "?kinds ! i = Required" for i
  proof -
    have "is_linearization_point (ops ! (points ! i))" using i by (simp add: kind_of_def split: if_splits)
    then have m: "points ! i \<in> set ord" using o(3) i(1) by simp
    have "f (points ! i) = i" using f [OF m] assms(2) i(1) nth_eq_iff_index_eq by blast
    then show ?thesis using m by force
  qed
  moreover have "legal_run initial (map (\<lambda>i. ops ! (points ! i)) ?js)"
  proof -
    have "map (\<lambda>i. ops ! (points ! i)) ?js = map (\<lambda>p. ops ! p) ord" using f by simp
    then show ?thesis using o(5) by metis
  qed
  then have "legal ops points ?kinds initial (map (\<lambda>i. (i, True)) ?js)"
    using f by (intro legal_run_legal) auto
  ultimately show ?thesis
    unfolding search_resolves using assms(3)
    by (intro complete_resolution [of points ops ?n "{}" ?js ?kinds initial]) auto
qed

lemma search_iff:
  assumes "distinct points" "\<forall>p \<in> set points. timed (ops ! p)"
  shows "search ops points (map (\<lambda>p. kind_of (ops ! p)) points) initial \<longleftrightarrow> (\<exists>ord. linearization ops points initial ord)"
  using search_sound [OF _ assms] search_complete [OF _ assms] by blast

lemma subseq_remove_at: "subseq (remove_at i xs) xs"
  unfolding remove_at_def by (induction xs arbitrary: i) (auto simp: take_Cons drop_Cons split: nat.splits)

lemma shrink_from_violation:
  assumes "\<not> search ops keep (map (\<lambda>p. kind_of (ops ! p)) keep) initial" "shrink_from ops initial keep i = w"
  shows "\<not> search ops w (map (\<lambda>p. kind_of (ops ! p)) w) initial \<and> subseq w keep"
  using assms
proof (induction ops initial keep i rule: shrink_from.induct)
  case (1 ops initial keep i)
  let ?t = "remove_at i keep"
  consider "\<not> i < length keep"
    | "i < length keep" "search ops ?t (map (\<lambda>p. kind_of (ops ! p)) ?t) initial"
    | "i < length keep" "\<not> search ops ?t (map (\<lambda>p. kind_of (ops ! p)) ?t) initial" by blast
  then show ?case
  proof cases
    case 1
    then show ?thesis using "1.prems" by (simp add: shrink_from.simps [of ops initial keep])
  next
    case 2
    then have "shrink_from ops initial keep (Suc i) = w"
      using "1.prems"(2) by (simp add: shrink_from.simps [of ops initial keep i] Let_def)
    then show ?thesis using "1.IH"(1) [OF 2(1) refl 2(2) "1.prems"(1)] by blast
  next
    case 3
    then have "shrink_from ops initial ?t i = w"
      using "1.prems"(2) by (simp add: shrink_from.simps [of ops initial keep i] Let_def)
    then show ?thesis using "1.IH"(2) [OF 3(1) refl 3(2) 3(2)] subseq_remove_at subseq_order.trans by blast
  qed
qed

lemma subseq_props: "subseq xs ys \<Longrightarrow> set xs \<subseteq> set ys \<and> (distinct ys \<longrightarrow> distinct xs)"
  by (induction rule: list_emb.induct) auto

lemma points_of_simps: "distinct (points_of ops)" "\<forall>p \<in> set (points_of ops). p < length ops"
  by (auto simp: points_of_def)

subsection \<open>Reads and puts\<close>

definition run_ops :: "KvState \<Rightarrow> LogOp list \<Rightarrow> KvState" where
  "run_ops st ls = foldl (\<lambda>st l. fst (apply_op st (lo_op l))) st ls"

lemma legal_run_append: "legal_run st (xs @ ys) \<longleftrightarrow> legal_run st xs \<and> legal_run (run_ops st xs) ys"
  by (induction xs arbitrary: st) (simp_all add: run_ops_def)

lemma run_ops_wf: "bt_wf st \<Longrightarrow> bt_wf (run_ops st ls)"
proof (induction ls arbitrary: st)
  case (Cons l ls)
  then show ?case by (cases "lo_op l") (simp_all add: run_ops_def)
qed (simp add: run_ops_def)

text \<open>A value in the model comes from the last write of its key.\<close>

lemma value_from_put:
  assumes "bt_wf st" "bt_get st key = None" "bt_get (run_ops st ls) key = Some v"
  shows "\<exists>X p Y. ls = X @ p # Y \<and> lo_op p = Put key v \<and> (\<forall>l \<in> set Y. lo_op l \<noteq> Delete key)"
  using assms(3)
proof (induction ls rule: rev_induct)
  case Nil
  then show ?case using assms(2) by (simp add: run_ops_def)
next
  case (snoc l ls)
  have step: "run_ops st (ls @ [l]) = fst (apply_op (run_ops st ls) (lo_op l))" by (simp add: run_ops_def)
  have wf: "bt_wf (run_ops st ls)" using run_ops_wf [OF assms(1)] .
  show ?case
  proof (cases "lo_op l = Put key v")
    case True
    then show ?thesis by fastforce
  next
    case False
    then have "bt_get (run_ops st ls) key = Some v \<and> lo_op l \<noteq> Delete key"
      using snoc.prems [unfolded step] bt_get_remove [OF wf]
      by (cases "lo_op l") (simp_all split: if_splits)
    then have nd: "lo_op l \<noteq> Delete key" and v: "bt_get (run_ops st ls) key = Some v" by simp_all
    from snoc.IH [OF v] obtain X p Y where "ls = X @ p # Y" "lo_op p = Put key v" "\<forall>l \<in> set Y. lo_op l \<noteq> Delete key"
      by blast
    with nd have "ls @ [l] = X @ p # (Y @ [l]) \<and> lo_op p = Put key v \<and>
      (\<forall>l \<in> set (Y @ [l]). lo_op l \<noteq> Delete key)" by auto
    then show ?thesis by blast
  qed
qed

lemma lin_point_applied:
  assumes "is_linearization_point l"
  shows "may_have_applied l"
proof -
  obtain r where r: "lo_result l = Some r" "result_is_ok r"
    using assms by (cases "lo_result l") (simp_all add: is_linearization_point_def)
  then show ?thesis by (cases r) (simp_all add: may_have_applied_def is_known_not_applied_def)
qed

lemma point_may_have_applied:
  assumes "p \<in> set (points_of ops)"
  shows "may_have_applied (ops ! p)"
proof -
  have "is_linearization_point (ops ! p) \<or> is_optional_write_point (ops ! p)" using assms by (simp add: points_of_def)
  then show ?thesis using lin_point_applied by (auto simp only: may_have_applied_def is_optional_write_point_def)
qed

lemma lin_point_listed: "k < length ops \<Longrightarrow> is_linearization_point (ops ! k) \<Longrightarrow> k \<in> set (points_of ops)"
  by (simp add: points_of_def)

lemma linearized_read_explained:
  assumes lin: "linearization ops (points_of ops) [] ord" and g: "g < length ops" "lo_op (ops ! g) = Get key"
    "lo_result (ops ! g) = Some (Ok (Some v))" "lo_complete_ts (ops ! g) = Some c"
  shows "\<exists>q \<in> set ord. ops ! q \<in> set (phantom_candidates ops key v c) \<and> \<not> deleted_between ops key (ops ! q) (ops ! g)"
proof -
  have o: "distinct ord" "set ord \<subseteq> set (points_of ops)"
    "\<And>p. p \<in> set (points_of ops) \<Longrightarrow> is_linearization_point (ops ! p) \<Longrightarrow> p \<in> set ord"
    "sorted_wrt (\<lambda>p q. \<not> ends_before (ops ! q) (ops ! p)) ord" "legal_run [] (map (\<lambda>p. ops ! p) ord)"
    using lin by (auto simp: linearization_def)
  have gl: "is_linearization_point (ops ! g)" using g by (simp add: is_linearization_point_def)
  then have "g \<in> set ord" using o(3) lin_point_listed g(1) by blast
  then obtain A B where ord: "ord = A @ g # B" by (meson split_list)
  have "bt_get (run_ops [] (map (\<lambda>p. ops ! p) A)) key = Some v"
    using o(5) gl g by (simp add: ord legal_run_append)
  from value_from_put [OF bt_wf_simps(1) bt_get.simps(1) this]
  obtain X p Y where A: "map (\<lambda>p. ops ! p) A = X @ p # Y" "lo_op p = Put key v" "\<forall>l \<in> set Y. lo_op l \<noteq> Delete key"
    by blast
  from A(1) obtain X' Q where Q: "A = X' @ Q" "map (\<lambda>p. ops ! p) Q = p # Y" by (auto simp: map_eq_append_conv)
  from Q(2) obtain q Y' where "Q = q # Y'" "p = ops ! q" "Y = map (\<lambda>p. ops ! p) Y'" by (cases Q) auto
  with Q(1) have A': "A = X' @ q # Y'" "p = ops ! q" "Y = map (\<lambda>p. ops ! p) Y'" by simp_all
  have "q \<in> set ord" using ord A'(1) by simp
  then have q: "q \<in> set (points_of ops)" "q < length ops" using o(2) points_of_simps(2) by blast+
  have s: "\<forall>x \<in> set X'. \<not> ends_before (ops ! q) (ops ! x)" "\<forall>x \<in> set B. \<not> ends_before (ops ! x) (ops ! g)"
    and "\<not> ends_before (ops ! g) (ops ! q)" using o(4) by (simp_all add: ord A'(1) sorted_wrt_append)
  then have "lo_invoke_ts (ops ! q) < c" using g(4) by (simp add: ends_before_def)
  then have cand: "ops ! q \<in> set (phantom_candidates ops key v c)"
    using A(2) A'(2) q point_may_have_applied [OF q(1)] by (simp add: phantom_candidates_def)
  have "\<not> deleted_between ops key (ops ! q) (ops ! g)"
  proof
    assume "deleted_between ops key (ops ! q) (ops ! g)"
    then obtain d where d: "d < length ops" "lo_op (ops ! d) = Delete key" "is_linearization_point (ops ! d)"
      "ends_before (ops ! q) (ops ! d)" "ends_before (ops ! d) (ops ! g)"
      by (auto simp: deleted_between_def list_ex_iff in_set_conv_nth ends_before_def)
    have "d \<in> set ord" using o(3) lin_point_listed d by blast
    moreover have "d \<noteq> q" "d \<noteq> g" using d(2) g(2) A(2) A'(2) by auto
    ultimately consider "d \<in> set X'" | "d \<in> set Y'" | "d \<in> set B" using ord A'(1) by auto
    then show False
    proof cases
      case 1
      then show False using s(1) d(4) by blast
    next
      case 2
      then have "ops ! d \<in> set Y" using A'(3) by simp
      then show False using A(3) d(2) by blast
    next
      case 3
      then show False using s(2) d(5) by blast
    qed
  qed
  then show ?thesis using cand \<open>q \<in> set ord\<close> by blast
qed

text \<open>Without another write of its key a value stays.\<close>

lemma value_stays:
  assumes "bt_wf st" "bt_get st key = Some v"
    and "\<forall>l \<in> set ls. is_write_op l \<longrightarrow> op_key (lo_op l) \<noteq> key"
  shows "bt_get (run_ops st ls) key = Some v"
  using assms
proof (induction ls arbitrary: st)
  case (Cons l ls)
  let ?st = "fst (apply_op st (lo_op l))"
  have "bt_wf ?st \<and> bt_get ?st key = Some v"
    using Cons.prems bt_get_remove [OF Cons.prems(1)] by (cases "lo_op l") (auto simp: is_write_op_def)
  then show ?case using Cons.IH [of ?st] Cons.prems(3) by (simp add: run_ops_def)
qed (simp add: run_ops_def)

lemma no_linearization_with_late_write:
  assumes init: "bt_wf initial" "bt_get initial key = None"
    and put: "lo_op (ops ! w) = Put key v"
    and only: "\<forall>l < length ops. l \<noteq> w \<longrightarrow> is_write_op (ops ! l) \<longrightarrow> op_key (lo_op (ops ! l)) \<noteq> key"
    and miss: "a < length ops" "lo_op (ops ! a) = Get key" "lo_result (ops ! a) = Some (Ok None)"
      "lo_complete_ts (ops ! a) \<noteq> None" "ends_before (ops ! w) (ops ! a)"
    and hit: "b < length ops" "lo_op (ops ! b) = Get key" "lo_result (ops ! b) = Some (Ok (Some v))"
      "lo_complete_ts (ops ! b) \<noteq> None"
  shows "\<nexists>ord. linearization ops (points_of ops) initial ord"
proof
  assume "\<exists>ord. linearization ops (points_of ops) initial ord"
  then obtain ord where o: "distinct ord" "set ord \<subseteq> set (points_of ops)"
    "\<forall>p \<in> set (points_of ops). is_linearization_point (ops ! p) \<longrightarrow> p \<in> set ord"
    "sorted_wrt (\<lambda>p q. \<not> ends_before (ops ! q) (ops ! p)) ord" "legal_run initial (map (\<lambda>p. ops ! p) ord)"
    by (auto simp: linearization_def)
  have pts: "is_linearization_point (ops ! a)" "is_linearization_point (ops ! b)"
    using miss hit by (simp_all add: is_linearization_point_def)
  then have in_ord: "a \<in> set ord" "b \<in> set ord" using o(3) lin_point_listed miss(1) hit(1) by blast+
  have len: "p < length ops" if "p \<in> set ord" for p using that o(2) points_of_simps(2) by blast
  have reads: "bt_get (run_ops initial (map (\<lambda>p. ops ! p) A)) key = r"
    if "ord = A @ g # B" "is_linearization_point (ops ! g)" "lo_op (ops ! g) = Get key" "lo_result (ops ! g) = Some (Ok r)" for A g B r
    using o(5) that by (simp add: legal_run_append)
  obtain A B where ord: "ord = A @ b # B" using in_ord(2) by (meson split_list)
  have "w \<in> set ord"
  proof -
    from value_from_put [OF init reads [OF ord pts(2) hit(2,3)]] obtain p where
      "p \<in> set (map (\<lambda>p. ops ! p) A)" "lo_op p = Put key v" by fastforce
    then obtain q where "q \<in> set A" "lo_op (ops ! q) = Put key v" by auto
    then show ?thesis using only len [of q] ord by (auto simp: is_write_op_def)
  qed
  moreover have "w \<noteq> a" using put miss(2) by auto
  moreover have "\<not> ends_before (ops ! w) (ops ! a)" if "ord = X @ a # Y" "w \<in> set Y" for X Y
    using o(4) that by (auto simp: sorted_wrt_append)
  ultimately obtain X Y where split: "ord = X @ a # Y" "w \<in> set X"
    using in_ord(1) miss(5) by (metis UnE set_ConsD set_append split_list)
  then obtain X1 X2 where X: "X = X1 @ w # X2" by (meson split_list)
  let ?st = "run_ops initial (map (\<lambda>p. ops ! p) (X1 @ [w]))"
  have "bt_get ?st key = Some v" by (simp add: run_ops_def put)
  moreover have "\<forall>l \<in> set (map (\<lambda>p. ops ! p) X2). is_write_op l \<longrightarrow> op_key (lo_op l) \<noteq> key"
    using only o(1) len split(1) X by auto
  ultimately have "bt_get (run_ops ?st (map (\<lambda>p. ops ! p) X2)) key = Some v"
    using value_stays run_ops_wf [OF init(1)] by blast
  then show False using reads [OF split(1) pts(1) miss(2,3)] by (simp add: X run_ops_def)
qed

subsection \<open>Properties\<close>

text \<open>
  C8: the checker decides linearizability.  For operations that end after they begin, the verdict
  \<open>Linearizable\<close> means that a linearization exists, \<open>Violation\<close> means that none exists and that
  the reported calls are those of a sub-history without a linearization, and \<open>Inconclusive\<close> is
  only returned above the limit of twelve points.
\<close>

theorem checker_decides_linearizability:
  assumes "\<forall>l \<in> set ops. timed l"
  shows "case check_reduced ops initial of
      Linearizable \<Rightarrow> \<exists>ord. linearization ops (points_of ops) initial ord
    | Violation calls \<Rightarrow> (\<nexists>ord. linearization ops (points_of ops) initial ord) \<and>
        (\<exists>keep. subseq keep (points_of ops) \<and> calls = concat (map (\<lambda>p. lo_calls (ops ! p)) keep) \<and>
           (\<nexists>ord. linearization ops keep initial ord))
    | Inconclusive n \<Rightarrow> n = length (points_of ops) \<and> MAX_CHECK_POINTS < n"
proof -
  let ?ps = "points_of ops"
  have timed: "\<forall>p \<in> set ps. timed (ops ! p)" if "set ps \<subseteq> set ?ps" for ps
    using that points_of_simps(2) assms by (meson nth_mem subsetD)
  note iff = search_iff [OF points_of_simps(1) timed [OF order_refl]]
  show ?thesis
  proof (cases "?ps = []")
    case True
    then have "linearization ops ?ps initial []" by (simp add: linearization_def)
    then show ?thesis using True by (auto simp: check_reduced_def)
  next
    case ne: False
    show ?thesis
    proof (cases "length ?ps > MAX_CHECK_POINTS \<or> search ops ?ps (map (\<lambda>p. kind_of (ops ! p)) ?ps) initial")
      case True
      then show ?thesis using ne iff by (auto simp: check_reduced_def Let_def)
    next
      case False
      define keep where "keep = shrink_from ops initial ?ps 0"
      have k: "\<not> search ops keep (map (\<lambda>p. kind_of (ops ! p)) keep) initial" "subseq keep ?ps"
        using shrink_from_violation [of ops ?ps initial 0 keep] False keep_def by blast+
      then have sub: "set keep \<subseteq> set ?ps" "distinct keep"
        using subseq_props [OF k(2)] points_of_simps(1) by blast+
      have "\<nexists>ord. linearization ops keep initial ord" using k(1) search_iff [OF sub(2) timed [OF sub(1)]] by blast
      then show ?thesis using False ne iff k(2)
        by (auto simp: check_reduced_def Let_def shrink_witness_def keep_def)
    qed
  qed
qed

theorem checker_decides_linearizability_witness:
  "let put = \<lparr>lo_client = 0, lo_seq = 0, lo_op = Put [107] 5, lo_invoke_ts = 0, lo_complete_ts = Some 10,
         lo_result = Some (Ok None), lo_log_ids = [], lo_calls = [1]\<rparr>;
       get = (\<lambda>r. \<lparr>lo_client = 1, lo_seq = 0, lo_op = Get [107], lo_invoke_ts = 20, lo_complete_ts = Some 30,
         lo_result = Some (Ok r), lo_log_ids = [], lo_calls = [2]\<rparr>)
   in check_reduced [put, get (Some 5)] [] = Linearizable \<and>
      (\<exists>ord. linearization [put, get (Some 5)] [0, 1] [] ord) \<and>
      check_reduced [put, get None] [] = Violation [1, 2] \<and>
      (\<nexists>ord. linearization [put, get None] [0, 1] [] ord)"
proof -
  define put where "put = \<lparr>lo_client = 0, lo_seq = 0, lo_op = Put [107] 5, lo_invoke_ts = 0, lo_complete_ts = Some 10,
         lo_result = Some (Ok None), lo_log_ids = [], lo_calls = [1]\<rparr>"
  define get where "get = (\<lambda>r. \<lparr>lo_client = 1, lo_seq = 0, lo_op = Get [107], lo_invoke_ts = 20, lo_complete_ts = Some 30,
         lo_result = Some (Ok r), lo_log_ids = [], lo_calls = [2]\<rparr>)"
  have t: "\<forall>l \<in> set [put, get r]. timed l" for r
    by (simp add: put_def get_def timed_def word_less_nat_alt)
  have p: "points_of [put, get r] = [0, 1]" for r
    unfolding put_def get_def points_of_def is_linearization_point_def by simp
  have c: "check_reduced [put, get (Some 5)] [] = Linearizable" "check_reduced [put, get None] [] = Violation [1, 2]"
    unfolding put_def get_def by code_simp+
  show ?thesis
    using checker_decides_linearizability [OF t [of "Some 5"], of "[]"] checker_decides_linearizability [OF t [of None], of "[]"]
    unfolding c p Let_def put_def [symmetric] get_def [symmetric] by simp
qed

text \<open>
  The oracle does not contradict the checker on phantom reads.  In a history that starts from
  the empty store and has a linearization, the phantom check reports nothing.
\<close>

theorem linearizable_has_no_phantoms:
  assumes "linearization ops (points_of ops) [] ord"
  shows "check_phantom ops = []"
proof -
  have "phantom_of ops (ops ! g) = []" if g: "g < length ops" for g
  proof (rule ccontr)
    assume "phantom_of ops (ops ! g) \<noteq> []"
    then obtain key v c where k: "lo_op (ops ! g) = Get key" "lo_result (ops ! g) = Some (Ok (Some v))"
      "lo_complete_ts (ops ! g) = Some c"
      by (auto simp: phantom_of_def split: OracleOp.splits option.splits OpResult.splits)
    obtain q where "ops ! q \<in> set (phantom_candidates ops key v c)" "\<not> deleted_between ops key (ops ! q) (ops ! g)"
      using linearized_read_explained [OF assms g k] by blast
    then have "phantom_candidates ops key v c \<noteq> []" "list_ex (\<lambda>p. \<not> deleted_between ops key p (ops ! g)) (phantom_candidates ops key v c)"
      by (auto simp: list_ex_iff)
    then have "phantom_of ops (ops ! g) = []" by (simp add: phantom_of_def k Let_def)
    with \<open>phantom_of ops (ops ! g) \<noteq> []\<close> show False by simp
  qed
  then show ?thesis by (auto simp: check_phantom_def in_set_conv_nth)
qed

theorem linearizable_has_no_phantoms_witness:
  "let ops = [\<lparr>lo_client = 0, lo_seq = 0, lo_op = Put [107] 5, lo_invoke_ts = 0, lo_complete_ts = Some 10,
         lo_result = Some (Ok None), lo_log_ids = [], lo_calls = [1]\<rparr>,
       \<lparr>lo_client = 1, lo_seq = 0, lo_op = Get [107], lo_invoke_ts = 20, lo_complete_ts = Some 30,
         lo_result = Some (Ok (Some 5)), lo_log_ids = [], lo_calls = [2]\<rparr>]
   in linearization ops (points_of ops) [] [0, 1] \<and> check_phantom ops = []"
proof -
  define ops where "ops = [\<lparr>lo_client = 0, lo_seq = 0, lo_op = Put [107] 5, lo_invoke_ts = 0, lo_complete_ts = Some 10,
         lo_result = Some (Ok None), lo_log_ids = [], lo_calls = [1]\<rparr>,
       \<lparr>lo_client = 1, lo_seq = 0, lo_op = Get [107], lo_invoke_ts = 20, lo_complete_ts = Some 30,
         lo_result = Some (Ok (Some 5)), lo_log_ids = [], lo_calls = [2]\<rparr>]"
  have "linearization ops (points_of ops) [] [0, 1]" unfolding ops_def by code_simp
  with linearizable_has_no_phantoms [OF this] show ?thesis unfolding Let_def ops_def by blast
qed

text \<open>
  C39: a write that takes effect after its client gave up is reported as a violation.  Take any
  history within the limit in which a put timed out, a read of its key that begins after the timeout
  finds nothing, a read that begins after that one returns the value, and nothing else writes the
  key.  The put may take effect at any time after its call, so the reads are explained, but the
  checker places or skips the put before every operation that begins after its timeout, and reports
  a violation.  In the example the same history without the completion time of the put is accepted.
\<close>

theorem late_write_reported_as_violation:
  assumes "\<forall>l \<in> set ops. timed l" "length (points_of ops) \<le> MAX_CHECK_POINTS"
    and "bt_wf initial" "bt_get initial key = None"
    and "w < length ops" "lo_op (ops ! w) = Put key v" "lo_result (ops ! w) = Some (Err Timeout)"
    and "\<forall>l < length ops. l \<noteq> w \<longrightarrow> is_write_op (ops ! l) \<longrightarrow> op_key (lo_op (ops ! l)) \<noteq> key"
    and "a < length ops" "lo_op (ops ! a) = Get key" "lo_result (ops ! a) = Some (Ok None)"
    and "b < length ops" "lo_op (ops ! b) = Get key" "lo_result (ops ! b) = Some (Ok (Some v))"
    and "ends_before (ops ! w) (ops ! a)" "ends_before (ops ! a) (ops ! b)" "lo_complete_ts (ops ! b) \<noteq> None"
  shows "\<exists>calls. check_reduced ops initial = Violation calls"
proof -
  have a: "lo_complete_ts (ops ! a) \<noteq> None" using assms(16) by (auto simp: ends_before_def split: option.splits)
  note no = no_linearization_with_late_write [OF assms(3,4,6,8,9-11) a assms(15,12-14,17)]
  have "is_linearization_point (ops ! b)" using assms(14,17) by (simp add: is_linearization_point_def)
  then have ne: "points_of ops \<noteq> []" using lin_point_listed [OF assms(12)] by fastforce
  have "\<forall>p \<in> set (points_of ops). timed (ops ! p)" using points_of_simps(2) assms(1) by simp
  then show ?thesis
    using no ne assms(2) search_iff [OF points_of_simps(1)] by (auto simp: check_reduced_def Let_def)
qed

theorem late_write_reported_as_violation_witness:
  "let put = (\<lambda>c. \<lparr>lo_client = 0, lo_seq = 0, lo_op = Put [107] 5, lo_invoke_ts = 0, lo_complete_ts = c,
         lo_result = map_option (\<lambda>_. Err Timeout) c, lo_log_ids = [], lo_calls = [1]\<rparr>);
       get = (\<lambda>i r. \<lparr>lo_client = 1, lo_seq = i, lo_op = Get [107], lo_invoke_ts = i, lo_complete_ts = Some (i + 10),
         lo_result = Some (Ok r), lo_log_ids = [], lo_calls = [i]\<rparr>)
   in (\<exists>calls. check_reduced [put (Some 10), get 20 None, get 40 (Some 5)] [] = Violation calls) \<and>
      check_reduced [put None, get 20 None, get 40 (Some 5)] [] = Linearizable"
proof -
  define put where "put = (\<lambda>c :: u64 option. \<lparr>lo_client = 0, lo_seq = 0, lo_op = Put [107] 5, lo_invoke_ts = 0, lo_complete_ts = c,
         lo_result = map_option (\<lambda>_. Err Timeout) c, lo_log_ids = [], lo_calls = [1]\<rparr>)"
  define get where "get = (\<lambda>(i :: u64) r. \<lparr>lo_client = 1, lo_seq = i, lo_op = Get [107], lo_invoke_ts = i, lo_complete_ts = Some (i + 10),
         lo_result = Some (Ok r), lo_log_ids = [], lo_calls = [i]\<rparr>)"
  let ?ops = "[put (Some 10), get 20 None, get 40 (Some 5)]"
  have l: "\<forall>l \<in> set ?ops. timed l" "length (points_of ?ops) \<le> MAX_CHECK_POINTS"
    unfolding put_def get_def by code_simp+
  have only: "\<forall>l < length ?ops. l \<noteq> 0 \<longrightarrow> is_write_op (?ops ! l) \<longrightarrow> op_key (lo_op (?ops ! l)) \<noteq> [107]"
    by (simp add: put_def get_def is_write_op_def less_Suc_eq)
  have "\<exists>calls. check_reduced ?ops [] = Violation calls"
    by (rule late_write_reported_as_violation [OF l, of "[]" "[107]" 0 5 1 2])
      (use only in \<open>simp_all add: put_def get_def ends_before_def word_le_nat_alt\<close>)
  moreover have "check_reduced [put None, get 20 None, get 40 (Some 5)] [] = Linearizable"
    unfolding put_def get_def by code_simp
  ultimately show ?thesis unfolding Let_def put_def [symmetric] get_def [symmetric] by blast
qed

text \<open>
  A timeout is forgotten when a retry is rejected.  The first call of a put times out, its
  retry is rejected with \<open>Busy\<close>; a later read finds the value.  The merge keeps only the result of
  the last call, so the put counts as not applied and the history as a violation, while the
  history without the retry is accepted.
\<close>

theorem rejected_retry_hides_timeout:
  "let h = complete 1 10 (Err Timeout) (invoke 1 0 0 (Put [107] 5) 0 history_new);
       retried = complete 2 14 (Err Busy) (invoke 2 0 0 (Put [107] 5) 12 h);
       read = (\<lambda>h. complete 3 30 (Ok (Some 5)) (invoke 3 1 0 (Get [107]) 20 h))
   in check_linearizable (read h) [] = Linearizable \<and> check (read h) = [] \<and>
      check_linearizable (read retried) [] = Violation [3] \<and>
      map fl_invariant (check (read retried)) = [PhantomValue]"
  by code_simp

end
