(* ===== verification/OracleMerge.thy ===== *)
theory OracleMerge
  imports Oracle
begin

text \<open>
  What the oracle's reduction does with a history (\<open>merge_retries\<close> and \<open>validate\<close> of
  \<open>arachne-testsupport/src/oracle.rs\<close>): one logical operation per client and sequence number,
  and which malformed histories are reported.
\<close>

subsection \<open>The calls of a history\<close>

fun calls_of :: "Event list \<Rightarrow> (CallId \<times> ClientId \<times> SeqNo \<times> OracleOp) list" where
  "calls_of [] = []"
| "calls_of (Invoke call client seq op ts # es) = (call, client, seq, op) # calls_of es"
| "calls_of (Complete _ _ _ _ # es) = calls_of es"

fun completed :: "Event list \<Rightarrow> CallId list" where
  "completed [] = []"
| "completed (Invoke _ _ _ _ _ # es) = completed es"
| "completed (Complete call _ _ _ # es) = call # completed es"

abbreviation retries_of :: "Event list \<Rightarrow> ((ClientId \<times> SeqNo) \<times> OracleOp) list" where
  "retries_of es \<equiv> map (\<lambda>(call, client, seq, op). ((client, seq), op)) (calls_of es)"

text \<open>
  A history is agreeing if calls under one call id do not differ, every completion has its call, and
  all calls under a client's sequence number ask for the same operation (the documentation of
  \<open>validate\<close>).  It is well formed if moreover no call id is used twice (the documentation of the
  module and of \<open>Invariant::WellFormed\<close>).
\<close>

definition agreeing :: "History \<Rightarrow> bool" where
  "agreeing h \<longleftrightarrow> single_valued (set (calls_of (h_events h))) \<and>
     set (completed (h_events h)) \<subseteq> fst ` set (calls_of (h_events h)) \<and>
     single_valued (set (retries_of (h_events h)))"

definition well_formed :: "History \<Rightarrow> bool" where
  "well_formed h \<longleftrightarrow> distinct (map fst (calls_of (h_events h))) \<and>
     set (completed (h_events h)) \<subseteq> fst ` set (calls_of (h_events h)) \<and>
     single_valued (set (retries_of (h_events h)))"

lemma distinct_keys_single_valued: "distinct (map fst xs) \<Longrightarrow> single_valued (set xs)"
  by (auto simp: single_valued_def dest: eq_key_imp_eq_value)

subsection \<open>Validation\<close>

text \<open>The pairs agree with the bindings of a map and with the first pair of their key.\<close>

definition consistent :: "('k \<times> 'v) list \<Rightarrow> ('k \<rightharpoonup> 'v) \<Rightarrow> bool" where
  "consistent xs m \<longleftrightarrow> (\<forall>(k, x) \<in> set xs. (map_of xs ++ m) k = Some x)"

lemma consistent_Nil [simp]: "consistent [] m"
  by (simp add: consistent_def)

lemma consistent_new: "m k = None \<Longrightarrow> consistent ((k, x) # xs) m \<longleftrightarrow> consistent xs (m(k \<mapsto> x))"
proof -
  assume "m k = None"
  then have "map_of ((k, x) # xs) ++ m = map_of xs ++ m(k \<mapsto> x)" by (auto simp: map_add_def fun_eq_iff split: option.splits)
  then show ?thesis by (simp add: consistent_def)
qed

lemma consistent_known: "m k = Some y \<Longrightarrow> consistent ((k, x) # xs) m \<longleftrightarrow> y = x \<and> consistent xs m"
proof -
  assume m: "m k = Some y"
  then have "map_of ((k, x) # xs) ++ m = map_of xs ++ m" by (auto simp: map_add_def fun_eq_iff split: option.splits)
  then show ?thesis using m by (simp add: consistent_def map_add_def)
qed

lemma consistent_single_valued: "consistent xs Map.empty \<longleftrightarrow> single_valued (set xs)"
proof
  assume "consistent xs Map.empty"
  then have "map_of xs k = Some x" if "(k, x) \<in> set xs" for k x using that by (auto simp: consistent_def)
  then show "single_valued (set xs)" by (intro single_valuedI) (metis option.inject)
next
  assume "single_valued (set xs)"
  then have "map_of xs k = Some x" if kx: "(k, x) \<in> set xs" for k x
    using weak_map_of_SomeI [OF kx] map_of_SomeD kx single_valuedD by (metis (full_types))
  then show "consistent xs Map.empty" by (auto simp: consistent_def)
qed

lemma bt_get_insert_fun: "bt_get (bt_insert k v m) = (bt_get m)(k \<mapsto> v)"
  by auto

lemma validate_invokes_map: "bt_get (fst (validate_invokes es m)) = map_of (calls_of es) ++ bt_get m"
proof (induction es m rule: validate_invokes.induct)
  case (2 call client seq op ts es m)
  then show ?case
    by (cases "bt_get m call") (auto simp: map_add_def fun_eq_iff split: prod.splits option.splits)
qed simp_all

lemma validate_invokes_ok: "snd (validate_invokes es m) = [] \<longleftrightarrow> consistent (calls_of es) (bt_get m)"
proof (induction es m rule: validate_invokes.induct)
  case (2 call client seq op ts es m)
  show ?case
  proof (cases "bt_get m call")
    case None
    then show ?thesis using 2 by (simp add: consistent_new bt_get_insert_fun fun_upd_def)
  next
    case (Some y)
    then show ?thesis using 2 by (cases "y = (client, seq, op)") (simp_all add: consistent_known split: prod.splits)
  qed
qed simp_all

lemma validate_completes_ok: "validate_completes m es = [] \<longleftrightarrow> (\<forall>call \<in> set (completed es). bt_get m call \<noteq> None)"
  by (induction m es rule: validate_completes.induct) simp_all

lemma validate_groups_ok: "validate_groups es m = [] \<longleftrightarrow> consistent (retries_of es) (bt_get m)"
proof (induction es m rule: validate_groups.induct)
  case (2 call client seq op ts es m)
  show ?case
  proof (cases "bt_get m (client, seq)")
    case None
    then show ?thesis using 2 by (simp add: consistent_new bt_get_insert_fun fun_upd_def)
  next
    case (Some y)
    then show ?thesis using 2 by (cases "y = op") (simp_all add: consistent_known)
  qed
qed simp_all

subsection \<open>The merge\<close>

definition group_at :: "groups \<Rightarrow> ClientId \<times> SeqNo \<Rightarrow> Group" where
  "group_at gs key = (case bt_get gs key of Some g \<Rightarrow> g | None \<Rightarrow> group_default)"

definition calls_for :: "ClientId \<times> SeqNo \<Rightarrow> Event list \<Rightarrow> CallId list" where
  "calls_for key es = map fst (filter (\<lambda>(call, client, seq, op). (client, seq) = key) (calls_of es))"

lemma group_at_upd: "group_at (upd_group key f gs) k = (if k = key then f (group_at gs key) else group_at gs k)"
  by (auto simp: group_at_def upd_group_def)

lemma upd_group_wf [simp]: "bt_wf gs \<Longrightarrow> bt_wf (upd_group key f gs)"
  by (simp add: upd_group_def)

lemma group_event_wf: "bt_wf gs \<Longrightarrow> bt_wf (group_event keys e gs)"
  by (cases "(keys, e, gs)" rule: group_event.cases) (auto split: option.splits)

lemma fold_group_wf: "bt_wf gs \<Longrightarrow> bt_wf (fold (group_event keys) es gs)"
  by (induction es arbitrary: gs) (simp_all add: group_event_wf)

lemma fold_group_calls:
  "g_calls (group_at (fold (group_event keys) es gs) key) = g_calls (group_at gs key) @ calls_for key es"
proof (induction es arbitrary: gs)
  case (Cons e es)
  then show ?case
    by (cases e) (auto simp: calls_for_def group_at_upd split: option.splits)
qed (simp add: calls_for_def)

lemma fold_group_op:
  "g_op (group_at (fold (group_event keys) es gs) key) =
     (map_of (retries_of es) ++ (\<lambda>k. g_op (group_at gs k))) key"
proof (induction es arbitrary: gs)
  case (Cons e es)
  then show ?case
    by (cases e) (auto simp: group_at_upd map_add_def split: option.splits)
qed (simp add: map_add_def)

lemma merged_groups:
  assumes "groups = fold (group_event keys) es []"
  shows "bt_wf groups" "g_op (group_at groups key) = map_of (retries_of es) key"
    "g_calls (group_at groups key) = calls_for key es"
  using fold_group_wf [of "[]"] fold_group_calls [of keys es "[]"] fold_group_op [of keys es "[]"]
  by (simp_all add: assms group_at_def group_default_def map_add_def split: option.splits)

abbreviation op_id :: "LogOp \<Rightarrow> ClientId \<times> SeqNo" where
  "op_id l \<equiv> (lo_client l, lo_seq l)"

lemma into_log_op_Some:
  "into_log_op client seq g = Some l \<Longrightarrow> op_id l = (client, seq) \<and> g_op g = Some (lo_op l) \<and> lo_calls l = g_calls g"
  by (auto simp: into_log_op_def Let_def split: option.splits)

lemma into_log_op_None: "into_log_op client seq g = None \<longleftrightarrow> g_op g = None"
  by (auto simp: into_log_op_def Let_def split: option.splits)

lemma merged_ids:
  fixes gs :: groups
  shows "map op_id (List.map_filter (\<lambda>((client, seq), g). into_log_op client seq g) gs) =
    map fst (filter (\<lambda>(key, g). g_op g \<noteq> None) gs)"
proof (induction gs)
  case (Cons x gs)
  obtain client seq g where x: "x = ((client, seq), g)" by (metis prod.collapse)
  show ?case
  proof (cases "into_log_op client seq g")
    case None
    then show ?thesis using Cons into_log_op_None [of client seq g] by (simp add: x map_filter_simps)
  next
    case (Some l)
    then show ?thesis using Cons into_log_op_Some [OF Some] by (simp add: x map_filter_simps)
  qed
qed (simp add: map_filter_simps)

lemma in_groups: "bt_wf gs \<Longrightarrow> (key, g) \<in> set gs \<Longrightarrow> group_at gs key = g"
  by (simp add: group_at_def bt_get_in)

subsection \<open>Properties\<close>

text \<open>
  C37: the validation of a history reports nothing exactly for agreeing histories.  Of the histories
  that are not well formed it misses exactly those whose only fault is a call id that is used again
  for the same call.
\<close>

theorem validate_iff_well_formed:
  "(validate h = [] \<longleftrightarrow> agreeing h) \<and>
   (well_formed h \<longleftrightarrow> validate h = [] \<and> distinct (map fst (calls_of (h_events h))))"
proof -
  obtain m fs where v: "validate_invokes (h_events h) [] = (m, fs)" by fastforce
  have get: "bt_get [] = Map.empty" by auto
  have "fs = [] \<longleftrightarrow> single_valued (set (calls_of (h_events h)))"
    using validate_invokes_ok [of "h_events h" "[]"] v by (simp add: get consistent_single_valued)
  moreover have "bt_get m = map_of (calls_of (h_events h))"
    using validate_invokes_map [of "h_events h" "[]"] v by (simp add: get)
  then have "validate_completes m (h_events h) = [] \<longleftrightarrow>
      set (completed (h_events h)) \<subseteq> fst ` set (calls_of (h_events h))"
    by (auto simp: validate_completes_ok map_of_eq_None_iff)
  moreover have "validate_groups (h_events h) [] = [] \<longleftrightarrow> single_valued (set (retries_of (h_events h)))"
    by (simp add: validate_groups_ok get consistent_single_valued)
  ultimately have "validate h = [] \<longleftrightarrow> agreeing h" by (simp add: validate_def v agreeing_def)
  then show ?thesis using distinct_keys_single_valued by (auto simp: agreeing_def well_formed_def)
qed

text \<open>
  The merge of retries.  The reduced history has one operation for each client and sequence
  number that was called, in the order of the first call, with the operation of the first call
  and with all call ids in the order they were recorded.
\<close>

theorem merge_retries_one_per_seq:
  "distinct (map op_id (merge_retries h)) \<and>
   op_id ` set (merge_retries h) = fst ` set (retries_of (h_events h)) \<and>
   sorted (map (\<lambda>l. (lo_invoke_ts l, lo_client l, lo_seq l)) (merge_retries h)) \<and>
   (\<forall>l \<in> set (merge_retries h). lo_calls l = calls_for (op_id l) (h_events h) \<and>
      map_of (retries_of (h_events h)) (op_id l) = Some (lo_op l))"
proof -
  define keys where "keys = fold note_call (h_events h) []"
  define gs where "gs = fold (group_event keys) (h_events h) []"
  let ?f = "\<lambda>((client, seq), g). into_log_op client seq g"
  have m: "merge_retries h = sort_key (\<lambda>l. (lo_invoke_ts l, lo_client l, lo_seq l)) (List.map_filter ?f gs)"
    by (simp add: merge_retries_def keys_def gs_def Let_def)
  note g = merged_groups [OF gs_def]
  have in_ops: "\<exists>g. (op_id l, g) \<in> set gs \<and> into_log_op (lo_client l) (lo_seq l) g = Some l"
    if "l \<in> set (merge_retries h)" for l
    using that into_log_op_Some by (fastforce simp: m map_filter_def)
  have "distinct (map op_id (List.map_filter ?f gs))"
    unfolding merged_ids using bt_wf_distinct [OF g(1)] distinct_map_filter by blast
  then have "distinct (map op_id (merge_retries h))"
    by (simp add: m distinct_map)
  moreover have "op_id ` set (merge_retries h) = fst ` set (retries_of (h_events h))"
  proof -
    have "op_id ` set (merge_retries h) = set (map op_id (List.map_filter ?f gs))" by (simp add: m)
    also have "\<dots> = {key. \<exists>g. (key, g) \<in> set gs \<and> g_op g \<noteq> None}" unfolding merged_ids by force
    also have "\<dots> = {key. g_op (group_at gs key) \<noteq> None}"
      using in_groups [OF g(1)] bt_get_Some_in
      by (force simp: group_at_def group_default_def split: option.splits)
    also have "\<dots> = fst ` set (retries_of (h_events h))" by (auto simp: g(2) map_of_eq_None_iff)
    finally show ?thesis .
  qed
  moreover have "lo_calls l = calls_for (op_id l) (h_events h) \<and> map_of (retries_of (h_events h)) (op_id l) = Some (lo_op l)"
    if l: "l \<in> set (merge_retries h)" for l
  proof -
    obtain x where x: "(op_id l, x) \<in> set gs" "into_log_op (lo_client l) (lo_seq l) x = Some l" using in_ops [OF l] by blast
    then show ?thesis using in_groups [OF g(1) x(1)] into_log_op_Some [OF x(2)] g(2,3) [of "op_id l"] by simp
  qed
  ultimately show ?thesis by (simp add: m sorted_sort_key)
qed

theorem merge_retries_one_per_seq_witness:
  "let h = complete 2 14 (Err Busy) (invoke 2 0 0 (Put [107] 5) 12
         (complete 1 10 (Err Timeout) (invoke 1 0 0 (Put [107] 5) 0 history_new)))
   in map op_id (merge_retries h) = [(0, 0)] \<and> (\<exists>l \<in> set (merge_retries h). lo_calls l = [1, 2] \<and> lo_op l = Put [107] 5)"
proof -
  define h where "h = complete 2 14 (Err Busy) (invoke 2 0 0 (Put [107] 5) 12
         (complete 1 10 (Err Timeout) (invoke 1 0 0 (Put [107] 5) 0 history_new)))"
  have "map op_id (merge_retries h) = [(0, 0)]" unfolding h_def by code_simp
  moreover from this obtain l where l: "l \<in> set (merge_retries h)" "op_id l = (0, 0)" by (cases "merge_retries h") auto
  moreover have "lo_calls l = calls_for (op_id l) (h_events h)" "map_of (retries_of (h_events h)) (op_id l) = Some (lo_op l)"
    using merge_retries_one_per_seq [of h] l(1) by blast+
  moreover have "calls_for (0, 0) (h_events h) = [1, 2]" "map_of (retries_of (h_events h)) (0, 0) = Some (Put [107] 5)"
    by (simp_all add: h_def complete_def invoke_def history_new_def calls_for_def)
  ultimately show ?thesis unfolding Let_def h_def [symmetric] by auto
qed

end
