(* ===== verification/RaftStorage.thy ===== *)
theory RaftStorage
  imports Wal
begin

text \<open>
  The adapter between the raft library and the durable log
  (\<open>arachne/src/consensus/raft_storage.rs\<close>): the conversions between the seam's types and
  raft's protobuf types, the mapping of the storage errors, and the operations through which
  raft reads and the node writes the one store.  The store wrapped here is the write-ahead log
  of \<open>Wal\<close> together with its file system.
\<close>

subsection \<open>Raft's types\<close>

text \<open>The error types of the raft library; a payload that only carries a text is left out.\<close>

datatype RaftStorageError =
    RsCompacted | RsUnavailable | RsLogTemporarilyUnavailable | RsSnapshotOutOfDate
  | RsSnapshotTemporarilyUnavailable | RsOther

datatype RaftError =
    RaftIo IoError | Store RaftStorageError | StepLocalMsg | StepPeerNotFound | ProposalDropped
  | ConfigInvalid | RaftCodecError | RaftExists RaftId | RaftNotExists RaftId | ConfChangeError
  | RequestSnapshotDropped

text \<open>The messages of \<open>eraftpb\<close> that cross the adapter.\<close>

datatype RaftEntryType = EntryNormal | EntryConfChange | EntryConfChangeV2

record RaftEntry =
  en_type :: RaftEntryType
  en_term :: Term
  en_index :: LogIndex
  en_data :: bytes
  en_context :: bytes

record RaftHardState =
  rh_term :: Term
  rh_vote :: RaftId
  rh_commit :: LogIndex

record RaftConfState =
  rc_voters :: "RaftId list"
  rc_learners :: "RaftId list"
  rc_voters_outgoing :: "RaftId list"
  rc_learners_next :: "RaftId list"
  rc_auto_leave :: bool

record RaftSnapshot =
  rp_data :: bytes
  rp_conf_state :: RaftConfState
  rp_index :: LogIndex
  rp_term :: Term

record InitialState =
  is_hard_state :: RaftHardState
  is_conf_state :: RaftConfState

subsection \<open>Conversions\<close>

definition to_raft_entry :: "LogEntry \<Rightarrow> RaftEntry" where
  "to_raft_entry e =
     \<lparr>en_type = (case le_type e of NormalEntry \<Rightarrow> EntryNormal | ConfChange \<Rightarrow> EntryConfChange
        | ConfChangeV2 \<Rightarrow> EntryConfChangeV2),
      en_term = le_term e, en_index = le_index e, en_data = le_data e, en_context = []\<rparr>"

definition from_raft_entry :: "RaftEntry \<Rightarrow> LogEntry" where
  "from_raft_entry e =
     \<lparr>le_index = en_index e, le_term = en_term e,
      le_type = (case en_type e of EntryNormal \<Rightarrow> NormalEntry | EntryConfChange \<Rightarrow> ConfChange
        | EntryConfChangeV2 \<Rightarrow> ConfChangeV2),
      le_data = en_data e\<rparr>"

definition to_raft_hard_state :: "HardState \<Rightarrow> RaftHardState" where
  "to_raft_hard_state hs =
     \<lparr>rh_term = hs_term hs, rh_vote = (case hs_vote hs of Some v \<Rightarrow> v | None \<Rightarrow> 0), rh_commit = hs_commit hs\<rparr>"

definition to_seam_hard_state :: "RaftHardState \<Rightarrow> HardState" where
  "to_seam_hard_state hs =
     \<lparr>hs_term = rh_term hs, hs_vote = (if rh_vote hs = 0 then None else Some (rh_vote hs)),
      hs_commit = rh_commit hs\<rparr>"

definition to_seam_conf_state :: "RaftConfState \<Rightarrow> ConfState" where
  "to_seam_conf_state cs = \<lparr>cs_voters = rc_voters cs, cs_learners = rc_learners cs\<rparr>"

definition to_raft_conf_state :: "ConfState \<Rightarrow> RaftConfState" where
  "to_raft_conf_state cs =
     \<lparr>rc_voters = cs_voters cs, rc_learners = cs_learners cs, rc_voters_outgoing = [],
      rc_learners_next = [], rc_auto_leave = False\<rparr>"

definition to_raft_snapshot :: "Snapshot \<Rightarrow> RaftSnapshot" where
  "to_raft_snapshot snap =
     \<lparr>rp_data = sn_data snap, rp_conf_state = to_raft_conf_state (sm_conf_state (sn_meta snap)),
      rp_index = sm_index (sn_meta snap), rp_term = sm_term (sn_meta snap)\<rparr>"

definition from_raft_snapshot :: "RaftSnapshot \<Rightarrow> Snapshot" where
  "from_raft_snapshot snap =
     \<lparr>sn_meta = \<lparr>sm_index = rp_index snap, sm_term = rp_term snap,
        sm_conf_state = to_seam_conf_state (rp_conf_state snap)\<rparr>,
      sn_data = rp_data snap\<rparr>"

fun map_error :: "StorageError \<Rightarrow> RaftError" where
  "map_error Compacted = Store RsCompacted"
| "map_error (Corruption _) = Store RsUnavailable"
| "map_error (Unrecoverable _) = Store RsUnavailable"
| "map_error (Io e) = RaftIo e"

subsection \<open>The adapter\<close>

record RaftStorage =
  rst_inner :: World
  rst_streamed :: bool
  rst_bootstrap :: ConfState

type_synonym 'a store_op = "(RaftStorage, RaftError, 'a) comp"

abbreviation the_log :: "RaftStorage \<Rightarrow> WalStorage" where
  "the_log st \<equiv> the_wal (rst_inner st)"

definition with_conf_state :: "World \<Rightarrow> ConfState \<Rightarrow> RaftStorage" where
  "with_conf_state inner bootstrap = \<lparr>rst_inner = inner, rst_streamed = False, rst_bootstrap = bootstrap\<rparr>"

definition streamed_snapshots :: "bool \<Rightarrow> RaftStorage \<Rightarrow> RaftStorage" where
  "streamed_snapshots streamed st = st\<lparr>rst_streamed := streamed\<rparr>"

text \<open>A write of the wrapped store, with its error mapped.\<close>

definition adapt :: "('e \<Rightarrow> 'f) \<Rightarrow> (World, 'e, 'a) comp \<Rightarrow> (RaftStorage, 'f, 'a) comp" where
  "adapt err m st = (case m (rst_inner st) of (w, r) \<Rightarrow> (st\<lparr>rst_inner := w\<rparr>, map_err err r))"

definition st_append :: "LogEntry list \<Rightarrow> unit store_op" where
  "st_append entries = adapt map_error (wal_append entries)"

definition st_sync_entries :: "unit store_op" where
  "st_sync_entries = adapt map_error sync_entries"

definition st_persist_ready_records :: "LogEntry list \<Rightarrow> HardState option \<Rightarrow> PersistSubmit store_op" where
  "st_persist_ready_records entries hard_state = adapt map_error (persist_ready_records entries hard_state)"

definition st_poll_flush :: "u64 \<Rightarrow> bool option store_op" where
  "st_poll_flush token = adapt map_error (poll_flush token)"

definition st_set_hard_state :: "HardState \<Rightarrow> unit store_op" where
  "st_set_hard_state hs = adapt map_error (set_hard_state hs)"

definition st_save_snapshot :: "Snapshot \<Rightarrow> unit store_op" where
  "st_save_snapshot snapshot = adapt map_error (save_snapshot snapshot)"

definition st_install_snapshot :: "Snapshot \<Rightarrow> unit store_op" where
  "st_install_snapshot snapshot = adapt map_error (install_snapshot snapshot)"

definition st_compact :: "LogIndex \<Rightarrow> unit store_op" where
  "st_compact compact_to = adapt map_error (wal_compact compact_to)"

definition st_log_bytes :: "nat store_op" where
  "st_log_bytes = adapt map_error log_bytes"

text \<open>The membership write keeps the error of the seam.\<close>

definition st_save_conf_state :: "LogIndex \<Rightarrow> ConfState \<Rightarrow> (RaftStorage, StorageError, unit) comp" where
  "st_save_conf_state index cs = adapt id (save_conf_state index cs)"

definition st_conf_change_index :: "RaftStorage \<Rightarrow> LogIndex" where
  "st_conf_change_index st = wal_conf_change_index (the_log st)"

text \<open>The adapter's own \<open>term\<close>, used by the node.\<close>

definition st_term_at :: "RaftStorage \<Rightarrow> LogIndex \<Rightarrow> RaftError + Term" where
  "st_term_at st index = map_err map_error (storage_term (the_log st) index)"

subsection \<open>Raft's storage trait\<close>

definition st_initial_state :: "RaftStorage \<Rightarrow> InitialState" where
  "st_initial_state st =
     (let state = initial_state (the_log st);
          conf_state = (if cs_voters (rs_conf_state state) = [] \<and> cs_learners (rs_conf_state state) = []
            then rst_bootstrap st else rs_conf_state state)
      in \<lparr>is_hard_state = to_raft_hard_state (rs_hard_state state),
          is_conf_state = to_raft_conf_state conf_state\<rparr>)"

definition st_entries :: "RaftStorage \<Rightarrow> LogIndex \<Rightarrow> LogIndex \<Rightarrow> u64 option \<Rightarrow> RaftError + RaftEntry list" where
  "st_entries st low high max_size =
     and_then (map_err map_error (storage_entries (the_log st) low high max_size))
       (\<lambda>es. Inr (map to_raft_entry es))"

definition st_term :: "RaftStorage \<Rightarrow> LogIndex \<Rightarrow> RaftError + Term" where
  "st_term st idx =
     (if idx = 0 then Inr 0
      else if idx > last_index (the_log st) then Inl (Store RsUnavailable)
      else map_err map_error (storage_term (the_log st) idx))"

definition st_first_index :: "RaftStorage \<Rightarrow> LogIndex" where
  "st_first_index st = first_index (the_log st)"

definition st_last_index :: "RaftStorage \<Rightarrow> LogIndex" where
  "st_last_index st = last_index (the_log st)"

definition st_snapshot :: "RaftStorage \<Rightarrow> RaftError + RaftSnapshot" where
  "st_snapshot st =
     (case wal_snapshot (the_log st) of
        Some snap \<Rightarrow>
          Inr (to_raft_snapshot (if rst_streamed st then snap\<lparr>sn_data := []\<rparr> else snap))
      | None \<Rightarrow> Inl (Store RsSnapshotTemporarilyUnavailable))"

subsection \<open>Round trips\<close>

lemma from_to_raft_entry [simp]: "from_raft_entry (to_raft_entry e) = e"
  by (cases e) (auto simp: from_raft_entry_def to_raft_entry_def split: EntryType.splits)

lemma to_from_raft_entry: "to_raft_entry (from_raft_entry e) = e\<lparr>en_context := []\<rparr>"
  by (cases e) (auto simp: from_raft_entry_def to_raft_entry_def split: RaftEntryType.splits)

lemma hard_state_round_trip: "to_seam_hard_state (to_raft_hard_state hs) = hs \<longleftrightarrow> hs_vote hs \<noteq> Some 0"
  by (cases hs) (auto simp: to_seam_hard_state_def to_raft_hard_state_def split: option.splits)

lemma to_seam_hard_state_surj [simp]: "to_raft_hard_state (to_seam_hard_state hs) = hs"
  by (cases hs) (auto simp: to_seam_hard_state_def to_raft_hard_state_def)

lemma conf_state_round_trip [simp]: "to_seam_conf_state (to_raft_conf_state cs) = cs"
  by (simp add: to_seam_conf_state_def to_raft_conf_state_def)

lemma snapshot_round_trip [simp]: "from_raft_snapshot (to_raft_snapshot snap) = snap"
  by (simp add: from_raft_snapshot_def to_raft_snapshot_def)

lemma adapt_eq:
  "adapt err m st = (st', r) \<longleftrightarrow>
    (\<exists>w r'. m (rst_inner st) = (w, r') \<and> st' = st\<lparr>rst_inner := w\<rparr> \<and> r = map_err err r')"
  by (cases "m (rst_inner st)") (auto simp: adapt_def)

end
