(* ===== verification/RaftNode.thy ===== *)
theory RaftNode
  imports RaftStorage
begin

text \<open>
  The consensus node (\<open>arachne/src/consensus/node.rs\<close>): it takes \<open>Ready\<close> batches from raft,
  makes their records durable, and only then lets the messages and the committed entries out.
  Several batches may be in flight while the device flushes; they are completed in order.

  The raft library, the protobuf codec and the network are parameters, collected in \<open>lib\<close>.
  Every operation of raft may read the store and none writes it.  \<open>nd_net\<close> is what has been
  handed to the transport for each peer, in order; the sends to different peers overlap and
  their relative order is left open.  \<open>nd_history\<close> records the calls the node makes at its
  boundary, in order.
\<close>

subsection \<open>Types\<close>

type_synonym NodeId = bytes

datatype MessageType =
    MsgHup | MsgBeat | MsgPropose | MsgAppend | MsgAppendResponse | MsgRequestVote
  | MsgRequestVoteResponse | MsgSnapshot | MsgHeartbeat | MsgHeartbeatResponse | MsgUnreachable
  | MsgSnapStatus | MsgCheckQuorum | MsgTransferLeader | MsgTimeoutNow | MsgReadIndex
  | MsgReadIndexResp | MsgRequestPreVote | MsgRequestPreVoteResponse

text \<open>A raft message; the fields the node does not look at are in \<open>mg_rest\<close>.\<close>

record Message =
  mg_type :: MessageType
  mg_to :: RaftId
  mg_from :: RaftId
  mg_snapshot :: RaftSnapshot
  mg_rest :: bytes

record Ready =
  rd_number :: u64
  rd_hs :: "RaftHardState option"
  rd_read_states :: "(bytes \<times> LogIndex) list"
  rd_entries :: "RaftEntry list"
  rd_snapshot :: RaftSnapshot
  rd_messages :: "Message list"
  rd_persisted_messages :: "Message list"
  rd_committed_entries :: "RaftEntry list"

datatype ConfChangeType = AddNode | RemoveNode | AddLearnerNode

record Progress =
  pr_matched :: LogIndex
  pr_next_idx :: LogIndex
  pr_paused :: bool
  pr_pending_snapshot :: LogIndex
  pr_recent_active :: bool

record RaftConfig =
  rg_id :: RaftId
  rg_election_tick :: u64
  rg_heartbeat_tick :: u64
  rg_applied :: LogIndex
  rg_max_size_per_msg :: u64
  rg_max_inflight_msgs :: u64

text \<open>The libraries the node calls: raft, protobuf, and the transport's verdict on a send.\<close>

record 'r lib =
  raw_validate :: "RaftConfig \<Rightarrow> RaftError + unit"
  raw_new :: "RaftConfig \<Rightarrow> RaftStorage \<Rightarrow> RaftError + 'r"
  raw_id :: "'r \<Rightarrow> RaftId"
  raw_leader :: "'r \<Rightarrow> RaftId"
  raw_hard_state :: "'r \<Rightarrow> RaftHardState"
  raw_applied :: "'r \<Rightarrow> LogIndex"
  raw_progress :: "'r \<Rightarrow> RaftId \<Rightarrow> Progress option"
  raw_has_ready :: "RaftStorage \<Rightarrow> 'r \<Rightarrow> bool"
  raw_ready :: "RaftStorage \<Rightarrow> 'r \<Rightarrow> Ready \<times> 'r"
  raw_advance_append_async :: "RaftStorage \<Rightarrow> Ready \<Rightarrow> 'r \<Rightarrow> 'r"
  raw_on_persist_ready :: "RaftStorage \<Rightarrow> u64 \<Rightarrow> 'r \<Rightarrow> 'r"
  raw_advance_apply :: "RaftStorage \<Rightarrow> 'r \<Rightarrow> 'r"
  raw_tick :: "RaftStorage \<Rightarrow> 'r \<Rightarrow> 'r"
  raw_step :: "RaftStorage \<Rightarrow> Message \<Rightarrow> 'r \<Rightarrow> 'r \<times> (RaftError + unit)"
  raw_propose :: "RaftStorage \<Rightarrow> bytes \<Rightarrow> 'r \<Rightarrow> 'r \<times> (RaftError + unit)"
  raw_propose_conf_change :: "RaftStorage \<Rightarrow> ConfChangeType \<Rightarrow> RaftId \<Rightarrow> 'r \<Rightarrow> 'r \<times> (RaftError + unit)"
  raw_apply_conf_change ::
    "RaftStorage \<Rightarrow> (ConfChangeType \<times> RaftId) list \<Rightarrow> 'r \<Rightarrow> 'r \<times> (RaftError + RaftConfState)"
  raw_transfer_leader :: "RaftStorage \<Rightarrow> RaftId \<Rightarrow> 'r \<Rightarrow> 'r"
  raw_read_index :: "RaftStorage \<Rightarrow> bytes \<Rightarrow> 'r \<Rightarrow> 'r"
  pb_write :: "Message \<Rightarrow> bytes option"
  pb_read :: "bytes \<Rightarrow> Message option"
  pb_conf_change :: "bytes \<Rightarrow> (ConfChangeType \<times> RaftId) option"
  pb_conf_change_v2 :: "bytes \<Rightarrow> (ConfChangeType \<times> RaftId) list option"
  net_send :: "NodeId \<Rightarrow> bytes list \<Rightarrow> bytes \<Rightarrow> bool"

datatype NodeError = NeRaft RaftError | NeTransport | NeCodec | NeStorage | NeStateMachine

record RaftNodeConfig =
  nc_election_tick :: u64
  nc_heartbeat_tick :: u64
  nc_max_size_per_msg :: u64
  nc_max_inflight_msgs :: u64
  nc_bootstrap_voters :: "RaftId list option"
  nc_streamed_snapshots :: bool
  nc_join_as_learner :: bool

definition node_config_default :: RaftNodeConfig where
  "node_config_default =
     \<lparr>nc_election_tick = 10, nc_heartbeat_tick = 1, nc_max_size_per_msg = 1048576,
      nc_max_inflight_msgs = 256, nc_bootstrap_voters = None, nc_streamed_snapshots = False,
      nc_join_as_learner = False\<rparr>"

definition MAX_IN_FLIGHT_READIES :: nat where "MAX_IN_FLIGHT_READIES = 8"
definition OUTBOUND_QUEUE_DEPTH :: nat where "OUTBOUND_QUEUE_DEPTH = 32"

type_synonym CommittedEntry = "LogIndex \<times> EntryType \<times> bytes"

record PendingPersist =
  pp_number :: u64
  pp_token :: "u64 option"
  pp_immediate :: "Message list"
  pp_persisted :: "Message list"
  pp_committed :: "CommittedEntry list"
  pp_read_states :: "(bytes \<times> LogIndex) list"
  pp_snapshot :: "Snapshot option"
  pp_snapshot_from :: "RaftId option"

record HeldSnapshot =
  held_from :: RaftId
  held_index :: LogIndex
  held_term :: Term
  held_bytes :: bytes

record StepOutcome =
  so_committed :: "CommittedEntry list"
  so_snapshot :: "Snapshot option"
  so_snapshot_from :: "RaftId option"
  so_read_states :: "(bytes \<times> LogIndex) list"

definition outcome_default :: StepOutcome where
  "outcome_default = \<lparr>so_committed = [], so_snapshot = None, so_snapshot_from = None, so_read_states = []\<rparr>"

text \<open>
  The calls at the boundary: a snapshot installed, the records of a \<open>Ready\<close> written, with the
  storage as it then is, a flush reported done, with the storage that was asked, raft told that a
  cycle is persistent, and its messages handed over for delivery.
\<close>

datatype Call =
    InstalledSnapshot LogIndex
  | Wrote Ready PersistSubmit World
  | FlushDone u64 u64 World
  | OnPersist u64
  | HandFast u64 "Message list"
  | HandPersisted u64 "Message list"

record 'r RaftNode =
  nd_raw :: 'r
  nd_store :: RaftStorage
  nd_pending :: "PendingPersist list"
  nd_peers :: "(RaftId \<times> NodeId) list"
  nd_snapshot_from :: "RaftId option"
  nd_held_snapshot :: "HeldSnapshot option"
  nd_dropped_sends :: nat
  nd_outbound :: "(RaftId \<times> Message list) list"
  nd_outbound_sender :: bool
  nd_wakes :: nat
  nd_net :: "NodeId \<Rightarrow> bytes list"
  nd_history :: "Call list"

type_synonym ('r, 'a) node_op = "('r RaftNode, NodeError, 'a) comp"

subsection \<open>Lifting\<close>

definition on_store :: "('e \<Rightarrow> NodeError) \<Rightarrow> (RaftStorage, 'e, 'a) comp \<Rightarrow> ('r, 'a) node_op" where
  "on_store err m nd = (case m (nd_store nd) of (st, r) \<Rightarrow> (nd\<lparr>nd_store := st\<rparr>, map_err err r))"

definition on_raw :: "(RaftStorage \<Rightarrow> 'r \<Rightarrow> 'r) \<Rightarrow> 'r RaftNode \<Rightarrow> 'r RaftNode" where
  "on_raw f nd = nd\<lparr>nd_raw := f (nd_store nd) (nd_raw nd)\<rparr>"

definition on_raw_res :: "(RaftStorage \<Rightarrow> 'r \<Rightarrow> 'r \<times> (RaftError + 'a)) \<Rightarrow> ('r, 'a) node_op" where
  "on_raw_res f nd = (case f (nd_store nd) (nd_raw nd) of (r', res) \<Rightarrow> (nd\<lparr>nd_raw := r'\<rparr>, map_err NeRaft res))"

definition record_call :: "Call \<Rightarrow> 'r RaftNode \<Rightarrow> 'r RaftNode" where
  "record_call c nd = nd\<lparr>nd_history := nd_history nd @ [c]\<rparr>"

definition record_write :: "Ready \<Rightarrow> PersistSubmit \<Rightarrow> 'r RaftNode \<Rightarrow> 'r RaftNode" where
  "record_write ready submitted nd = record_call (Wrote ready submitted (rst_inner (nd_store nd))) nd"

subsection \<open>Construction\<close>

definition bootstrap_conf_state :: "RaftNodeConfig \<Rightarrow> RaftId \<Rightarrow> (RaftId \<times> NodeId) list \<Rightarrow> ConfState" where
  "bootstrap_conf_state config self_raft_id peers =
     (let voters = (case nc_bootstrap_voters config of Some vs \<Rightarrow> vs | None \<Rightarrow> map fst peers);
          (voters, learners) =
            (if nc_join_as_learner config then (voters, [self_raft_id])
             else if nc_bootstrap_voters config = None then (voters @ [self_raft_id], [])
             else (voters, []))
      in \<lparr>cs_voters = remdups_adj (sort voters), cs_learners = remdups_adj (sort learners)\<rparr>)"

definition new_with_config ::
    "'r lib \<Rightarrow> RaftId \<Rightarrow> (RaftId \<times> NodeId) list \<Rightarrow> World \<Rightarrow> LogIndex \<Rightarrow> RaftNodeConfig \<Rightarrow> NodeError + 'r RaftNode" where
  "new_with_config L self_raft_id peers storage applied config =
     (if self_raft_id = 0 then Inl (NeRaft ConfigInvalid)
      else
        let raft_config = \<lparr>rg_id = self_raft_id, rg_election_tick = nc_election_tick config,
              rg_heartbeat_tick = nc_heartbeat_tick config, rg_applied = applied,
              rg_max_size_per_msg = nc_max_size_per_msg config,
              rg_max_inflight_msgs = nc_max_inflight_msgs config\<rparr>
        in and_then (map_err NeRaft (raw_validate L raft_config)) (\<lambda>_.
           let store = streamed_snapshots (nc_streamed_snapshots config)
                 (with_conf_state storage (bootstrap_conf_state config self_raft_id peers))
           in and_then (map_err NeRaft (raw_new L raft_config store)) (\<lambda>raw.
              Inr \<lparr>nd_raw = raw, nd_store = store, nd_pending = [], nd_peers = peers,
                   nd_snapshot_from = None, nd_held_snapshot = None, nd_dropped_sends = 0,
                   nd_outbound = [], nd_outbound_sender = False, nd_wakes = 0, nd_net = (\<lambda>_. []),
                   nd_history = []\<rparr>)))"

subsection \<open>Delivery\<close>

text \<open>\<open>send_one\<close>: whether the message was dropped is the second component.\<close>

definition send_one ::
    "'r lib \<Rightarrow> (RaftId \<times> NodeId) list \<Rightarrow> RaftId \<Rightarrow> Message \<Rightarrow> (NodeId \<Rightarrow> bytes list) \<Rightarrow> (NodeId \<Rightarrow> bytes list) \<times> bool" where
  "send_one L peers self_id msg net =
     (if mg_to msg = self_id then (net, True)
      else case map_of peers (mg_to msg) of
        None \<Rightarrow> (net, True)
      | Some node_id \<Rightarrow>
          (case pb_write L msg of
             None \<Rightarrow> (net, False)
           | Some b \<Rightarrow> (net(node_id := net node_id @ [b]), net_send L node_id (net node_id) b)))"

definition deliver :: "'r lib \<Rightarrow> Message \<Rightarrow> 'r RaftNode \<Rightarrow> 'r RaftNode" where
  "deliver L msg nd =
     (case send_one L (nd_peers nd) (raw_id L (nd_raw nd)) msg (nd_net nd) of
        (net, good) \<Rightarrow> nd\<lparr>nd_net := net, nd_dropped_sends := nd_dropped_sends nd + (if good then 0 else 1)\<rparr>)"

text \<open>
  \<open>group_by_peer\<close>: the map of the groups and the order in which the destinations first occur.
\<close>

fun group_into :: "Message list \<Rightarrow> (RaftId \<times> Message list) list \<Rightarrow> RaftId list \<Rightarrow> (RaftId \<times> Message list) list \<times> RaftId list" where
  "group_into [] groups order = (groups, order)"
| "group_into (m # ms) groups order =
     (let seen = map_of groups (mg_to m);
          order = (if seen = None then order @ [mg_to m] else order)
      in group_into ms (AList.update (mg_to m) ((case seen of Some g \<Rightarrow> g | None \<Rightarrow> []) @ [m]) groups) order)"

definition group_by_peer :: "Message list \<Rightarrow> (RaftId \<times> Message list) list" where
  "group_by_peer messages =
     (case group_into messages [] [] of
        (groups, order) \<Rightarrow> map (\<lambda>to. (to, case map_of groups to of Some g \<Rightarrow> g | None \<Rightarrow> [])) order)"

definition deliver_grouped :: "'r lib \<Rightarrow> Message list \<Rightarrow> 'r RaftNode \<Rightarrow> 'r RaftNode" where
  "deliver_grouped L messages nd =
     fold (\<lambda>(_, msgs) nd. fold (deliver L) msgs nd) (group_by_peer messages) nd"

definition enqueue_one :: "'r lib \<Rightarrow> Message \<Rightarrow> 'r RaftNode \<times> bool \<Rightarrow> 'r RaftNode \<times> bool" where
  "enqueue_one L msg = (\<lambda>(nd, enqueued).
     if mg_to msg = raw_id L (nd_raw nd) then (nd, enqueued)
     else if map_of (nd_peers nd) (mg_to msg) = None then
       (nd\<lparr>nd_dropped_sends := nd_dropped_sends nd + 1\<rparr>, enqueued)
     else
       let queue = (case map_of (nd_outbound nd) (mg_to msg) of Some q \<Rightarrow> q | None \<Rightarrow> [])
       in if length queue \<ge> OUTBOUND_QUEUE_DEPTH then
            (nd\<lparr>nd_outbound := AList.update (mg_to msg) queue (nd_outbound nd),
                nd_dropped_sends := nd_dropped_sends nd + 1\<rparr>, enqueued)
          else (nd\<lparr>nd_outbound := AList.update (mg_to msg) (queue @ [msg]) (nd_outbound nd)\<rparr>, True))"

definition enqueue_outbound :: "'r lib \<Rightarrow> Message list \<Rightarrow> 'r RaftNode \<Rightarrow> 'r RaftNode" where
  "enqueue_outbound L messages nd =
     (case fold (enqueue_one L) messages (nd, False) of
        (nd, enqueued) \<Rightarrow>
          if enqueued \<and> nd_outbound_sender nd then nd\<lparr>nd_wakes := nd_wakes nd + 1\<rparr> else nd)"

definition start_outbound_sender :: "'r RaftNode \<Rightarrow> 'r RaftNode" where
  "start_outbound_sender nd = nd\<lparr>nd_outbound_sender := True\<rparr>"

text \<open>
  One wake-up of the sender task: every queue is emptied, and the messages of a peer are sent in
  order.  A message that cannot be encoded is sent as an empty payload.
\<close>

definition send_drained :: "'r lib \<Rightarrow> NodeId \<Rightarrow> Message \<Rightarrow> 'r RaftNode \<Rightarrow> 'r RaftNode" where
  "send_drained L node_id msg nd =
     (let b = (case pb_write L msg of Some b \<Rightarrow> b | None \<Rightarrow> [])
      in nd\<lparr>nd_net := (nd_net nd)(node_id := nd_net nd node_id @ [b]),
            nd_dropped_sends := nd_dropped_sends nd +
              (if net_send L node_id (nd_net nd node_id) b then 0 else 1)\<rparr>)"

definition run_outbound_sender :: "'r lib \<Rightarrow> 'r RaftNode \<Rightarrow> 'r RaftNode" where
  "run_outbound_sender L nd =
     (if \<not> nd_outbound_sender nd \<or> nd_wakes nd = 0 then nd
      else
        let by_peer = filter (\<lambda>(peer, msgs). msgs \<noteq> []) (nd_outbound nd);
            drained = nd\<lparr>nd_wakes := nd_wakes nd - 1,
              nd_outbound := map (\<lambda>(peer, msgs). (peer, [])) (nd_outbound nd)\<rparr>
        in fold (\<lambda>(peer, msgs) nd.
             case map_of (nd_peers nd) peer of
               Some node_id \<Rightarrow> fold (send_drained L node_id) msgs nd
             | None \<Rightarrow> nd\<lparr>nd_dropped_sends := nd_dropped_sends nd + length msgs\<rparr>) by_peer drained)"

subsection \<open>The Ready loop\<close>

definition committed_of :: "RaftEntry list \<Rightarrow> CommittedEntry list" where
  "committed_of = map (\<lambda>e. let e = from_raft_entry e in (le_index e, le_type e, le_data e))"

text \<open>A snapshot is empty when its index is 0.\<close>

definition ready_snapshot :: "Ready \<Rightarrow> Snapshot option" where
  "ready_snapshot ready =
     (if rp_index (rd_snapshot ready) = 0 then None else Some (from_raft_snapshot (rd_snapshot ready)))"

definition take_ready :: "'r lib \<Rightarrow> ('r, Ready) node_op" where
  "take_ready L nd = (case raw_ready L (nd_store nd) (nd_raw nd) of (ready, raw) \<Rightarrow> (nd\<lparr>nd_raw := raw\<rparr>, Inr ready))"

definition deliver_fast :: "'r lib \<Rightarrow> Ready \<Rightarrow> 'r RaftNode \<Rightarrow> 'r RaftNode" where
  "deliver_fast L ready nd =
     (let nd = record_call (HandFast (rd_number ready) (rd_messages ready)) nd
      in if nd_outbound_sender nd then enqueue_outbound L (rd_messages ready) nd
         else deliver_grouped L (rd_messages ready) nd)"

definition submit_ready :: "'r lib \<Rightarrow> ('r, unit) node_op" where
  "submit_ready L =
     seq (take_ready L) (\<lambda>ready.
     let number = rd_number ready;
         snapshot = ready_snapshot ready;
         entries = map from_raft_entry (rd_entries ready);
         hard_state = map_option to_seam_hard_state (rd_hs ready)
     in seq (gets (\<lambda>nd. rst_streamed (nd_store nd))) (\<lambda>streams.
        seq (case snapshot of
               Some snap \<Rightarrow>
                 if \<not> (streams \<and> sn_data snap = [])
                 then seq (on_store NeRaft (st_install_snapshot snap)) (\<lambda>_.
                        modify (record_call (InstalledSnapshot (sm_index (sn_meta snap)))))
                 else ret ()
             | None \<Rightarrow> ret ()) (\<lambda>_.
        seq (on_store NeRaft (st_persist_ready_records entries hard_state)) (\<lambda>submitted.
        seq (modify (record_write ready submitted)) (\<lambda>_.
        seq (modify (on_raw (\<lambda>st. raw_advance_append_async L st ready))) (\<lambda>_.
        seq (case submitted of
               OffloadedToken _ \<Rightarrow> modify (deliver_fast L ready)
             | Durable \<Rightarrow> ret ()) (\<lambda>_.
          modify (\<lambda>nd. nd\<lparr>
            nd_pending := nd_pending nd @ [
              \<lparr>pp_number = number,
               pp_token = (case submitted of Durable \<Rightarrow> None | OffloadedToken t \<Rightarrow> Some t),
               pp_immediate = (case submitted of Durable \<Rightarrow> rd_messages ready | OffloadedToken t \<Rightarrow> []),
               pp_persisted = rd_persisted_messages ready,
               pp_committed = committed_of (rd_committed_entries ready),
               pp_read_states = rd_read_states ready, pp_snapshot = snapshot,
               pp_snapshot_from = (if snapshot \<noteq> None then nd_snapshot_from nd else None)\<rparr>],
            nd_snapshot_from := (if snapshot \<noteq> None then None else nd_snapshot_from nd)\<rparr>))))))))"

text \<open>Whether the flush of the oldest cycle has landed; a failed flush is an error.\<close>

definition flush_landed :: "PendingPersist \<Rightarrow> ('r, bool) node_op" where
  "flush_landed p =
     (case pp_token p of
        None \<Rightarrow> ret True
      | Some token \<Rightarrow>
          seq (gets (\<lambda>nd. rst_inner (nd_store nd))) (\<lambda>asked.
          seq (on_store NeRaft (st_poll_flush token)) (\<lambda>status.
            case status of
              None \<Rightarrow> ret False
            | Some good \<Rightarrow>
                if good then seq (modify (record_call (FlushDone (pp_number p) token asked))) (\<lambda>_. ret True)
                else throw NeStorage)))"

definition deliver_all :: "'r lib \<Rightarrow> Message list \<Rightarrow> 'r RaftNode \<Rightarrow> 'r RaftNode" where
  "deliver_all L msgs nd =
     (if nd_outbound_sender nd then enqueue_outbound L msgs nd else fold (deliver L) msgs nd)"

text \<open>The rest of \<open>finish_persisted\<close>, once the records of the cycle \<open>p\<close> are durable.\<close>

definition finish_cycle :: "'r lib \<Rightarrow> PendingPersist \<Rightarrow> ('r, StepOutcome option) node_op" where
  "finish_cycle L p nd =
     (let nd = record_call (OnPersist (pp_number p)) (on_raw (\<lambda>st. raw_on_persist_ready L st (pp_number p)) nd);
          nd = on_raw (raw_advance_apply L) nd;
          nd = nd\<lparr>nd_pending := tl (nd_pending nd)\<rparr>;
          nd = deliver_all L (pp_immediate p) (record_call (HandFast (pp_number p) (pp_immediate p)) nd);
          nd = deliver_all L (pp_persisted p) (record_call (HandPersisted (pp_number p) (pp_persisted p)) nd);
          committed = (case pp_snapshot p of
            Some snap \<Rightarrow> filter (\<lambda>(index, _, _). index > sm_index (sn_meta snap)) (pp_committed p)
          | None \<Rightarrow> pp_committed p)
      in (nd, Inr (Some \<lparr>so_committed = committed, so_snapshot = pp_snapshot p,
            so_snapshot_from = pp_snapshot_from p, so_read_states = pp_read_states p\<rparr>)))"

definition finish_persisted :: "'r lib \<Rightarrow> ('r, StepOutcome option) node_op" where
  "finish_persisted L =
     seq (gets nd_pending) (\<lambda>pending.
       case pending of
         [] \<Rightarrow> ret None
       | p # _ \<Rightarrow> seq (flush_landed p) (\<lambda>landed. if landed then finish_cycle L p else ret None))"

definition node_step :: "'r lib \<Rightarrow> ('r, StepOutcome) node_op" where
  "node_step L =
     seq (finish_persisted L) (\<lambda>done.
       case done of
         Some outcome \<Rightarrow> ret outcome
       | None \<Rightarrow>
           seq (gets (\<lambda>nd. length (nd_pending nd) < MAX_IN_FLIGHT_READIES \<and> raw_has_ready L (nd_store nd) (nd_raw nd)))
             (\<lambda>submit.
               if submit then
                 seq (submit_ready L) (\<lambda>_.
                 seq (finish_persisted L) (\<lambda>done.
                   case done of Some outcome \<Rightarrow> ret outcome | None \<Rightarrow> ret outcome_default))
               else ret outcome_default))"

definition is_persisting :: "'r RaftNode \<Rightarrow> bool" where
  "is_persisting nd \<longleftrightarrow> nd_pending nd \<noteq> []"

subsection \<open>Proposals, reads and membership\<close>

definition node_tick :: "'r lib \<Rightarrow> 'r RaftNode \<Rightarrow> 'r RaftNode" where
  "node_tick L nd = on_raw (raw_tick L) nd"

definition propose :: "'r lib \<Rightarrow> bytes \<Rightarrow> ('r, unit) node_op" where
  "propose L cmd = on_raw_res (\<lambda>st. raw_propose L st cmd)"

definition propose_conf_change :: "'r lib \<Rightarrow> ConfChangeType \<Rightarrow> RaftId \<Rightarrow> ('r, unit) node_op" where
  "propose_conf_change L change_type node_id = on_raw_res (\<lambda>st. raw_propose_conf_change L st change_type node_id)"

definition learner_caught_up :: "u64 \<Rightarrow> bool \<Rightarrow> u64 \<Rightarrow> bool" where
  "learner_caught_up behind has_acked threshold \<longleftrightarrow> has_acked \<and> behind \<le> threshold"

text \<open>The identity of a membership change; \<open>None\<close> is the error.\<close>

definition conf_change_identity :: "'r lib \<Rightarrow> EntryType \<Rightarrow> bytes \<Rightarrow> (ConfChangeType \<times> RaftId) option" where
  "conf_change_identity L entry_type bs =
     (case entry_type of
        ConfChange \<Rightarrow> pb_conf_change L bs
      | ConfChangeV2 \<Rightarrow>
          (case pb_conf_change_v2 L bs of
             None \<Rightarrow> None
           | Some changes \<Rightarrow> if length changes \<noteq> 1 then None else Some (changes ! 0))
      | NormalEntry \<Rightarrow> None)"

definition apply_conf_change :: "'r lib \<Rightarrow> LogIndex \<Rightarrow> EntryType \<Rightarrow> bytes \<Rightarrow> ('r, bool) node_op" where
  "apply_conf_change L index entry_type bs =
     seq (gets (\<lambda>nd. st_conf_change_index (nd_store nd))) (\<lambda>done.
     if index \<le> done then ret False
     else case conf_change_identity L entry_type bs of
       None \<Rightarrow> throw NeCodec
     | Some _ \<Rightarrow>
         seq (case entry_type of
                ConfChange \<Rightarrow>
                  (case pb_conf_change L bs of
                     None \<Rightarrow> throw NeCodec
                   | Some cc \<Rightarrow> on_raw_res (\<lambda>st. raw_apply_conf_change L st [cc]))
              | ConfChangeV2 \<Rightarrow>
                  (case pb_conf_change_v2 L bs of
                     None \<Rightarrow> throw NeCodec
                   | Some cc \<Rightarrow> on_raw_res (\<lambda>st. raw_apply_conf_change L st cc))
              | NormalEntry \<Rightarrow> throw NeCodec) (\<lambda>conf_state.
         seq (on_store (\<lambda>_. NeStorage) (st_save_conf_state index (to_seam_conf_state conf_state))) (\<lambda>_.
           ret True)))"

definition transfer_leader :: "'r lib \<Rightarrow> RaftId \<Rightarrow> 'r RaftNode \<Rightarrow> 'r RaftNode" where
  "transfer_leader L node_id = on_raw (\<lambda>st. raw_transfer_leader L st node_id)"

definition voter_ids :: "'r RaftNode \<Rightarrow> RaftId list" where
  "voter_ids nd = rc_voters (is_conf_state (st_initial_state (nd_store nd)))"

definition is_learner :: "RaftId \<Rightarrow> 'r RaftNode \<Rightarrow> bool" where
  "is_learner node_id nd \<longleftrightarrow> node_id \<in> set (rc_learners (is_conf_state (st_initial_state (nd_store nd))))"

definition applied_conf_state :: "'r RaftNode \<Rightarrow> ConfState" where
  "applied_conf_state nd = to_seam_conf_state (is_conf_state (st_initial_state (nd_store nd)))"

definition learner_progress :: "'r lib \<Rightarrow> RaftId \<Rightarrow> 'r RaftNode \<Rightarrow> (u64 \<times> bool) option" where
  "learner_progress L node_id nd =
     map_option (\<lambda>p. (let last = st_last_index (nd_store nd); m = pr_matched p
                      in (if m \<le> last then last - m else 0, m > 0)))
       (raw_progress L (nd_raw nd) node_id)"

definition read_index :: "'r lib \<Rightarrow> bytes \<Rightarrow> 'r RaftNode \<Rightarrow> 'r RaftNode" where
  "read_index L ctx = on_raw (\<lambda>st. raw_read_index L st ctx)"

definition leader_id :: "'r lib \<Rightarrow> 'r RaftNode \<Rightarrow> RaftId" where
  "leader_id L nd = raw_leader L (nd_raw nd)"

subsection \<open>Inbound messages and snapshots\<close>

definition on_message :: "'r lib \<Rightarrow> RaftId \<Rightarrow> bytes \<Rightarrow> ('r, unit) node_op" where
  "on_message L from bs =
     (case pb_read L bs of
        None \<Rightarrow> throw NeCodec
      | Some raft_msg \<Rightarrow>
          let raft_msg = raft_msg\<lparr>mg_from := from\<rparr>
          in if mg_type raft_msg = MsgSnapshot then
               seq (gets (\<lambda>nd. rst_streamed (nd_store nd))) (\<lambda>streams.
               if streams \<and> rp_data (mg_snapshot raft_msg) = [] then
                 modify (\<lambda>nd. nd\<lparr>nd_held_snapshot := Some \<lparr>held_from = from,
                   held_index = rp_index (mg_snapshot raft_msg), held_term = rp_term (mg_snapshot raft_msg),
                   held_bytes = bs\<rparr>\<rparr>)
               else
                 seq (modify (\<lambda>nd. nd\<lparr>nd_snapshot_from := Some from\<rparr>)) (\<lambda>_.
                   on_raw_res (\<lambda>st. raw_step L st raft_msg)))
             else on_raw_res (\<lambda>st. raw_step L st raft_msg))"

definition take_held_snapshot :: "'r RaftNode \<Rightarrow> 'r RaftNode \<times> HeldSnapshot option" where
  "take_held_snapshot nd = (nd\<lparr>nd_held_snapshot := None\<rparr>, nd_held_snapshot nd)"

definition step_held_snapshot :: "'r lib \<Rightarrow> HeldSnapshot \<Rightarrow> bytes \<Rightarrow> ('r, unit) node_op" where
  "step_held_snapshot L held bs =
     (case pb_read L (held_bytes held) of
        None \<Rightarrow> throw NeCodec
      | Some raft_msg \<Rightarrow>
          let raft_msg = raft_msg\<lparr>mg_snapshot := (mg_snapshot raft_msg)\<lparr>rp_data := bs\<rparr>, mg_from := held_from held\<rparr>
          in seq (modify (\<lambda>nd. nd\<lparr>nd_snapshot_from := Some (held_from held)\<rparr>)) (\<lambda>_.
               on_raw_res (\<lambda>st. raw_step L st raft_msg)))"

definition create_snapshot :: "LogIndex \<Rightarrow> Term \<Rightarrow> ConfState \<Rightarrow> bytes \<Rightarrow> ('r, unit) node_op" where
  "create_snapshot index term conf_state bs =
     seq (on_store NeRaft (st_save_snapshot
            \<lparr>sn_meta = \<lparr>sm_index = index, sm_term = term, sm_conf_state = conf_state\<rparr>, sn_data = bs\<rparr>)) (\<lambda>_.
       on_store NeRaft (st_compact index))"

definition term_at :: "LogIndex \<Rightarrow> 'r RaftNode \<Rightarrow> NodeError + Term" where
  "term_at index nd = map_err NeRaft (st_term_at (nd_store nd) index)"

definition node_log_bytes :: "('r, nat) node_op" where
  "node_log_bytes = on_store NeRaft st_log_bytes"

end
