(* ===== verification/NodePipeline.thy ===== *)
theory NodePipeline
  imports RaftNode WalRuns
begin

text \<open>
  The pipeline of the consensus node: the order in which records are written, flushed and
  reported to raft, and in which messages leave.  A run of the node is any sequence of its
  operations, of wake-ups of the sender task and of rounds of the flusher thread, in any order
  and with any results of the libraries.
\<close>

subsection \<open>Runs\<close>

text \<open>A round of the flusher thread, which shares the store with the node.\<close>

definition flusher_wakes :: "nat \<Rightarrow> 'r RaftNode \<Rightarrow> 'r RaftNode" where
  "flusher_wakes extra nd = nd\<lparr>nd_store := (nd_store nd)\<lparr>rst_inner := flusher_round extra (rst_inner (nd_store nd))\<rparr>\<rparr>"

inductive node_step_rel :: "'r lib \<Rightarrow> 'r RaftNode \<Rightarrow> 'r RaftNode \<Rightarrow> bool"
  for L :: "'r lib" and nd :: "'r RaftNode" where
  step: "node_step_rel L nd (fst (node_step L nd))"
| tick: "node_step_rel L nd (node_tick L nd)"
| propose: "node_step_rel L nd (fst (propose L cmd nd))"
| propose_conf: "node_step_rel L nd (fst (propose_conf_change L ty i nd))"
| apply_conf: "node_step_rel L nd (fst (apply_conf_change L index ety bs nd))"
| transfer: "node_step_rel L nd (transfer_leader L i nd)"
| read: "node_step_rel L nd (read_index L ctx nd)"
| message: "node_step_rel L nd (fst (on_message L from bs nd))"
| take_held: "node_step_rel L nd (fst (take_held_snapshot nd))"
| step_held: "node_step_rel L nd (fst (step_held_snapshot L held bs nd))"
| snapshot: "node_step_rel L nd (fst (create_snapshot index term cs bs nd))"
| start_sender: "node_step_rel L nd (start_outbound_sender nd)"
| sender: "node_step_rel L nd (run_outbound_sender L nd)"
| flusher: "node_step_rel L nd (flusher_wakes extra nd)"

inductive node_run :: "'r lib \<Rightarrow> 'r RaftNode \<Rightarrow> bool" for L :: "'r lib" where
  start: "new_with_config L self_id peers storage applied config = Inr nd \<Longrightarrow> node_run L nd"
| later: "node_run L nd \<Longrightarrow> node_step_rel L nd nd' \<Longrightarrow> node_run L nd'"

subsection \<open>What an accepted write leaves\<close>

text \<open>The log ends with the batch, whatever it overwrote, and the hard state is the one given.\<close>

lemma each_append_entries: "each append_entry es w = (w', Inr u) \<Longrightarrow> wal_entries (the_wal w') = wal_entries (the_wal w) @ es"
proof (induction es arbitrary: w)
  case (Cons e es)
  obtain w1 where w1: "append_entry e w = (w1, Inr ())" "each append_entry es w1 = (w', Inr u)"
    using Cons.prems by (auto simp: run_Inr)
  have "wal_entries (the_wal w1) = wal_entries (the_wal w) @ [e]"
    using w1(1) by (auto simp: append_entry_def maybe_rollover_def count_notify_Inr run_Inr Let_def split: if_splits)
  then show ?case using Cons.IH [OF w1(2)] by simp
qed (simp add: comp_defs)

lemma persist_holds:
  assumes "persist_ready_records es h w = (w', Inr d)"
  shows "\<exists>old. wal_entries (the_wal w') = old @ es" "h = Some hs \<Longrightarrow> wal_hard_state (the_wal w') = hs"
proof -
  have a: "\<exists>old. wal_entries (the_wal w1) = old @ es" if "wal_append es w0 = (w1, Inr u)" for w0 w1 u
    using that each_append_entries unfolding wal_append_def by (auto simp: run_Inr)
  have s: "wal_entries (the_wal w1) = wal_entries (the_wal w0)" if "sync_entries w0 = (w1, Inr u)" for w0 w1 u
    using that by (auto simp: sync_entries_def sync_active_def count_notify_Inr run_Inr split: FsyncPolicy.splits if_splits)
  have f: "wal_entries (the_wal w1) = wal_entries (the_wal w0)" "wal_hard_state (the_wal w1) = wal_hard_state (the_wal w0)"
    if "submit_flush w0 = (w1, Inr u)" for w0 w1 u
    using that by (auto simp: submit_flush_def run_Inr Let_def split: option.splits)
  have h: "wal_entries (the_wal w1) = wal_entries (the_wal w0)" "wal_hard_state (the_wal w1) = g"
    if "set_hard_state g w0 = (w1, Inr u) \<or> set_hard_state_buffered g w0 = (w1, Inr u)" for g w0 w1 u
    using that by (auto simp: set_hard_state_def set_hard_state_buffered_def count_notify_Inr run_Inr)
  show "\<exists>old. wal_entries (the_wal w') = old @ es"
    using assms a s f h(1) unfolding persist_ready_records_def
    by (auto simp: run_Inr split: option.splits if_splits) metis+
  show "h = Some hs \<Longrightarrow> wal_hard_state (the_wal w') = hs"
    using assms f(2) h(2) unfolding persist_ready_records_def
    by (auto simp: run_Inr split: option.splits if_splits) metis+
qed

subsection \<open>What a call requires\<close>

text \<open>
  The records of a \<open>Ready\<close> that raft gave are written when the log's \<open>persist_ready_records\<close> has
  accepted its entries and its hard state.  They are durable when that was synchronous or when,
  later on, \<open>poll_flush\<close> has reported the flush it handed to the flusher thread.
\<close>

definition write_accepted :: "'r lib \<Rightarrow> Ready \<Rightarrow> PersistSubmit \<Rightarrow> World \<Rightarrow> bool" where
  "write_accepted L rd sub w \<longleftrightarrow> (\<exists>st r. fst (raw_ready L st r) = rd) \<and>
     (\<exists>before. persist_ready_records (map from_raft_entry (rd_entries rd)) (map_option to_seam_hard_state (rd_hs rd)) before =
        (w, Inr sub))"

definition flush_reported :: "u64 \<Rightarrow> u64 \<Rightarrow> Call list \<Rightarrow> bool" where
  "flush_reported n t h \<longleftrightarrow> (\<exists>w w'. FlushDone n t w \<in> set h \<and> poll_flush t w = (w', Inr (Some True)))"

definition wrote_at :: "'r lib \<Rightarrow> Call list \<Rightarrow> Ready \<Rightarrow> PersistSubmit \<Rightarrow> Call list \<Rightarrow> bool" where
  "wrote_at L h rd sub later \<longleftrightarrow> (\<exists>earlier w. h = earlier @ Wrote rd sub w # later \<and> write_accepted L rd sub w)"

definition recorded :: "'r lib \<Rightarrow> Call list \<Rightarrow> Ready \<Rightarrow> bool" where
  "recorded L h rd \<longleftrightarrow> (\<exists>sub later. wrote_at L h rd sub later)"

definition persisted :: "'r lib \<Rightarrow> Call list \<Rightarrow> Ready \<Rightarrow> bool" where
  "persisted L h rd \<longleftrightarrow> (\<exists>sub later. wrote_at L h rd sub later \<and>
     (\<forall>t. sub = OffloadedToken t \<longrightarrow> flush_reported (rd_number rd) t later))"

text \<open>
  Raft is told that a cycle is persistent only after its records are durable, and the messages
  that depend on them leave after that; fast-path messages may leave once the records are written.
\<close>

fun may_follow :: "'r lib \<Rightarrow> Call list \<Rightarrow> Call \<Rightarrow> bool" where
  "may_follow L h (OnPersist n) \<longleftrightarrow> (\<exists>rd. rd_number rd = n \<and> persisted L h rd)"
| "may_follow L h (HandPersisted n ms) \<longleftrightarrow>
     (\<exists>rd a b. h = a @ OnPersist n # b \<and> rd_number rd = n \<and> ms = rd_persisted_messages rd \<and> persisted L a rd)"
| "may_follow L h (HandFast n ms) \<longleftrightarrow> ms = [] \<or> (\<exists>rd. rd_number rd = n \<and> ms = rd_messages rd \<and> recorded L h rd)"
| "may_follow L h (FlushDone n t w) \<longleftrightarrow> (\<exists>w'. poll_flush t w = (w', Inr (Some True)))"
| "may_follow L h (Wrote rd sub w) \<longleftrightarrow> write_accepted L rd sub w"
| "may_follow L h (InstalledSnapshot i) \<longleftrightarrow> True"

definition ordered :: "'r lib \<Rightarrow> Call list \<Rightarrow> bool" where
  "ordered L h \<longleftrightarrow> (\<forall>pre c post. h = pre @ c # post \<longrightarrow> may_follow L pre c)"

lemma ordered_Nil [simp]: "ordered L []"
  by (simp add: ordered_def)

lemma ordered_snoc [simp]: "ordered L (h @ [c]) \<longleftrightarrow> ordered L h \<and> may_follow L h c"
proof
  assume "ordered L (h @ [c])"
  then show "ordered L h \<and> may_follow L h c" by (auto simp: ordered_def)
next
  assume r: "ordered L h \<and> may_follow L h c"
  show "ordered L (h @ [c])"
    unfolding ordered_def
  proof (intro allI impI)
    fix pre d post assume "h @ [c] = pre @ d # post"
    then show "may_follow L pre d"
      using r by (cases post rule: rev_cases) (auto simp: ordered_def)
  qed
qed

lemma wrote_at_more: "wrote_at L h rd sub later \<Longrightarrow> wrote_at L (h @ h') rd sub (later @ h')"
  by (auto simp: wrote_at_def)

lemma recorded_more: "recorded L h rd \<Longrightarrow> recorded L (h @ h') rd"
  unfolding recorded_def using wrote_at_more by blast

lemma persisted_more: "persisted L h rd \<Longrightarrow> persisted L (h @ h') rd"
  unfolding persisted_def flush_reported_def using wrote_at_more by fastforce

text \<open>
  The cycles written, each with the messages that depend on its records; those handed over; and
  the numbers reported to raft, all in order.
\<close>

definition cycles :: "Call list \<Rightarrow> (u64 \<times> Message list) list" where
  "cycles h = List.map_filter (\<lambda>c. case c of Wrote rd _ _ \<Rightarrow> Some (rd_number rd, rd_persisted_messages rd) | _ \<Rightarrow> None) h"

definition handed :: "Call list \<Rightarrow> (u64 \<times> Message list) list" where
  "handed h = List.map_filter (\<lambda>c. case c of HandPersisted n ms \<Rightarrow> Some (n, ms) | _ \<Rightarrow> None) h"

definition persists :: "Call list \<Rightarrow> u64 list" where
  "persists h = List.map_filter (\<lambda>c. case c of OnPersist n \<Rightarrow> Some n | _ \<Rightarrow> None) h"

lemma numbers_simps [simp]:
  "cycles [] = []" "handed [] = []" "persists [] = []" "cycles (h @ h') = cycles h @ cycles h'"
  "handed (h @ h') = handed h @ handed h'" "persists (h @ h') = persists h @ persists h'"
  "cycles (c # h) = (case c of Wrote rd _ _ \<Rightarrow> [(rd_number rd, rd_persisted_messages rd)] | _ \<Rightarrow> []) @ cycles h"
  "handed (c # h) = (case c of HandPersisted n ms \<Rightarrow> [(n, ms)] | _ \<Rightarrow> []) @ handed h"
  "persists (c # h) = (case c of OnPersist n \<Rightarrow> [n] | _ \<Rightarrow> []) @ persists h"
  by (auto simp: cycles_def handed_def persists_def map_filter_def split: Call.splits)

subsection \<open>The invariant\<close>

text \<open>What a cycle in flight keeps of its \<open>Ready\<close>.\<close>

definition token_of :: "PersistSubmit \<Rightarrow> u64 option" where
  "token_of sub = (case sub of Durable \<Rightarrow> None | OffloadedToken t \<Rightarrow> Some t)"

definition carries :: "PendingPersist \<Rightarrow> Ready \<Rightarrow> PersistSubmit \<Rightarrow> bool" where
  "carries p rd sub \<longleftrightarrow> pp_number p = rd_number rd \<and> pp_token p = token_of sub \<and>
     pp_persisted p = rd_persisted_messages rd \<and> pp_immediate p = (if sub = Durable then rd_messages rd else [])"

definition pipe_ok :: "'r lib \<Rightarrow> Call list \<Rightarrow> PendingPersist list \<Rightarrow> bool" where
  "pipe_ok L h ps \<longleftrightarrow> ordered L h \<and> cycles h = handed h @ map (\<lambda>p. (pp_number p, pp_persisted p)) ps \<and>
     persists h = map fst (handed h) \<and> length ps \<le> MAX_IN_FLIGHT_READIES \<and>
     (\<forall>p \<in> set ps. \<exists>rd sub later. wrote_at L h rd sub later \<and> carries p rd sub)"

abbreviation pipe_inv :: "'r lib \<Rightarrow> 'r RaftNode \<Rightarrow> bool" where
  "pipe_inv L nd \<equiv> pipe_ok L (nd_history nd) (nd_pending nd)"

text \<open>Operations that touch neither the history nor the cycles in flight.\<close>

definition same_pipe :: "'r RaftNode \<Rightarrow> 'r RaftNode \<Rightarrow> bool" where
  "same_pipe nd nd' \<longleftrightarrow> nd_history nd' = nd_history nd \<and> nd_pending nd' = nd_pending nd"

named_theorems same_pipes \<open>operations that leave the pipeline alone\<close>

lemma same_pipe_refl [same_pipes]: "same_pipe nd nd"
  by (simp add: same_pipe_def)

lemma same_pipe_trans: "same_pipe a b \<Longrightarrow> same_pipe b c \<Longrightarrow> same_pipe a c"
  by (simp add: same_pipe_def)

lemma same_pipe_fold: "(\<And>x nd. same_pipe nd (f x nd)) \<Longrightarrow> same_pipe nd (fold f xs nd)"
  by (induction xs arbitrary: nd) (auto simp: same_pipe_def)

lemma same_pipe_on_store: "on_store err m nd = (nd', r) \<Longrightarrow> same_pipe nd nd'"
  by (auto simp: on_store_def same_pipe_def split: prod.splits)

lemma same_pipe_on_raw_res: "on_raw_res f nd = (nd', r) \<Longrightarrow> same_pipe nd nd'"
  by (auto simp: on_raw_res_def same_pipe_def split: prod.splits)

lemma same_pipe_on_raw [same_pipes]: "same_pipe nd (on_raw f nd)"
  by (simp add: on_raw_def same_pipe_def)

lemma same_pipe_deliver [same_pipes]: "same_pipe nd (deliver L m nd)"
  by (simp add: deliver_def same_pipe_def split: prod.splits)

lemma same_pipe_deliver_grouped [same_pipes]: "same_pipe nd (deliver_grouped L ms nd)"
  unfolding deliver_grouped_def
  by (rule same_pipe_fold) (auto intro: same_pipe_fold same_pipe_deliver)

lemma same_pipe_enqueue_one: "same_pipe (fst a) (fst (enqueue_one L m a))"
  by (cases a) (auto simp: enqueue_one_def same_pipe_def Let_def)

lemma same_pipe_enqueue [same_pipes]: "same_pipe nd (enqueue_outbound L ms nd)"
proof -
  have "same_pipe (fst a) (fst (fold (enqueue_one L) ms a))" for a :: "'a RaftNode \<times> bool"
  proof (induction ms arbitrary: a)
    case (Cons m ms)
    show ?case using same_pipe_trans [OF same_pipe_enqueue_one Cons.IH] by simp
  qed (simp add: same_pipe_refl)
  from this [of "(nd, False)"] show ?thesis
    by (auto simp: enqueue_outbound_def same_pipe_def split: prod.splits)
qed

lemma same_pipe_deliver_all [same_pipes]: "same_pipe nd (deliver_all L ms nd)"
  unfolding deliver_all_def by (auto intro: same_pipe_enqueue same_pipe_fold same_pipe_deliver)

lemma same_pipe_send_drained [same_pipes]: "same_pipe nd (send_drained L i m nd)"
  by (simp add: send_drained_def same_pipe_def Let_def)

lemma same_pipe_sender [same_pipes]: "same_pipe nd (run_outbound_sender L nd)"
proof -
  define f :: "(RaftId \<times> Message list) \<Rightarrow> 'a RaftNode \<Rightarrow> 'a RaftNode" where
    "f = (\<lambda>(peer, msgs) nd. case map_of (nd_peers nd) peer of
               Some node_id \<Rightarrow> fold (send_drained L node_id) msgs nd
             | None \<Rightarrow> nd\<lparr>nd_dropped_sends := nd_dropped_sends nd + length msgs\<rparr>)"
  have "same_pipe nd (f x nd)" for x nd
    by (cases x) (auto simp: f_def same_pipe_def [of _ "_\<lparr>nd_dropped_sends := _\<rparr>"] split: option.splits
        intro: same_pipe_fold same_pipe_send_drained)
  then have "same_pipe nd (fold f xs nd)" for xs nd by (rule same_pipe_fold)
  then show ?thesis
    unfolding run_outbound_sender_def f_def [symmetric] by (auto simp: Let_def same_pipe_def)
qed

lemma pipe_frames [simp]:
  "nd_history (deliver_all L ms nd) = nd_history nd" "nd_pending (deliver_all L ms nd) = nd_pending nd"
  "nd_history (enqueue_outbound L ms nd) = nd_history nd" "nd_pending (enqueue_outbound L ms nd) = nd_pending nd"
  "nd_history (deliver_grouped L ms nd) = nd_history nd" "nd_pending (deliver_grouped L ms nd) = nd_pending nd"
  "nd_history (on_raw f nd) = nd_history nd" "nd_pending (on_raw f nd) = nd_pending nd"
  "nd_history (record_call c nd) = nd_history nd @ [c]" "nd_pending (record_call c nd) = nd_pending nd"
  by (simp_all add: same_pipe_deliver_all [unfolded same_pipe_def] same_pipe_enqueue [unfolded same_pipe_def]
      same_pipe_deliver_grouped [unfolded same_pipe_def] on_raw_def record_call_def)

subsection \<open>The two halves of a cycle\<close>

lemma seq_run:
  "seq m f s = (s', r) \<longleftrightarrow>
    (\<exists>e. m s = (s', Inl e) \<and> r = Inl e) \<or> (\<exists>s1 x. m s = (s1, Inr x) \<and> f x s1 = (s', r))"
  by (auto simp: seq_def split: prod.splits sum.splits)

lemma install_effect:
  assumes "(case snap of
       Some snap \<Rightarrow>
         if \<not> (streams \<and> sn_data snap = [])
         then seq (on_store NeRaft (st_install_snapshot snap)) (\<lambda>_.
                modify (record_call (InstalledSnapshot (sm_index (sn_meta snap)))))
         else ret ()
     | None \<Rightarrow> ret ()) nd = (nd', r)"
  shows "nd_pending nd' = nd_pending nd \<and>
    (nd_history nd' = nd_history nd \<or> (\<exists>i. nd_history nd' = nd_history nd @ [InstalledSnapshot i]))"
  using assms same_pipe_on_store
  by (fastforce simp: seq_run ret_def modify_def record_call_def same_pipe_def split: option.splits if_splits)

lemma accepted:
  assumes "raw_ready L st r = (rd, raw)"
    and "on_store NeRaft (st_persist_ready_records (map from_raft_entry (rd_entries rd)) (map_option to_seam_hard_state (rd_hs rd))) nd =
      (nd', Inr sub)"
  shows "write_accepted L rd sub (rst_inner (nd_store nd'))"
proof -
  have "\<exists>st r. fst (raw_ready L st r) = rd" using assms(1) by (metis fst_conv)
  moreover have "persist_ready_records (map from_raft_entry (rd_entries rd)) (map_option to_seam_hard_state (rd_hs rd))
      (rst_inner (nd_store nd)) = (rst_inner (nd_store nd'), Inr sub)"
    using assms(2) by (auto simp: on_store_def st_persist_ready_records_def adapt_def res_simps split: prod.splits sum.splits)
  ultimately show ?thesis unfolding write_accepted_def by blast
qed

text \<open>Submitting a cycle writes its records; only an offloaded one lets its fast messages out.\<close>

definition snapshot_calls :: "Call list \<Rightarrow> bool" where
  "snapshot_calls inst \<longleftrightarrow> inst = [] \<or> (\<exists>i. inst = [InstalledSnapshot i])"

definition fast_calls :: "Ready \<Rightarrow> PersistSubmit \<Rightarrow> Call list" where
  "fast_calls rd sub = (if sub = Durable then [] else [HandFast (rd_number rd) (rd_messages rd)])"

lemma submit_ready_effect:
  assumes "submit_ready L nd = (nd', r)"
  obtains (failed) inst where "snapshot_calls inst" "nd_history nd' = nd_history nd @ inst"
      "nd_pending nd' = nd_pending nd"
  | (wrote) inst rd sub w p where "snapshot_calls inst" "write_accepted L rd sub w" "carries p rd sub"
      "nd_history nd' = nd_history nd @ inst @ [Wrote rd sub w] @ fast_calls rd sub"
      "nd_pending nd' = nd_pending nd @ [p]"
proof -
  obtain ready raw where rdy: "raw_ready L (nd_store nd) (nd_raw nd) = (ready, raw)" by fastforce
  define nd0 where "nd0 = nd\<lparr>nd_raw := raw\<rparr>"
  have p0: "same_pipe nd nd0" by (simp add: nd0_def same_pipe_def)
  define snap where "snap = ready_snapshot ready"
  define inst where "inst = (case snap of
       Some snap \<Rightarrow>
         if \<not> (rst_streamed (nd_store nd0) \<and> sn_data snap = [])
         then seq (on_store NeRaft (st_install_snapshot snap)) (\<lambda>_.
                modify (record_call (InstalledSnapshot (sm_index (sn_meta snap)))))
         else ret ()
     | None \<Rightarrow> (ret () :: ('a, unit) node_op))"
  obtain nd1 r1 where i: "inst nd0 = (nd1, r1)" by fastforce
  note ie = install_effect [OF i [unfolded inst_def]]
  then obtain hi where hi: "snapshot_calls hi"
    "nd_history nd1 = nd_history nd @ hi" "nd_pending nd1 = nd_pending nd"
    using p0 by (force simp: same_pipe_def snapshot_calls_def)
  define es where "es = map from_raft_entry (rd_entries ready)"
  define hs where "hs = map_option to_seam_hard_state (rd_hs ready)"
  obtain nd2 r2 where w: "on_store NeRaft (st_persist_ready_records es hs) nd1 = (nd2, r2)" by fastforce
  have p2: "same_pipe nd1 nd2" using same_pipe_on_store [OF w] .
  note defs = submit_ready_def seq_run take_ready_def gets_def Let_def snap_def [symmetric] nd0_def [symmetric]
    inst_def [symmetric] es_def [symmetric] hs_def [symmetric]
  show ?thesis
  proof (cases "r1")
    case (Inl e)
    have "nd' = nd1" using assms rdy i Inl by (simp add: defs)
    then show ?thesis using hi failed by blast
  next
    case (Inr u)
    show ?thesis
    proof (cases r2)
      case (Inl e)
      have "nd' = nd2" using assms rdy i w \<open>r1 = Inr u\<close> Inl by (simp add: defs)
      then show ?thesis using hi p2 failed by (simp add: same_pipe_def)
    next
      case (Inr sub)
      define nd3 where "nd3 = on_raw (\<lambda>st. raw_advance_append_async L st ready) (record_write ready sub nd2)"
      define nd4 where "nd4 = (case sub of OffloadedToken _ \<Rightarrow> deliver_fast L ready nd3 | Durable \<Rightarrow> nd3)"
      have "\<exists>p. nd_history nd' = nd_history nd4 \<and> nd_pending nd' = nd_pending nd4 @ [p] \<and> carries p ready sub"
        using assms rdy i w \<open>r1 = Inr u\<close> Inr
        by (cases sub) (auto simp: defs modify_def ret_def nd3_def nd4_def token_of_def carries_def)
      moreover have "write_accepted L ready sub (rst_inner (nd_store nd2))"
        using accepted [OF rdy w [unfolded es_def hs_def Inr]] .
      moreover have "nd_history nd4 = nd_history nd @ hi @ [Wrote ready sub (rst_inner (nd_store nd2))] @ fast_calls ready sub"
          "nd_pending nd4 = nd_pending nd"
        using hi p2 by (cases sub; simp add: nd3_def nd4_def record_write_def same_pipe_def deliver_fast_def fast_calls_def Let_def)+
      ultimately show ?thesis using hi(1) wrote by metis
    qed
  qed
qed

lemma flush_landed_effect:
  assumes "flush_landed p nd = (nd', r)"
  shows "nd_pending nd' = nd_pending nd \<and>
    (nd_history nd' = nd_history nd \<and> (r = Inr True \<longrightarrow> pp_token p = None) \<or>
     (\<exists>t w w'. pp_token p = Some t \<and> poll_flush t w = (w', Inr (Some True)) \<and>
        nd_history nd' = nd_history nd @ [FlushDone (pp_number p) t w]))"
proof (cases "pp_token p")
  case None
  then show ?thesis using assms by (simp add: flush_landed_def ret_def)
next
  case (Some t)
  obtain nd1 r1 where s: "on_store NeRaft (st_poll_flush t) nd = (nd1, r1)" by fastforce
  have p1: "same_pipe nd nd1" using same_pipe_on_store [OF s] .
  show ?thesis
  proof (cases "r1 = Inr (Some True)")
    case True
    have "\<exists>w'. poll_flush t (rst_inner (nd_store nd)) = (w', Inr (Some True))"
      using s True by (auto simp: on_store_def st_poll_flush_def adapt_def res_simps split: prod.splits sum.splits)
    moreover have "nd' = record_call (FlushDone (pp_number p) t (rst_inner (nd_store nd))) nd1"
      using assms s Some True by (simp add: flush_landed_def seq_def gets_def modify_def ret_def)
    ultimately show ?thesis using p1 Some by (auto simp: same_pipe_def)
  next
    case False
    then have "nd' = nd1 \<and> r \<noteq> Inr True"
      using assms s Some
      by (cases r1) (auto simp: flush_landed_def seq_def gets_def ret_def throw_def split: option.splits)
    then show ?thesis using p1 by (simp add: same_pipe_def)
  qed
qed

lemma flush_lands:
  assumes "carries p rd sub"
    and "nd_history nd' = nd_history nd \<and> pp_token p = None \<or>
     (\<exists>t w w'. pp_token p = Some t \<and> poll_flush t w = (w', Inr (Some True)) \<and>
        nd_history nd' = nd_history nd @ [FlushDone (pp_number p) t w])"
  shows "\<exists>h. nd_history nd' = nd_history nd @ h \<and> (\<forall>t. sub = OffloadedToken t \<longrightarrow> flush_reported (rd_number rd) t h)"
  using assms(2)
proof (elim disjE conjE exE)
  assume "nd_history nd' = nd_history nd" "pp_token p = None"
  then show ?thesis using assms(1) by (intro exI [of _ "[]"]) (auto simp: carries_def token_of_def)
next
  fix t w w' assume f: "pp_token p = Some t" "poll_flush t w = (w', Inr (Some True))"
    "nd_history nd' = nd_history nd @ [FlushDone (pp_number p) t w]"
  then show ?thesis
    using assms(1) by (intro exI [of _ "[FlushDone (pp_number p) t w]"])
      (auto simp: carries_def token_of_def flush_reported_def)
qed

text \<open>Completing a cycle reports it to raft first, then hands its messages over.\<close>

lemma finish_cycle_effect:
  "finish_cycle L p nd = (nd', r) \<Longrightarrow> nd_pending nd' = tl (nd_pending nd) \<and> (\<exists>out. r = Inr (Some out)) \<and>
    nd_history nd' = nd_history nd @ [OnPersist (pp_number p), HandFast (pp_number p) (pp_immediate p),
      HandPersisted (pp_number p) (pp_persisted p)]"
  by (auto simp: finish_cycle_def Let_def)

lemma flights_more:
  "(\<forall>p \<in> set ps. \<exists>rd sub later. wrote_at L h rd sub later \<and> carries p rd sub) \<Longrightarrow>
   (\<forall>p \<in> set ps. \<exists>rd sub later. wrote_at L (h @ h') rd sub later \<and> carries p rd sub)"
  using wrote_at_more by blast

lemma pipe_ok_snapshot: "pipe_ok L h ps \<Longrightarrow> pipe_ok L (h @ [InstalledSnapshot i]) ps"
  using flights_more [of ps L h "[InstalledSnapshot i]"] by (simp add: pipe_ok_def)

lemma pipe_ok_wrote:
  assumes "pipe_ok L h ps" "length ps < MAX_IN_FLIGHT_READIES" "write_accepted L rd sub w" "carries p rd sub"
  shows "pipe_ok L (h @ [Wrote rd sub w] @ fast_calls rd sub) (ps @ [p])"
proof -
  let ?h = "h @ [Wrote rd sub w]"
  have at: "wrote_at L (?h @ h') rd sub h'" for h' using assms(3) by (auto simp: wrote_at_def)
  have "recorded L ?h rd" using at [of "[]"] by (auto simp: recorded_def)
  then have "ordered L (?h @ fast_calls rd sub)"
    using assms(1,3) unfolding fast_calls_def by (auto simp: pipe_ok_def simp del: append_assoc)
  moreover have "\<forall>q \<in> set (ps @ [p]). \<exists>rd sub later. wrote_at L (?h @ fast_calls rd' sub') rd sub later \<and> carries q rd sub"
    for rd' sub'
    using assms(1,4) at [of "fast_calls rd' sub'"] flights_more [of ps L h "[Wrote rd sub w] @ fast_calls rd' sub'"]
    by (auto simp: pipe_ok_def)
  ultimately show ?thesis using assms(1,2,4) by (simp add: pipe_ok_def fast_calls_def carries_def)
qed

lemma pipe_ok_flush:
  "pipe_ok L h ps \<Longrightarrow> poll_flush t w = (w', Inr (Some True)) \<Longrightarrow> pipe_ok L (h @ [FlushDone n t w]) ps"
  using flights_more [of ps L h "[FlushDone n t w]"] by (simp add: pipe_ok_def)

lemma pipe_ok_finish:
  assumes ok: "pipe_ok L h (p # ps)" and at: "wrote_at L h rd sub later" "carries p rd sub"
    and d: "\<forall>t. sub = OffloadedToken t \<longrightarrow> flush_reported (rd_number rd) t later"
  shows "pipe_ok L (h @ [OnPersist (pp_number p), HandFast (pp_number p) (pp_immediate p), HandPersisted (pp_number p) (pp_persisted p)]) ps"
proof -
  have n: "pp_number p = rd_number rd" "pp_persisted p = rd_persisted_messages rd" "pp_immediate p \<in> {[], rd_messages rd}"
    using at(2) by (auto simp: carries_def)
  have pe: "persisted L h rd" using at(1) d by (auto simp: persisted_def)
  have "recorded L (h @ [OnPersist (pp_number p)]) rd" using at(1) wrote_at_more unfolding recorded_def by blast
  then have "may_follow L (h @ [OnPersist (pp_number p)]) (HandFast (pp_number p) (pp_immediate p))" using n by auto
  moreover have "may_follow L ((h @ [OnPersist (pp_number p)]) @ [HandFast (pp_number p) (pp_immediate p)])
      (HandPersisted (pp_number p) (pp_persisted p))"
    using pe n by fastforce
  moreover have "may_follow L h (OnPersist (pp_number p))" using pe n by auto
  ultimately have "ordered L (((h @ [OnPersist (pp_number p)]) @ [HandFast (pp_number p) (pp_immediate p)]) @
      [HandPersisted (pp_number p) (pp_persisted p)])"
    using ok unfolding ordered_snoc by (simp add: pipe_ok_def)
  then show ?thesis
    using ok flights_more [of ps L h "[OnPersist (pp_number p), HandFast (pp_number p) (pp_immediate p),
      HandPersisted (pp_number p) (pp_persisted p)]"] by (simp add: pipe_ok_def)
qed

lemma submit_ready_inv:
  assumes "pipe_inv L nd" "length (nd_pending nd) < MAX_IN_FLIGHT_READIES"
  shows "pipe_inv L (fst (submit_ready L nd))"
proof -
  obtain nd' r where run: "submit_ready L nd = (nd', r)" by fastforce
  have inst: "pipe_ok L (nd_history nd @ inst) (nd_pending nd)" if "snapshot_calls inst" for inst
    using assms(1) that pipe_ok_snapshot by (auto simp: snapshot_calls_def)
  from run have "pipe_inv L nd'"
  proof (cases rule: submit_ready_effect)
    case (failed i)
    then show ?thesis using inst by simp
  next
    case (wrote i rd sub w p)
    then show ?thesis using pipe_ok_wrote [OF inst [OF wrote(1)] assms(2) wrote(2,3)] by simp
  qed
  then show ?thesis using run by simp
qed

lemma finish_persisted_inv:
  assumes "pipe_inv L nd"
  shows "pipe_inv L (fst (finish_persisted L nd))"
proof (cases "nd_pending nd")
  case Nil
  then show ?thesis using assms by (simp add: finish_persisted_def seq_def gets_def ret_def)
next
  case (Cons p ps)
  obtain nd1 r where f: "flush_landed p nd = (nd1, r)" by fastforce
  note e = flush_landed_effect [OF f]
  have p1: "pipe_inv L nd1" using e assms pipe_ok_flush by auto
  have run: "finish_persisted L nd = (case r of Inl e \<Rightarrow> (nd1, Inl e) | Inr landed \<Rightarrow>
      (if landed then finish_cycle L p else ret None) nd1)"
    using Cons f by (simp add: finish_persisted_def seq_def gets_def split: sum.splits)
  show ?thesis
  proof (cases "r = Inr True")
    case True
    obtain nd2 r2 where c: "finish_cycle L p nd1 = (nd2, r2)" by fastforce
    have ps: "nd_pending nd1 = p # ps" using e Cons by simp
    obtain rd sub later where at: "wrote_at L (nd_history nd) rd sub later" "carries p rd sub"
      using assms Cons by (auto simp: pipe_ok_def)
    obtain h where h: "nd_history nd1 = nd_history nd @ h"
      "\<forall>t. sub = OffloadedToken t \<longrightarrow> flush_reported (rd_number rd) t h"
      using e True at(2) flush_lands [of p rd sub nd1 nd] by auto
    have "\<forall>t. sub = OffloadedToken t \<longrightarrow> flush_reported (rd_number rd) t (later @ h)"
      using h(2) unfolding flush_reported_def by (metis UnCI set_append)
    from pipe_ok_finish [OF p1 [unfolded ps] wrote_at_more [OF at(1), of h, folded h(1)] at(2) this]
    have "pipe_inv L nd2" using finish_cycle_effect [OF c] ps by simp
    then show ?thesis using run True c by simp
  next
    case False
    then show ?thesis using run p1 by (auto simp: ret_def split: sum.splits)
  qed
qed

lemma node_step_inv:
  assumes "pipe_inv L nd"
  shows "pipe_inv L (fst (node_step L nd))"
proof -
  obtain nd1 r1 where f1: "finish_persisted L nd = (nd1, r1)" by fastforce
  then have i1: "pipe_inv L nd1" using finish_persisted_inv [OF assms] by simp
  obtain nd2 r2 where f2: "submit_ready L nd1 = (nd2, r2)" by fastforce
  obtain nd3 r3 where f3: "finish_persisted L nd2 = (nd3, r3)" by fastforce
  have i2: "pipe_inv L nd2" if "length (nd_pending nd1) < MAX_IN_FLIGHT_READIES"
    using submit_ready_inv [OF i1 that] f2 by simp
  then have i3: "pipe_inv L nd3" if "length (nd_pending nd1) < MAX_IN_FLIGHT_READIES"
    using finish_persisted_inv [of L nd2] f3 that by simp
  show ?thesis
    using i1 i2 i3
    by (auto simp: node_step_def seq_def gets_def ret_def f1 f2 f3 split: sum.splits option.splits)
qed

subsection \<open>The other operations\<close>

text \<open>A computation that leaves the pipeline alone, with one rule per construct.\<close>

definition off_pipe :: "('r, 'a) node_op \<Rightarrow> bool" where
  "off_pipe m \<longleftrightarrow> (\<forall>nd. same_pipe nd (fst (m nd)))"

named_theorems off_pipes \<open>computations that leave the pipeline alone\<close>

lemma off_pipe_seq [off_pipes]: "off_pipe m \<Longrightarrow> (\<And>x. off_pipe (f x)) \<Longrightarrow> off_pipe (seq m f)"
  unfolding off_pipe_def same_pipe_def seq_def
proof (intro allI)
  fix nd
  assume m: "\<forall>nd. nd_history (fst (m nd)) = nd_history nd \<and> nd_pending (fst (m nd)) = nd_pending nd"
    and f: "\<And>x. \<forall>nd. nd_history (fst (f x nd)) = nd_history nd \<and> nd_pending (fst (f x nd)) = nd_pending nd"
  obtain nd1 r where r: "m nd = (nd1, r)" by fastforce
  then have "nd_history nd1 = nd_history nd" "nd_pending nd1 = nd_pending nd" using m by (metis fst_conv)+
  then show "nd_history (fst (case m nd of (s', Inl e) \<Rightarrow> (s', Inl e) | (s', Inr x) \<Rightarrow> f x s')) = nd_history nd \<and>
      nd_pending (fst (case m nd of (s', Inl e) \<Rightarrow> (s', Inl e) | (s', Inr x) \<Rightarrow> f x s')) = nd_pending nd"
    using f by (cases r) (simp_all add: r)
qed

lemma off_pipe_basic [off_pipes]:
  "off_pipe (ret x)" "off_pipe (throw e)" "off_pipe (gets g)" "off_pipe (on_store err m)" "off_pipe (on_raw_res h)"
  "off_pipe (modify (\<lambda>nd. nd\<lparr>nd_snapshot_from := a\<rparr>))" "off_pipe (modify (\<lambda>nd. nd\<lparr>nd_held_snapshot := b\<rparr>))"
  by (auto simp: off_pipe_def ret_def throw_def gets_def modify_def same_pipe_def on_store_def on_raw_res_def
      split: prod.splits)

lemma off_pipe_cases [off_pipes]:
  "off_pipe m \<Longrightarrow> (\<And>x. off_pipe (f x)) \<Longrightarrow> off_pipe (case opt of None \<Rightarrow> m | Some x \<Rightarrow> f x)"
  "off_pipe m \<Longrightarrow> off_pipe m' \<Longrightarrow> off_pipe (if c then m else m')"
  "off_pipe m \<Longrightarrow> off_pipe m' \<Longrightarrow> off_pipe m'' \<Longrightarrow>
    off_pipe (case ety of NormalEntry \<Rightarrow> m | ConfChange \<Rightarrow> m' | ConfChangeV2 \<Rightarrow> m'')"
  by (simp_all split: option.split EntryType.split)

lemma off_pipe_ops:
  "off_pipe (propose L cmd)" "off_pipe (propose_conf_change L ty i)" "off_pipe (apply_conf_change L index ety bs)"
  "off_pipe (on_message L from bs)" "off_pipe (step_held_snapshot L held bs)" "off_pipe (create_snapshot index term cs bs)"
  unfolding propose_def propose_conf_change_def apply_conf_change_def on_message_def step_held_snapshot_def
    create_snapshot_def Let_def
  by (intro off_pipes)+

lemma other_steps_same_pipe:
  "same_pipe nd (transfer_leader L i nd)" "same_pipe nd (read_index L ctx nd)"
  "same_pipe nd (fst (take_held_snapshot nd))" "same_pipe nd (start_outbound_sender nd)"
  "same_pipe nd (run_outbound_sender L nd)" "same_pipe nd (flusher_wakes extra nd)" "same_pipe nd (node_tick L nd)"
  by (simp_all add: same_pipe_sender transfer_leader_def read_index_def take_held_snapshot_def
      start_outbound_sender_def flusher_wakes_def node_tick_def same_pipe_on_raw) (simp_all add: same_pipe_def)

lemmas off_pipe_frames = off_pipe_ops [unfolded off_pipe_def same_pipe_def, rule_format]
  other_steps_same_pipe [unfolded same_pipe_def]

lemma node_step_rel_inv: "node_step_rel L nd nd' \<Longrightarrow> pipe_inv L nd \<Longrightarrow> pipe_inv L nd'"
  by (erule node_step_rel.cases) (simp_all add: node_step_inv off_pipe_frames)

lemma node_run_inv: "node_run L nd \<Longrightarrow> pipe_inv L nd"
proof (induction rule: node_run.induct)
  case (start self_id peers storage applied config nd)
  then show ?case by (auto simp: new_with_config_def Let_def pipe_ok_def res_simps)
next
  case (later nd nd')
  then show ?case using node_step_rel_inv by blast
qed

lemma ordered_at: "ordered L (pre @ c # post) \<Longrightarrow> may_follow L pre c"
  unfolding ordered_def by blast

subsection \<open>A small raft\<close>

text \<open>A library whose raft hands out a given list of \<open>Ready\<close> batches, for closed examples.\<close>

definition sample_lib :: "Ready list lib" where
  "sample_lib =
     \<lparr>raw_validate = (\<lambda>_. Inr ()), raw_new = (\<lambda>_ _. Inr []), raw_id = (\<lambda>_. 1), raw_leader = (\<lambda>_. 1),
      raw_hard_state = (\<lambda>_. \<lparr>rh_term = 0, rh_vote = 0, rh_commit = 0\<rparr>), raw_applied = (\<lambda>_. 0),
      raw_progress = (\<lambda>_ _. None), raw_has_ready = (\<lambda>_ rs. rs \<noteq> []),
      raw_ready = (\<lambda>_ rs. (hd rs, tl rs)), raw_advance_append_async = (\<lambda>_ _ rs. rs),
      raw_on_persist_ready = (\<lambda>_ _ rs. rs), raw_advance_apply = (\<lambda>_ rs. rs), raw_tick = (\<lambda>_ rs. rs),
      raw_step = (\<lambda>_ m rs. (rs @ [\<lparr>rd_number = mg_to m, rd_hs = None, rd_read_states = [], rd_entries = [],
          rd_snapshot = mg_snapshot m, rd_messages = [], rd_persisted_messages = [m], rd_committed_entries = []\<rparr>], Inr ())),
      raw_propose = (\<lambda>_ _ rs. (rs, Inr ())), raw_propose_conf_change = (\<lambda>_ _ _ rs. (rs, Inr ())),
      raw_apply_conf_change = (\<lambda>_ _ rs. (rs, Inl ConfChangeError)), raw_transfer_leader = (\<lambda>_ _ rs. rs),
      raw_read_index = (\<lambda>_ _ rs. rs), pb_write = (\<lambda>m. Some (mg_rest m)),
      pb_read = (\<lambda>b. Some \<lparr>mg_type = MsgHeartbeat, mg_to = 2, mg_from = 1,
         mg_snapshot = \<lparr>rp_data = [], rp_conf_state = to_raft_conf_state cs_default, rp_index = 0, rp_term = 0\<rparr>,
         mg_rest = b\<rparr>),
      pb_conf_change = (\<lambda>_. None), pb_conf_change_v2 = (\<lambda>_. None), net_send = (\<lambda>_ _ _. True)\<rparr>"

definition node_opts :: WalOptions where
  "node_opts = \<lparr>op_cluster_id = [99], op_node_id = [110],
     op_config = \<lparr>cf_fsync_policy = Always, cf_segment_bytes = 1048576\<rparr>, op_created_at_millis = 7\<rparr>"

definition sample_node :: "Ready list RaftNode" where
  "sample_node = (case new_with_config sample_lib 1 [(2, [50]), (3, [51])]
      \<lparr>the_fs = new_fs node_opts, the_wal = reopened node_opts (new_meta node_opts) None None [] 1 2\<rparr> 0
      node_config_default of Inr nd \<Rightarrow> nd)"

definition sample_message :: "RaftId \<Rightarrow> bytes \<Rightarrow> Message" where
  "sample_message to b = (the (pb_read sample_lib b))\<lparr>mg_to := to\<rparr>"

lemma sample_node_run: "node_run sample_lib sample_node"
proof -
  let ?w = "\<lparr>the_fs = new_fs node_opts, the_wal = reopened node_opts (new_meta node_opts) None None [] 1 2\<rparr>"
  have "new_with_config sample_lib 1 [(2, [50]), (3, [51])] ?w 0 node_config_default = Inr sample_node"
    unfolding sample_node_def by (simp add: new_with_config_def sample_lib_def Let_def)
  then show ?thesis by (rule node_run.start)
qed

definition sample_step :: "Ready list RaftNode" where
  "sample_step = fst (node_step sample_lib (fst (on_message sample_lib 2 [7] sample_node)))"

lemma sample_step_run: "node_run sample_lib sample_step"
  unfolding sample_step_def
  by (rule node_run.later [OF node_run.later [OF sample_node_run message] step])

definition sample_ready :: Ready where
  "sample_ready = \<lparr>rd_number = 2, rd_hs = None, rd_read_states = [], rd_entries = [],
     rd_snapshot = mg_snapshot (sample_message 2 [7]), rd_messages = [],
     rd_persisted_messages = [(sample_message 2 [7])\<lparr>mg_from := 2\<rparr>], rd_committed_entries = []\<rparr>"

lemma sample_step_history:
  "nd_history sample_step =
     [Wrote sample_ready Durable \<lparr>the_fs = new_fs node_opts, the_wal = reopened node_opts (new_meta node_opts) None None [] 1 2\<rparr>,
      OnPersist 2, HandFast 2 [], HandPersisted 2 [(sample_message 2 [7])\<lparr>mg_from := 2\<rparr>]]"
  "nd_net sample_step [50] = [[7]]" "nd_peers sample_step = [(2, [50]), (3, [51])]"
  by (simp_all add: sample_step_def node_step_def finish_persisted_def submit_ready_def take_ready_def ready_snapshot_def
      sample_node_def new_with_config_def sample_lib_def sample_message_def on_message_def on_raw_res_def on_raw_def
      on_store_def st_persist_ready_records_def adapt_def persist_ready_records_def with_conf_state_def
      streamed_snapshots_def node_config_default_def reopened_def flush_landed_def finish_cycle_def sample_ready_def
      record_call_def record_write_def deliver_all_def deliver_def send_one_def MAX_IN_FLIGHT_READIES_def comp_defs Let_def)

end
