(* ===== verification/NodeDelivery.thy ===== *)
theory NodeDelivery
  imports NodePipeline
begin

text \<open>
  Delivery of messages to the peers: directly, grouped by destination, or through the bounded
  queues that the sender task drains.  For every peer the messages stay in the order in which
  the node handed them over, a queue never exceeds its depth, and a message that does not reach
  the transport is counted.  Together with the invariant of the pipeline this gives that nothing
  is on its way to a peer before the records it depends on are persistent.
\<close>

subsection \<open>Grouping\<close>

definition to_peer :: "RaftId \<Rightarrow> Message list \<Rightarrow> Message list" where
  "to_peer p ms = filter (\<lambda>m. mg_to m = p) ms"

lemma to_peer_simps [simp]:
  "to_peer p [] = []" "to_peer p (ms @ ms') = to_peer p ms @ to_peer p ms'"
  "to_peer p (m # ms) = (if mg_to m = p then m # to_peer p ms else to_peer p ms)"
  by (simp_all add: to_peer_def)

lemma group_into_spec:
  assumes "group_into ms groups order = (groups', order')" "\<And>p. map_of groups p = None \<longleftrightarrow> p \<notin> set order" "distinct order"
  shows "distinct order' \<and> set order' = set order \<union> mg_to ` set ms \<and>
    (\<forall>p. (case map_of groups' p of Some g \<Rightarrow> g | None \<Rightarrow> []) =
       (case map_of groups p of Some g \<Rightarrow> g | None \<Rightarrow> []) @ to_peer p ms)"
  using assms
proof (induction ms arbitrary: groups order)
  case (Cons m ms)
  define seen where "seen = map_of groups (mg_to m)"
  define o1 where "o1 = (if seen = None then order @ [mg_to m] else order)"
  define g1 where "g1 = AList.update (mg_to m) ((case seen of Some g \<Rightarrow> g | None \<Rightarrow> []) @ [m]) groups"
  have run: "group_into ms g1 o1 = (groups', order')"
    using Cons.prems(1) by (simp add: Let_def seen_def o1_def g1_def)
  have m1: "map_of g1 = (map_of groups)(mg_to m \<mapsto> (case seen of Some g \<Rightarrow> g | None \<Rightarrow> []) @ [m])"
    by (simp add: g1_def update_conv')
  have o: "set o1 = insert (mg_to m) (set order)" "distinct o1"
    using Cons.prems(2,3) by (auto simp: o1_def seen_def)
  have dom: "map_of g1 p = None \<longleftrightarrow> p \<notin> set o1" for p using Cons.prems(2) by (simp add: m1 o)
  have acc: "(case map_of g1 p of Some g \<Rightarrow> g | None \<Rightarrow> []) =
      (case map_of groups p of Some g \<Rightarrow> g | None \<Rightarrow> []) @ to_peer p [m]" for p
    by (simp add: m1 seen_def)
  from Cons.IH [OF run dom o(2)] show ?case unfolding acc o(1) by (simp split: if_splits)
qed simp

text \<open>Grouping is filtering by destination, in the order in which the destinations first occur.\<close>

lemma group_by_peer_spec:
  "distinct (map fst (group_by_peer ms)) \<and> fst ` set (group_by_peer ms) = mg_to ` set ms \<and>
   (\<forall>(p, g) \<in> set (group_by_peer ms). g = to_peer p ms)"
proof -
  obtain groups order where g: "group_into ms [] [] = (groups, order)" by fastforce
  from group_into_spec [OF g] show ?thesis by (auto simp: group_by_peer_def g comp_def image_image)
qed

lemma to_peer_groups: "to_peer p (concat (map snd (group_by_peer ms))) = to_peer p ms"
proof -
  have one: "to_peer p (concat (map snd gs)) = (if p \<in> fst ` set gs then to_peer p ms else [])"
    if "distinct (map fst gs)" "\<forall>(q, g) \<in> set gs. g = to_peer q ms" for gs
    using that
  proof (induction gs)
    case (Cons g gs)
    have "to_peer p (to_peer q ms) = (if p = q then to_peer p ms else [])" for q by (auto simp: to_peer_def)
    then show ?case using Cons by (cases g) auto
  qed simp
  have "to_peer p ms = []" if "p \<notin> mg_to ` set ms" using that by (auto simp: to_peer_def filter_empty_conv)
  then show ?thesis using one [of "group_by_peer ms"] group_by_peer_spec [of ms] by simp
qed

subsection \<open>The stream to a peer\<close>

definition queue :: "RaftId \<Rightarrow> 'r RaftNode \<Rightarrow> Message list" where
  "queue p nd = (case map_of (nd_outbound nd) p of Some q \<Rightarrow> q | None \<Rightarrow> [])"

definition encoded :: "'r lib \<Rightarrow> Message \<Rightarrow> bytes" where
  "encoded L m = (case pb_write L m of Some b \<Rightarrow> b | None \<Rightarrow> [])"

text \<open>What was handed to the transport for a peer, followed by what waits in its queue.\<close>

definition stream :: "'r lib \<Rightarrow> RaftId \<Rightarrow> NodeId \<Rightarrow> 'r RaftNode \<Rightarrow> bytes list" where
  "stream L p node nd = nd_net nd node @ map (encoded L) (queue p nd)"

definition peers_ok :: "'r RaftNode \<Rightarrow> bool" where
  "peers_ok nd \<longleftrightarrow> distinct (map fst (nd_peers nd)) \<and> distinct (map snd (nd_peers nd))"

definition queues_ok :: "'r RaftNode \<Rightarrow> bool" where
  "queues_ok nd \<longleftrightarrow> distinct (map fst (nd_outbound nd)) \<and> (\<forall>p. length (queue p nd) \<le> OUTBOUND_QUEUE_DEPTH) \<and>
     (\<not> nd_outbound_sender nd \<longrightarrow> nd_outbound nd = [])"

text \<open>
  Handing over \<open>ms\<close> extends the stream of a peer by a subsequence of the messages for it, and
  what is missing is counted.
\<close>

definition hands :: "'r lib \<Rightarrow> Message list \<Rightarrow> 'r RaftNode \<Rightarrow> 'r RaftNode \<Rightarrow> bool" where
  "hands L ms nd nd' \<longleftrightarrow>
     raw_id L (nd_raw nd') = raw_id L (nd_raw nd) \<and> nd_peers nd' = nd_peers nd \<and>
     (peers_ok nd \<longrightarrow> queues_ok nd \<longrightarrow> queues_ok nd' \<and>
       (\<forall>p node. map_of (nd_peers nd) p = Some node \<longrightarrow>
         (\<exists>zs. stream L p node nd' = stream L p node nd @ zs \<and> subseq zs (map (encoded L) (to_peer p ms)) \<and>
           (p \<noteq> raw_id L (nd_raw nd) \<longrightarrow>
              length (to_peer p ms) + nd_dropped_sends nd \<le> length zs + nd_dropped_sends nd'))))"

lemma handsI:
  assumes "raw_id L (nd_raw nd') = raw_id L (nd_raw nd)" "nd_peers nd' = nd_peers nd" "queues_ok nd \<Longrightarrow> queues_ok nd'"
    "\<And>p node. peers_ok nd \<Longrightarrow> queues_ok nd \<Longrightarrow> map_of (nd_peers nd) p = Some node \<Longrightarrow>
      \<exists>zs. stream L p node nd' = stream L p node nd @ zs \<and> subseq zs (map (encoded L) (to_peer p ms)) \<and>
        length (to_peer p ms) + nd_dropped_sends nd \<le> length zs + nd_dropped_sends nd'"
  shows "hands L ms nd nd'"
  using assms unfolding hands_def by blast

lemma hands_Nil: "hands L [] nd nd"
  by (auto simp: hands_def)

lemma hands_append:
  assumes "hands L ms a b" "hands L ms' b c"
  shows "hands L (ms @ ms') a c"
proof -
  have pk: "peers_ok b \<longleftrightarrow> peers_ok a" using assms(1) by (auto simp: hands_def peers_ok_def)
  have "\<exists>zs. stream L p node c = stream L p node a @ zs \<and> subseq zs (map (encoded L) (to_peer p (ms @ ms'))) \<and>
      (p \<noteq> raw_id L (nd_raw a) \<longrightarrow>
        length (to_peer p (ms @ ms')) + nd_dropped_sends a \<le> length zs + nd_dropped_sends c)"
    if ok: "peers_ok a" "queues_ok a" and p: "map_of (nd_peers a) p = Some node" for p node
  proof -
    obtain xs where x: "stream L p node b = stream L p node a @ xs" "subseq xs (map (encoded L) (to_peer p ms))"
      "p \<noteq> raw_id L (nd_raw a) \<longrightarrow> length (to_peer p ms) + nd_dropped_sends a \<le> length xs + nd_dropped_sends b"
      using assms(1) ok p unfolding hands_def by blast
    have "queues_ok b" using assms(1) ok unfolding hands_def by blast
    then obtain ys where y: "stream L p node c = stream L p node b @ ys" "subseq ys (map (encoded L) (to_peer p ms'))"
      "p \<noteq> raw_id L (nd_raw b) \<longrightarrow> length (to_peer p ms') + nd_dropped_sends b \<le> length ys + nd_dropped_sends c"
      using assms ok p pk unfolding hands_def by metis
    have "subseq (xs @ ys) (map (encoded L) (to_peer p (ms @ ms')))"
      using list_emb_append_mono x(2) y(2) by simp
    moreover have "stream L p node c = stream L p node a @ xs @ ys" using x y by simp
    moreover have "raw_id L (nd_raw b) = raw_id L (nd_raw a)" using assms(1) by (simp add: hands_def)
    ultimately show ?thesis using x(3) y(3) by (intro exI [of _ "xs @ ys"]) auto
  qed
  then show ?thesis using assms pk unfolding hands_def by metis
qed

lemma hands_fold: "(\<And>m nd. P nd \<Longrightarrow> hands L (g m) nd (f m nd) \<and> P (f m nd)) \<Longrightarrow> P nd \<Longrightarrow>
    hands L (concat (map g ms)) nd (fold f ms nd) \<and> P (fold f ms nd)"
proof (induction ms arbitrary: nd)
  case (Cons m ms)
  then have "hands L (g m) nd (f m nd)" "P (f m nd)" by blast+
  then show ?case using Cons.IH [OF Cons.prems(1)] hands_append by fastforce
qed (simp add: hands_Nil)

lemma hands_cong: "(\<And>p. to_peer p ms = to_peer p ms') \<Longrightarrow> hands L ms nd nd' \<longleftrightarrow> hands L ms' nd nd'"
  by (simp add: hands_def)

lemma node_unique: "peers_ok nd \<Longrightarrow> map_of (nd_peers nd) p = Some node \<Longrightarrow> map_of (nd_peers nd) q = Some node \<Longrightarrow> p = q"
proof -
  assume "peers_ok nd" "map_of (nd_peers nd) p = Some node" "map_of (nd_peers nd) q = Some node"
  then have "(p, node) \<in> set (nd_peers nd)" "(q, node) \<in> set (nd_peers nd)" "inj_on snd (set (nd_peers nd))"
    by (auto simp: peers_ok_def distinct_map dest: map_of_SomeD)
  then show "p = q" by (metis Pair_inject inj_on_def snd_conv)
qed

subsection \<open>Direct delivery\<close>

lemma deliver_hands:
  assumes "\<not> nd_outbound_sender nd"
  shows "hands L [m] nd (deliver L m nd) \<and> \<not> nd_outbound_sender (deliver L m nd)"
proof (cases "mg_to m = raw_id L (nd_raw nd) \<or> map_of (nd_peers nd) (mg_to m) = None")
  case True
  then have "deliver L m nd = nd" by (auto simp: deliver_def send_one_def)
  then show ?thesis using assms True by (auto simp: hands_def)
next
  case False
  then obtain to where to: "map_of (nd_peers nd) (mg_to m) = Some to" by blast
  show ?thesis
  proof (cases "pb_write L m")
    case None
    then show ?thesis using False to assms
      by (auto simp: deliver_def send_one_def hands_def queues_ok_def stream_def queue_def)
  next
    case (Some b)
    define nd' where "nd' = deliver L m nd"
    have nd': "nd_net nd' = (nd_net nd)(to := nd_net nd to @ [b])" "nd_outbound nd' = nd_outbound nd"
      "nd_raw nd' = nd_raw nd" "nd_peers nd' = nd_peers nd" "nd_outbound_sender nd' = nd_outbound_sender nd"
      "nd_dropped_sends nd \<le> nd_dropped_sends nd'"
      using False to Some by (simp_all add: nd'_def deliver_def send_one_def)
    have "\<exists>zs. stream L p node nd' = stream L p node nd @ zs \<and> subseq zs (map (encoded L) (to_peer p [m])) \<and>
       length (to_peer p [m]) + nd_dropped_sends nd \<le> length zs + nd_dropped_sends nd'"
      if "peers_ok nd" "queues_ok nd" "map_of (nd_peers nd) p = Some node" for p node
    proof -
      have "nd_outbound nd = []" using that(2) assms by (simp add: queues_ok_def)
      then have st: "stream L p node x = nd_net x node" if "nd_outbound x = nd_outbound nd" for x :: "'a RaftNode"
        using that by (simp add: stream_def queue_def)
      have "p = mg_to m \<longleftrightarrow> node = to" using that to node_unique by fastforce
      then show ?thesis using nd' Some
        by (intro exI [of _ "if p = mg_to m then [b] else []"]) (auto simp: st encoded_def)
    qed
    then have "hands L [m] nd nd'" using nd' by (intro handsI) (simp_all add: queues_ok_def queue_def)
    then show ?thesis using nd' assms unfolding nd'_def [symmetric] by simp
  qed
qed

lemma deliver_all_direct:
  assumes "\<not> nd_outbound_sender nd"
  shows "hands L ms nd (fold (deliver L) ms nd) \<and> \<not> nd_outbound_sender (fold (deliver L) ms nd)"
  using hands_fold [where P = "\<lambda>nd. \<not> nd_outbound_sender nd" and g = "\<lambda>m. [m]" and f = "deliver L", OF deliver_hands assms]
  by simp

lemma deliver_grouped_hands:
  assumes "\<not> nd_outbound_sender nd"
  shows "hands L ms nd (deliver_grouped L ms nd)"
proof -
  have "hands L (concat (map snd gs)) nd (fold (\<lambda>(_, msgs) nd. fold (deliver L) msgs nd) gs nd)" for gs
    using hands_fold [where P = "\<lambda>nd. \<not> nd_outbound_sender nd" and g = snd and f = "\<lambda>(_, msgs) nd. fold (deliver L) msgs nd",
        OF _ assms, of L gs] deliver_all_direct
    by (auto simp: case_prod_unfold)
  then have "hands L (concat (map snd (group_by_peer ms))) nd (deliver_grouped L ms nd)"
    by (simp add: deliver_grouped_def)
  then show ?thesis using hands_cong [OF to_peer_groups] by blast
qed

subsection \<open>Queues\<close>

lemma enqueue_one_hands:
  assumes "nd_outbound_sender nd"
  shows "hands L [m] nd (fst (enqueue_one L m (nd, e))) \<and> nd_outbound_sender (fst (enqueue_one L m (nd, e)))"
proof (cases "mg_to m = raw_id L (nd_raw nd) \<or> map_of (nd_peers nd) (mg_to m) = None")
  case True
  then show ?thesis using assms
    by (auto simp: enqueue_one_def hands_def queues_ok_def stream_def queue_def)
next
  case False
  define q where "q = queue (mg_to m) nd"
  define full where "full = (length q \<ge> OUTBOUND_QUEUE_DEPTH)"
  define q' where "q' = (if full then q else q @ [m])"
  define nd' where "nd' = fst (enqueue_one L m (nd, e))"
  have nd': "nd_outbound nd' = AList.update (mg_to m) q' (nd_outbound nd)" "nd_net nd' = nd_net nd"
    "nd_raw nd' = nd_raw nd" "nd_peers nd' = nd_peers nd" "nd_outbound_sender nd' = nd_outbound_sender nd"
    "nd_dropped_sends nd' = nd_dropped_sends nd + (if full then 1 else 0)"
    using False by (auto simp: nd'_def enqueue_one_def Let_def q_def queue_def full_def q'_def)
  have qs: "queue p nd' = (if p = mg_to m then q' else queue p nd)" for p
    by (simp add: queue_def nd'(1) update_conv')
  have ok: "queues_ok nd'" if "queues_ok nd"
    using that assms nd' qs
    by (auto simp: queues_ok_def distinct_update q'_def full_def q_def not_le Suc_le_eq)
  have "\<exists>zs. stream L p node nd' = stream L p node nd @ zs \<and> subseq zs (map (encoded L) (to_peer p [m])) \<and>
     length (to_peer p [m]) + nd_dropped_sends nd \<le> length zs + nd_dropped_sends nd'" for p node
    by (intro exI [of _ "if p = mg_to m \<and> \<not> full then [encoded L m] else []"])
      (auto simp: stream_def qs nd' q'_def q_def)
  then have "hands L [m] nd nd'" using nd' ok by (intro handsI) simp_all
  then show ?thesis using nd' assms unfolding nd'_def [symmetric] by simp
qed

lemma hands_wakes: "hands L ms nd nd' \<Longrightarrow> hands L ms nd (nd'\<lparr>nd_wakes := k\<rparr>)"
  by (simp add: hands_def queues_ok_def stream_def queue_def)

lemma enqueue_hands:
  assumes "nd_outbound_sender nd"
  shows "hands L ms nd (enqueue_outbound L ms nd) \<and> nd_outbound_sender (enqueue_outbound L ms nd)"
proof -
  have "hands L ms (fst a) (fst (fold (enqueue_one L) ms a)) \<and> nd_outbound_sender (fst (fold (enqueue_one L) ms a))"
    if "nd_outbound_sender (fst a)" for a :: "'a RaftNode \<times> bool"
    using that
  proof (induction ms arbitrary: a)
    case (Cons m ms)
    let ?b = "enqueue_one L m a"
    have s: "hands L [m] (fst a) (fst ?b)" "nd_outbound_sender (fst ?b)"
      using enqueue_one_hands [OF Cons.prems, of L m "snd a"] by simp_all
    show ?case using Cons.IH [OF s(2)] hands_append [OF s(1)] by simp
  qed (simp add: hands_Nil)
  from this [of "(nd, False)"] show ?thesis
    using assms by (auto simp: enqueue_outbound_def hands_wakes split: prod.splits)
qed

subsection \<open>The sender task\<close>

lemma send_drained_all:
  "nd_net (fold (send_drained L node) msgs nd) = (nd_net nd)(node := nd_net nd node @ map (encoded L) msgs) \<and>
   nd_dropped_sends nd \<le> nd_dropped_sends (fold (send_drained L node) msgs nd) \<and>
   nd_outbound (fold (send_drained L node) msgs nd) = nd_outbound nd \<and>
   nd_raw (fold (send_drained L node) msgs nd) = nd_raw nd \<and> nd_peers (fold (send_drained L node) msgs nd) = nd_peers nd \<and>
   nd_outbound_sender (fold (send_drained L node) msgs nd) = nd_outbound_sender nd"
proof (induction msgs arbitrary: nd)
  case (Cons m msgs)
  show ?case using Cons [of "send_drained L node m nd"] by (auto simp: send_drained_def encoded_def Let_def)
qed simp

definition drain_peer :: "'r lib \<Rightarrow> RaftId \<times> Message list \<Rightarrow> 'r RaftNode \<Rightarrow> 'r RaftNode" where
  "drain_peer L = (\<lambda>(peer, msgs) nd.
     case map_of (nd_peers nd) peer of
       Some node_id \<Rightarrow> fold (send_drained L node_id) msgs nd
     | None \<Rightarrow> nd\<lparr>nd_dropped_sends := nd_dropped_sends nd + length msgs\<rparr>)"

lemma drain_peer_frame:
  "nd_dropped_sends nd \<le> nd_dropped_sends (drain_peer L g nd) \<and> nd_outbound (drain_peer L g nd) = nd_outbound nd \<and>
   nd_raw (drain_peer L g nd) = nd_raw nd \<and> nd_peers (drain_peer L g nd) = nd_peers nd \<and>
   nd_outbound_sender (drain_peer L g nd) = nd_outbound_sender nd"
  by (cases g) (simp add: drain_peer_def send_drained_all split: option.split)

lemma drain_peer_net:
  assumes "peers_ok nd" "map_of (nd_peers nd) p = Some node"
  shows "nd_net (drain_peer L (q, msgs) nd) node = nd_net nd node @ (if q = p then map (encoded L) msgs else [])"
  using assms node_unique [OF assms(1)] by (auto simp: drain_peer_def send_drained_all split: option.split)

lemma drain_all:
  assumes "peers_ok nd" "map_of (nd_peers nd) p = Some node" "distinct (map fst gs)"
  shows "nd_net (fold (drain_peer L) gs nd) node =
      nd_net nd node @ (case map_of gs p of Some q \<Rightarrow> map (encoded L) q | None \<Rightarrow> [])"
  using assms
proof (induction gs arbitrary: nd)
  case (Cons g gs)
  obtain q msgs where g: "g = (q, msgs)" by fastforce
  let ?nd = "drain_peer L g nd"
  have "peers_ok ?nd" "map_of (nd_peers ?nd) p = Some node"
    using Cons.prems drain_peer_frame [of nd L g] by (simp_all add: peers_ok_def)
  moreover have "distinct (map fst gs)" using Cons.prems by simp
  moreover have "map_of gs p = None" if "p = q" using Cons.prems(3) that g by (simp add: map_of_eq_None_iff)
  ultimately show ?case using Cons.IH [of ?nd] drain_peer_net [OF Cons.prems(1,2), of L q msgs] g by auto
qed simp

lemma drain_all_frame:
  "nd_dropped_sends nd \<le> nd_dropped_sends (fold (drain_peer L) gs nd) \<and>
   nd_outbound (fold (drain_peer L) gs nd) = nd_outbound nd \<and> nd_raw (fold (drain_peer L) gs nd) = nd_raw nd \<and>
   nd_peers (fold (drain_peer L) gs nd) = nd_peers nd \<and>
   nd_outbound_sender (fold (drain_peer L) gs nd) = nd_outbound_sender nd"
proof (induction gs arbitrary: nd)
  case (Cons g gs)
  show ?case using Cons [of "drain_peer L g nd"] drain_peer_frame [of nd L g] by auto
qed simp

lemma map_of_nonempty:
  "distinct (map fst gs) \<Longrightarrow> (case map_of (filter (\<lambda>(p, ms). ms \<noteq> []) gs) p of Some q \<Rightarrow> map f q | None \<Rightarrow> []) =
    map f (case map_of gs p of Some q \<Rightarrow> q | None \<Rightarrow> [])"
proof (induction gs)
  case (Cons g gs)
  then have "map_of (filter (\<lambda>(p, ms). ms \<noteq> []) gs) (fst g) = None"
    by (auto simp: map_of_eq_None_iff)
  then show ?case using Cons by (cases g) auto
qed simp

text \<open>A wake-up of the sender task moves every queue to the network and changes no stream.\<close>

lemma sender_hands: "hands L [] nd (run_outbound_sender L nd)"
proof (cases "\<not> nd_outbound_sender nd \<or> nd_wakes nd = 0")
  case True
  then show ?thesis by (simp add: run_outbound_sender_def hands_Nil)
next
  case False
  define by_peer where "by_peer = filter (\<lambda>(peer, msgs). msgs \<noteq> []) (nd_outbound nd)"
  define drained where "drained = nd\<lparr>nd_wakes := nd_wakes nd - 1,
      nd_outbound := map (\<lambda>(peer, msgs). (peer, [])) (nd_outbound nd)\<rparr>"
  define nd' where "nd' = run_outbound_sender L nd"
  have nd': "nd' = fold (drain_peer L) by_peer drained"
    using False by (simp add: nd'_def run_outbound_sender_def by_peer_def drained_def drain_peer_def Let_def)
  note fr = drain_all_frame [of drained L by_peer, folded nd']
  have empty: "map_of (map (\<lambda>(peer, msgs). (peer, [] :: Message list)) gs) p \<in> {None, Some []}" for gs :: "(RaftId \<times> Message list) list" and p
    by (induction gs) auto
  have q': "queue p nd' = []" for p
    using empty [of "nd_outbound nd" p] fr by (auto simp: queue_def drained_def)
  have "queues_ok nd'" if "queues_ok nd"
    using that q' fr False by (auto simp: queues_ok_def drained_def comp_def case_prod_unfold)
  moreover have "stream L p node nd' = stream L p node nd"
    if "peers_ok nd" "queues_ok nd" "map_of (nd_peers nd) p = Some node" for p node
  proof -
    have d: "distinct (map fst (nd_outbound nd))" using that(2) by (simp add: queues_ok_def)
    then have "distinct (map fst by_peer)" by (simp add: by_peer_def distinct_map_filter)
    then have "nd_net nd' node = nd_net nd node @ map (encoded L) (queue p nd)"
      using drain_all [of drained p node by_peer L] that(1,3) map_of_nonempty [OF d, where p = p and f = "encoded L"]
      by (simp add: nd' drained_def peers_ok_def by_peer_def queue_def)
    then show ?thesis by (simp add: stream_def q')
  qed
  ultimately show ?thesis
    unfolding nd'_def [symmetric] using fr by (intro handsI) (simp_all add: drained_def)
qed

subsection \<open>Runs\<close>

text \<open>Raft never changes the id of its node.\<close>

definition fixed_id :: "'r lib \<Rightarrow> bool" where
  "fixed_id L \<longleftrightarrow>
     (\<forall>st r. raw_id L (snd (raw_ready L st r)) = raw_id L r) \<and>
     (\<forall>st x r. raw_id L (raw_advance_append_async L st x r) = raw_id L r) \<and>
     (\<forall>st n r. raw_id L (raw_on_persist_ready L st n r) = raw_id L r) \<and>
     (\<forall>st r. raw_id L (raw_advance_apply L st r) = raw_id L r) \<and>
     (\<forall>st r. raw_id L (raw_tick L st r) = raw_id L r) \<and>
     (\<forall>st m r. raw_id L (fst (raw_step L st m r)) = raw_id L r) \<and>
     (\<forall>st b r. raw_id L (fst (raw_propose L st b r)) = raw_id L r) \<and>
     (\<forall>st t i r. raw_id L (fst (raw_propose_conf_change L st t i r)) = raw_id L r) \<and>
     (\<forall>st c r. raw_id L (fst (raw_apply_conf_change L st c r)) = raw_id L r) \<and>
     (\<forall>st i r. raw_id L (raw_transfer_leader L st i r) = raw_id L r) \<and>
     (\<forall>st c r. raw_id L (raw_read_index L st c r) = raw_id L r)"

fun call_messages :: "Call \<Rightarrow> Message list" where
  "call_messages (HandFast n ms) = ms"
| "call_messages (HandPersisted n ms) = ms"
| "call_messages _ = []"

definition handed_over :: "'r RaftNode \<Rightarrow> Message list" where
  "handed_over nd = concat (map call_messages (nd_history nd))"

text \<open>An operation accounts for the messages of the calls it adds to the history.\<close>

definition moves :: "'r lib \<Rightarrow> 'r RaftNode \<Rightarrow> 'r RaftNode \<Rightarrow> bool" where
  "moves L nd nd' \<longleftrightarrow> (\<exists>ms. handed_over nd' = handed_over nd @ ms \<and> hands L ms nd nd')"

named_theorems moving \<open>operations that account for their messages\<close>

lemma moves_refl [moving]: "moves L nd nd"
  by (auto simp: moves_def hands_Nil intro!: exI [of _ "[]"])

lemma moves_trans: "moves L a b \<Longrightarrow> moves L b c \<Longrightarrow> moves L a c"
  unfolding moves_def by (metis hands_append append_assoc)

lemma hands_history [simp]: "hands L ms nd (nd'\<lparr>nd_history := h\<rparr>) = hands L ms nd nd'"
  "hands L ms (nd\<lparr>nd_history := h\<rparr>) nd' = hands L ms nd nd'"
  by (simp_all add: hands_def queues_ok_def peers_ok_def stream_def queue_def)

lemma moves_hands: "hands L [] nd nd' \<Longrightarrow> nd_history nd' = nd_history nd \<Longrightarrow> moves L nd nd'"
  by (auto simp: moves_def handed_over_def)

lemma same_flow:
  assumes "raw_id L (nd_raw nd') = raw_id L (nd_raw nd)" "nd_peers nd' = nd_peers nd" "nd_net nd' = nd_net nd"
    "nd_outbound nd' = nd_outbound nd" "nd_dropped_sends nd' = nd_dropped_sends nd" "nd_history nd' = nd_history nd"
    "nd_outbound_sender nd \<longrightarrow> nd_outbound_sender nd'"
  shows "moves L nd nd'"
  using assms by (intro moves_hands handsI) (auto simp: queues_ok_def stream_def queue_def)

lemma moves_deliver_all:
  assumes "call_messages c = ms"
  shows "moves L nd (deliver_all L ms (record_call c nd))"
proof -
  have "hands L ms (record_call c nd) (deliver_all L ms (record_call c nd))"
    using enqueue_hands [of "record_call c nd"] deliver_all_direct [of "record_call c nd"] unfolding deliver_all_def by simp
  then have "hands L ms nd (deliver_all L ms (record_call c nd))" by (simp add: record_call_def)
  then show ?thesis using assms by (auto simp: moves_def handed_over_def)
qed

lemma moves_deliver_fast: "moves L nd (deliver_fast L ready nd)"
proof -
  let ?nd = "record_call (HandFast (rd_number ready) (rd_messages ready)) nd"
  have "hands L (rd_messages ready) ?nd (deliver_fast L ready nd)"
    using enqueue_hands [of ?nd] deliver_grouped_hands [of ?nd] by (simp add: deliver_fast_def Let_def)
  then have "hands L (rd_messages ready) nd (deliver_fast L ready nd)" by (simp add: record_call_def)
  then show ?thesis by (auto simp: moves_def handed_over_def deliver_fast_def Let_def)
qed

lemma moves_record: "call_messages c = [] \<Longrightarrow> moves L nd (record_call c nd)"
  by (auto simp: moves_def handed_over_def record_call_def hands_Nil)

definition moving_op :: "'r lib \<Rightarrow> ('r, 'a) node_op \<Rightarrow> bool" where
  "moving_op L m \<longleftrightarrow> (\<forall>nd. moves L nd (fst (m nd)))"

lemma moving_seq [moving]: "moving_op L m \<Longrightarrow> (\<And>x. moving_op L (f x)) \<Longrightarrow> moving_op L (seq m f)"
  unfolding moving_op_def
proof (intro allI)
  fix nd
  assume m: "\<forall>nd. moves L nd (fst (m nd))" and f: "\<And>x. \<forall>nd. moves L nd (fst (f x nd))"
  obtain nd1 r where r: "m nd = (nd1, r)" by fastforce
  then have "moves L nd nd1" using m by (metis fst_conv)
  then show "moves L nd (fst (seq m f nd))" using f moves_trans [of L nd nd1] by (cases r) (simp_all add: seq_def r)
qed

lemma moving_cases [moving]:
  "moving_op L m \<Longrightarrow> (\<And>x. moving_op L (f x)) \<Longrightarrow> moving_op L (case opt of None \<Rightarrow> m | Some x \<Rightarrow> f x)"
  "moving_op L m \<Longrightarrow> moving_op L m' \<Longrightarrow> moving_op L (if c then m else m')"
  "moving_op L m \<Longrightarrow> moving_op L m' \<Longrightarrow> moving_op L m'' \<Longrightarrow>
    moving_op L (case ety of NormalEntry \<Rightarrow> m | ConfChange \<Rightarrow> m' | ConfChangeV2 \<Rightarrow> m'')"
  "moving_op L m \<Longrightarrow> (\<And>t. moving_op L (g t)) \<Longrightarrow> moving_op L (case sub of Durable \<Rightarrow> m | OffloadedToken t \<Rightarrow> g t)"
  "(\<And>p ps. moving_op L (h p ps)) \<Longrightarrow> moving_op L m \<Longrightarrow> moving_op L (case xs of [] \<Rightarrow> m | p # ps \<Rightarrow> h p ps)"
  by (simp_all split: option.split EntryType.split PersistSubmit.split list.split)

lemma moving_basic [moving]:
  "moving_op L (ret x)" "moving_op L (throw e)" "moving_op L (gets g)" "moving_op L (on_store err m)"
  "moving_op L (modify (\<lambda>nd. nd\<lparr>nd_snapshot_from := a\<rparr>))" "moving_op L (modify (\<lambda>nd. nd\<lparr>nd_held_snapshot := b\<rparr>))"
  "call_messages c = [] \<Longrightarrow> moving_op L (modify (record_call c))" "moving_op L (modify (deliver_fast L ready))"
  "moving_op L (modify (record_write ready sub))"
  "moving_op L (modify (\<lambda>nd. nd\<lparr>nd_pending := p nd, nd_snapshot_from := q nd\<rparr>))"
  by (auto simp: moving_op_def ret_def throw_def gets_def modify_def on_store_def moves_refl moves_record record_write_def
      moves_deliver_fast intro!: same_flow split: prod.split)

lemma moving_raw:
  assumes "\<And>st r. raw_id L (f st r) = raw_id L r"
  shows "moves L nd (on_raw f nd)" "moving_op L (modify (on_raw f))"
  using assms by (auto simp: moving_op_def modify_def on_raw_def intro!: same_flow)

lemma moving_raw_res:
  assumes "\<And>st r. raw_id L (fst (f st r)) = raw_id L r"
  shows "moving_op L (on_raw_res f)"
proof -
  have "raw_id L r' = raw_id L r" if "f st r = (r', x)" for st r r' x using assms [of st r] that by simp
  then show ?thesis by (auto simp: moving_op_def on_raw_res_def intro!: same_flow split: prod.split)
qed

lemma moving_finish_cycle:
  assumes "fixed_id L"
  shows "moving_op L (finish_cycle L p)"
  unfolding moving_op_def
proof
  fix nd
  let ?a = "on_raw (\<lambda>st. raw_on_persist_ready L st (pp_number p)) nd"
  let ?b = "record_call (OnPersist (pp_number p)) ?a"
  let ?c = "on_raw (raw_advance_apply L) ?b"
  let ?d = "?c\<lparr>nd_pending := tl (nd_pending ?c)\<rparr>"
  let ?e = "deliver_all L (pp_immediate p) (record_call (HandFast (pp_number p) (pp_immediate p)) ?d)"
  let ?f = "deliver_all L (pp_persisted p) (record_call (HandPersisted (pp_number p) (pp_persisted p)) ?e)"
  have "moves L nd ?a" "moves L ?b ?c" using assms by (auto simp: fixed_id_def intro!: moving_raw(1))
  moreover have "moves L ?a ?b" by (rule moves_record) simp
  moreover have "moves L ?c ?d" by (rule same_flow) simp_all
  moreover have "moves L ?d ?e" "moves L ?e ?f" by (simp_all add: moves_deliver_all)
  ultimately have "moves L nd ?f" by (blast intro: moves_trans)
  then show "moves L nd (fst (finish_cycle L p nd))" by (simp add: finish_cycle_def Let_def)
qed

lemma moving_take_ready: "fixed_id L \<Longrightarrow> moving_op L (take_ready L)"
proof -
  assume f: "fixed_id L"
  have "raw_id L r' = raw_id L r" if "raw_ready L st r = (x, r')" for st r x r'
    using f that unfolding fixed_id_def by (metis snd_conv)
  then show ?thesis by (auto simp: moving_op_def take_ready_def intro!: same_flow split: prod.split)
qed

lemma moving_pipeline:
  assumes "fixed_id L"
  shows "moving_op L (flush_landed p)" "moving_op L (finish_persisted L)" "moving_op L (submit_ready L)" "moving_op L (node_step L)"
proof -
  show fl: "moving_op L (flush_landed p)" for p
    unfolding flush_landed_def by (intro moving) simp_all
  show fp: "moving_op L (finish_persisted L)"
    unfolding finish_persisted_def by (intro moving fl moving_finish_cycle assms)
  show sr: "moving_op L (submit_ready L)"
    unfolding submit_ready_def Let_def
    using assms by (intro moving moving_take_ready moving_raw) (simp_all add: fixed_id_def)
  show "moving_op L (node_step L)"
    unfolding node_step_def by (intro moving fp sr)
qed

lemma moving_ops:
  assumes "fixed_id L"
  shows "moving_op L (propose L cmd)" "moving_op L (propose_conf_change L ty i)" "moving_op L (apply_conf_change L index ety bs)"
  "moving_op L (on_message L from bs)" "moving_op L (step_held_snapshot L held bs)" "moving_op L (create_snapshot index term cs bs)"
  unfolding propose_def propose_conf_change_def apply_conf_change_def on_message_def step_held_snapshot_def
    create_snapshot_def Let_def
  using assms by (intro moving moving_raw_res; simp add: fixed_id_def)+

lemma node_step_moves: "node_step_rel L nd nd' \<Longrightarrow> fixed_id L \<Longrightarrow> moves L nd nd'"
proof (erule node_step_rel.cases, goal_cases)
  case (13)
  then show ?case by (auto intro: moves_hands sender_hands simp: off_pipe_frames)
qed (auto simp: moving_pipeline [unfolded moving_op_def] moving_ops [unfolded moving_op_def] node_tick_def
    transfer_leader_def read_index_def take_held_snapshot_def start_outbound_sender_def flusher_wakes_def fixed_id_def
    intro!: moving_raw(1) same_flow)

lemma new_node_state:
  "new_with_config L self_id peers storage applied config = Inr nd \<Longrightarrow>
    handed_over nd = [] \<and> queues_ok nd \<and> (\<forall>p node. stream L p node nd = [])"
  by (auto simp: new_with_config_def Let_def res_simps handed_over_def queues_ok_def stream_def queue_def)

lemma node_run_stream:
  assumes "node_run L nd" "fixed_id L" "peers_ok nd"
  shows "queues_ok nd \<and> (\<forall>p node. map_of (nd_peers nd) p = Some node \<longrightarrow>
     subseq (stream L p node nd) (map (encoded L) (to_peer p (handed_over nd))) \<and>
     (p \<noteq> raw_id L (nd_raw nd) \<longrightarrow>
       length (to_peer p (handed_over nd)) \<le> length (stream L p node nd) + nd_dropped_sends nd))"
  using assms
proof (induction rule: node_run.induct)
  case (start self_id peers storage applied config nd)
  then show ?case using new_node_state by fastforce
next
  case (later nd nd')
  from node_step_moves [OF later.hyps(2) later.prems(1)] obtain ms where
    ms: "handed_over nd' = handed_over nd @ ms" "hands L ms nd nd'" by (auto simp: moves_def)
  have pk: "peers_ok nd" "nd_peers nd' = nd_peers nd" "raw_id L (nd_raw nd') = raw_id L (nd_raw nd)"
    using ms(2) later.prems(2) by (simp_all add: hands_def peers_ok_def)
  note IH = later.IH [OF later.prems(1) pk(1)]
  have "subseq (stream L p node nd') (map (encoded L) (to_peer p (handed_over nd'))) \<and>
     (p \<noteq> raw_id L (nd_raw nd') \<longrightarrow>
       length (to_peer p (handed_over nd')) \<le> length (stream L p node nd') + nd_dropped_sends nd')"
    if p: "map_of (nd_peers nd') p = Some node" for p node
  proof -
    obtain zs where z: "stream L p node nd' = stream L p node nd @ zs" "subseq zs (map (encoded L) (to_peer p ms))"
      "p \<noteq> raw_id L (nd_raw nd) \<longrightarrow> length (to_peer p ms) + nd_dropped_sends nd \<le> length zs + nd_dropped_sends nd'"
      using ms(2) IH pk p unfolding hands_def by metis
    have "subseq (stream L p node nd @ zs) (map (encoded L) (to_peer p (handed_over nd)) @ map (encoded L) (to_peer p ms))"
      using IH p pk z(2) by (intro list_emb_append_mono) auto
    then show ?thesis using IH p pk z ms(1) by fastforce
  qed
  moreover have "queues_ok nd'" using ms(2) IH pk(1) unfolding hands_def by blast
  ultimately show ?case by blast
qed

subsection \<open>What may have left\<close>

text \<open>
  A fast-path message of a \<open>Ready\<close> whose records are written, or any message of one whose
  records are durable.
\<close>

definition may_leave :: "'r lib \<Rightarrow> Call list \<Rightarrow> Message \<Rightarrow> bool" where
  "may_leave L h m \<longleftrightarrow> (\<exists>rd. m \<in> set (rd_messages rd) \<and> recorded L h rd) \<or>
     (\<exists>rd. m \<in> set (rd_persisted_messages rd) \<and> persisted L h rd)"

lemma handed_over_may_leave:
  assumes "ordered L (nd_history nd)" "m \<in> set (handed_over nd)"
  shows "may_leave L (nd_history nd) m"
proof -
  obtain c pre post where c: "nd_history nd = pre @ c # post" "m \<in> set (call_messages c)"
    using assms(2) by (auto simp: handed_over_def dest: split_list)
  have f: "may_follow L pre c" using assms(1) c(1) ordered_at by metis
  consider n ms where "c = HandFast n ms" | n ms where "c = HandPersisted n ms"
    using c(2) by (cases c) auto
  then show ?thesis
  proof cases
    case 1
    then obtain rd where "m \<in> set (rd_messages rd)" "recorded L pre rd" using f c(2) by auto
    then show ?thesis unfolding may_leave_def c(1) using recorded_more by blast
  next
    case 2
    then obtain rd a b where "m \<in> set (rd_persisted_messages rd)" "persisted L a rd" "pre = a @ b" using f c(2) by auto
    then show ?thesis unfolding may_leave_def c(1) using persisted_more [of L a rd "b @ c # post"] by auto
  qed
qed

lemma on_the_way:
  assumes "node_run L nd" "fixed_id L" "peers_ok nd" "map_of (nd_peers nd) p = Some node"
    and b: "b \<in> set (nd_net nd node) \<union> encoded L ` set (queue p nd)"
  shows "\<exists>m. b = encoded L m \<and> mg_to m = p \<and> may_leave L (nd_history nd) m"
proof -
  have "subseq (stream L p node nd) (map (encoded L) (to_peer p (handed_over nd)))"
    using node_run_stream [OF assms(1-3)] assms(4) by blast
  then have "set (stream L p node nd) \<subseteq> encoded L ` set (to_peer p (handed_over nd))"
    by (force elim: list_emb_set)
  then obtain m where "b = encoded L m" "mg_to m = p" "m \<in> set (handed_over nd)"
    using b by (auto simp: stream_def to_peer_def)
  then show ?thesis using handed_over_may_leave node_run_inv [OF assms(1)] by (auto simp: pipe_ok_def)
qed

subsection \<open>Properties\<close>

text \<open>
  C12: the stream to a peer.  In every run of the node with a fixed raft id and peers with
  distinct addresses: what the transport got for a peer, followed by what waits in its queue, is
  a subsequence of the messages handed over for that peer, in their order.  The queue holds at
  most \<open>OUTBOUND_QUEUE_DEPTH\<close> messages, and every message that is missing from the stream of a
  remote peer is counted as dropped.
\<close>

theorem peer_streams_in_order:
  assumes "node_run L nd" "fixed_id L" "peers_ok nd" "map_of (nd_peers nd) p = Some node" "p \<noteq> raw_id L (nd_raw nd)"
  shows "subseq (nd_net nd node @ map (encoded L) (queue p nd)) (map (encoded L) (to_peer p (handed_over nd))) \<and>
    length (to_peer p (handed_over nd)) \<le> length (nd_net nd node) + length (queue p nd) + nd_dropped_sends nd \<and>
    length (queue p nd) \<le> OUTBOUND_QUEUE_DEPTH"
  using node_run_stream [OF assms(1-3)] assms(4,5) by (auto simp: stream_def queues_ok_def)

theorem peer_streams_in_order_witness:
  "to_peer 2 (handed_over sample_step) = [(sample_message 2 [7])\<lparr>mg_from := 2\<rparr>] \<and>
   nd_net sample_step [50] = [[7]] \<and> 1 \<le> 1 + length (queue 2 sample_step) + nd_dropped_sends sample_step \<and>
   queue 2 sample_step = []"
proof -
  let ?m = "(sample_message 2 [7])\<lparr>mg_from := 2\<rparr>"
  have h: "to_peer 2 (handed_over sample_step) = [?m]"
    by (simp add: handed_over_def sample_step_history sample_message_def sample_lib_def)
  have "fixed_id sample_lib" by (simp add: fixed_id_def sample_lib_def)
  moreover have "peers_ok sample_step" "map_of (nd_peers sample_step) 2 = Some [50]" "2 \<noteq> raw_id sample_lib (nd_raw sample_step)"
    by (simp_all add: peers_ok_def sample_step_history sample_lib_def)
  ultimately have s: "subseq (nd_net sample_step [50] @ map (encoded sample_lib) (queue 2 sample_step)) (map (encoded sample_lib) [?m]) \<and>
      length [?m] \<le> length (nd_net sample_step [50]) + length (queue 2 sample_step) + nd_dropped_sends sample_step"
    using peer_streams_in_order [OF sample_step_run, of 2 "[50]"] unfolding h by blast
  then have "length (nd_net sample_step [50] @ map (encoded sample_lib) (queue 2 sample_step)) \<le> length [?m]"
    using list_emb_length by fastforce
  then have "queue 2 sample_step = []" by (simp add: sample_step_history)
  then show ?thesis using h s sample_step_history(2) by simp
qed

text \<open>
  C5: persist before send.  In every run of the node, whatever raft, the network and the flusher
  thread do, and at every moment of it: everything the transport was given for a peer, and
  everything that waits in its queue, is a fast-path message of a \<open>Ready\<close> of raft whose entries and
  hard state the log has accepted, or a message of a \<open>Ready\<close> whose entries and hard state are durable: the
  write was synchronous, or \<open>poll_flush\<close> has since reported its flush.  The messages that depend
  on the records are handed over after raft was told, which happens after they are durable.  An
  accepted write leaves a log that ends with the entries of the \<open>Ready\<close> and has its hard state.
  The cycles are completed in the order in which they were written, each with exactly the dependent
  messages of its \<open>Ready\<close>, and at most \<open>MAX_IN_FLIGHT_READIES\<close> are in flight.
\<close>

theorem messages_leave_after_persistence:
  assumes "node_run L nd"
  shows "(\<forall>p node b. fixed_id L \<longrightarrow> peers_ok nd \<longrightarrow> map_of (nd_peers nd) p = Some node \<longrightarrow>
      b \<in> set (nd_net nd node) \<union> encoded L ` set (queue p nd) \<longrightarrow>
      (\<exists>m. b = encoded L m \<and> mg_to m = p \<and> may_leave L (nd_history nd) m)) \<and>
    (\<forall>pre n ms post. nd_history nd = pre @ HandPersisted n ms # post \<longrightarrow>
      (\<exists>rd a b. pre = a @ OnPersist n # b \<and> rd_number rd = n \<and> ms = rd_persisted_messages rd \<and> persisted L a rd)) \<and>
    (\<forall>rd sub w. Wrote rd sub w \<in> set (nd_history nd) \<longrightarrow>
      (\<exists>old. wal_entries (the_wal w) = old @ map from_raft_entry (rd_entries rd)) \<and>
      (\<forall>hs. rd_hs rd = Some hs \<longrightarrow> wal_hard_state (the_wal w) = to_seam_hard_state hs)) \<and>
    cycles (nd_history nd) = handed (nd_history nd) @ map (\<lambda>p. (pp_number p, pp_persisted p)) (nd_pending nd) \<and>
    persists (nd_history nd) = map fst (handed (nd_history nd)) \<and>
    length (nd_pending nd) \<le> MAX_IN_FLIGHT_READIES"
proof -
  have inv: "pipe_inv L nd" using node_run_inv [OF assms] .
  then have o: "ordered L (nd_history nd)" by (simp add: pipe_ok_def)
  have "\<exists>rd a b. pre = a @ OnPersist n # b \<and> rd_number rd = n \<and> ms = rd_persisted_messages rd \<and> persisted L a rd"
    if "nd_history nd = pre @ HandPersisted n ms # post" for pre n ms post
    using ordered_at [OF o [unfolded that]] by auto
  moreover have "write_accepted L rd sub w" if w: "Wrote rd sub w \<in> set (nd_history nd)" for rd sub w
  proof -
    obtain pre post where "nd_history nd = pre @ Wrote rd sub w # post" using split_list [OF w] by blast
    then show ?thesis using ordered_at [of L pre "Wrote rd sub w" post] o by simp
  qed
  then have "(\<exists>old. wal_entries (the_wal w) = old @ map from_raft_entry (rd_entries rd)) \<and>
      (\<forall>hs. rd_hs rd = Some hs \<longrightarrow> wal_hard_state (the_wal w) = to_seam_hard_state hs)"
    if "Wrote rd sub w \<in> set (nd_history nd)" for rd sub w
    using that persist_holds unfolding write_accepted_def by (metis option.simps(9))
  ultimately show ?thesis using inv on_the_way [OF assms] unfolding pipe_ok_def by blast
qed

text \<open>A raft whose messages each come with one entry and a hard state to persist.\<close>

definition writing_ready :: "Message \<Rightarrow> Ready" where
  "writing_ready m = \<lparr>rd_number = 4, rd_hs = Some \<lparr>rh_term = 2, rh_vote = 3, rh_commit = 1\<rparr>, rd_read_states = [],
     rd_entries = [\<lparr>en_type = EntryNormal, en_term = 2, en_index = 1, en_data = [5], en_context = []\<rparr>],
     rd_snapshot = mg_snapshot m, rd_messages = [], rd_persisted_messages = [m], rd_committed_entries = []\<rparr>"

definition writing_lib :: "Ready list lib" where
  "writing_lib = sample_lib\<lparr>raw_step := (\<lambda>_ m rs. (rs @ [writing_ready m], Inr ()))\<rparr>"

definition sample_entry :: LogEntry where
  "sample_entry = \<lparr>le_index = 1, le_term = 2, le_type = NormalEntry, le_data = [5]\<rparr>"

definition sample_hard :: HardState where
  "sample_hard = \<lparr>hs_term = 2, hs_vote = Some 3, hs_commit = 1\<rparr>"

definition sample_world :: World where
  "sample_world = \<lparr>the_fs = new_fs node_opts, the_wal = reopened node_opts (new_meta node_opts) None None [] 1 2\<rparr>"

lemma sample_write: "\<exists>w. persist_ready_records [sample_entry] (Some sample_hard) sample_world = (w, Inr Durable)"
  by (simp add: sample_world_def sample_entry_def new_fs_def reopened_def node_opts_def Let_def wal_runs comp_defs
      last_index_def last_entry_index_def fs_runs adopted_conf_def)

definition sample_wrote :: "Ready list RaftNode" where
  "sample_wrote = fst (node_step writing_lib (fst (on_message writing_lib 2 [7] sample_node)))"

lemma sample_wrote_run: "node_run writing_lib sample_wrote"
proof -
  have "new_with_config writing_lib 1 [(2, [50]), (3, [51])] sample_world 0 node_config_default = Inr sample_node"
    unfolding sample_node_def sample_world_def by (simp add: new_with_config_def writing_lib_def sample_lib_def Let_def)
  from node_run.start [OF this] show ?thesis
    unfolding sample_wrote_def by (rule node_run.later [OF node_run.later [OF _ message] step])
qed

lemma sample_wrote_state:
  "\<exists>w. nd_history sample_wrote = [Wrote (writing_ready ((sample_message 2 [7])\<lparr>mg_from := 2\<rparr>)) Durable w,
      OnPersist 4, HandFast 4 [], HandPersisted 4 [(sample_message 2 [7])\<lparr>mg_from := 2\<rparr>]]"
  "nd_net sample_wrote [50] = [[7]]" "nd_peers sample_wrote = [(2, [50]), (3, [51])]"
proof -
  obtain w where "persist_ready_records [sample_entry] (Some sample_hard) sample_world = (w, Inr Durable)"
    using sample_write by blast
  then have w: "persist_ready_records [\<lparr>le_index = 1, le_term = 2, le_type = NormalEntry, le_data = [5]\<rparr>]
      (Some \<lparr>hs_term = 2, hs_vote = Some 3, hs_commit = 1\<rparr>)
      \<lparr>the_fs = new_fs node_opts, the_wal = reopened node_opts (new_meta node_opts) None None [] 1 2\<rparr> = (w, Inr Durable)"
    by (simp only: sample_entry_def sample_hard_def sample_world_def)
  note runs = sample_wrote_def node_step_def finish_persisted_def submit_ready_def take_ready_def ready_snapshot_def
      sample_node_def new_with_config_def writing_lib_def writing_ready_def sample_lib_def sample_message_def on_message_def
      on_raw_res_def on_raw_def on_store_def st_persist_ready_records_def adapt_def with_conf_state_def w
      streamed_snapshots_def node_config_default_def flush_landed_def finish_cycle_def from_raft_entry_def
      to_seam_hard_state_def record_call_def record_write_def deliver_all_def deliver_def send_one_def
      MAX_IN_FLIGHT_READIES_def comp_defs Let_def
  show "\<exists>w. nd_history sample_wrote = [Wrote (writing_ready ((sample_message 2 [7])\<lparr>mg_from := 2\<rparr>)) Durable w,
      OnPersist 4, HandFast 4 [], HandPersisted 4 [(sample_message 2 [7])\<lparr>mg_from := 2\<rparr>]]"
    "nd_net sample_wrote [50] = [[7]]" "nd_peers sample_wrote = [(2, [50]), (3, [51])]"
    by (simp_all add: runs)
qed

theorem messages_leave_after_persistence_witness:
  "\<exists>w old m. nd_history sample_wrote = [Wrote (writing_ready ((sample_message 2 [7])\<lparr>mg_from := 2\<rparr>)) Durable w,
      OnPersist 4, HandFast 4 [], HandPersisted 4 [(sample_message 2 [7])\<lparr>mg_from := 2\<rparr>]] \<and>
    wal_entries (the_wal w) = old @ [sample_entry] \<and> wal_hard_state (the_wal w) = sample_hard \<and>
    nd_net sample_wrote [50] = [[7]] \<and> [7] = encoded writing_lib m \<and> mg_to m = 2 \<and>
    may_leave writing_lib (nd_history sample_wrote) m \<and> nd_pending sample_wrote = []"
proof -
  note th = messages_leave_after_persistence [OF sample_wrote_run]
  obtain w where h: "nd_history sample_wrote = [Wrote (writing_ready ((sample_message 2 [7])\<lparr>mg_from := 2\<rparr>)) Durable w,
      OnPersist 4, HandFast 4 [], HandPersisted 4 [(sample_message 2 [7])\<lparr>mg_from := 2\<rparr>]]"
    using sample_wrote_state(1) by blast
  have r: "map from_raft_entry (rd_entries (writing_ready m)) = [sample_entry]"
    "rd_hs (writing_ready m) = Some \<lparr>rh_term = 2, rh_vote = 3, rh_commit = 1\<rparr>"
    "to_seam_hard_state \<lparr>rh_term = 2, rh_vote = 3, rh_commit = 1\<rparr> = sample_hard"
    "rd_number (writing_ready m) = 4" "rd_persisted_messages (writing_ready m) = [m]" for m
    by (simp_all add: writing_ready_def from_raft_entry_def sample_entry_def to_seam_hard_state_def sample_hard_def)
  have "Wrote (writing_ready ((sample_message 2 [7])\<lparr>mg_from := 2\<rparr>)) Durable w \<in> set (nd_history sample_wrote)"
    using h by simp
  then have "\<exists>old. wal_entries (the_wal w) = old @ [sample_entry]" "wal_hard_state (the_wal w) = sample_hard"
    using th r by metis+
  moreover have "nd_pending sample_wrote = []"
  proof -
    have "cycles (nd_history sample_wrote) = handed (nd_history sample_wrote) @
        map (\<lambda>p. (pp_number p, pp_persisted p)) (nd_pending sample_wrote)"
      using th by blast
    then show ?thesis by (simp add: h r)
  qed
  moreover have "fixed_id writing_lib" by (simp add: fixed_id_def writing_lib_def sample_lib_def)
  moreover have "peers_ok sample_wrote" "map_of (nd_peers sample_wrote) 2 = Some [50]" "[7] \<in> set (nd_net sample_wrote [50])"
    by (simp_all add: peers_ok_def sample_wrote_state)
  ultimately show ?thesis using h th sample_wrote_state(2) by blast
qed

end
