(* ===== verification/RuntimeTypes.thy ===== *)
theory RuntimeTypes
  imports RaftNode KvSnapshot
begin

text \<open>
  The types of the node runtime (\<open>arachne/src/runtime/mod.rs\<close>): the requests of the client
  handles, the queues of requests that wait for an answer, the apply task, the watchers, and the
  state of the actor.  A reply channel is a number; an answer is an entry of the list of replies.
  \<open>Instant\<close> is a count of milliseconds.  Metrics and log output are left out.
\<close>

subsection \<open>Client errors and answers\<close>

type_synonym ack = nat
type_synonym Addr = bytes
type_synonym Hint = "(NodeId \<times> Addr) option"

datatype ArachneError =
    NotLeader Hint | QuorumUnavailable | Timeout | Busy | InvalidArgument | SessionExpired
  | SessionTableFull | ConfChangePending | LeaderRemovalRequiresTransfer
  | LearnerNotCaughtUp u64 u64 | ClientClusterIdMismatch | ShuttingDown | DataDirLocked
  | ClientUnrecoverable | Unsupported | AlreadyInitialized | NotInitialized

datatype Reply =
    RDone | ROutcome ApplyOutcome | RIndex LogIndex | RValue "bytes option"
  | RValueIndex "(bytes \<times> LogIndex) option" | RRange "(bytes \<times> bytes) list" LogIndex bool
  | RMulti "bytes option list" LogIndex | RWatch "(bytes \<times> bytes) list" LogIndex bool nat
  | RMembers "RaftId list" "RaftId list" | RHint Hint | RErr ArachneError

datatype ReadConsistency = Stale | Linearizable

datatype Command =
    CmdConfChange ConfChangeType RaftId ack
  | CmdMembership ack
  | CmdTransferLeader "RaftId option" ack
  | CmdPropose bytes u64 u64 ack
  | CmdProposeWithIndex bytes u64 u64 ack
  | CmdGetStale bytes ack
  | CmdGetStaleWithIndex bytes ack
  | CmdGetStaleRange bytes bytes nat ack
  | CmdMultiGet "bytes list" ReadConsistency ack
  | CmdWatch bytes bytes nat ack
  | CmdRead bytes ack
  | CmdLeaderHint ack
  | CmdWaitApplied LogIndex nat ack

fun cmd_ack :: "Command \<Rightarrow> ack" where
  "cmd_ack (CmdConfChange _ _ a) = a"
| "cmd_ack (CmdMembership a) = a"
| "cmd_ack (CmdTransferLeader _ a) = a"
| "cmd_ack (CmdPropose _ _ _ a) = a"
| "cmd_ack (CmdProposeWithIndex _ _ _ a) = a"
| "cmd_ack (CmdGetStale _ a) = a"
| "cmd_ack (CmdGetStaleWithIndex _ a) = a"
| "cmd_ack (CmdGetStaleRange _ _ _ a) = a"
| "cmd_ack (CmdMultiGet _ _ a) = a"
| "cmd_ack (CmdWatch _ _ _ a) = a"
| "cmd_ack (CmdRead _ a) = a"
| "cmd_ack (CmdLeaderHint a) = a"
| "cmd_ack (CmdWaitApplied _ _ a) = a"

subsection \<open>Requests that wait\<close>

datatype SessionBand = Live | Grace | Fresh

datatype PendingReply = PrOutcome ack | PrIndex ack

record Pending =
  pn_client_id :: u64
  pn_seq_no :: u64
  pn_ack :: PendingReply
  pn_deadline :: nat
  pn_index :: "LogIndex option"

record PendingConf =
  pc_change_type :: ConfChangeType
  pc_node_id :: RaftId
  pc_ack :: ack
  pc_deadline :: nat
  pc_index :: "LogIndex option"

record PendingTransfer =
  pt_target :: RaftId
  pt_ack :: ack
  pt_deadline :: nat

datatype PendingReadKind = One bytes ack | Many "bytes list" ack

record PendingRead =
  pd_token :: "u64 option"
  pd_kind :: PendingReadKind
  pd_deadline :: nat
  pd_read_index :: "LogIndex option"
  pd_attempts :: nat
  pd_budget :: "u64 option"

record PendingApplied =
  pa_index :: LogIndex
  pa_deadline :: nat
  pa_ack :: ack

text \<open>
  A subscription.  It is named by the reply channel of its request; its own channel holds the
  events the consumer has not taken yet.
\<close>

record Watcher =
  wt_id :: nat
  wt_start :: bytes
  wt_end :: bytes
  wt_filter :: LogIndex
  wt_queue :: "WatchEvent list"

definition watcher_matches :: "Watcher \<Rightarrow> bytes \<Rightarrow> bool" where
  "watcher_matches w key =
     (if wt_start w > key then False else if wt_end w = [] then True else key < wt_end w)"

text \<open>A read handed to a spawned worker.\<close>

datatype Worker =
    WGet bytes ack | WGetIndex bytes ack | WRange bytes bytes nat ack | WMulti "bytes list" ack

subsection \<open>The apply task\<close>

record ApplyBatch =
  ab_snapshot :: "Snapshot option"
  ab_entries :: "(LogIndex \<times> bytes) list"

datatype ApplyRequest = Batch ApplyBatch | SnapshotRequest

record ApplyProgress =
  ap_applied_index :: LogIndex
  ap_applied_bytes_total :: u64
  ap_failed :: bool
  ap_sessions :: u64

text \<open>
  Where the task is: between requests, within the entries of a batch, or waiting for room to
  send the outcome of an entry that is applied already.
\<close>

datatype TaskPoint =
    Idle
  | Applying "(LogIndex \<times> bytes) list"
  | Sending LogIndex bytes ApplyOutcome LogIndex "WatchEvent list" "(LogIndex \<times> bytes) list"
  | Stopped

record ApplyTask =
  at_point :: TaskPoint
  at_applied_bytes_total :: u64
  at_failed :: bool

subsection \<open>Snapshot transfer\<close>

record SnapshotFetchDone =
  sd_from :: RaftId
  sd_index :: LogIndex
  sd_fetched :: bool
  sd_file :: "bytes option"

subsection \<open>Bounds\<close>

definition MAX_INFLIGHT_MULTI_GET_BYTES :: u64 where "MAX_INFLIGHT_MULTI_GET_BYTES = 16 * 1024 * 1024"
definition ENTRY_FRAMING_BYTES :: u64 where "ENTRY_FRAMING_BYTES = 24"
definition SNAPSHOT_FETCH_ATTEMPTS :: nat where "SNAPSHOT_FETCH_ATTEMPTS = 8"
definition CYCLE_BURST :: nat where "CYCLE_BURST = 64"
definition WAL_SAMPLE_INTERVAL :: nat where "WAL_SAMPLE_INTERVAL = 1000"
definition MAX_PENDING_READS :: nat where "MAX_PENDING_READS = 4096"
definition MAX_PENDING_APPLIED_WAITS :: nat where "MAX_PENDING_APPLIED_WAITS = 4096"
definition APPLY_QUEUE_DEPTH :: nat where "APPLY_QUEUE_DEPTH = 256"
definition WATCH_BUFFER :: nat where "WATCH_BUFFER = 1024"
definition SESSION_GC_BATCH :: nat where "SESSION_GC_BATCH = 1000"

subsection \<open>The actor\<close>

text \<open>What \<open>Runtime::new\<close> fixes.\<close>

record RuntimeConfig =
  cg_raft_id :: RaftId
  cg_node_to_raft :: "(NodeId \<times> RaftId) list"
  cg_raft_to_node :: "(RaftId \<times> NodeId) list"
  cg_addresses :: "(NodeId \<times> Addr) list"
  cg_proposal_queue_bytes :: u64
  cg_promote_lag_entries :: u64
  cg_read_index_timeout :: nat
  cg_propose_timeout :: nat
  cg_session_ttl_ms :: u64
  cg_session_grace_ms :: u64
  cg_max_sessions :: u64
  cg_snapshot_threshold_bytes :: u64

text \<open>
  What the actor shares with the apply task: the state machine, the bounded channels in both
  directions, the published progress, the mark of dropped event batches, and the answer to a
  request for a local snapshot.
\<close>

record Shared =
  sh_sm :: KvStateMachine
  sh_task :: ApplyTask
  sh_applies :: "ApplyRequest list"
  sh_progress :: ApplyProgress
  sh_outcomes :: "(LogIndex \<times> ApplyOutcome \<times> LogIndex) list"
  sh_watch_events :: "(LogIndex \<times> WatchEvent list) list"
  sh_backlog_dropped :: u64
  sh_snapshot_result :: "(KvError + (LogIndex \<times> bytes)) option"

text \<open>
  The surroundings of the actor: the time, the session clock if there is one, the reply channels
  whose receiver is gone, the answers sent so far, the workers that have not run yet, and the
  events delivered to watchers so far.
\<close>

record Env =
  ev_now :: nat
  ev_session_clock :: "u64 option"
  ev_closed :: "ack list"
  ev_replies :: "(ack \<times> Reply) list"
  ev_workers :: "Worker list"
  ev_delivered :: "(nat \<times> WatchEvent) list"

record SessionTable =
  ss_sessions :: "((u64 \<times> u64) \<times> u64) list"
  ss_next_sweep :: u64
  ss_live_sessions :: u64
  ss_next_gc :: u64

record WatchTable =
  wa_watchers :: "Watcher list"
  wa_dropped_total :: nat

record 'r Runtime =
  rt_node :: "'r RaftNode"
  rt_cfg :: RuntimeConfig
  rt_shared :: Shared
  rt_env :: Env
  rt_ses :: SessionTable
  rt_watch :: WatchTable
  rt_multi_get_used :: u64
  rt_deferred :: "ApplyBatch option"
  rt_snapshot_wait :: bool
  rt_snapshot_fetch :: "HeldSnapshot option"
  rt_applied_index :: LogIndex
  rt_applied_bytes_total :: u64
  rt_sent_bytes_total :: u64
  rt_pending :: "Pending list"
  rt_committed_queue :: "CommittedEntry list"
  rt_pending_conf :: "PendingConf list"
  rt_pending_transfer :: "PendingTransfer list"
  rt_pending_reads :: "PendingRead list"
  rt_pending_applied :: "PendingApplied list"
  rt_next_read_token :: u64
  rt_last_wal_sample :: nat
  rt_applied_bytes_at_snapshot :: u64
  rt_snapshot_index :: LogIndex
  rt_received_outcomes :: "(LogIndex, ApplyOutcome \<times> LogIndex) btree_map"

text \<open>
  Reading the state machine.  Its lock is poisoned only when a thread panics inside it; the
  process then ends, so the actor and the task see it healthy.
\<close>

abbreviation sm_store :: "'r Runtime \<Rightarrow> Store" where
  "sm_store rt \<equiv> store (sh_sm (rt_shared rt))"

definition sm_applied :: "'r Runtime \<Rightarrow> LogIndex" where
  "sm_applied rt = applied (sm_store rt)"

abbreviation now :: "'r Runtime \<Rightarrow> nat" where
  "now rt \<equiv> ev_now (rt_env rt)"

definition reply :: "ack \<Rightarrow> Reply \<Rightarrow> 'r Runtime \<Rightarrow> 'r Runtime" where
  "reply a r rt = rt\<lparr>rt_env := (rt_env rt)\<lparr>ev_replies := ev_replies (rt_env rt) @ [(a, r)]\<rparr>\<rparr>"

definition spawn_worker :: "Worker \<Rightarrow> 'r Runtime \<Rightarrow> 'r Runtime" where
  "spawn_worker w rt = rt\<lparr>rt_env := (rt_env rt)\<lparr>ev_workers := ev_workers (rt_env rt) @ [w]\<rparr>\<rparr>"

end
