(* ===== verification/Runtime.thy ===== *)
theory Runtime
  imports RuntimeTypes StoredFiles "HOL-Library.AList"
begin

text \<open>
  The node runtime (\<open>arachne/src/runtime/mod.rs\<close>): the actor that owns the consensus node,
  hands committed work to the apply task, and answers the client handles, and the apply task
  itself.  Functions that may stop the node return whether it goes on.

  Within one event the actor sees one time, \<open>ev_now\<close>.  The apply task advances by
  \<open>apply_task_step\<close>, one request, entry or channel operation at a time, so that it can be
  interleaved with the actor; workers read the state machine when they run.
\<close>

subsection \<open>Small helpers\<close>

definition saturating_sub :: "u64 \<Rightarrow> u64 \<Rightarrow> u64" where
  "saturating_sub a b = (if b \<le> a then a - b else 0)"

definition be64 :: "u64 \<Rightarrow> bytes" where
  "be64 w = rev (le64 w)"

definition of_be64 :: "bytes \<Rightarrow> u64" where
  "of_be64 bs = of_le64 (rev bs)"

definition hint :: "'r lib \<Rightarrow> 'r Runtime \<Rightarrow> Hint" where
  "hint L rt =
     (let leader = leader_id L (rt_node rt) in
      if leader = 0 then None
      else case map_of (cg_raft_to_node (rt_cfg rt)) leader of
        None \<Rightarrow> None
      | Some node \<Rightarrow>
          (case map_of (cg_addresses (rt_cfg rt)) node of None \<Rightarrow> None | Some addr \<Rightarrow> Some (node, addr)))"

definition is_leader :: "'r lib \<Rightarrow> 'r Runtime \<Rightarrow> bool" where
  "is_leader L rt \<longleftrightarrow> leader_id L (rt_node rt) = cg_raft_id (rt_cfg rt)"

fun reply_ack :: "PendingReply \<Rightarrow> ack" where
  "reply_ack (PrOutcome a) = a"
| "reply_ack (PrIndex a) = a"

fun send_applied :: "PendingReply \<Rightarrow> ApplyOutcome \<Rightarrow> LogIndex \<Rightarrow> 'r Runtime \<Rightarrow> 'r Runtime" where
  "send_applied (PrOutcome a) outcome effective_index rt = reply a (ROutcome outcome) rt"
| "send_applied (PrIndex a) outcome effective_index rt = reply a (RIndex effective_index) rt"

definition send_error :: "PendingReply \<Rightarrow> ArachneError \<Rightarrow> 'r Runtime \<Rightarrow> 'r Runtime" where
  "send_error p e = reply (reply_ack p) (RErr e)"

fun kind_ack :: "PendingReadKind \<Rightarrow> ack" where
  "kind_ack (One key a) = a"
| "kind_ack (Many keys a) = a"

definition send_read_error :: "PendingReadKind \<Rightarrow> ArachneError \<Rightarrow> 'r Runtime \<Rightarrow> 'r Runtime" where
  "send_read_error k e = reply (kind_ack k) (RErr e)"

text \<open>\<open>MultiGetBudget\<close>: reserving bytes, and the release when a guard is dropped.\<close>

definition try_reserve :: "u64 \<Rightarrow> u64 \<Rightarrow> u64 option" where
  "try_reserve used bytes =
     (let next = saturating_add used bytes
      in if next > MAX_INFLIGHT_MULTI_GET_BYTES then None else Some next)"

definition release_guard :: "PendingRead \<Rightarrow> 'r Runtime \<Rightarrow> 'r Runtime" where
  "release_guard r rt =
     (case pd_budget r of
        None \<Rightarrow> rt
      | Some bytes \<Rightarrow> rt\<lparr>rt_multi_get_used := rt_multi_get_used rt - bytes\<rparr>)"

text \<open>
  The loops over a drained queue: each element is answered or kept, and the kept ones become
  the queue again.
\<close>

fun drain_pending ::
    "('p \<Rightarrow> 'r Runtime \<Rightarrow> 'r Runtime \<times> 'p option) \<Rightarrow> 'p list \<Rightarrow> 'r Runtime \<Rightarrow> 'r Runtime \<times> 'p list" where
  "drain_pending f [] rt = (rt, [])"
| "drain_pending f (p # ps) rt =
     (let (rt, kept) = f p rt;
          (rt, still) = drain_pending f ps rt
      in (rt, (case kept of None \<Rightarrow> still | Some p \<Rightarrow> p # still)))"

definition fail_all_pending :: "'r Runtime \<Rightarrow> 'r Runtime" where
  "fail_all_pending rt =
     (let e = ClientUnrecoverable;
          rt' = fold (\<lambda>p. reply (pc_ack p) (RErr e)) (rt_pending_conf rt) rt;
          rt' = fold (\<lambda>t. reply (pt_ack t) (RErr e)) (rt_pending_transfer rt) rt';
          rt' = fold (\<lambda>p. send_error (pn_ack p) e) (rt_pending rt) rt';
          rt' = fold (\<lambda>r rt. release_guard r (send_read_error (pd_kind r) e rt)) (rt_pending_reads rt) rt';
          rt' = fold (\<lambda>w. reply (pa_ack w) (RErr e)) (rt_pending_applied rt) rt'
      in rt'\<lparr>rt_pending_conf := [], rt_pending_transfer := [], rt_pending := [], rt_pending_reads := [],
             rt_pending_applied := []\<rparr>)"

subsection \<open>Sessions\<close>

text \<open>
  The session table is a hash map; the order of the association list stands for its iteration
  order.
\<close>

definition session_band :: "u64 \<Rightarrow> u64 \<Rightarrow> 'r Runtime \<Rightarrow> SessionBand" where
  "session_band cid seqn rt =
     (let ttl = cg_session_ttl_ms (rt_cfg rt) in
      case ev_session_clock (rt_env rt) of
        None \<Rightarrow> Live
      | Some now_millis \<Rightarrow>
          if ttl = 0 then Live
          else (case map_of (ss_sessions (rt_ses rt)) (cid, seqn) of
            None \<Rightarrow> Fresh
          | Some last_seen \<Rightarrow>
              let elapsed = saturating_sub now_millis last_seen
              in if elapsed \<le> ttl then Live
                 else if elapsed \<le> saturating_add ttl (cg_session_grace_ms (rt_cfg rt)) then Grace
                 else Fresh))"

definition note_session :: "u64 \<Rightarrow> u64 \<Rightarrow> 'r Runtime \<Rightarrow> 'r Runtime" where
  "note_session cid seqn rt =
     (let ttl = cg_session_ttl_ms (rt_cfg rt) in
      case ev_session_clock (rt_env rt) of
        None \<Rightarrow> rt
      | Some now_millis \<Rightarrow>
          if ttl = 0 then rt
          else
            let window = max (saturating_add ttl (cg_session_grace_ms (rt_cfg rt))) 1;
                ses = rt_ses rt;
                ses = (if now_millis \<ge> ss_next_sweep ses then
                         ses\<lparr>ss_next_sweep := saturating_add now_millis window,
                             ss_sessions := filter (\<lambda>(_, last_seen). saturating_sub now_millis last_seen \<le> window)
                               (ss_sessions ses)\<rparr>
                       else ses)
            in rt\<lparr>rt_ses := ses\<lparr>ss_sessions := AList.update (cid, seqn) now_millis (ss_sessions ses)\<rparr>\<rparr>)"

definition expired_sessions :: "u64 \<Rightarrow> 'r Runtime \<Rightarrow> (u64 \<times> u64) list" where
  "expired_sessions now_millis rt =
     (let window = saturating_add (cg_session_ttl_ms (rt_cfg rt)) (cg_session_grace_ms (rt_cfg rt))
      in take SESSION_GC_BATCH (map fst
           (filter (\<lambda>(_, last_seen). saturating_sub now_millis last_seen > window) (ss_sessions (rt_ses rt)))))"

definition maybe_collect_sessions :: "'r lib \<Rightarrow> 'r Runtime \<Rightarrow> 'r Runtime" where
  "maybe_collect_sessions L rt =
     (let ttl = cg_session_ttl_ms (rt_cfg rt) in
      case ev_session_clock (rt_env rt) of
        None \<Rightarrow> rt
      | Some now_millis \<Rightarrow>
          if ttl = 0 \<or> \<not> is_leader L rt then rt
          else if now_millis < ss_next_gc (rt_ses rt) then rt
          else
            let rt = rt\<lparr>rt_ses := (rt_ses rt)\<lparr>ss_next_gc := saturating_add now_millis (max ttl 1)\<rparr>\<rparr>;
                expired = expired_sessions now_millis rt
            in if expired = [] then rt
               else (case propose L (encode_session_gc expired) (rt_node rt) of
                 (nd, Inl _) \<Rightarrow> rt\<lparr>rt_node := nd\<rparr>
               | (nd, Inr _) \<Rightarrow>
                   rt\<lparr>rt_node := nd, rt_ses := (rt_ses rt)\<lparr>ss_sessions :=
                     filter (\<lambda>(s, _). s \<notin> set expired) (ss_sessions (rt_ses rt))\<rparr>\<rparr>))"

subsection \<open>The apply task\<close>

definition publish :: "Shared \<Rightarrow> Shared" where
  "publish sh = sh\<lparr>sh_progress :=
     \<lparr>ap_applied_index = applied (store (sh_sm sh)),
      ap_applied_bytes_total = at_applied_bytes_total (sh_task sh),
      ap_failed = at_failed (sh_task sh),
      ap_sessions = len64 (sessions (store (sh_sm sh)))\<rparr>\<rparr>"

definition move_task :: "TaskPoint \<Rightarrow> Shared \<Rightarrow> Shared" where
  "move_task p sh = sh\<lparr>sh_task := (sh_task sh)\<lparr>at_point := p\<rparr>\<rparr>"

definition task_fail :: "Shared \<Rightarrow> Shared" where
  "task_fail sh =
     move_task Stopped (publish (sh\<lparr>sh_task := (sh_task sh)\<lparr>at_failed := True\<rparr>\<rparr>))"

definition entry_bytes :: "bytes \<Rightarrow> u64" where
  "entry_bytes bs = len64 bs + ENTRY_FRAMING_BYTES"

definition send_watch_events :: "LogIndex \<Rightarrow> WatchEvent list \<Rightarrow> Shared \<Rightarrow> Shared" where
  "send_watch_events index events sh =
     (if events = [] then sh
      else if length (sh_watch_events sh) < APPLY_QUEUE_DEPTH
      then sh\<lparr>sh_watch_events := sh_watch_events sh @ [(index, events)]\<rparr>
      else sh\<lparr>sh_backlog_dropped := min (sh_backlog_dropped sh) index\<rparr>)"

text \<open>One step: taking a request, applying an entry, sending its outcome, publishing.\<close>

definition take_request :: "Shared \<Rightarrow> Shared" where
  "take_request sh =
     (case sh_applies sh of
        [] \<Rightarrow> sh
      | Batch batch # rest \<Rightarrow>
          let sh = sh\<lparr>sh_applies := rest\<rparr> in
          (case ab_snapshot batch of
             None \<Rightarrow> move_task (Applying (ab_entries batch)) sh
           | Some snapshot \<Rightarrow>
               (case restore (sh_sm sh) (sn_data snapshot) of
                  (sm, Inl _) \<Rightarrow> task_fail (sh\<lparr>sh_sm := sm\<rparr>)
                | (sm, Inr _) \<Rightarrow> move_task (Applying (ab_entries batch)) (sh\<lparr>sh_sm := sm\<rparr>)))
      | SnapshotRequest # rest \<Rightarrow>
          sh\<lparr>sh_applies := rest, sh_snapshot_result :=
            Some (and_then (kv_snapshot (sh_sm sh)) (\<lambda>bs. Inr (applied (store (sh_sm sh)), bs)))\<rparr>)"

definition apply_entry :: "LogIndex \<Rightarrow> bytes \<Rightarrow> (LogIndex \<times> bytes) list \<Rightarrow> Shared \<Rightarrow> Shared" where
  "apply_entry index bs rest sh =
     (case apply_with_events_and_index (sh_sm sh) index bs of
        (sm, Inl _) \<Rightarrow> task_fail (sh\<lparr>sh_sm := sm\<rparr>)
      | (sm, Inr (outcome, effective_index, events)) \<Rightarrow>
          move_task (Sending index bs outcome effective_index events rest) (sh\<lparr>sh_sm := sm\<rparr>))"

definition send_outcome ::
    "LogIndex \<Rightarrow> bytes \<Rightarrow> ApplyOutcome \<Rightarrow> LogIndex \<Rightarrow> WatchEvent list \<Rightarrow> (LogIndex \<times> bytes) list \<Rightarrow> Shared \<Rightarrow> Shared" where
  "send_outcome index bs outcome effective_index events rest sh =
     (if length (sh_outcomes sh) < APPLY_QUEUE_DEPTH then
        let sh = send_watch_events index events
              (sh\<lparr>sh_outcomes := sh_outcomes sh @ [(index, outcome, effective_index)]\<rparr>)
        in sh\<lparr>sh_task := (sh_task sh)\<lparr>at_point := Applying rest,
                at_applied_bytes_total := at_applied_bytes_total (sh_task sh) + entry_bytes bs\<rparr>\<rparr>
      else sh)"

definition apply_task_step :: "Shared \<Rightarrow> Shared" where
  "apply_task_step sh =
     (case at_point (sh_task sh) of
        Idle \<Rightarrow> take_request sh
      | Applying [] \<Rightarrow> move_task Idle (publish sh)
      | Applying ((index, bs) # rest) \<Rightarrow> apply_entry index bs rest sh
      | Sending index bs outcome effective_index events rest \<Rightarrow>
          send_outcome index bs outcome effective_index events rest sh
      | Stopped \<Rightarrow> sh)"

definition task_gone :: "'r Runtime \<Rightarrow> bool" where
  "task_gone rt \<longleftrightarrow> at_point (sh_task (rt_shared rt)) = Stopped"

subsection \<open>Handing committed work to the apply task\<close>

definition absorb_progress :: "'r Runtime \<Rightarrow> 'r Runtime \<times> bool" where
  "absorb_progress rt =
     (let progress = sh_progress (rt_shared rt);
          rt = rt\<lparr>rt_applied_index := ap_applied_index progress,
                  rt_applied_bytes_total := ap_applied_bytes_total progress,
                  rt_ses := (rt_ses rt)\<lparr>ss_live_sessions := ap_sessions progress\<rparr>\<rparr>
      in if ap_failed progress then (fail_all_pending rt, False) else (rt, True))"

definition apply_backlog_bytes :: "'r Runtime \<Rightarrow> u64" where
  "apply_backlog_bytes rt = saturating_sub (rt_sent_bytes_total rt) (rt_applied_bytes_total rt)"

fun set_first :: "('a \<Rightarrow> bool) \<Rightarrow> ('a \<Rightarrow> 'a) \<Rightarrow> 'a list \<Rightarrow> 'a list" where
  "set_first P f [] = []"
| "set_first P f (x # xs) = (if P x then f x # xs else x # set_first P f xs)"

definition attribute_entry :: "LogIndex \<times> bytes \<Rightarrow> 'r Runtime \<Rightarrow> 'r Runtime" where
  "attribute_entry e rt =
     (let (index, bs) = e;
          rt = (case command_session bs of
            None \<Rightarrow> rt
          | Some (cid, seqn) \<Rightarrow> note_session cid seqn (rt\<lparr>rt_pending :=
              set_first (\<lambda>p. pn_index p = None \<and> pn_client_id p = cid \<and> pn_seq_no p = seqn)
                (\<lambda>p. p\<lparr>pn_index := Some index\<rparr>) (rt_pending rt)\<rparr>))
      in rt\<lparr>rt_sent_bytes_total := rt_sent_bytes_total rt + entry_bytes bs\<rparr>)"

definition flush_deferred :: "'r Runtime \<Rightarrow> 'r Runtime \<times> bool" where
  "flush_deferred rt =
     (case rt_deferred rt of
        None \<Rightarrow> (rt, True)
      | Some batch \<Rightarrow>
          if task_gone rt then (rt\<lparr>rt_deferred := None\<rparr>, False)
          else if length (sh_applies (rt_shared rt)) < APPLY_QUEUE_DEPTH then
            (rt\<lparr>rt_deferred := None, rt_shared := (rt_shared rt)\<lparr>sh_applies :=
               sh_applies (rt_shared rt) @ [Batch batch]\<rparr>\<rparr>, True)
          else (rt, True))"

definition merge_batch ::
    "ApplyBatch option \<Rightarrow> Snapshot option \<Rightarrow> (LogIndex \<times> bytes) list \<Rightarrow> ApplyBatch" where
  "merge_batch deferred snapshot entries =
     (case deferred of
        None \<Rightarrow> \<lparr>ab_snapshot = snapshot, ab_entries = entries\<rparr>
      | Some waiting \<Rightarrow>
          (case snapshot of
             Some s \<Rightarrow> \<lparr>ab_snapshot = Some s, ab_entries = entries\<rparr>
           | None \<Rightarrow> waiting\<lparr>ab_entries := ab_entries waiting @ entries\<rparr>))"

definition enqueue_apply ::
    "Snapshot option \<Rightarrow> (LogIndex \<times> bytes) list \<Rightarrow> 'r Runtime \<Rightarrow> 'r Runtime \<times> bool" where
  "enqueue_apply snapshot entries rt =
     (if snapshot = None \<and> entries = [] \<and> rt_deferred rt = None then (rt, True)
      else
        let rt = (case snapshot of
                    None \<Rightarrow> rt
                  | Some s \<Rightarrow> rt\<lparr>rt_snapshot_index := max (rt_snapshot_index rt) (sm_index (sn_meta s)),
                                 rt_applied_bytes_at_snapshot := rt_applied_bytes_total rt\<rparr>);
            rt = fold attribute_entry entries rt
        in flush_deferred (rt\<lparr>rt_deferred := Some (merge_batch (rt_deferred rt) snapshot entries)\<rparr>))"

definition attribute_conf :: "'r lib \<Rightarrow> CommittedEntry \<Rightarrow> PendingConf list \<Rightarrow> PendingConf list" where
  "attribute_conf L e ps =
     (let (index, kind, bs) = e in
      if kind = NormalEntry then ps
      else case conf_change_identity L kind bs of
        None \<Rightarrow> ps
      | Some (change_type, node_id) \<Rightarrow>
          set_first (\<lambda>p. pc_index p = None \<and> pc_node_id p = node_id \<and> pc_change_type p = change_type)
            (\<lambda>p. p\<lparr>pc_index := Some index\<rparr>) ps)"

lemma note_session_frame [simp]:
  "rt_committed_queue (note_session cid seqn rt) = rt_committed_queue rt"
  "rt_node (note_session cid seqn rt) = rt_node rt"
  by (simp_all add: note_session_def Let_def split: option.split)

lemma attribute_entry_frame [simp]:
  "rt_committed_queue (attribute_entry e rt) = rt_committed_queue rt"
  "rt_node (attribute_entry e rt) = rt_node rt"
  by (simp_all add: attribute_entry_def Let_def split: prod.split option.split)

lemma attribute_entries_frame [simp]:
  "rt_committed_queue (fold attribute_entry es rt) = rt_committed_queue rt"
  "rt_node (fold attribute_entry es rt) = rt_node rt"
  by (induction es arbitrary: rt) simp_all

lemma flush_deferred_queue [simp]:
  "rt_committed_queue (fst (flush_deferred rt)) = rt_committed_queue rt"
  by (simp add: flush_deferred_def split: option.split)

lemma enqueue_apply_queue [simp]:
  "rt_committed_queue (fst (enqueue_apply s es rt)) = rt_committed_queue rt"
  by (simp add: enqueue_apply_def Let_def split: option.split)

lemma enqueue_apply_queue_eq:
  "enqueue_apply s es rt = (rt', go) \<Longrightarrow> rt_committed_queue rt' = rt_committed_queue rt"
  by (metis enqueue_apply_queue fst_conv)

definition is_normal :: "CommittedEntry \<Rightarrow> bool" where
  "is_normal e \<longleftrightarrow> fst (snd e) = NormalEntry"

definition strip_kind :: "CommittedEntry \<Rightarrow> LogIndex \<times> bytes" where
  "strip_kind e = (fst e, snd (snd e))"

text \<open>
  The pump: runs of normal entries go to the apply task; a membership change waits until all
  before it is applied, is announced to the state machine as an empty entry, and is applied here.
\<close>

function pump_committed :: "'r lib \<Rightarrow> 'r Runtime \<Rightarrow> 'r Runtime \<times> bool" where
  "pump_committed L rt =
     (case rt_committed_queue rt of
        [] \<Rightarrow> (rt, True)
      | (index, kind, bs) # rest \<Rightarrow>
          if kind = NormalEntry then
            (let batch = map strip_kind (takeWhile is_normal (rt_committed_queue rt)) in
             case enqueue_apply None batch
                    (rt\<lparr>rt_committed_queue := dropWhile is_normal (rt_committed_queue rt)\<rparr>) of
               (rt, False) \<Rightarrow> (fail_all_pending rt, False)
             | (rt, True) \<Rightarrow> pump_committed L rt)
          else if rt_applied_index rt + 1 < index then (rt, True)
          else
            (case enqueue_apply None [(index, [])] (rt\<lparr>rt_committed_queue := rest\<rparr>) of
               (rt, False) \<Rightarrow> (fail_all_pending rt, False)
             | (rt, True) \<Rightarrow>
                 (case apply_conf_change L index kind bs (rt_node rt) of
                    (nd, Inl _) \<Rightarrow> (fail_all_pending (rt\<lparr>rt_node := nd\<rparr>), False)
                  | (nd, Inr _) \<Rightarrow>
                      pump_committed L (rt\<lparr>rt_node := nd, rt_applied_index := max (rt_applied_index rt) index\<rparr>))))"
  by pat_completeness auto

termination
proof (relation "measure (\<lambda>(L, rt). length (rt_committed_queue rt))", goal_cases)
  case (2 L rt e rest index y kind bs batch rt' go)
  then have "is_normal e"
    by (auto simp: is_normal_def)
  with 2 show ?case
    by (simp add: enqueue_apply_queue_eq [OF 2(6) [symmetric]] le_imp_less_Suc length_dropWhile_le)
next
  case (3 L rt e rest index y kind bs rt' go nd res x)
  then show ?case
    by (simp add: enqueue_apply_queue_eq [OF 3(6) [symmetric]])
qed simp

declare pump_committed.simps [simp del]

definition stage_committed ::
    "'r lib \<Rightarrow> Snapshot option \<Rightarrow> CommittedEntry list \<Rightarrow> 'r Runtime \<Rightarrow> 'r Runtime \<times> bool" where
  "stage_committed L snapshot entries rt =
     (let rt = (case snapshot of
                  None \<Rightarrow> rt
                | Some s \<Rightarrow> rt\<lparr>rt_committed_queue :=
                    filter (\<lambda>(i, _, _). i > sm_index (sn_meta s)) (rt_committed_queue rt)\<rparr>);
          rt = rt\<lparr>rt_pending_conf := fold (attribute_conf L) entries (rt_pending_conf rt)\<rparr>;
          rt = rt\<lparr>rt_committed_queue := rt_committed_queue rt @ entries\<rparr>
      in case snapshot of
           None \<Rightarrow> pump_committed L rt
         | Some s \<Rightarrow>
             (case enqueue_apply (Some s) [] rt of
                (rt, False) \<Rightarrow> (fail_all_pending rt, False)
              | (rt, True) \<Rightarrow> pump_committed L rt))"

subsection \<open>Local snapshots\<close>

definition maybe_snapshot :: "'r Runtime \<Rightarrow> 'r Runtime \<times> bool" where
  "maybe_snapshot rt =
     (let (rt, sized) =
            (if now rt - rt_last_wal_sample rt \<ge> WAL_SAMPLE_INTERVAL then
               (case node_log_bytes (rt_node rt) of
                  (nd, Inl _) \<Rightarrow> (rt\<lparr>rt_last_wal_sample := now rt, rt_node := nd\<rparr>, False)
                | (nd, Inr _) \<Rightarrow> (rt\<lparr>rt_last_wal_sample := now rt, rt_node := nd\<rparr>, True))
             else (rt, True))
      in if \<not> sized then (fail_all_pending rt, False)
         else
           let grew = saturating_sub (rt_applied_bytes_total rt) (rt_applied_bytes_at_snapshot rt);
               threshold = cg_snapshot_threshold_bytes (rt_cfg rt)
           in if threshold = 0 \<or> rt_applied_index rt \<le> rt_snapshot_index rt \<or> grew < threshold
                \<or> rt_snapshot_wait rt then (rt, True)
              else if task_gone rt then (fail_all_pending rt, False)
              else if length (sh_applies (rt_shared rt)) < APPLY_QUEUE_DEPTH then
                (rt\<lparr>rt_snapshot_wait := True, rt_shared := (rt_shared rt)\<lparr>sh_applies :=
                   sh_applies (rt_shared rt) @ [SnapshotRequest], sh_snapshot_result := None\<rparr>\<rparr>, True)
              else (rt, True))"

definition poll_snapshot :: "'r Runtime \<Rightarrow> 'r Runtime \<times> bool" where
  "poll_snapshot rt =
     (if \<not> rt_snapshot_wait rt then (rt, True)
      else
        let rt' = rt\<lparr>rt_snapshot_wait := False\<rparr> in
        case sh_snapshot_result (rt_shared rt) of
          None \<Rightarrow> if task_gone rt then (fail_all_pending rt', False) else (rt, True)
        | Some (Inl _) \<Rightarrow> (fail_all_pending rt', False)
        | Some (Inr (index, bs)) \<Rightarrow>
            (case term_at index (rt_node rt) of
               Inl _ \<Rightarrow> (fail_all_pending rt', False)
             | Inr term \<Rightarrow>
                 (case create_snapshot index term (applied_conf_state (rt_node rt)) bs (rt_node rt) of
                    (nd, Inl _) \<Rightarrow> (fail_all_pending (rt'\<lparr>rt_node := nd\<rparr>), False)
                  | (nd, Inr _) \<Rightarrow>
                      (rt'\<lparr>rt_node := nd, rt_snapshot_index := index,
                           rt_applied_bytes_at_snapshot := rt_applied_bytes_total rt\<rparr>, True))))"

subsection \<open>Client requests\<close>

definition start_proposal ::
    "'r lib \<Rightarrow> bytes \<Rightarrow> u64 \<Rightarrow> u64 \<Rightarrow> PendingReply \<Rightarrow> 'r Runtime \<Rightarrow> 'r Runtime" where
  "start_proposal L cmd cid seqn a rt =
     (if \<not> is_leader L rt then send_error a (NotLeader (hint L rt)) rt
      else if apply_backlog_bytes rt \<ge> cg_proposal_queue_bytes (rt_cfg rt) then send_error a Busy rt
      else
        let band = session_band cid seqn rt in
        if band = Grace then send_error a SessionExpired rt
        else if band = Fresh \<and> cg_max_sessions (rt_cfg rt) > 0
             \<and> ss_live_sessions (rt_ses rt) \<ge> cg_max_sessions (rt_cfg rt)
        then send_error a SessionTableFull rt
        else case propose L cmd (rt_node rt) of
          (nd, Inl _) \<Rightarrow>
            let rt = rt\<lparr>rt_node := nd\<rparr> in send_error a (NotLeader (hint L rt)) rt
        | (nd, Inr _) \<Rightarrow>
            rt\<lparr>rt_node := nd, rt_pending := rt_pending rt @
              [\<lparr>pn_client_id = cid, pn_seq_no = seqn, pn_ack = a,
                pn_deadline = now rt + cg_propose_timeout (rt_cfg rt), pn_index = None\<rparr>]\<rparr>)"

definition choose_transferee :: "'r Runtime \<Rightarrow> ArachneError + RaftId" where
  "choose_transferee rt =
     (case filter (\<lambda>v. v \<noteq> cg_raft_id (rt_cfg rt)) (voter_ids (rt_node rt)) of
        [] \<Rightarrow> Inl LeaderRemovalRequiresTransfer
      | v # vs \<Rightarrow> Inr (fold min vs v))"

definition handle_transfer :: "'r lib \<Rightarrow> RaftId option \<Rightarrow> ack \<Rightarrow> 'r Runtime \<Rightarrow> 'r Runtime" where
  "handle_transfer L target a rt =
     (if \<not> is_leader L rt then reply a (RErr (NotLeader (hint L rt))) rt
      else if rt_pending_transfer rt \<noteq> [] then reply a (RErr ConfChangePending) rt
      else case (case target of Some t \<Rightarrow> Inr t | None \<Rightarrow> choose_transferee rt) of
        Inl e \<Rightarrow> reply a (RErr e) rt
      | Inr t \<Rightarrow>
          rt\<lparr>rt_node := transfer_leader L t (rt_node rt), rt_pending_transfer := rt_pending_transfer rt @
            [\<lparr>pt_target = t, pt_ack = a, pt_deadline = now rt + cg_propose_timeout (rt_cfg rt)\<rparr>]\<rparr>)"

definition propose_change :: "'r lib \<Rightarrow> ConfChangeType \<Rightarrow> RaftId \<Rightarrow> ack \<Rightarrow> 'r Runtime \<Rightarrow> 'r Runtime" where
  "propose_change L change_type node_id a rt =
     (if rt_pending_conf rt \<noteq> [] then reply a (RErr ConfChangePending) rt
      else case propose_conf_change L change_type node_id (rt_node rt) of
        (nd, Inr _) \<Rightarrow>
          rt\<lparr>rt_node := nd, rt_pending_conf := rt_pending_conf rt @
            [\<lparr>pc_change_type = change_type, pc_node_id = node_id, pc_ack = a,
              pc_deadline = now rt + cg_propose_timeout (rt_cfg rt), pc_index = None\<rparr>]\<rparr>
      | (nd, Inl _) \<Rightarrow>
          let rt = rt\<lparr>rt_node := nd\<rparr> in reply a (RErr (NotLeader (hint L rt))) rt)"

definition handle_conf_change :: "'r lib \<Rightarrow> ConfChangeType \<Rightarrow> RaftId \<Rightarrow> ack \<Rightarrow> 'r Runtime \<Rightarrow> 'r Runtime" where
  "handle_conf_change L change_type node_id a rt =
     (let threshold = cg_promote_lag_entries (rt_cfg rt);
          (behind, has_acked) = (case learner_progress L node_id (rt_node rt) of
             None \<Rightarrow> (- 1, False) | Some p \<Rightarrow> p)
      in if \<not> is_leader L rt then reply a (RErr (NotLeader (hint L rt))) rt
         else if change_type = RemoveNode \<and> node_id = cg_raft_id (rt_cfg rt) then
           reply a (RErr LeaderRemovalRequiresTransfer) rt
         else if change_type = AddNode \<and> \<not> is_learner node_id (rt_node rt) then
           reply a (RErr InvalidArgument) rt
         else if change_type = AddNode \<and> \<not> learner_caught_up behind has_acked threshold then
           reply a (RErr (LearnerNotCaughtUp behind threshold)) rt
         else propose_change L change_type node_id a rt)"

definition handle_watch :: "bytes \<Rightarrow> bytes \<Rightarrow> nat \<Rightarrow> ack \<Rightarrow> 'r Runtime \<Rightarrow> 'r Runtime" where
  "handle_watch start end' limit a rt =
     (case get_range_with_index (sh_sm (rt_shared rt)) start end' limit of
        Inl _ \<Rightarrow> reply a (RErr ClientUnrecoverable) rt
      | Inr (entries, applied_at, truncated) \<Rightarrow>
          if truncated then reply a (RErr Busy) rt
          else reply a (RWatch entries applied_at truncated a)
                 (rt\<lparr>rt_watch := (rt_watch rt)\<lparr>wa_watchers := wa_watchers (rt_watch rt) @
                    [\<lparr>wt_id = a, wt_start = start, wt_end = end', wt_filter = applied_at, wt_queue = []\<rparr>]\<rparr>\<rparr>))"

definition new_read :: "PendingReadKind \<Rightarrow> u64 option \<Rightarrow> 'r Runtime \<Rightarrow> PendingRead" where
  "new_read kind budget rt =
     \<lparr>pd_token = None, pd_kind = kind, pd_deadline = now rt + cg_read_index_timeout (rt_cfg rt),
      pd_read_index = None, pd_attempts = 1, pd_budget = budget\<rparr>"

definition handle_read :: "'r lib \<Rightarrow> bytes \<Rightarrow> ack \<Rightarrow> 'r Runtime \<Rightarrow> 'r Runtime" where
  "handle_read L key a rt =
     (if \<not> is_leader L rt then reply a (RErr (NotLeader (hint L rt))) rt
      else if length (rt_pending_reads rt) \<ge> MAX_PENDING_READS then reply a (RErr Busy) rt
      else rt\<lparr>rt_pending_reads := rt_pending_reads rt @ [new_read (One key a) None rt]\<rparr>)"

definition handle_multi_get :: "'r lib \<Rightarrow> bytes list \<Rightarrow> ReadConsistency \<Rightarrow> ack \<Rightarrow> 'r Runtime \<Rightarrow> 'r Runtime" where
  "handle_multi_get L keys consistency a rt =
     (case consistency of
        Stale \<Rightarrow> spawn_worker (WMulti keys a) rt
      | Linearizable \<Rightarrow>
          if \<not> is_leader L rt then reply a (RErr (NotLeader (hint L rt))) rt
          else if length (rt_pending_reads rt) \<ge> MAX_PENDING_READS then reply a (RErr Busy) rt
          else
            let bytes = sum_list (map len64 keys) in
            case try_reserve (rt_multi_get_used rt) bytes of
              None \<Rightarrow> reply a (RErr Busy) rt
            | Some used \<Rightarrow>
                rt\<lparr>rt_multi_get_used := used,
                   rt_pending_reads := rt_pending_reads rt @ [new_read (Many keys a) (Some bytes) rt]\<rparr>)"

definition handle_wait_applied :: "LogIndex \<Rightarrow> nat \<Rightarrow> ack \<Rightarrow> 'r Runtime \<Rightarrow> 'r Runtime" where
  "handle_wait_applied index deadline a rt =
     (if index = 0 \<or> sm_applied rt \<ge> index then reply a (RIndex (sm_applied rt)) rt
      else if length (rt_pending_applied rt) \<ge> MAX_PENDING_APPLIED_WAITS then reply a (RErr Busy) rt
      else rt\<lparr>rt_pending_applied := rt_pending_applied rt @
             [\<lparr>pa_index = index, pa_deadline = deadline, pa_ack = a\<rparr>]\<rparr>)"

fun handle_command :: "'r lib \<Rightarrow> Command \<Rightarrow> 'r Runtime \<Rightarrow> 'r Runtime" where
  "handle_command L (CmdPropose cmd cid seqn a) rt = start_proposal L cmd cid seqn (PrOutcome a) rt"
| "handle_command L (CmdProposeWithIndex cmd cid seqn a) rt = start_proposal L cmd cid seqn (PrIndex a) rt"
| "handle_command L (CmdMembership a) rt =
     (let conf = applied_conf_state (rt_node rt) in reply a (RMembers (cs_voters conf) (cs_learners conf)) rt)"
| "handle_command L (CmdTransferLeader target a) rt = handle_transfer L target a rt"
| "handle_command L (CmdConfChange change_type node_id a) rt = handle_conf_change L change_type node_id a rt"
| "handle_command L (CmdGetStale key a) rt = spawn_worker (WGet key a) rt"
| "handle_command L (CmdGetStaleWithIndex key a) rt = spawn_worker (WGetIndex key a) rt"
| "handle_command L (CmdGetStaleRange start end' limit a) rt = spawn_worker (WRange start end' limit a) rt"
| "handle_command L (CmdWatch start end' limit a) rt = handle_watch start end' limit a rt"
| "handle_command L (CmdRead key a) rt = handle_read L key a rt"
| "handle_command L (CmdMultiGet keys consistency a) rt = handle_multi_get L keys consistency a rt"
| "handle_command L (CmdLeaderHint a) rt = reply a (RHint (hint L rt)) rt"
| "handle_command L (CmdWaitApplied index deadline a) rt = handle_wait_applied index deadline a rt"

text \<open>The spawned readers: they take the state machine as it is when they run.\<close>

fun worker_answer :: "KvStateMachine \<Rightarrow> Worker \<Rightarrow> ack \<times> Reply" where
  "worker_answer sm (WGet key a) =
     (a, case kv_get sm key of Inl _ \<Rightarrow> RErr ClientUnrecoverable | Inr v \<Rightarrow> RValue v)"
| "worker_answer sm (WGetIndex key a) =
     (a, case get_with_index sm key of
           Inl _ \<Rightarrow> RErr ClientUnrecoverable
         | Inr (None, _) \<Rightarrow> RValueIndex None
         | Inr (Some v, Some index) \<Rightarrow> RValueIndex (Some (v, index))
         | Inr (Some _, None) \<Rightarrow> RErr ClientUnrecoverable)"
| "worker_answer sm (WRange start end' limit a) =
     (a, case get_range_with_index sm start end' limit of
           Inl _ \<Rightarrow> RErr ClientUnrecoverable
         | Inr (entries, applied_at, truncated) \<Rightarrow> RRange entries applied_at truncated)"
| "worker_answer sm (WMulti keys a) =
     (a, case multi_get sm keys of
           Inr (values, applied_at) \<Rightarrow> RMulti values applied_at
         | Inl ResultTooLarge \<Rightarrow> RErr InvalidArgument
         | Inl _ \<Rightarrow> RErr ClientUnrecoverable)"

definition run_worker :: "nat \<Rightarrow> 'r Runtime \<Rightarrow> 'r Runtime" where
  "run_worker i rt =
     (if i < length (ev_workers (rt_env rt)) then
        let ws = ev_workers (rt_env rt);
            (a, r) = worker_answer (sh_sm (rt_shared rt)) (ws ! i)
        in reply a r (rt\<lparr>rt_env := (rt_env rt)\<lparr>ev_workers := take i ws @ drop (Suc i) ws\<rparr>\<rparr>)
      else rt)"

subsection \<open>Answering the waiting requests\<close>

definition index_reached :: "LogIndex \<Rightarrow> LogIndex option \<Rightarrow> bool" where
  "index_reached applied_at index = (case index of None \<Rightarrow> False | Some i \<Rightarrow> applied_at \<ge> i)"

definition answer_conf :: "PendingConf \<Rightarrow> 'r Runtime \<Rightarrow> 'r Runtime \<times> PendingConf option" where
  "answer_conf p rt =
     (if index_reached (rt_applied_index rt) (pc_index p) then (reply (pc_ack p) RDone rt, None)
      else if now rt \<ge> pc_deadline p then (reply (pc_ack p) (RErr Timeout) rt, None)
      else (rt, Some p))"

definition answer_proposal :: "Pending \<Rightarrow> 'r Runtime \<Rightarrow> 'r Runtime \<times> Pending option" where
  "answer_proposal p rt =
     (let late = (if now rt \<ge> pn_deadline p then (send_error (pn_ack p) Timeout rt, None) else (rt, Some p)) in
      case pn_index p of
        None \<Rightarrow> late
      | Some index \<Rightarrow>
          if rt_applied_index rt \<ge> index then
            (case bt_get (rt_received_outcomes rt) index of
               Some (outcome, effective_index) \<Rightarrow>
                 let rt = send_applied (pn_ack p) outcome effective_index rt
                 in (rt\<lparr>rt_received_outcomes := bt_remove index (rt_received_outcomes rt)\<rparr>, None)
             | None \<Rightarrow> late)
          else late)"

definition reply_pendings :: "'r Runtime \<Rightarrow> 'r Runtime" where
  "reply_pendings rt =
     (let (rt, still_conf) = drain_pending answer_conf (rt_pending_conf rt) rt;
          rt = rt\<lparr>rt_pending_conf := still_conf\<rparr>;
          (rt, still) = drain_pending answer_proposal (rt_pending rt) rt;
          live = List.map_filter pn_index still
      in rt\<lparr>rt_pending := still,
            rt_received_outcomes := filter (\<lambda>(index, _). index \<in> set live) (rt_received_outcomes rt)\<rparr>)"

definition answer_transfer ::
    "RaftId \<Rightarrow> Hint \<Rightarrow> PendingTransfer \<Rightarrow> 'r Runtime \<Rightarrow> 'r Runtime \<times> PendingTransfer option" where
  "answer_transfer leader h t rt =
     (if leader = pt_target t then (reply (pt_ack t) RDone rt, None)
      else if leader \<noteq> 0 \<and> leader \<noteq> cg_raft_id (rt_cfg rt) then
        (reply (pt_ack t) (RErr (NotLeader h)) rt, None)
      else if now rt \<ge> pt_deadline t then (reply (pt_ack t) (RErr Timeout) rt, None)
      else (rt, Some t))"

definition resolve_transfers :: "'r lib \<Rightarrow> 'r Runtime \<Rightarrow> 'r Runtime" where
  "resolve_transfers L rt =
     (if rt_pending_transfer rt = [] then rt
      else
        let (rt, still) = drain_pending (answer_transfer (leader_id L (rt_node rt)) (hint L rt))
              (rt_pending_transfer rt) rt
        in rt\<lparr>rt_pending_transfer := still\<rparr>)"

fun read_worker :: "PendingReadKind \<Rightarrow> Worker" where
  "read_worker (One key a) = WGet key a"
| "read_worker (Many keys a) = WMulti keys a"

definition answer_read :: "'r lib \<Rightarrow> PendingRead \<Rightarrow> 'r Runtime \<Rightarrow> 'r Runtime \<times> PendingRead option" where
  "answer_read L r rt =
     (if \<not> is_leader L rt then
        (release_guard r (send_read_error (pd_kind r) (NotLeader (hint L rt)) rt), None)
      else if index_reached (rt_applied_index rt) (pd_read_index r) then
        (release_guard r (spawn_worker (read_worker (pd_kind r)) rt), None)
      else if now rt \<ge> pd_deadline r then
        if pd_attempts r \<le> 1 then
          (rt, Some (r\<lparr>pd_attempts := pd_attempts r + 1, pd_read_index := None, pd_token := None,
                       pd_deadline := now rt + cg_read_index_timeout (rt_cfg rt)\<rparr>))
        else (release_guard r (send_read_error (pd_kind r) Timeout rt), None)
      else (rt, Some r))"

definition resolve_reads :: "'r lib \<Rightarrow> 'r Runtime \<Rightarrow> 'r Runtime" where
  "resolve_reads L rt =
     (let (rt, still) = drain_pending (answer_read L) (rt_pending_reads rt) rt
      in rt\<lparr>rt_pending_reads := still\<rparr>)"

definition answer_applied :: "PendingApplied \<Rightarrow> 'r Runtime \<Rightarrow> 'r Runtime \<times> PendingApplied option" where
  "answer_applied w rt =
     (if sm_applied rt \<ge> pa_index w then (reply (pa_ack w) (RIndex (sm_applied rt)) rt, None)
      else if pa_ack w \<in> set (ev_closed (rt_env rt)) then (rt, None)
      else if now rt \<ge> pa_deadline w then (reply (pa_ack w) (RErr Timeout) rt, None)
      else (rt, Some w))"

definition resolve_applied_waits :: "'r Runtime \<Rightarrow> 'r Runtime" where
  "resolve_applied_waits rt =
     (let (rt, still) = drain_pending answer_applied (rt_pending_applied rt) rt
      in rt\<lparr>rt_pending_applied := still\<rparr>)"

subsection \<open>Watchers\<close>

definition swap_remove :: "nat \<Rightarrow> 'a list \<Rightarrow> 'a list" where
  "swap_remove i xs = (if Suc i = length xs then butlast xs else butlast (xs[i := last xs]))"

lemma length_swap_remove [simp]: "length (swap_remove i xs) = length xs - 1"
  by (simp add: swap_remove_def)

definition wants_event :: "WatchEvent \<Rightarrow> Watcher \<Rightarrow> bool" where
  "wants_event event w \<longleftrightarrow> w_index event > wt_filter w \<and> watcher_matches w (w_key event)"

text \<open>The walk over the watchers for one event, from position \<open>i\<close>.\<close>

function dispatch_event :: "ack list \<Rightarrow> WatchEvent \<Rightarrow> nat \<Rightarrow> WatchTable \<Rightarrow> WatchTable \<times> (nat \<times> WatchEvent) list" where
  "dispatch_event closed event i tab =
     (if i < length (wa_watchers tab) then
        let w = wa_watchers tab ! i in
        if \<not> wants_event event w then dispatch_event closed event (Suc i) tab
        else if wt_id w \<in> set closed \<or> length (wt_queue w) \<ge> WATCH_BUFFER then
          dispatch_event closed event i
            (tab\<lparr>wa_watchers := swap_remove i (wa_watchers tab), wa_dropped_total := wa_dropped_total tab + 1\<rparr>)
        else
          let (tab, sent) = dispatch_event closed event (Suc i)
                (tab\<lparr>wa_watchers := (wa_watchers tab)[i := w\<lparr>wt_queue := wt_queue w @ [event]\<rparr>]\<rparr>)
          in (tab, (wt_id w, event) # sent)
      else (tab, []))"
  by pat_completeness auto
termination
  by (relation "measure (\<lambda>(closed, event, i, tab). length (wa_watchers tab) - i)") auto

declare dispatch_event.simps [simp del]

definition dispatch_one :: "WatchEvent \<Rightarrow> 'r Runtime \<Rightarrow> 'r Runtime" where
  "dispatch_one event rt =
     (let (tab, sent) = dispatch_event (ev_closed (rt_env rt)) event 0 (rt_watch rt)
      in rt\<lparr>rt_watch := tab, rt_env := (rt_env rt)\<lparr>ev_delivered := ev_delivered (rt_env rt) @ sent\<rparr>\<rparr>)"

definition dispatch_watch_events :: "WatchEvent list \<Rightarrow> 'r Runtime \<Rightarrow> 'r Runtime" where
  "dispatch_watch_events events rt =
     (let dropped = sh_backlog_dropped (rt_shared rt);
          rt = rt\<lparr>rt_shared := (rt_shared rt)\<lparr>sh_backlog_dropped := - 1\<rparr>\<rparr>;
          kept = filter (\<lambda>w. wt_filter w \<ge> dropped) (wa_watchers (rt_watch rt));
          rt = (if dropped \<noteq> - 1 then
                  rt\<lparr>rt_watch := \<lparr>wa_watchers = kept, wa_dropped_total = wa_dropped_total (rt_watch rt)
                       + (length (wa_watchers (rt_watch rt)) - length kept)\<rparr>\<rparr>
                else rt)
      in if wa_watchers (rt_watch rt) = [] then rt else fold dispatch_one events rt)"

subsection \<open>Inbound messages and streamed snapshots\<close>

definition start_snapshot_fetch :: "HeldSnapshot \<Rightarrow> 'r Runtime \<Rightarrow> 'r Runtime" where
  "start_snapshot_fetch held rt =
     (case map_of (cg_raft_to_node (rt_cfg rt)) (held_from held) of
        None \<Rightarrow> rt\<lparr>rt_snapshot_fetch := None\<rparr>
      | Some _ \<Rightarrow> rt\<lparr>rt_snapshot_fetch := Some held\<rparr>)"

text \<open>The spawned transfer: whether one of the attempts wrote the file.\<close>

fun fetch_attempts :: "(nat \<Rightarrow> unit + u64 option) \<Rightarrow> nat \<Rightarrow> nat \<Rightarrow> bool" where
  "fetch_attempts fetch_snapshot attempt 0 = False"
| "fetch_attempts fetch_snapshot attempt (Suc n) =
     (case fetch_snapshot attempt of
        Inr (Some written) \<Rightarrow> True
      | _ \<Rightarrow> fetch_attempts fetch_snapshot (Suc attempt) n)"

definition fetch_task :: "(nat \<Rightarrow> unit + u64 option) \<Rightarrow> bytes option \<Rightarrow> HeldSnapshot \<Rightarrow> SnapshotFetchDone" where
  "fetch_task fetch_snapshot dest held =
     \<lparr>sd_from = held_from held, sd_index = held_index held,
      sd_fetched = fetch_attempts fetch_snapshot 0 SNAPSHOT_FETCH_ATTEMPTS, sd_file = dest\<rparr>"

definition finish_snapshot_fetch :: "'r lib \<Rightarrow> SnapshotFetchDone \<Rightarrow> 'r Runtime \<Rightarrow> 'r Runtime" where
  "finish_snapshot_fetch L fetched rt =
     (case rt_snapshot_fetch rt of
        None \<Rightarrow> rt
      | Some held \<Rightarrow>
          if held_from held \<noteq> sd_from fetched \<or> held_index held \<noteq> sd_index fetched then rt
          else
            let rt = rt\<lparr>rt_snapshot_fetch := None\<rparr> in
            case (if sd_fetched fetched then sd_file fetched else None) of
              None \<Rightarrow> rt
            | Some file_bytes \<Rightarrow>
                (case decode_snapshot_file file_bytes of
                   Inl _ \<Rightarrow> rt
                 | Inr snapshot \<Rightarrow>
                     (case step_held_snapshot L held (sn_data snapshot) (rt_node rt) of
                        (nd, Inl _) \<Rightarrow> fail_all_pending (rt\<lparr>rt_node := nd\<rparr>)
                      | (nd, Inr _) \<Rightarrow> rt\<lparr>rt_node := nd\<rparr>)))"

definition route_inbound :: "'r lib \<Rightarrow> NodeId \<times> bytes \<Rightarrow> 'r Runtime \<Rightarrow> 'r Runtime" where
  "route_inbound L m rt =
     (case map_of (cg_node_to_raft (rt_cfg rt)) (fst m) of
        None \<Rightarrow> rt
      | Some from \<Rightarrow>
          (case take_held_snapshot (fst (on_message L from (snd m) (rt_node rt))) of
             (nd, None) \<Rightarrow> rt\<lparr>rt_node := nd\<rparr>
           | (nd, Some held) \<Rightarrow> start_snapshot_fetch held (rt\<lparr>rt_node := nd\<rparr>)))"

subsection \<open>The cycle and the loop\<close>

definition issue_read_round :: "'r lib \<Rightarrow> 'r Runtime \<Rightarrow> 'r Runtime" where
  "issue_read_round L rt =
     (if \<exists>r\<in>set (rt_pending_reads rt). pd_token r = None then
        let token = (if rt_next_read_token rt = 0 then 1 else rt_next_read_token rt)
        in rt\<lparr>rt_next_read_token := rt_next_read_token rt + 1,
              rt_pending_reads := map (\<lambda>r. if pd_token r = None then r\<lparr>pd_token := Some token\<rparr> else r)
                (rt_pending_reads rt),
              rt_node := read_index L (be64 token) (rt_node rt)\<rparr>
      else rt)"

definition note_read_state :: "bytes \<times> LogIndex \<Rightarrow> 'r Runtime \<Rightarrow> 'r Runtime" where
  "note_read_state rs rt =
     (let (ctx, index) = rs in
      if length ctx \<noteq> 8 then rt
      else
        let token = (if of_be64 ctx = 0 then None else Some (of_be64 ctx))
        in rt\<lparr>rt_pending_reads := map (\<lambda>r. if pd_token r = token then
               r\<lparr>pd_read_index := Some index, pd_deadline := now rt + cg_read_index_timeout (rt_cfg rt)\<rparr>
             else r) (rt_pending_reads rt)\<rparr>)"

definition answer_waiting :: "'r lib \<Rightarrow> 'r Runtime \<Rightarrow> 'r Runtime" where
  "answer_waiting L rt =
     reply_pendings (resolve_applied_waits (resolve_reads L (resolve_transfers L rt)))"

definition after_step :: "'r lib \<Rightarrow> StepOutcome \<Rightarrow> 'r Runtime \<Rightarrow> 'r Runtime \<times> bool" where
  "after_step L out rt =
     (case stage_committed L (so_snapshot out) (so_committed out) rt of
        (rt, False) \<Rightarrow> (rt, False)
      | (rt, True) \<Rightarrow>
          maybe_snapshot (maybe_collect_sessions L (answer_waiting L (fold note_read_state (so_read_states out) rt))))"

definition drive_cycle :: "'r lib \<Rightarrow> 'r Runtime \<Rightarrow> 'r Runtime \<times> bool" where
  "drive_cycle L rt =
     (case absorb_progress rt of
        (rt, False) \<Rightarrow> (rt, False)
      | (rt, True) \<Rightarrow>
          (case poll_snapshot rt of
             (rt, False) \<Rightarrow> (rt, False)
           | (rt, True) \<Rightarrow>
               let rt = issue_read_round L rt in
               (case node_step L (rt_node rt) of
                  (nd, Inl _) \<Rightarrow> (fail_all_pending (rt\<lparr>rt_node := nd\<rparr>), False)
                | (nd, Inr out) \<Rightarrow> after_step L out (rt\<lparr>rt_node := nd\<rparr>))))"

text \<open>
  What wakes the loop.  Bursts of messages and commands are the lists the loop takes in one turn.
\<close>

datatype Wake =
    OnStop | OnTick | OnInbound "(NodeId \<times> bytes) list" | OnInboundClosed | OnFetched SnapshotFetchDone
  | OnOutcomes | OnOutcomesClosed | OnWatchEvents | OnWatchClosed | OnDurability | OnProgress
  | OnProgressClosed | OnCommands "Command list" | OnCommandsClosed

fun wake_ready :: "Wake \<Rightarrow> 'r Runtime \<Rightarrow> bool" where
  "wake_ready (OnInbound ms) rt \<longleftrightarrow> ms \<noteq> [] \<and> length ms \<le> CYCLE_BURST"
| "wake_ready (OnCommands cs) rt \<longleftrightarrow> cs \<noteq> [] \<and> length cs \<le> CYCLE_BURST"
| "wake_ready OnOutcomes rt \<longleftrightarrow> sh_outcomes (rt_shared rt) \<noteq> []"
| "wake_ready OnOutcomesClosed rt \<longleftrightarrow> sh_outcomes (rt_shared rt) = [] \<and> task_gone rt"
| "wake_ready OnWatchEvents rt \<longleftrightarrow> sh_watch_events (rt_shared rt) \<noteq> []"
| "wake_ready OnWatchClosed rt \<longleftrightarrow> sh_watch_events (rt_shared rt) = [] \<and> task_gone rt"
| "wake_ready OnProgressClosed rt \<longleftrightarrow> task_gone rt"
| "wake_ready _ rt \<longleftrightarrow> True"

definition take_outcomes :: "'r Runtime \<Rightarrow> 'r Runtime" where
  "take_outcomes rt =
     rt\<lparr>rt_received_outcomes := fold (\<lambda>(index, outcome, effective_index). bt_insert index (outcome, effective_index))
          (sh_outcomes (rt_shared rt)) (rt_received_outcomes rt),
        rt_shared := (rt_shared rt)\<lparr>sh_outcomes := []\<rparr>\<rparr>"

definition take_watch_events :: "'r Runtime \<Rightarrow> 'r Runtime" where
  "take_watch_events rt =
     fold (\<lambda>(_, events). dispatch_watch_events events) (sh_watch_events (rt_shared rt))
       (rt\<lparr>rt_shared := (rt_shared rt)\<lparr>sh_watch_events := []\<rparr>\<rparr>)"

fun handle_wake :: "'r lib \<Rightarrow> Wake \<Rightarrow> 'r Runtime \<Rightarrow> 'r Runtime \<times> bool" where
  "handle_wake L OnStop rt = (rt, False)"
| "handle_wake L OnTick rt = (rt\<lparr>rt_node := node_tick L (rt_node rt)\<rparr>, True)"
| "handle_wake L (OnInbound ms) rt = (fold (route_inbound L) ms rt, True)"
| "handle_wake L OnInboundClosed rt = (rt, False)"
| "handle_wake L (OnFetched fetched) rt = (finish_snapshot_fetch L fetched rt, True)"
| "handle_wake L OnOutcomes rt = (take_outcomes rt, True)"
| "handle_wake L OnOutcomesClosed rt = (fail_all_pending rt, False)"
| "handle_wake L OnWatchEvents rt = (take_watch_events rt, True)"
| "handle_wake L OnWatchClosed rt = (fail_all_pending rt, False)"
| "handle_wake L OnDurability rt = (rt, True)"
| "handle_wake L OnProgress rt = (rt, True)"
| "handle_wake L OnProgressClosed rt = (fail_all_pending rt, False)"
| "handle_wake L (OnCommands cs) rt = (fold (handle_command L) cs rt, True)"
| "handle_wake L OnCommandsClosed rt = (rt, False)"

definition runtime_turn :: "'r lib \<Rightarrow> Wake \<Rightarrow> 'r Runtime \<Rightarrow> 'r Runtime \<times> bool" where
  "runtime_turn L wake rt =
     (case handle_wake L wake rt of
        (rt, False) \<Rightarrow> (fail_all_pending rt, False)
      | (rt, True) \<Rightarrow>
          (case drive_cycle L rt of
             (rt, False) \<Rightarrow> (fail_all_pending rt, False)
           | (rt, True) \<Rightarrow> (rt, True)))"

end
