(* ===== verification/RuntimeReplies.thy ===== *)
theory RuntimeReplies
  imports Runtime "HOL-Library.Multiset"
begin

text \<open>
  Who waits for an answer and who has got one.  Every handler of the actor moves reply channels
  between the queues and the list of answers and loses none: over any interleaving of the loop,
  the apply task and the workers a request is answered at most once, is never forgotten, and is
  answered by its deadline.
\<close>

named_theorems ack_simps \<open>how an operation moves reply channels\<close>

subsection \<open>Channels\<close>

fun worker_ack :: "Worker \<Rightarrow> ack" where
  "worker_ack (WGet _ a) = a"
| "worker_ack (WGetIndex _ a) = a"
| "worker_ack (WRange _ _ _ a) = a"
| "worker_ack (WMulti _ a) = a"

definition answered :: "'r Runtime \<Rightarrow> ack multiset" where
  "answered rt = mset (map fst (ev_replies (rt_env rt)))"

definition reading :: "'r Runtime \<Rightarrow> ack multiset" where
  "reading rt = mset (map worker_ack (ev_workers (rt_env rt)))"

definition queued :: "'r Runtime \<Rightarrow> ack multiset" where
  "queued rt = mset (map pc_ack (rt_pending_conf rt)) + mset (map pt_ack (rt_pending_transfer rt))
     + mset (map (reply_ack \<circ> pn_ack) (rt_pending rt)) + mset (map (kind_ack \<circ> pd_kind) (rt_pending_reads rt))
     + mset (map pa_ack (rt_pending_applied rt))"

definition channels :: "'r Runtime \<Rightarrow> ack multiset" where
  "channels rt = answered rt + reading rt + queued rt"

lemma worker_answer_ack [simp]: "fst (worker_answer sm w) = worker_ack w"
  by (cases w) simp_all

lemma read_worker_ack [simp]: "worker_ack (read_worker k) = kind_ack k"
  by (cases k) simp_all

lemma env_reply [simp]:
  "rt_env (reply a r rt) = (rt_env rt)\<lparr>ev_replies := ev_replies (rt_env rt) @ [(a, r)]\<rparr>"
  by (simp add: reply_def)

text \<open>What a reply, a worker or a guard leaves alone.\<close>

lemma reply_frame [simp]:
  "rt_node (reply a r rt) = rt_node rt" "rt_cfg (reply a r rt) = rt_cfg rt"
  "rt_shared (reply a r rt) = rt_shared rt" "rt_pending_conf (reply a r rt) = rt_pending_conf rt"
  "rt_pending_transfer (reply a r rt) = rt_pending_transfer rt" "rt_pending (reply a r rt) = rt_pending rt"
  "rt_pending_reads (reply a r rt) = rt_pending_reads rt"
  "rt_pending_applied (reply a r rt) = rt_pending_applied rt"
  "rt_applied_index (reply a r rt) = rt_applied_index rt"
  "rt_committed_queue (reply a r rt) = rt_committed_queue rt" "rt_deferred (reply a r rt) = rt_deferred rt"
  by (simp_all add: reply_def)

lemma spawn_frame [simp]:
  "rt_node (spawn_worker w rt) = rt_node rt" "rt_cfg (spawn_worker w rt) = rt_cfg rt"
  "rt_shared (spawn_worker w rt) = rt_shared rt" "rt_pending_conf (spawn_worker w rt) = rt_pending_conf rt"
  "rt_pending_transfer (spawn_worker w rt) = rt_pending_transfer rt" "rt_pending (spawn_worker w rt) = rt_pending rt"
  "rt_pending_reads (spawn_worker w rt) = rt_pending_reads rt"
  "rt_pending_applied (spawn_worker w rt) = rt_pending_applied rt"
  "rt_applied_index (spawn_worker w rt) = rt_applied_index rt"
  "rt_committed_queue (spawn_worker w rt) = rt_committed_queue rt" "rt_deferred (spawn_worker w rt) = rt_deferred rt"
  by (simp_all add: spawn_worker_def)

lemma guard_frame [simp]:
  "rt_node (release_guard r rt) = rt_node rt" "rt_cfg (release_guard r rt) = rt_cfg rt"
  "rt_env (release_guard r rt) = rt_env rt"
  "rt_shared (release_guard r rt) = rt_shared rt" "rt_pending_conf (release_guard r rt) = rt_pending_conf rt"
  "rt_pending_transfer (release_guard r rt) = rt_pending_transfer rt" "rt_pending (release_guard r rt) = rt_pending rt"
  "rt_pending_reads (release_guard r rt) = rt_pending_reads rt"
  "rt_pending_applied (release_guard r rt) = rt_pending_applied rt"
  "rt_applied_index (release_guard r rt) = rt_applied_index rt"
  "rt_committed_queue (release_guard r rt) = rt_committed_queue rt" "rt_deferred (release_guard r rt) = rt_deferred rt"
  by (simp_all add: release_guard_def split: option.split)

subsection \<open>What the clients see of a state\<close>

type_synonym due = "ack \<times> nat"

text \<open>
  The channels that wait in the queues, with their deadlines, except that the deadline of a
  linearizable read moves when its round is confirmed or repeated.
\<close>

definition dues :: "'r Runtime \<Rightarrow> due list \<times> due list \<times> due list \<times> due list" where
  "dues rt = (map (\<lambda>p. (pc_ack p, pc_deadline p)) (rt_pending_conf rt),
              map (\<lambda>t. (pt_ack t, pt_deadline t)) (rt_pending_transfer rt),
              map (\<lambda>p. (reply_ack (pn_ack p), pn_deadline p)) (rt_pending rt),
              map (\<lambda>w. (pa_ack w, pa_deadline w)) (rt_pending_applied rt))"

definition due_set :: "'r Runtime \<Rightarrow> due set" where
  "due_set rt = (case dues rt of (a, b, c, d) \<Rightarrow> set a \<union> set b \<union> set c \<union> set d)"

definition face :: "'r Runtime \<Rightarrow> (ack \<times> Reply) list \<times> Worker list \<times> ack list \<times> nat \<times> RuntimeConfig \<times>
    (due list \<times> due list \<times> due list \<times> due list) \<times> ack list" where
  "face rt = (ev_replies (rt_env rt), ev_workers (rt_env rt), ev_closed (rt_env rt), now rt, rt_cfg rt, dues rt,
              map (kind_ack \<circ> pd_kind) (rt_pending_reads rt))"

lemma queued_face:
  "queued rt = (case dues rt of (a, b, c, d) \<Rightarrow>
     mset (map fst a) + mset (map fst b) + mset (map fst c) + mset (map (kind_ack \<circ> pd_kind) (rt_pending_reads rt))
     + mset (map fst d))"
  by (simp add: queued_def dues_def comp_def flip: mset_map)

lemma face_channels: "face rt' = face rt \<Longrightarrow> channels rt' = channels rt"
  by (simp add: channels_def answered_def reading_def queued_face face_def)

lemma face_due_set: "face rt' = face rt \<Longrightarrow> due_set rt' = due_set rt"
  by (simp add: face_def due_set_def)

lemma face_frame [simp]:
  "face (rt_node_update f1 rt) = face rt"
  "face (rt_shared_update f2 rt) = face rt"
  "face (rt_ses_update f3 rt) = face rt"
  "face (rt_watch_update f4 rt) = face rt"
  "face (rt_multi_get_used_update f5 rt) = face rt"
  "face (rt_deferred_update f6 rt) = face rt"
  "face (rt_snapshot_wait_update f7 rt) = face rt"
  "face (rt_snapshot_fetch_update f8 rt) = face rt"
  "face (rt_applied_index_update f9 rt) = face rt"
  "face (rt_applied_bytes_total_update f10 rt) = face rt"
  "face (rt_sent_bytes_total_update f11 rt) = face rt"
  "face (rt_committed_queue_update f12 rt) = face rt"
  "face (rt_next_read_token_update f13 rt) = face rt"
  "face (rt_last_wal_sample_update f14 rt) = face rt"
  "face (rt_applied_bytes_at_snapshot_update f15 rt) = face rt"
  "face (rt_snapshot_index_update f16 rt) = face rt"
  "face (rt_received_outcomes_update f17 rt) = face rt"
  by (simp_all add: face_def dues_def)

text \<open>Attributing a log index to a waiting request changes neither its channel nor its deadline.\<close>

lemma map_set_first: "(\<And>x. g (f x) = g x) \<Longrightarrow> map g (set_first P f xs) = map g xs"
  by (induction xs) simp_all

lemma face_attributed [simp]:
  "face (rt\<lparr>rt_pending := set_first P (pn_index_update f) (rt_pending rt)\<rparr>) = face rt"
  by (simp add: face_def dues_def map_set_first)

lemma note_session_face [simp]: "face (note_session cid seqn rt) = face rt"
  by (simp add: note_session_def Let_def split: option.split)

lemma attribute_entry_face [simp]: "face (attribute_entry e rt) = face rt"
  by (simp add: attribute_entry_def Let_def split: prod.split option.split)

lemma attribute_entries_face [simp]: "face (fold attribute_entry es rt) = face rt"
  by (induction es arbitrary: rt) simp_all

lemma flush_deferred_face [simp]: "face (fst (flush_deferred rt)) = face rt"
  by (simp add: flush_deferred_def split: option.split)

lemma enqueue_apply_face [simp]: "face (fst (enqueue_apply s es rt)) = face rt"
  by (simp add: enqueue_apply_def Let_def split: option.split)

text \<open>
  An operation that may stop the node: it goes on and the clients see no difference, or it
  answers all that waits.
\<close>

definition goes_on :: "'r Runtime \<Rightarrow> 'r Runtime \<times> bool \<Rightarrow> bool" where
  "goes_on rt res = (if snd res then face (fst res) = face rt
     else \<exists>mid. face mid = face rt \<and> fst res = fail_all_pending mid)"

lemma goes_onI [intro]:
  "face rt' = face rt \<Longrightarrow> goes_on rt (rt', True)"
  "face mid = face rt \<Longrightarrow> goes_on rt (fail_all_pending mid, False)"
  by (auto simp: goes_on_def)

lemma goes_on_from: "face mid = face rt \<Longrightarrow> goes_on mid res \<Longrightarrow> goes_on rt res"
  by (auto simp: goes_on_def split: if_splits)

lemma enqueue_apply_face_eq: "enqueue_apply s es rt = (rt', go) \<Longrightarrow> face rt' = face rt"
  by (metis enqueue_apply_face fst_conv)

text \<open>The pump, case by case, and a rule for it: an invariant of its two kinds of steps.\<close>

lemma pump_committed_cases:
  "rt_committed_queue rt = [] \<Longrightarrow> pump_committed L rt = (rt, True)"
  "rt_committed_queue rt = (index, NormalEntry, bs) # rest \<Longrightarrow> pump_committed L rt =
     (case enqueue_apply None (map strip_kind (takeWhile is_normal (rt_committed_queue rt)))
             (rt\<lparr>rt_committed_queue := dropWhile is_normal (rt_committed_queue rt)\<rparr>) of
        (rt', go) \<Rightarrow> if go then pump_committed L rt' else (fail_all_pending rt', False))"
  "rt_committed_queue rt = (index, kind, bs) # rest \<Longrightarrow> kind \<noteq> NormalEntry \<Longrightarrow> pump_committed L rt =
     (if rt_applied_index rt + 1 < index then (rt, True)
      else case enqueue_apply None [(index, [])] (rt\<lparr>rt_committed_queue := rest\<rparr>) of
        (rt', go) \<Rightarrow>
          if go then
            (case apply_conf_change L index kind bs (rt_node rt') of
               (nd, Inl _) \<Rightarrow> (fail_all_pending (rt'\<lparr>rt_node := nd\<rparr>), False)
             | (nd, Inr _) \<Rightarrow>
                 pump_committed L (rt'\<lparr>rt_node := nd, rt_applied_index := max (rt_applied_index rt') index\<rparr>))
          else (fail_all_pending rt', False))"
    apply (simp add: pump_committed.simps)
   apply (subst pump_committed.simps, simp add: Let_def del: takeWhile.simps dropWhile.simps split: prod.split bool.split)
  apply (subst pump_committed.simps, simp split: prod.split bool.split)
  done

lemma pump_committed_rule:
  assumes "I rt"
    and normal: "\<And>rt rt' go batch rest. I rt \<Longrightarrow> rt_committed_queue rt = batch @ rest \<Longrightarrow> batch \<noteq> [] \<Longrightarrow>
      \<forall>e \<in> set batch. is_normal e \<Longrightarrow>
      enqueue_apply None (map strip_kind batch) (rt\<lparr>rt_committed_queue := rest\<rparr>) = (rt', go) \<Longrightarrow>
      if go then I rt' else F (fail_all_pending rt')"
    and conf: "\<And>rt rt' go index kind bs rest. I rt \<Longrightarrow> rt_committed_queue rt = (index, kind, bs) # rest \<Longrightarrow>
      kind \<noteq> NormalEntry \<Longrightarrow> \<not> rt_applied_index rt + 1 < index \<Longrightarrow>
      enqueue_apply None [(index, [])] (rt\<lparr>rt_committed_queue := rest\<rparr>) = (rt', go) \<Longrightarrow>
      if go then
        (case apply_conf_change L index kind bs (rt_node rt') of
           (nd, Inl _) \<Rightarrow> F (fail_all_pending (rt'\<lparr>rt_node := nd\<rparr>))
         | (nd, Inr _) \<Rightarrow> I (rt'\<lparr>rt_node := nd, rt_applied_index := max (rt_applied_index rt') index\<rparr>))
      else F (fail_all_pending rt')"
  shows "case pump_committed L rt of (rt', go) \<Rightarrow> if go then I rt' else F rt'"
  using assms(1)
proof (induction "length (rt_committed_queue rt)" arbitrary: rt rule: less_induct)
  case less
  show ?case
  proof (cases "rt_committed_queue rt")
    case (Cons e rest)
    obtain index kind bs where e: "e = (index, kind, bs)" by (cases e)
    let ?batch = "takeWhile is_normal (rt_committed_queue rt)" and ?rest = "dropWhile is_normal (rt_committed_queue rt)"
    consider "kind = NormalEntry" | "kind \<noteq> NormalEntry" "rt_applied_index rt + 1 < index"
      | "kind \<noteq> NormalEntry" "\<not> rt_applied_index rt + 1 < index" by blast
    then show ?thesis
    proof cases
      case 1
      obtain rt' go where q: "enqueue_apply None (map strip_kind ?batch) (rt\<lparr>rt_committed_queue := ?rest\<rparr>) = (rt', go)"
        by fastforce
      have b: "?batch \<noteq> []" "\<forall>e \<in> set ?batch. is_normal e" using Cons e 1 by (auto simp: is_normal_def dest: set_takeWhileD)
      have "length ?rest < length (rt_committed_queue rt)"
        using Cons e 1 by (simp add: is_normal_def le_imp_less_Suc length_dropWhile_le)
      then show ?thesis
        using less(1) [of rt'] normal [OF less(2) _ b q] enqueue_apply_queue_eq [OF q] Cons e 1 q
        by (simp add: pump_committed_cases(2) del: takeWhile.simps dropWhile.simps split: if_splits)
    next
      case 2
      then show ?thesis using less(2) Cons e by (simp add: pump_committed_cases(3))
    next
      case 3
      obtain rt' go where q: "enqueue_apply None [(index, [])] (rt\<lparr>rt_committed_queue := rest\<rparr>) = (rt', go)"
        by fastforce
      note c = conf [OF less(2) Cons [unfolded e] 3 q]
      show ?thesis
        using less(1) [of "rt'\<lparr>rt_node := fst (apply_conf_change L index kind bs (rt_node rt')),
            rt_applied_index := max (rt_applied_index rt') index\<rparr>"] c enqueue_apply_queue_eq [OF q] Cons e 3 q
        by (auto simp: pump_committed_cases(3) split: if_splits prod.splits sum.splits)
    qed
  qed (simp add: pump_committed_cases less(2))
qed

lemma goes_on_iff: "goes_on rt res \<longleftrightarrow>
    (case res of (rt', go) \<Rightarrow> if go then face rt' = face rt
       else \<exists>mid. face mid = face rt \<and> rt' = fail_all_pending mid)"
  by (cases res) (simp add: goes_on_def)

lemma failed_face:
  "face rt' = face rt \<Longrightarrow> \<exists>mid. face mid = face rt \<and> fail_all_pending rt' = fail_all_pending mid"
  by blast

lemma pump_committed_goes_on: "goes_on rt (pump_committed L rt)"
  unfolding goes_on_iff
proof (rule pump_committed_rule, goal_cases)
  case (2 rt' rt'' go batch rest)
  then have "face rt'' = face rt" by (auto dest: enqueue_apply_face_eq)
  then show ?case by (auto intro!: failed_face)
next
  case (3 rt' rt'' go index kind bs rest)
  then have "face rt'' = face rt" by (auto dest: enqueue_apply_face_eq)
  then show ?case by (auto split: prod.split sum.split intro!: failed_face)
qed simp

lemma attribute_conf_acks [simp]:
  "map (\<lambda>p. (pc_ack p, pc_deadline p)) (attribute_conf L e ps) = map (\<lambda>p. (pc_ack p, pc_deadline p)) ps"
  by (simp add: attribute_conf_def map_set_first split: prod.split option.split)

lemma attribute_confs_acks [simp]:
  "map (\<lambda>p. (pc_ack p, pc_deadline p)) (fold (attribute_conf L) es ps) = map (\<lambda>p. (pc_ack p, pc_deadline p)) ps"
  by (induction es arbitrary: ps) simp_all

lemma face_conf_attributed [simp]:
  "face (rt\<lparr>rt_pending_conf := fold (attribute_conf L) es (rt_pending_conf rt)\<rparr>) = face rt"
  by (simp add: face_def dues_def)

lemma stage_committed_goes_on: "goes_on rt (stage_committed L s es rt)"
  by (auto simp: stage_committed_def Let_def split: option.split prod.split bool.split
      dest!: enqueue_apply_face_eq intro!: goes_on_from [OF _ pump_committed_goes_on])

lemma absorb_progress_goes_on: "goes_on rt (absorb_progress rt)"
  by (auto simp: absorb_progress_def Let_def)

lemma poll_snapshot_goes_on: "goes_on rt (poll_snapshot rt)"
  by (auto simp: poll_snapshot_def Let_def split: option.split sum.split prod.split)

lemma maybe_snapshot_goes_on: "goes_on rt (maybe_snapshot rt)"
proof -
  define res where "res =
    (if now rt - rt_last_wal_sample rt \<ge> WAL_SAMPLE_INTERVAL then
       (case node_log_bytes (rt_node rt) of
          (nd, Inl _) \<Rightarrow> (rt\<lparr>rt_last_wal_sample := now rt, rt_node := nd\<rparr>, False)
        | (nd, Inr _) \<Rightarrow> (rt\<lparr>rt_last_wal_sample := now rt, rt_node := nd\<rparr>, True))
     else (rt, True))"
  obtain mid sized where r: "res = (mid, sized)" by (cases res)
  have f: "face mid = face rt"
    using r by (auto simp: res_def split: if_splits prod.splits sum.splits)
  show ?thesis
    unfolding maybe_snapshot_def res_def [symmetric] r Let_def prod.case
    using f by (cases sized) auto
qed

lemma issue_read_round_face [simp]: "face (issue_read_round L rt) = face rt"
  by (simp add: issue_read_round_def Let_def face_def dues_def)

lemma note_read_state_face [simp]: "face (note_read_state rs rt) = face rt"
  by (simp add: note_read_state_def Let_def face_def dues_def split: prod.split)

lemma note_read_states_face [simp]: "face (fold note_read_state rs rt) = face rt"
  by (induction rs arbitrary: rt) simp_all

lemma maybe_collect_sessions_face [simp]: "face (maybe_collect_sessions L rt) = face rt"
  by (simp add: maybe_collect_sessions_def Let_def split: option.split prod.split sum.split)

subsection \<open>Draining a queue\<close>

definition served :: "'r Runtime \<Rightarrow> ack multiset" where
  "served rt = answered rt + reading rt"

lemma channels_served: "channels rt = served rt + queued rt"
  by (simp add: channels_def served_def)

lemma served_simps [simp]:
  "served (reply a r rt) = add_mset a (served rt)"
  "served (spawn_worker w rt) = add_mset (worker_ack w) (served rt)"
  "served (release_guard g rt) = served rt"
  by (simp_all add: served_def answered_def reading_def spawn_worker_def)

lemma served_frame [simp]:
  "served (rt_pending_conf_update f1 rt) = served rt" "served (rt_pending_transfer_update f2 rt) = served rt"
  "served (rt_pending_update f3 rt) = served rt" "served (rt_pending_reads_update f4 rt) = served rt"
  "served (rt_pending_applied_update f5 rt) = served rt" "served (rt_received_outcomes_update f6 rt) = served rt"
  "served (rt_node_update f7 rt) = served rt" "served (rt_multi_get_used_update f8 rt) = served rt"
  "served (rt_watch_update f9 rt) = served rt"
  by (simp_all add: served_def answered_def reading_def)

lemma served_sends [simp]:
  "served (send_error p e rt) = add_mset (reply_ack p) (served rt)"
  "served (send_read_error k e rt) = add_mset (kind_ack k) (served rt)"
  by (simp_all add: send_error_def send_read_error_def)

lemma served_send_applied [simp]: "served (send_applied p oc ei rt) = add_mset (reply_ack p) (served rt)"
  by (cases p) simp_all

text \<open>The part of a state that answering leaves alone.\<close>

definition rest_face :: "'r Runtime \<Rightarrow> ack list \<times> nat \<times> RuntimeConfig \<times> PendingConf list \<times> PendingTransfer list \<times>
    Pending list \<times> PendingRead list \<times> PendingApplied list" where
  "rest_face rt = (ev_closed (rt_env rt), now rt, rt_cfg rt, rt_pending_conf rt, rt_pending_transfer rt,
     rt_pending rt, rt_pending_reads rt, rt_pending_applied rt)"

lemma rest_face_simps [simp]:
  "rest_face (reply a r rt) = rest_face rt" "rest_face (spawn_worker w rt) = rest_face rt"
  "rest_face (release_guard g rt) = rest_face rt" "rest_face (rt_received_outcomes_update f rt) = rest_face rt"
  "rest_face (send_error p e rt) = rest_face rt" "rest_face (send_read_error k e rt) = rest_face rt"
  by (simp_all add: rest_face_def send_error_def send_read_error_def spawn_worker_def)

lemma rest_face_send_applied [simp]: "rest_face (send_applied p oc ei rt) = rest_face rt"
  by (cases p) simp_all

text \<open>
  A step over a waiting request settles it: it is kept, with its channel and a deadline to come (which only
  a read may move),
  or it is served, or nobody listens to its channel any more.
\<close>

definition settles :: "('p \<Rightarrow> ack) \<Rightarrow> ('p \<Rightarrow> nat) \<Rightarrow> bool \<Rightarrow> ('p \<Rightarrow> 'r Runtime \<Rightarrow> 'r Runtime \<times> 'p option) \<Rightarrow> bool" where
  "settles ack dl again f \<longleftrightarrow> (\<forall>p rt. case f p rt of (rt', kept) \<Rightarrow>
     rest_face rt' = rest_face rt \<and>
     (case kept of
        Some p' \<Rightarrow> served rt' = served rt \<and> ack p' = ack p \<and>
          (dl p' = dl p \<and> now rt < dl p \<or> again \<and> dl p' = now rt + cg_read_index_timeout (rt_cfg rt))
      | None \<Rightarrow> served rt' = add_mset (ack p) (served rt) \<or>
          ack p \<in> set (ev_closed (rt_env rt)) \<and> served rt' = served rt))"

definition lost :: "'r Runtime \<Rightarrow> ack multiset \<Rightarrow> bool" where
  "lost rt D \<longleftrightarrow> set_mset D \<subseteq> set (ev_closed (rt_env rt))"

lemma rest_face_lost: "rest_face rt' = rest_face rt \<Longrightarrow> lost rt' D = lost rt D"
  by (simp add: lost_def rest_face_def)

lemma drain_pending_settles:
  assumes "settles ack dl again f" "drain_pending f ps rt = (rt', still)"
  shows "rest_face rt' = rest_face rt \<and>
    (\<exists>D. lost rt D \<and> served rt + mset (map ack ps) = served rt' + mset (map ack still) + D) \<and>
    (\<forall>p' \<in> set still. \<exists>p \<in> set ps. ack p' = ack p \<and>
       (dl p' = dl p \<and> now rt < dl p \<or> again \<and> dl p' = now rt + cg_read_index_timeout (rt_cfg rt)))"
  using assms(2)
proof (induction ps arbitrary: rt rt' still)
  case Nil
  then show ?case by (auto simp: lost_def intro: exI [of _ "{#}"])
next
  case (Cons p ps)
  obtain mid kept where f: "f p rt = (mid, kept)" by fastforce
  obtain still' where d: "drain_pending f ps mid = (rt', still')"
    using Cons.prems f by (auto split: prod.splits)
  have st: "still = (case kept of None \<Rightarrow> still' | Some p \<Rightarrow> p # still')"
    using Cons.prems f d by simp
  have one: "case (mid, kept) of (rt', kept) \<Rightarrow>
     rest_face rt' = rest_face rt \<and>
     (case kept of
        Some p' \<Rightarrow> served rt' = served rt \<and> ack p' = ack p \<and>
          (dl p' = dl p \<and> now rt < dl p \<or> again \<and> dl p' = now rt + cg_read_index_timeout (rt_cfg rt))
      | None \<Rightarrow> served rt' = add_mset (ack p) (served rt) \<or>
          ack p \<in> set (ev_closed (rt_env rt)) \<and> served rt' = served rt)"
    using assms(1) [unfolded settles_def, THEN spec, THEN spec, of rt p] unfolding f .
  then have m: "rest_face mid = rest_face rt" by simp
  then have n: "now mid = now rt" "rt_cfg mid = rt_cfg rt" by (simp_all add: rest_face_def)
  obtain D where D: "lost rt D" "served mid + mset (map ack ps) = served rt' + mset (map ack still') + D"
    using Cons.IH [OF d] rest_face_lost [OF m] by auto
  have "\<exists>D. lost rt D \<and> served rt + mset (map ack (p # ps)) = served rt' + mset (map ack still) + D"
  proof (cases kept)
    case None
    then consider "served mid = add_mset (ack p) (served rt)"
      | "ack p \<in> set (ev_closed (rt_env rt))" "served mid = served rt" using one by auto
    then show ?thesis
    proof cases
      case 1
      then show ?thesis using D st None by (auto intro!: exI [of _ D])
    next
      case 2
      then show ?thesis using D st None by (auto simp: lost_def intro!: exI [of _ "add_mset (ack p) D"])
    qed
  qed (use D st one in \<open>auto intro!: exI [of _ D]\<close>)
  moreover have "\<forall>p' \<in> set still. \<exists>q \<in> set (p # ps). ack p' = ack q \<and>
       (dl p' = dl q \<and> now rt < dl q \<or> again \<and> dl p' = now rt + cg_read_index_timeout (rt_cfg rt))"
    using Cons.IH [OF d] st one n by (auto split: option.splits)
  ultimately show ?case using Cons.IH [OF d] m by simp
qed

lemma answer_conf_settles: "settles pc_ack pc_deadline False answer_conf"
  by (simp add: settles_def answer_conf_def)

lemma answer_transfer_settles: "settles pt_ack pt_deadline False (answer_transfer leader h)"
  by (simp add: settles_def answer_transfer_def)

lemma answer_applied_settles: "settles pa_ack pa_deadline False answer_applied"
  by (simp add: settles_def answer_applied_def)

lemma answer_read_settles: "settles (kind_ack \<circ> pd_kind) pd_deadline True (answer_read L)"
  by (simp add: settles_def answer_read_def)

lemma answer_proposal_settles: "settles (reply_ack \<circ> pn_ack) pn_deadline False answer_proposal"
  by (simp add: settles_def answer_proposal_def Let_def split: option.split)

subsection \<open>Answering\<close>

text \<open>What one pass over the queues does: channels move or are lost, deadlines are met.\<close>

definition moved :: "'r Runtime \<Rightarrow> 'r Runtime \<Rightarrow> bool" where
  "moved rt rt' \<longleftrightarrow> ev_closed (rt_env rt') = ev_closed (rt_env rt) \<and> now rt' = now rt \<and> rt_cfg rt' = rt_cfg rt \<and>
     (\<exists>D. lost rt D \<and> channels rt = channels rt' + D) \<and> due_set rt' \<subseteq> due_set rt"

lemma moved_trans:
  assumes "moved rt mid" "moved mid rt'"
  shows "moved rt rt'"
proof -
  obtain D E where "lost rt D" "channels rt = channels mid + D" "lost mid E" "channels mid = channels rt' + E"
    using assms by (auto simp: moved_def)
  then have "lost rt (D + E) \<and> channels rt = channels rt' + (D + E)"
    using assms(1) by (auto simp: lost_def moved_def)
  then show ?thesis using assms by (auto simp: moved_def)
qed

lemma moved_face: "face rt' = face rt \<Longrightarrow> moved rt rt'"
  using face_channels [of rt' rt] face_due_set [of rt' rt]
  by (auto simp: moved_def face_def lost_def intro: exI [of _ "{#}"])

lemma resolve_transfers_moved:
  "moved rt (resolve_transfers L rt)"
  "\<forall>t \<in> set (rt_pending_transfer (resolve_transfers L rt)). now rt < pt_deadline t"
proof -
  obtain mid still where d: "drain_pending (answer_transfer (leader_id L (rt_node rt)) (hint L rt))
      (rt_pending_transfer rt) rt = (mid, still)" by fastforce
  note * = drain_pending_settles [OF answer_transfer_settles d]
  have "rt_pending_transfer rt = [] \<Longrightarrow> still = [] \<and> mid = rt" using d by simp
  then have r: "resolve_transfers L rt = mid\<lparr>rt_pending_transfer := still\<rparr>"
    using d by (auto simp: resolve_transfers_def)
  show "moved rt (resolve_transfers L rt)"
    using * unfolding r
    by (auto simp: moved_def rest_face_def channels_served queued_def due_set_def dues_def ac_simps)
  show "\<forall>t \<in> set (rt_pending_transfer (resolve_transfers L rt)). now rt < pt_deadline t"
    using * unfolding r by auto
qed

lemma resolve_reads_moved:
  assumes "drain_pending (answer_read L) (rt_pending_reads rt) rt = (mid, still)"
  shows "moved rt (resolve_reads L rt)" "rt_pending_transfer (resolve_reads L rt) = rt_pending_transfer rt"
    "0 < cg_read_index_timeout (rt_cfg rt) \<Longrightarrow> \<forall>r \<in> set (rt_pending_reads (resolve_reads L rt)). now rt < pd_deadline r"
proof -
  note * = drain_pending_settles [OF answer_read_settles assms]
  show "moved rt (resolve_reads L rt)"
    using * unfolding resolve_reads_def assms
    by (auto simp: moved_def rest_face_def channels_served queued_def due_set_def dues_def ac_simps)
  show "rt_pending_transfer (resolve_reads L rt) = rt_pending_transfer rt"
    using * unfolding resolve_reads_def assms by (simp add: rest_face_def)
  show "\<forall>r \<in> set (rt_pending_reads (resolve_reads L rt)). now rt < pd_deadline r"
    if "0 < cg_read_index_timeout (rt_cfg rt)"
    using * that unfolding resolve_reads_def assms by fastforce
qed

lemma resolve_applied_waits_moved:
  assumes "drain_pending answer_applied (rt_pending_applied rt) rt = (mid, still)"
  shows "moved rt (resolve_applied_waits rt)"
    "rt_pending_transfer (resolve_applied_waits rt) = rt_pending_transfer rt"
    "rt_pending_reads (resolve_applied_waits rt) = rt_pending_reads rt"
    "\<forall>w \<in> set (rt_pending_applied (resolve_applied_waits rt)). now rt < pa_deadline w"
proof -
  note * = drain_pending_settles [OF answer_applied_settles assms]
  show "moved rt (resolve_applied_waits rt)"
    using * unfolding resolve_applied_waits_def assms
    by (auto simp: moved_def rest_face_def channels_served queued_def due_set_def dues_def ac_simps)
  show "rt_pending_transfer (resolve_applied_waits rt) = rt_pending_transfer rt"
    "rt_pending_reads (resolve_applied_waits rt) = rt_pending_reads rt"
    using * unfolding resolve_applied_waits_def assms by (simp_all add: rest_face_def)
  show "\<forall>w \<in> set (rt_pending_applied (resolve_applied_waits rt)). now rt < pa_deadline w"
    using * unfolding resolve_applied_waits_def assms by auto
qed

lemma reply_pendings_moved:
  assumes c: "drain_pending answer_conf (rt_pending_conf rt) rt = (mid, still_conf)"
    and p: "drain_pending answer_proposal (rt_pending rt) (mid\<lparr>rt_pending_conf := still_conf\<rparr>) = (last_rt, still)"
  shows "moved rt (reply_pendings rt)"
    "rt_pending_transfer (reply_pendings rt) = rt_pending_transfer rt"
    "rt_pending_reads (reply_pendings rt) = rt_pending_reads rt"
    "rt_pending_applied (reply_pendings rt) = rt_pending_applied rt"
    "\<forall>q \<in> set (rt_pending_conf (reply_pendings rt)). now rt < pc_deadline q"
    "\<forall>q \<in> set (rt_pending (reply_pendings rt)). now rt < pn_deadline q"
proof -
  note cs = drain_pending_settles [OF answer_conf_settles c]
  have pq: "rt_pending (mid\<lparr>rt_pending_conf := still_conf\<rparr>) = rt_pending rt" using cs by (simp add: rest_face_def)
  note ps = drain_pending_settles [OF answer_proposal_settles p]
  let ?mid = "mid\<lparr>rt_pending_conf := still_conf\<rparr>"
  have r: "reply_pendings rt = last_rt\<lparr>rt_pending := still, rt_received_outcomes :=
      filter (\<lambda>(index, _). index \<in> set (List.map_filter pn_index still)) (rt_received_outcomes last_rt)\<rparr>"
    unfolding reply_pendings_def c p pq Let_def prod.case ..
  have "moved rt ?mid"
    using cs by (auto simp: moved_def rest_face_def channels_served queued_def due_set_def dues_def ac_simps)
  moreover have "moved ?mid (reply_pendings rt)"
    using ps unfolding r
    by (auto simp: moved_def rest_face_def channels_served queued_def due_set_def dues_def ac_simps pq)
  ultimately show "moved rt (reply_pendings rt)" by (rule moved_trans)
  show "rt_pending_transfer (reply_pendings rt) = rt_pending_transfer rt"
    "rt_pending_reads (reply_pendings rt) = rt_pending_reads rt"
    "rt_pending_applied (reply_pendings rt) = rt_pending_applied rt"
    using cs ps unfolding r by (simp_all add: rest_face_def)
  show "\<forall>q \<in> set (rt_pending_conf (reply_pendings rt)). now rt < pc_deadline q"
    "\<forall>q \<in> set (rt_pending (reply_pendings rt)). now rt < pn_deadline q"
    using cs ps unfolding r by (auto simp: rest_face_def)
qed

text \<open>After a pass, nothing waits past its deadline.\<close>

definition punctual :: "'r Runtime \<Rightarrow> bool" where
  "punctual rt \<longleftrightarrow> (\<forall>d \<in> due_set rt. now rt < snd d) \<and> (\<forall>r \<in> set (rt_pending_reads rt). now rt < pd_deadline r)"

lemma answer_waiting_moved:
  "moved rt (answer_waiting L rt)"
  "0 < cg_read_index_timeout (rt_cfg rt) \<Longrightarrow> punctual (answer_waiting L rt)"
proof -
  define a where "a = resolve_transfers L rt"
  define b where "b = resolve_reads L a"
  define c where "c = resolve_applied_waits b"
  obtain a1 a2 where r: "drain_pending (answer_read L) (rt_pending_reads a) a = (a1, a2)" by fastforce
  obtain b1 b2 where w: "drain_pending answer_applied (rt_pending_applied b) b = (b1, b2)" by fastforce
  obtain c1 c2 where d: "drain_pending answer_conf (rt_pending_conf c) c = (c1, c2)" by fastforce
  obtain d1 d2 where e: "drain_pending answer_proposal (rt_pending c) (c1\<lparr>rt_pending_conf := c2\<rparr>) = (d1, d2)" by fastforce
  note fs = resolve_transfers_moved [where rt = rt and L = L, folded a_def] resolve_reads_moved [OF r, folded b_def]
    resolve_applied_waits_moved [OF w, folded c_def] reply_pendings_moved [OF d e]
  have "now a = now rt" "now b = now rt" "now c = now rt" "now (reply_pendings c) = now rt" "rt_cfg a = rt_cfg rt"
    using fs by (auto simp: moved_def)
  then show "0 < cg_read_index_timeout (rt_cfg rt) \<Longrightarrow> punctual (answer_waiting L rt)"
    using fs unfolding answer_waiting_def a_def [symmetric] b_def [symmetric] c_def [symmetric]
    by (auto simp: punctual_def due_set_def dues_def)
  show "moved rt (answer_waiting L rt)"
    unfolding answer_waiting_def a_def [symmetric] b_def [symmetric] c_def [symmetric]
    by (intro moved_trans [OF fs(1)] moved_trans [OF fs(3)] moved_trans [OF fs(6)] fs(10))
qed

subsection \<open>The end of the node\<close>

definition idle :: "'r Runtime \<Rightarrow> bool" where
  "idle rt \<longleftrightarrow> queued rt = {#} \<and> due_set rt = {}"

lemma fold_served:
  assumes "\<And>p rt. served (f p rt) = add_mset (ack p) (served rt)"
  shows "served (fold f ps rt) = served rt + mset (map ack ps)"
  using assms by (induction ps arbitrary: rt) simp_all

lemma fold_rest_face:
  assumes "\<And>p rt. rest_face (f p rt) = rest_face rt"
  shows "rest_face (fold f ps rt) = rest_face rt"
  using assms by (induction ps arbitrary: rt) simp_all

lemma fail_all_pending_spec:
  "moved rt (fail_all_pending rt)" "idle (fail_all_pending rt)" "rt_pending_reads (fail_all_pending rt) = []"
proof -
  define a where "a = fold (\<lambda>p. reply (pc_ack p) (RErr ClientUnrecoverable)) (rt_pending_conf rt) rt"
  define b where "b = fold (\<lambda>t. reply (pt_ack t) (RErr ClientUnrecoverable)) (rt_pending_transfer rt) a"
  define c where "c = fold (\<lambda>p. send_error (pn_ack p) ClientUnrecoverable) (rt_pending rt) b"
  define d where "d = fold (\<lambda>r rt. release_guard r (send_read_error (pd_kind r) ClientUnrecoverable rt)) (rt_pending_reads rt) c"
  define e where "e = fold (\<lambda>w. reply (pa_ack w) (RErr ClientUnrecoverable)) (rt_pending_applied rt) d"
  have f: "fail_all_pending rt = e\<lparr>rt_pending_conf := [], rt_pending_transfer := [], rt_pending := [],
      rt_pending_reads := [], rt_pending_applied := []\<rparr>"
    unfolding fail_all_pending_def Let_def a_def b_def c_def d_def e_def ..
  have "rest_face e = rest_face rt"
    unfolding e_def d_def c_def b_def a_def by (subst fold_rest_face, simp)+ simp
  moreover have "served e = served rt + queued rt"
    unfolding e_def d_def c_def b_def a_def
    by (subst fold_served [where ack = pa_ack], simp, subst fold_served [where ack = "kind_ack \<circ> pd_kind"], simp,
      subst fold_served [where ack = "reply_ack \<circ> pn_ack"], simp, subst fold_served [where ack = pt_ack], simp,
      subst fold_served [where ack = pc_ack], simp) (simp add: queued_def ac_simps)
  ultimately show "moved rt (fail_all_pending rt)"
    unfolding f by (auto simp: moved_def channels_served queued_def due_set_def dues_def rest_face_def lost_def
        intro: exI [of _ "{#}"])
  show "idle (fail_all_pending rt)" "rt_pending_reads (fail_all_pending rt) = []"
    unfolding f by (simp_all add: idle_def queued_def due_set_def dues_def)
qed

lemma goes_on_moved:
  assumes "goes_on rt (rt', go)"
  shows "moved rt rt'" "go \<or> idle rt'" "rt_cfg rt' = rt_cfg rt"
proof -
  show m: "moved rt rt'"
    using assms fail_all_pending_spec(1) moved_face moved_trans by (metis goes_on_def fst_conv snd_conv)
  show "go \<or> idle rt'"
    using assms fail_all_pending_spec(2) by (cases go) (auto simp: goes_on_def)
  show "rt_cfg rt' = rt_cfg rt" using m by (simp add: moved_def)
qed

subsection \<open>The cycle\<close>

lemma sessions_reads [simp]: "rt_pending_reads (maybe_collect_sessions L rt) = rt_pending_reads rt"
  by (simp add: maybe_collect_sessions_def Let_def split: option.split prod.split sum.split)

lemma maybe_snapshot_reads: "maybe_snapshot rt = (rt', True) \<Longrightarrow> rt_pending_reads rt' = rt_pending_reads rt"
  unfolding maybe_snapshot_def Let_def by (auto split: prod.splits sum.splits if_splits)

lemma punctual_face:
  "face rt' = face rt \<Longrightarrow> rt_pending_reads rt' = rt_pending_reads rt \<Longrightarrow> punctual rt' = punctual rt"
  using face_due_set [of rt' rt] by (simp add: punctual_def face_def)

lemma after_step_moved:
  assumes "after_step L out rt = (rt', go)"
  shows "moved rt rt'" "if go then 0 < cg_read_index_timeout (rt_cfg rt) \<longrightarrow> punctual rt' else idle rt'"
proof -
  obtain a staged where s: "stage_committed L (so_snapshot out) (so_committed out) rt = (a, staged)" by fastforce
  note sm = goes_on_moved [OF stage_committed_goes_on [of rt L "so_snapshot out" "so_committed out", unfolded s]]
  have "moved rt rt' \<and> (if go then 0 < cg_read_index_timeout (rt_cfg rt) \<longrightarrow> punctual rt' else idle rt')"
  proof (cases staged)
    case False
    then show ?thesis using sm s assms by (simp add: after_step_def)
  next
    case True
    define b where "b = fold note_read_state (so_read_states out) a"
    define c where "c = maybe_collect_sessions L (answer_waiting L b)"
    have r: "maybe_snapshot c = (rt', go)" using assms s True by (simp add: after_step_def b_def c_def)
    note g = goes_on_moved [OF maybe_snapshot_goes_on [of c, unfolded r]]
    have "moved a b" "rt_cfg b = rt_cfg a" using moved_face [of b a] by (simp_all add: b_def moved_def)
    moreover have "moved b c" unfolding c_def
      using answer_waiting_moved(1) moved_face moved_trans maybe_collect_sessions_face by metis
    ultimately have m: "moved rt rt'" using sm(1) g(1) moved_trans by metis
    have "punctual c" if "0 < cg_read_index_timeout (rt_cfg rt)"
      using answer_waiting_moved(2) [of b L] that \<open>rt_cfg b = rt_cfg a\<close> sm(3)
        punctual_face [of c "answer_waiting L b"] by (simp add: c_def)
    moreover have "go \<Longrightarrow> punctual rt' = punctual c"
      using maybe_snapshot_goes_on [of c] maybe_snapshot_reads r by (auto simp: goes_on_def intro!: punctual_face)
    ultimately show ?thesis using m g(2) by auto
  qed
  then show "moved rt rt'" "if go then 0 < cg_read_index_timeout (rt_cfg rt) \<longrightarrow> punctual rt' else idle rt'" by blast+
qed

lemma drive_cycle_moved:
  assumes "drive_cycle L rt = (rt', go)"
  shows "moved rt rt'" "if go then 0 < cg_read_index_timeout (rt_cfg rt) \<longrightarrow> punctual rt' else idle rt'"
proof -
  obtain a ga where a: "absorb_progress rt = (a, ga)" by fastforce
  obtain b gb where b: "poll_snapshot a = (b, gb)" by fastforce
  define c where "c = issue_read_round L b"
  obtain nd out where n: "node_step L (rt_node c) = (nd, out)" by fastforce
  note ma = goes_on_moved [OF absorb_progress_goes_on [of rt, unfolded a]]
  note mb = goes_on_moved [OF poll_snapshot_goes_on [of a, unfolded b]]
  have mc: "moved b (c\<lparr>rt_node := nd\<rparr>)" by (rule moved_face) (simp add: c_def)
  then have cfg: "rt_cfg (c\<lparr>rt_node := nd\<rparr>) = rt_cfg rt" using ma(3) mb(3) by (simp add: moved_def)
  note all = moved_trans [OF ma(1) moved_trans [OF mb(1) mc]]
  have "moved rt rt' \<and> (if go then 0 < cg_read_index_timeout (rt_cfg rt) \<longrightarrow> punctual rt' else idle rt')"
  proof (cases "ga \<and> gb")
    case False
    then show ?thesis using assms ma mb a b moved_trans [OF ma(1) mb(1)]
      by (cases ga; cases gb) (auto simp: drive_cycle_def)
  next
    case True
    then have r: "(case out of Inl _ \<Rightarrow> (fail_all_pending (c\<lparr>rt_node := nd\<rparr>), False)
        | Inr out \<Rightarrow> after_step L out (c\<lparr>rt_node := nd\<rparr>)) = (rt', go)"
      using assms a b n by (simp add: drive_cycle_def Let_def c_def split: sum.splits)
    show ?thesis
    proof (cases out)
      case (Inl e)
      then show ?thesis using r fail_all_pending_spec moved_trans [OF all] by auto
    next
      case (Inr o')
      then show ?thesis using r after_step_moved [of L o' "c\<lparr>rt_node := nd\<rparr>"] moved_trans [OF all] cfg by auto
    qed
  qed
  then show "moved rt rt'" "if go then 0 < cg_read_index_timeout (rt_cfg rt) \<longrightarrow> punctual rt' else idle rt'" by blast+
qed

subsection \<open>Taking requests\<close>

text \<open>The latest time at which a request that waits is answered.\<close>

fun due_time :: "RuntimeConfig \<Rightarrow> Command \<Rightarrow> nat \<Rightarrow> nat" where
  "due_time cfg (CmdWaitApplied index deadline a) t = deadline"
| "due_time cfg c t = t + cg_propose_timeout cfg"

definition takes :: "Command \<Rightarrow> 'r Runtime \<Rightarrow> 'r Runtime \<Rightarrow> bool" where
  "takes c rt rt' \<longleftrightarrow> ev_closed (rt_env rt') = ev_closed (rt_env rt) \<and> now rt' = now rt \<and> rt_cfg rt' = rt_cfg rt \<and>
     channels rt' = add_mset (cmd_ack c) (channels rt) \<and>
     due_set rt' \<subseteq> insert (cmd_ack c, due_time (rt_cfg rt) c (now rt)) (due_set rt)"

lemmas takes_defs = takes_def channels_served queued_def due_set_def dues_def

lemma takes_reply:
  assumes "face rt' = face rt" "cmd_ack c = a"
  shows "takes c rt (reply a r rt')"
  using assms face_channels [OF assms(1)] face_due_set [OF assms(1)]
  by (auto simp: takes_defs face_def)

lemma takes_worker: "cmd_ack c = worker_ack w \<Longrightarrow> takes c rt (spawn_worker w rt)"
  by (auto simp: takes_defs) (simp_all add: spawn_worker_def)

lemma takes_send_error: "face rt' = face rt \<Longrightarrow> cmd_ack c = reply_ack p \<Longrightarrow> takes c rt (send_error p e rt')"
  by (simp add: send_error_def takes_reply)

lemma start_proposal_takes:
  assumes "cmd_ack c = reply_ack p" "due_time (rt_cfg rt) c (now rt) = now rt + cg_propose_timeout (rt_cfg rt)"
  shows "takes c rt (start_proposal L cmd cid seqn p rt)"
  using assms unfolding start_proposal_def Let_def
  by (auto intro!: takes_send_error split: prod.split sum.split) (auto simp: takes_defs)

lemma handle_transfer_takes:
  "takes (CmdTransferLeader target a) rt (handle_transfer L target a rt)"
  unfolding handle_transfer_def Let_def
  by (auto intro!: takes_reply split: sum.split) (auto simp: takes_defs)

lemma propose_change_takes: "takes (CmdConfChange ct n a) rt (propose_change L ct n a rt)"
  unfolding propose_change_def Let_def
  by (auto intro!: takes_reply split: prod.split sum.split) (auto simp: takes_defs)

lemma handle_conf_change_takes: "takes (CmdConfChange ct n a) rt (handle_conf_change L ct n a rt)"
  unfolding handle_conf_change_def Let_def
  by (auto intro!: takes_reply propose_change_takes split: prod.split)

lemma handle_watch_takes: "takes (CmdWatch s e l a) rt (handle_watch s e l a rt)"
  unfolding handle_watch_def by (auto intro!: takes_reply split: sum.split prod.split)

lemma handle_read_takes: "takes (CmdRead key a) rt (handle_read L key a rt)"
  unfolding handle_read_def
  by (auto intro!: takes_reply) (auto simp: takes_defs new_read_def)

lemma handle_multi_get_takes: "takes (CmdMultiGet keys cons a) rt (handle_multi_get L keys cons a rt)"
  unfolding handle_multi_get_def Let_def
  by (auto intro!: takes_reply takes_worker split: ReadConsistency.split option.split) (auto simp: takes_defs new_read_def)

lemma handle_wait_applied_takes: "takes (CmdWaitApplied i d a) rt (handle_wait_applied i d a rt)"
  unfolding handle_wait_applied_def
  by (auto intro!: takes_reply) (auto simp: takes_defs)

lemma handle_command_takes: "takes c rt (handle_command L c rt)"
  by (cases c) (auto simp: Let_def intro!: start_proposal_takes handle_transfer_takes handle_conf_change_takes
      handle_watch_takes handle_read_takes handle_multi_get_takes handle_wait_applied_takes takes_worker takes_reply)

end
