(* ===== verification/RuntimeRuns.thy ===== *)
theory RuntimeRuns
  imports RuntimeReplies NodePipeline
begin

text \<open>
  Runs of a node: turns of the loop interleaved with the apply task, with the workers that read
  the state machine, with consumers that take watch events, and with time.  A run carries the
  requests it took, each with the time it was taken.
\<close>

fun wake_commands :: "Wake \<Rightarrow> Command list" where
  "wake_commands (OnCommands cs) = cs"
| "wake_commands _ = []"

type_synonym request = "Command \<times> nat"

abbreviation request_ack :: "request \<Rightarrow> ack" where
  "request_ack r \<equiv> cmd_ack (fst r)"

definition consume :: "nat \<Rightarrow> nat \<Rightarrow> WatchTable \<Rightarrow> WatchTable" where
  "consume i n tab = (if i < length (wa_watchers tab) then
     tab\<lparr>wa_watchers := (wa_watchers tab)[i := (wa_watchers tab ! i)\<lparr>wt_queue := drop n (wt_queue (wa_watchers tab ! i))\<rparr>]\<rparr>
   else tab)"

inductive runtime_run :: "'r lib \<Rightarrow> 'r Runtime \<Rightarrow> request list \<Rightarrow> 'r Runtime \<Rightarrow> bool \<Rightarrow> bool" for L rt\<^sub>0 where
  started: "runtime_run L rt\<^sub>0 [] rt\<^sub>0 True"
| turned: "runtime_run L rt\<^sub>0 log rt True \<Longrightarrow> wake_ready wake rt \<Longrightarrow> runtime_turn L wake rt = (rt', go) \<Longrightarrow>
    runtime_run L rt\<^sub>0 (log @ map (\<lambda>c. (c, now rt)) (wake_commands wake)) rt' go"
| applied_one: "runtime_run L rt\<^sub>0 log rt go \<Longrightarrow>
    runtime_run L rt\<^sub>0 log (rt\<lparr>rt_shared := apply_task_step (rt_shared rt)\<rparr>) go"
| read_one: "runtime_run L rt\<^sub>0 log rt go \<Longrightarrow> runtime_run L rt\<^sub>0 log (run_worker i rt) go"
| consumed: "runtime_run L rt\<^sub>0 log rt go \<Longrightarrow>
    runtime_run L rt\<^sub>0 log (rt\<lparr>rt_watch := consume i n (rt_watch rt)\<rparr>) go"
| passed: "runtime_run L rt\<^sub>0 log rt go \<Longrightarrow> now rt \<le> t \<Longrightarrow> set (ev_closed (rt_env rt)) \<subseteq> set cl \<Longrightarrow>
    runtime_run L rt\<^sub>0 log (rt\<lparr>rt_env := (rt_env rt)\<lparr>ev_now := t, ev_closed := cl, ev_session_clock := clock\<rparr>\<rparr>) go"

subsection \<open>The books\<close>

definition due_pairs :: "RuntimeConfig \<Rightarrow> request list \<Rightarrow> due set" where
  "due_pairs cfg log = (\<lambda>(c, t). (cmd_ack c, due_time cfg c t)) ` set log"

text \<open>
  The channels of the requests taken are those answered, read for and queued, and some that
  nobody listens to; what waits with a deadline waits for no longer than its request allows.
\<close>

definition balanced :: "RuntimeConfig \<Rightarrow> request list \<Rightarrow> 'r Runtime \<Rightarrow> bool" where
  "balanced cfg log rt \<longleftrightarrow> rt_cfg rt = cfg \<and> due_set rt \<subseteq> due_pairs cfg log \<and>
     (\<exists>D. lost rt D \<and> mset (map request_ack log) = channels rt + D)"

lemma balanced_moved:
  assumes "balanced cfg log rt" "moved rt rt'"
  shows "balanced cfg log rt'"
proof -
  obtain D E where "lost rt D" "mset (map request_ack log) = channels rt + D" "lost rt E" "channels rt = channels rt' + E"
    using assms by (auto simp: balanced_def moved_def)
  then have "lost rt' (E + D) \<and> mset (map request_ack log) = channels rt' + (E + D)"
    using assms(2) by (auto simp: moved_def lost_def)
  then show ?thesis using assms by (auto simp: balanced_def moved_def)
qed

lemma balanced_takes:
  assumes "balanced cfg log rt" "takes c rt rt'"
  shows "balanced cfg (log @ [(c, now rt)]) rt'"
proof -
  obtain D where "lost rt D" "mset (map request_ack log) = channels rt + D"
    using assms by (auto simp: balanced_def)
  then have "lost rt' D \<and> mset (map request_ack (log @ [(c, now rt)])) = channels rt' + D"
    using assms(2) by (auto simp: takes_def lost_def)
  moreover have "rt_cfg rt' = cfg" "due_set rt' \<subseteq> due_pairs cfg (log @ [(c, now rt)])"
    using assms by (auto simp: balanced_def takes_def due_pairs_def)
  ultimately show ?thesis by (auto simp: balanced_def)
qed

lemma balanced_commands:
  "balanced cfg log rt \<Longrightarrow> balanced cfg (log @ map (\<lambda>c. (c, now rt)) cs) (fold (handle_command L) cs rt)"
proof (induction cs arbitrary: log rt)
  case (Cons c cs)
  have t: "takes c rt (handle_command L c rt)" by (rule handle_command_takes)
  then have "now (handle_command L c rt) = now rt" by (simp add: takes_def)
  then show ?case using Cons.IH [OF balanced_takes [OF Cons.prems t]] by simp
qed simp

subsection \<open>What wakes the loop\<close>

lemma start_fetch_face [simp]: "face (start_snapshot_fetch held rt) = face rt"
  by (simp add: start_snapshot_fetch_def split: option.split)

lemma route_inbound_face [simp]: "face (route_inbound L m rt) = face rt"
  by (simp add: route_inbound_def split: option.split prod.split)

lemma route_inbounds_face [simp]: "face (fold (route_inbound L) ms rt) = face rt"
  by (induction ms arbitrary: rt) simp_all

lemma take_outcomes_face [simp]: "face (take_outcomes rt) = face rt"
  by (simp add: take_outcomes_def)

lemma dispatch_one_face [simp]: "face (dispatch_one e rt) = face rt"
  by (simp add: dispatch_one_def face_def dues_def split: prod.split)

lemma fold_face: "(\<And>x rt. face (f x rt) = face rt) \<Longrightarrow> face (fold f xs rt) = face rt"
  by (induction xs arbitrary: rt) simp_all

lemma dispatch_watch_events_face [simp]: "face (dispatch_watch_events es rt) = face rt"
  by (simp add: dispatch_watch_events_def Let_def fold_face)

lemma take_watch_events_face [simp]: "face (take_watch_events rt) = face rt"
  unfolding take_watch_events_def by (subst fold_face) (simp_all split: prod.split)

lemma finish_fetch_moved: "moved rt (finish_snapshot_fetch L d rt)"
  unfolding finish_snapshot_fetch_def Let_def
  by (auto split: option.split sum.split prod.split intro!: moved_face
      moved_trans [OF moved_face fail_all_pending_spec(1)])

lemma handle_wake_balanced:
  assumes "balanced cfg log rt" "handle_wake L wake rt = (rt', go)"
  shows "balanced cfg (log @ map (\<lambda>c. (c, now rt)) (wake_commands wake)) rt'"
  using assms balanced_commands [OF assms(1)]
    balanced_moved [OF assms(1) moved_face] balanced_moved [OF assms(1) finish_fetch_moved]
    balanced_moved [OF assms(1) fail_all_pending_spec(1)]
  by (cases wake) auto

lemma runtime_turn_balanced:
  assumes "balanced cfg log rt" "runtime_turn L wake rt = (rt', go)"
  shows "balanced cfg (log @ map (\<lambda>c. (c, now rt)) (wake_commands wake)) rt'"
    "if go then 0 < cg_read_index_timeout cfg \<longrightarrow> punctual rt' else idle rt'"
proof -
  let ?log = "log @ map (\<lambda>c. (c, now rt)) (wake_commands wake)"
  obtain a ga where a: "handle_wake L wake rt = (a, ga)" by fastforce
  obtain b gb where b: "drive_cycle L a = (b, gb)" by fastforce
  note ba = handle_wake_balanced [OF assms(1) a]
  note dc = drive_cycle_moved [OF b]
  note bb = balanced_moved [OF ba dc(1)]
  have cfg: "rt_cfg a = cfg" using ba by (simp add: balanced_def)
  have r: "(rt', go) = (if ga then if gb then (b, True) else (fail_all_pending b, False) else (fail_all_pending a, False))"
    using assms(2) a b by (cases ga; cases gb) (simp_all add: runtime_turn_def)
  show "balanced cfg ?log rt'"
    using r ba bb balanced_moved [OF _ fail_all_pending_spec(1)] by (auto split: if_splits)
  show "if go then 0 < cg_read_index_timeout cfg \<longrightarrow> punctual rt' else idle rt'"
    using r dc(2) cfg fail_all_pending_spec(2) by (auto split: if_splits)
qed

subsection \<open>The invariant of runs\<close>

definition fresh :: "'r Runtime \<Rightarrow> bool" where
  "fresh rt \<longleftrightarrow> channels rt = {#} \<and> due_set rt = {}"

lemma run_worker_moved: "moved rt (run_worker i rt)"
proof (cases "i < length (ev_workers (rt_env rt))")
  case True
  let ?ws = "ev_workers (rt_env rt)"
  have "mset ?ws = add_mset (?ws ! i) (mset (take i ?ws) + mset (drop (Suc i) ?ws))"
    using id_take_nth_drop [OF True] by (metis mset.simps(2) mset_append union_mset_add_mset_right)
  then have "reading rt = add_mset (worker_ack (?ws ! i))
      (mset (map worker_ack (take i ?ws @ drop (Suc i) ?ws)))"
    by (simp add: reading_def)
  moreover have "fst (worker_answer (sh_sm (rt_shared rt)) (?ws ! i)) = worker_ack (?ws ! i)" by simp
  ultimately show ?thesis using True
    by (cases "worker_answer (sh_sm (rt_shared rt)) (?ws ! i)")
      (auto simp: moved_def run_worker_def Let_def channels_def answered_def reading_def queued_def due_set_def
        dues_def lost_def split: prod.split intro!: exI [of _ "{#}"])
qed (simp add: run_worker_def moved_face)

lemma balanced_passed:
  assumes "balanced cfg log rt" "set (ev_closed (rt_env rt)) \<subseteq> set cl"
  shows "balanced cfg log (rt\<lparr>rt_env := (rt_env rt)\<lparr>ev_now := t, ev_closed := cl, ev_session_clock := clock\<rparr>\<rparr>)"
  using assms by (auto simp: balanced_def channels_def answered_def reading_def queued_def due_set_def dues_def lost_def)

lemma idle_moved: "idle rt \<Longrightarrow> rt_pending_conf rt' = rt_pending_conf rt \<Longrightarrow> rt_pending_transfer rt' = rt_pending_transfer rt \<Longrightarrow>
    rt_pending rt' = rt_pending rt \<Longrightarrow> rt_pending_reads rt' = rt_pending_reads rt \<Longrightarrow>
    rt_pending_applied rt' = rt_pending_applied rt \<Longrightarrow> idle rt'"
  by (simp add: idle_def queued_def due_set_def dues_def)

lemma run_worker_queues [simp]:
  "rt_pending_conf (run_worker i rt) = rt_pending_conf rt" "rt_pending_transfer (run_worker i rt) = rt_pending_transfer rt"
  "rt_pending (run_worker i rt) = rt_pending rt" "rt_pending_reads (run_worker i rt) = rt_pending_reads rt"
  "rt_pending_applied (run_worker i rt) = rt_pending_applied rt"
  by (simp_all add: run_worker_def Let_def split: prod.split)

lemma runtime_run_balanced:
  assumes "runtime_run L rt\<^sub>0 log rt go" "fresh rt\<^sub>0"
  shows "balanced (rt_cfg rt\<^sub>0) log rt \<and> (go \<or> idle rt)"
  using assms
proof (induction rule: runtime_run.induct)
  case started
  then show ?case by (auto simp: balanced_def fresh_def lost_def intro: exI [of _ "{#}"])
next
  case (turned log rt wake rt' go)
  then show ?case using runtime_turn_balanced [of "rt_cfg rt\<^sub>0" log rt L wake rt' go] by (auto split: if_splits)
next
  case (applied_one log rt go)
  then show ?case by (auto intro: idle_moved balanced_moved [OF _ moved_face])
next
  case (read_one log rt go i)
  then show ?case using balanced_moved [OF _ run_worker_moved] by (auto intro: idle_moved)
next
  case (consumed log rt go i n)
  then show ?case by (auto intro: idle_moved balanced_moved [OF _ moved_face])
next
  case (passed log rt go t cl clock)
  then show ?case using balanced_passed by (auto intro: idle_moved)
qed

lemma balanced_count:
  assumes "balanced cfg log rt" "distinct (map request_ack log)" "r \<in> set log"
    "request_ack r \<notin> set (ev_closed (rt_env rt))"
  shows "count (channels rt) (request_ack r) = 1"
proof -
  obtain D where D: "lost rt D" "mset (map request_ack log) = channels rt + D" using assms(1) by (auto simp: balanced_def)
  then have "count D (request_ack r) = 0" using assms(4) by (auto simp: lost_def count_eq_zero_iff)
  moreover have "count (mset (map request_ack log)) (request_ack r) = 1"
    using assms(2,3) distinct_count_atmost_1 [of "map request_ack log"] by (auto simp del: mset_map)
  ultimately show ?thesis using D(2) by (metis add.right_neutral count_union)
qed

lemma queued_due: "a \<in># queued rt \<Longrightarrow> a \<in> (kind_ack \<circ> pd_kind) ` set (rt_pending_reads rt) \<or> (\<exists>d. (a, d) \<in> due_set rt)"
  unfolding queued_face by (cases "dues rt") (auto simp: due_set_def)

lemma balanced_distinct:
  assumes "balanced cfg log rt" "distinct (map request_ack log)"
  shows "distinct (map fst (ev_replies (rt_env rt)))"
    "set (map fst (ev_replies (rt_env rt))) \<subseteq> set (map request_ack log)"
proof -
  obtain D where "mset (map request_ack log) = channels rt + D" using assms(1) by (auto simp: balanced_def)
  then have s: "mset (map fst (ev_replies (rt_env rt))) \<subseteq># mset (map request_ack log)"
    by (simp add: channels_def answered_def)
  then show "set (map fst (ev_replies (rt_env rt))) \<subseteq> set (map request_ack log)"
    by (metis mset_subset_eqD set_mset_mset subsetI)
  obtain zs where "mset (map request_ack log) = mset (map fst (ev_replies (rt_env rt)) @ zs)"
    using s by (metis ex_mset mset_append mset_subset_eq_exists_conv)
  then show "distinct (map fst (ev_replies (rt_env rt)))"
    using assms(2) mset_eq_imp_distinct_iff by fastforce
qed

subsection \<open>A sample node\<close>

definition sample_config :: RuntimeConfig where
  "sample_config =
     \<lparr>cg_raft_id = 1, cg_node_to_raft = [([50], 2), ([51], 3)], cg_raft_to_node = [(2, [50]), (3, [51]), (1, [49])],
      cg_addresses = [([49], [1]), ([50], [2]), ([51], [3])], cg_proposal_queue_bytes = 1000,
      cg_promote_lag_entries = 128, cg_read_index_timeout = 20, cg_propose_timeout = 10, cg_session_ttl_ms = 100,
      cg_session_grace_ms = 100, cg_max_sessions = 10, cg_snapshot_threshold_bytes = 0\<rparr>"

definition sample_shared :: Shared where
  "sample_shared =
     \<lparr>sh_sm = kv_new, sh_task = \<lparr>at_point = Idle, at_applied_bytes_total = 0, at_failed = False\<rparr>, sh_applies = [],
      sh_progress = \<lparr>ap_applied_index = 0, ap_applied_bytes_total = 0, ap_failed = False, ap_sessions = 0\<rparr>,
      sh_outcomes = [], sh_watch_events = [], sh_backlog_dropped = - 1, sh_snapshot_result = None\<rparr>"

definition sample_env :: Env where
  "sample_env = \<lparr>ev_now = 0, ev_session_clock = None, ev_closed = [], ev_replies = [], ev_workers = [], ev_delivered = []\<rparr>"

definition sample_runtime :: "Ready list Runtime" where
  "sample_runtime =
     \<lparr>rt_node = sample_node, rt_cfg = sample_config, rt_shared = sample_shared, rt_env = sample_env,
      rt_ses = \<lparr>ss_sessions = [], ss_next_sweep = 0, ss_live_sessions = 0, ss_next_gc = 0\<rparr>,
      rt_watch = \<lparr>wa_watchers = [], wa_dropped_total = 0\<rparr>, rt_multi_get_used = 0, rt_deferred = None,
      rt_snapshot_wait = False, rt_snapshot_fetch = None, rt_applied_index = 0, rt_applied_bytes_total = 0,
      rt_sent_bytes_total = 0, rt_pending = [], rt_committed_queue = [], rt_pending_conf = [],
      rt_pending_transfer = [], rt_pending_reads = [], rt_pending_applied = [], rt_next_read_token = 1,
      rt_last_wal_sample = 0, rt_applied_bytes_at_snapshot = 0, rt_snapshot_index = 0, rt_received_outcomes = []\<rparr>"

lemma sample_fresh: "fresh sample_runtime"
  by (simp add: fresh_def sample_runtime_def sample_env_def channels_def answered_def reading_def queued_def
      due_set_def dues_def)

lemma sample_lib_ops [simp]:
  "raw_has_ready sample_lib st rs = (rs \<noteq> [])" "raw_leader sample_lib rs = 1" "raw_tick sample_lib st rs = rs"
  "raw_propose sample_lib st cmd rs = (rs, Inr ())" "raw_read_index sample_lib st ctx rs = rs"
  by (simp_all add: sample_lib_def)

lemma sample_node_fields [simp]: "nd_raw sample_node = []" "nd_pending sample_node = []"
  by (simp_all add: sample_node_def new_with_config_def sample_lib_def node_config_default_def Let_def)

lemma sample_node_step: "node_step sample_lib sample_node = (sample_node, Inr outcome_default)"
  by (simp add: node_step_def finish_persisted_def comp_defs Let_def)

text \<open>Two requests at time 0: the first is answered at once, the second waits for an index.\<close>

definition sample_requests :: "Command list" where
  "sample_requests = [CmdLeaderHint 7, CmdWaitApplied 5 10 8]"

lemmas turn_defs = runtime_turn_def drive_cycle_def absorb_progress_def poll_snapshot_def issue_read_round_def
  after_step_def stage_committed_def pump_committed.simps outcome_default_def answer_waiting_def
  resolve_transfers_def resolve_reads_def resolve_applied_waits_def answer_applied_def reply_pendings_def
  maybe_collect_sessions_def maybe_snapshot_def sm_applied_def

definition sample_asked :: "Ready list Runtime" where
  "sample_asked = sample_runtime\<lparr>rt_env := sample_env\<lparr>ev_replies := [(7, RHint (Some ([49], [1])))]\<rparr>,
     rt_pending_applied := [\<lparr>pa_index = 5, pa_deadline = 10, pa_ack = 8\<rparr>]\<rparr>"

lemma sample_turn:
  "runtime_turn sample_lib (OnCommands sample_requests) sample_runtime = (sample_asked, True)"
  by (simp add: turn_defs sample_requests_def sample_runtime_def sample_asked_def sample_shared_def sample_env_def
      sample_config_def handle_wait_applied_def hint_def leader_id_def reply_def kv_new_def empty_store_def
      sample_node_step WAL_SAMPLE_INTERVAL_def MAX_PENDING_APPLIED_WAITS_def Let_def List.map_filter_def)

definition sample_late :: "Ready list Runtime" where
  "sample_late = sample_asked\<lparr>rt_env := (rt_env sample_asked)\<lparr>ev_now := 12, ev_closed := [], ev_session_clock := None\<rparr>\<rparr>"

definition sample_done :: "Ready list Runtime" where
  "sample_done = sample_late\<lparr>rt_env := (rt_env sample_late)\<lparr>ev_replies :=
     [(7, RHint (Some ([49], [1]))), (8, RErr Timeout)]\<rparr>, rt_pending_applied := []\<rparr>"

lemma sample_node_tick: "node_tick sample_lib sample_node = sample_node"
  by (simp add: node_tick_def on_raw_def RaftNode.equality)

lemma sample_tick: "runtime_turn sample_lib OnTick sample_late = (sample_done, True)"
  by (simp add: turn_defs sample_late_def sample_done_def sample_runtime_def sample_asked_def sample_shared_def
      sample_env_def sample_config_def sample_node_tick reply_def kv_new_def empty_store_def
      sample_node_step WAL_SAMPLE_INTERVAL_def Let_def List.map_filter_def)

lemma sample_run:
  "runtime_run sample_lib sample_runtime [(CmdLeaderHint 7, 0), (CmdWaitApplied 5 10 8, 0)] sample_late True"
proof -
  have "wake_ready (OnCommands sample_requests) sample_runtime"
    by (simp add: sample_requests_def CYCLE_BURST_def)
  from runtime_run.turned [OF runtime_run.started this sample_turn]
  have "runtime_run sample_lib sample_runtime [(CmdLeaderHint 7, 0), (CmdWaitApplied 5 10 8, 0)] sample_asked True"
    by (simp add: sample_requests_def sample_runtime_def sample_env_def)
  from runtime_run.passed [OF this, of 12 "[]" None] show ?thesis
    by (simp add: sample_late_def) (simp add: sample_asked_def sample_env_def)
qed

subsection \<open>Properties\<close>

text \<open>
  C6: every request is answered exactly once.  In any run of a node, whatever raft, the network,
  the apply task and the readers do: no reply channel is answered twice, none is answered that no
  request brought, and every request whose client still listens is in exactly one place: answered,
  with a reader, or queued.  Once the loop has ended, nothing is queued.
\<close>

theorem requests_answered_once:
  assumes "runtime_run L rt\<^sub>0 log rt go" "fresh rt\<^sub>0" "distinct (map request_ack log)"
  shows "distinct (map fst (ev_replies (rt_env rt))) \<and>
    fst ` set (ev_replies (rt_env rt)) \<subseteq> request_ack ` set log \<and>
    (\<forall>r \<in> set log. request_ack r \<notin> set (ev_closed (rt_env rt)) \<longrightarrow>
       count (answered rt) (request_ack r) + count (reading rt) (request_ack r) + count (queued rt) (request_ack r) = 1) \<and>
    (\<not> go \<longrightarrow> queued rt = {#})"
proof -
  note b = runtime_run_balanced [OF assms(1,2)]
  then have "\<forall>r \<in> set log. request_ack r \<notin> set (ev_closed (rt_env rt)) \<longrightarrow> count (channels rt) (request_ack r) = 1"
    using balanced_count assms(3) by blast
  then show ?thesis
    using balanced_distinct [of "rt_cfg rt\<^sub>0" log rt] b assms(3) by (auto simp: channels_def idle_def)
qed

theorem requests_answered_once_witness:
  "runtime_run sample_lib sample_runtime [(CmdLeaderHint 7, 0), (CmdWaitApplied 5 10 8, 0)] sample_late True \<and>
   count (answered sample_late) 7 + count (reading sample_late) 7 + count (queued sample_late) 7 = 1 \<and>
   count (answered sample_late) 8 + count (reading sample_late) 8 + count (queued sample_late) 8 = 1 \<and>
   8 \<in># queued sample_late"
proof -
  have "ev_closed (rt_env sample_late) = []" "8 \<in># queued sample_late"
    by (simp_all add: sample_late_def sample_asked_def queued_def)
  then show ?thesis
    using requests_answered_once [OF sample_run sample_fresh] sample_run by simp
qed

text \<open>
  C7: requests are answered in time.  Take any run and any further turn of its loop that does not
  end the node.  After it, a write, a membership change, a transfer of leadership or a wait for an
  index whose time is up, and whose client still listens, is no longer queued: it has been
  answered, or, for a request that is only read for, is with a reader.  A linearizable read that
  still waits has a deadline to come.
\<close>

theorem requests_answered_in_time:
  assumes "runtime_run L rt\<^sub>0 log rt True" "fresh rt\<^sub>0" "0 < cg_read_index_timeout (rt_cfg rt\<^sub>0)"
    and "runtime_turn L wake rt = (rt', True)"
    and "log' = log @ map (\<lambda>c. (c, now rt)) (wake_commands wake)" "distinct (map request_ack log')"
  shows "(\<forall>(c, t) \<in> set log'. due_time (rt_cfg rt\<^sub>0) c t \<le> now rt' \<longrightarrow> cmd_ack c \<notin> set (ev_closed (rt_env rt')) \<longrightarrow>
       cmd_ack c \<notin> (kind_ack \<circ> pd_kind) ` set (rt_pending_reads rt') \<longrightarrow>
       cmd_ack c \<in># answered rt' + reading rt') \<and>
    (\<forall>r \<in> set (rt_pending_reads rt'). now rt' < pd_deadline r)"
proof -
  have b: "balanced (rt_cfg rt\<^sub>0) log rt" using runtime_run_balanced [OF assms(1,2)] by simp
  note t = runtime_turn_balanced [OF b assms(4), folded assms(5)]
  then have p: "punctual rt'" using assms(3) by simp
  have "cmd_ack c \<in># answered rt' + reading rt'"
    if r: "(c, tm) \<in> set log'" "due_time (rt_cfg rt\<^sub>0) c tm \<le> now rt'" "cmd_ack c \<notin> set (ev_closed (rt_env rt'))"
      "cmd_ack c \<notin> (kind_ack \<circ> pd_kind) ` set (rt_pending_reads rt')" for c tm
  proof (rule ccontr)
    assume n: "cmd_ack c \<notin># answered rt' + reading rt'"
    have "cmd_ack c \<in># channels rt'"
      using balanced_count [OF t(1) assms(6) r(1)] r(3) count_greater_zero_iff by fastforce
    then have "cmd_ack c \<in># queued rt'" using n by (auto simp: channels_def)
    then obtain d where d: "(cmd_ack c, d) \<in> due_set rt'" using r(4) queued_due by blast
    then obtain c' t' where c': "(c', t') \<in> set log'" "cmd_ack c' = cmd_ack c" "d = due_time (rt_cfg rt\<^sub>0) c' t'"
      using t(1) by (auto simp: balanced_def due_pairs_def)
    then have "(c', t') = (c, tm)" 
      using r(1) assms(6) inj_onD [of request_ack "set log'" "(c', t')" "(c, tm)"] by (simp add: distinct_map)
    then show False using d c'(3) p r(2) by (auto simp: punctual_def)
  qed
  then show ?thesis using p by (auto simp: punctual_def)
qed

theorem requests_answered_in_time_witness:
  "runtime_turn sample_lib OnTick sample_late = (sample_done, True) \<and> 8 \<in># answered sample_done + reading sample_done"
proof -
  have "0 < cg_read_index_timeout (rt_cfg sample_runtime)" by (simp add: sample_runtime_def sample_config_def)
  from requests_answered_in_time [OF sample_run sample_fresh this sample_tick refl]
  have "8 \<in># answered sample_done + reading sample_done"
    by (simp add: sample_done_def sample_late_def sample_asked_def sample_env_def sample_runtime_def sample_config_def)
  then show ?thesis using sample_tick by simp
qed

end
