(* ===== verification/RuntimeApply.thy ===== *)
theory RuntimeApply
  imports RuntimeRuns KvReads
begin

text \<open>
  From raft to the state machine.  The committed log is a function from indices to commands; a
  membership change is the empty command.  Raft hands its entries to the actor, which passes them
  to the apply task through a queue, a deferred batch and a channel.  Along the way they stay in
  order and complete, so that the state machine of the node is at every moment the replay of the
  committed log up to its applied index.
\<close>

type_synonym committed_log = "nat \<Rightarrow> bytes"

definition replayed :: "committed_log \<Rightarrow> nat \<Rightarrow> Store option" where
  "replayed C n = run_log empty_store (map C [1..<Suc n])"

definition snapshot_sound :: "committed_log \<Rightarrow> Snapshot \<Rightarrow> bool" where
  "snapshot_sound C s \<longleftrightarrow> (\<exists>st. decode_store (sn_data s) = Inr st \<and> applied st = sm_index (sn_meta s) \<and>
     replayed C (unat (sm_index (sn_meta s))) = Some st)"

subsection \<open>The feed\<close>

text \<open>What is on its way: a snapshot to restore, or the command of an index.\<close>

type_synonym feed = "Snapshot + (LogIndex \<times> bytes)"

definition batch_feed :: "ApplyBatch \<Rightarrow> feed list" where
  "batch_feed b = (case ab_snapshot b of None \<Rightarrow> [] | Some s \<Rightarrow> [Inl s]) @ map Inr (ab_entries b)"

fun request_feed :: "ApplyRequest \<Rightarrow> feed list" where
  "request_feed (Batch b) = batch_feed b"
| "request_feed SnapshotRequest = []"

fun point_feed :: "TaskPoint \<Rightarrow> feed list" where
  "point_feed (Applying es) = map Inr es"
| "point_feed (Sending _ _ _ _ _ es) = map Inr es"
| "point_feed _ = []"

definition channel_feed :: "Shared \<Rightarrow> feed list" where
  "channel_feed sh = point_feed (at_point (sh_task sh)) @ concat (map request_feed (sh_applies sh))"

definition sent_feed :: "'r Runtime \<Rightarrow> feed list" where
  "sent_feed rt = channel_feed (rt_shared rt) @ (case rt_deferred rt of None \<Rightarrow> [] | Some b \<Rightarrow> batch_feed b)"

definition entry_command :: "CommittedEntry \<Rightarrow> LogIndex \<times> bytes" where
  "entry_command e = (fst e, if fst (snd e) = NormalEntry then snd (snd e) else [])"

definition queue_feed :: "'r Runtime \<Rightarrow> feed list" where
  "queue_feed rt = map (Inr \<circ> entry_command) (rt_committed_queue rt)"

text \<open>
  The feed continues the log from index \<open>n\<close>: the commands come without a gap, a snapshot leads
  forward.  The result is the index it leads to.
\<close>

fun continues :: "committed_log \<Rightarrow> nat \<Rightarrow> feed list \<Rightarrow> nat option" where
  "continues C n [] = Some n"
| "continues C n (Inl s # fs) =
     (if snapshot_sound C s \<and> n < unat (sm_index (sn_meta s)) then continues C (unat (sm_index (sn_meta s))) fs else None)"
| "continues C n (Inr (i, bs) # fs) = (if unat i = Suc n \<and> bs = C (Suc n) then continues C (Suc n) fs else None)"

lemma continues_append: "continues C n (fs @ gs) = Option.bind (continues C n fs) (\<lambda>k. continues C k gs)"
  by (induction C n fs rule: continues.induct) auto

lemma continues_mono: "continues C n fs = Some m \<Longrightarrow> n \<le> m"
  by (induction C n fs rule: continues.induct) (auto split: if_splits)

lemma continues_ahead:
  "continues C n fs = Some m \<Longrightarrow> f \<in> set fs \<Longrightarrow>
     (case f of Inl s \<Rightarrow> n < unat (sm_index (sn_meta s)) \<and> unat (sm_index (sn_meta s)) \<le> m
      | Inr (i, bs) \<Rightarrow> n < unat i \<and> unat i \<le> m \<and> bs = C (unat i))"
proof (induction C n fs rule: continues.induct)
  case (2 C n s fs)
  then show ?case using continues_mono [of C "unat (sm_index (sn_meta s))" fs m]
    by (fastforce split: if_splits sum.splits prod.splits)
next
  case (3 C n i bs fs)
  then show ?case using continues_mono [of C "Suc n" fs m]
    by (fastforce split: if_splits sum.splits prod.splits)
qed simp

lemma continues_entries:
  "map (unat \<circ> fst) es = [Suc n..<Suc m] \<Longrightarrow> (\<And>i bs. (i, bs) \<in> set es \<Longrightarrow> bs = C (unat i)) \<Longrightarrow> n \<le> m \<Longrightarrow>
     continues C n (map Inr es) = Some m"
proof (induction es arbitrary: n)
  case (Cons e es)
  then have "Suc n \<le> m" by (cases "Suc n \<le> m") auto
  then have "[Suc n..<Suc m] = Suc n # [Suc (Suc n)..<Suc m]" by (simp add: upt_conv_Cons)
  then show ?case using Cons Cons.prems(2) [of "fst e" "snd e"]
    by (cases e) (auto simp: \<open>Suc n \<le> m\<close> simp del: upt_Suc)
qed (auto split: if_splits)

subsection \<open>The apply task\<close>

lemma run_log_append: "run_log st (xs @ ys) = Option.bind (run_log st xs) (\<lambda>s. run_log s ys)"
  using kv_sm.replay_append by (simp add: kv_replay_run_log)

lemma replayed_Suc:
  "replayed C n = Some st \<Longrightarrow> unat (applied st) = n \<Longrightarrow> apply_locked st (applied st + 1) (C (Suc n)) = (st', Inr r) \<Longrightarrow>
     replayed C (Suc n) = Some st'"
  by (simp add: replayed_def run_log_append)

text \<open>What the task holds: the replay so far, and what it has published is not ahead of it.\<close>

definition task_ok :: "committed_log \<Rightarrow> Shared \<Rightarrow> bool" where
  "task_ok C sh \<longleftrightarrow> replayed C (unat (applied (store (sh_sm sh)))) = Some (store (sh_sm sh)) \<and>
     ap_applied_index (sh_progress sh) \<le> applied (store (sh_sm sh)) \<and>
     \<not> at_failed (sh_task sh) \<and> \<not> ap_failed (sh_progress sh)"

definition stopped :: "Shared \<Rightarrow> bool" where
  "stopped sh \<longleftrightarrow> at_point (sh_task sh) = Stopped"

lemma task_fail_stopped: "stopped (task_fail sh)"
  by (simp add: stopped_def task_fail_def move_task_def)

lemma move_task_simps [simp]:
  "sh_sm (move_task p sh) = sh_sm sh" "sh_progress (move_task p sh) = sh_progress sh"
  "sh_applies (move_task p sh) = sh_applies sh" "at_point (sh_task (move_task p sh)) = p"
  "at_failed (sh_task (move_task p sh)) = at_failed (sh_task sh)"
  by (simp_all add: move_task_def)

lemma publish_simps [simp]:
  "sh_sm (publish sh) = sh_sm sh" "sh_applies (publish sh) = sh_applies sh" "sh_task (publish sh) = sh_task sh"
  "ap_applied_index (sh_progress (publish sh)) = applied (store (sh_sm sh))"
  "ap_failed (sh_progress (publish sh)) = at_failed (sh_task sh)"
  by (simp_all add: publish_def)

lemma apply_ok:
  "apply_with_events_and_index sm i bs = (sm', Inr r) \<Longrightarrow>
     apply_locked (store sm) i bs = (store sm', Inr r) \<and> i = applied (store sm) + 1 \<and> applied (store sm') = i"
  using apply_ok_applied [of "store sm" i bs "store sm'" r]
  by (auto simp: apply_with_events_and_index_def split: if_splits prod.splits)

lemma send_watch_events_simps [simp]:
  "sh_sm (send_watch_events i es sh) = sh_sm sh" "sh_progress (send_watch_events i es sh) = sh_progress sh"
  "sh_applies (send_watch_events i es sh) = sh_applies sh" "sh_task (send_watch_events i es sh) = sh_task sh"
  by (simp_all add: send_watch_events_def)

text \<open>A step of the task that does not stop it keeps the feed, and takes from it only from the front.\<close>

lemma take_request_ok:
  assumes "task_ok C sh" "continues C (unat (applied (store (sh_sm sh)))) (channel_feed sh @ gs) = Some m"
    and "at_point (sh_task sh) = Idle" "\<not> stopped (take_request sh)"
  shows "task_ok C (take_request sh) \<and>
    continues C (unat (applied (store (sh_sm (take_request sh))))) (channel_feed (take_request sh) @ gs) = Some m \<and>
    set (channel_feed (take_request sh)) \<subseteq> set (channel_feed sh) \<and>
    applied (store (sh_sm sh)) \<le> applied (store (sh_sm (take_request sh)))"
proof (cases "sh_applies sh")
  case (Cons q rest)
  show ?thesis
  proof (cases q)
    case (Batch b)
    show ?thesis
    proof (cases "ab_snapshot b")
      case None
      then show ?thesis using assms Cons Batch
        by (auto simp: take_request_def task_ok_def channel_feed_def batch_feed_def)
    next
      case (Some s)
      have c: "snapshot_sound C s" "unat (applied (store (sh_sm sh))) < unat (sm_index (sn_meta s))"
        "continues C (unat (sm_index (sn_meta s))) (map Inr (ab_entries b) @ concat (map request_feed rest) @ gs) = Some m"
        using assms Cons Batch Some by (auto simp: channel_feed_def batch_feed_def split: if_splits)
      then obtain st where st: "decode_store (sn_data s) = Inr st" "applied st = sm_index (sn_meta s)"
        "replayed C (unat (sm_index (sn_meta s))) = Some st" by (auto simp: snapshot_sound_def)
      have le: "applied (store (sh_sm sh)) \<le> applied st" using c(2) st(2) by (simp add: word_le_nat_alt)
      have "\<not> poisoned (sh_sm sh)"
        using assms(4) Cons Batch Some st by (auto simp: take_request_def restore_def task_fail_stopped)
      then have "take_request sh = move_task (Applying (ab_entries b))
          (sh\<lparr>sh_applies := rest, sh_sm := (sh_sm sh)\<lparr>store := st\<rparr>\<rparr>)"
        using Cons Batch Some st by (simp add: take_request_def restore_def)
      then show ?thesis using assms c st le Cons Batch Some
        by (auto simp: task_ok_def channel_feed_def batch_feed_def intro: order_trans)
    qed
  qed (use assms Cons in \<open>auto simp: take_request_def task_ok_def channel_feed_def\<close>)
qed (use assms in \<open>auto simp: take_request_def\<close>)

lemma apply_entry_ok:
  assumes "task_ok C sh" "continues C (unat (applied (store (sh_sm sh)))) (channel_feed sh @ gs) = Some m"
    and "at_point (sh_task sh) = Applying ((i, bs) # rest)" "\<not> stopped (apply_entry i bs rest sh)"
  shows "task_ok C (apply_entry i bs rest sh) \<and>
    continues C (unat (applied (store (sh_sm (apply_entry i bs rest sh))))) (channel_feed (apply_entry i bs rest sh) @ gs) = Some m \<and>
    set (channel_feed (apply_entry i bs rest sh)) \<subseteq> set (channel_feed sh) \<and>
    applied (store (sh_sm sh)) \<le> applied (store (sh_sm (apply_entry i bs rest sh)))"
proof -
  have n: "unat i = Suc (unat (applied (store (sh_sm sh))))" "bs = C (unat i)"
    "continues C (unat i) (map Inr rest @ concat (map request_feed (sh_applies sh)) @ gs) = Some m"
    using assms(2,3) by (auto simp: channel_feed_def split: if_splits)
  obtain sm oc ei evs where a: "apply_with_events_and_index (sh_sm sh) i bs = (sm, Inr (oc, ei, evs))"
    using assms(4) by (auto simp: apply_entry_def task_fail_stopped split: prod.splits sum.splits)
  note k = apply_ok [OF a]
  have "replayed C (unat i) = Some (store sm)"
    using replayed_Suc [of C "unat (applied (store (sh_sm sh)))" "store (sh_sm sh)" "store sm" "(oc, ei, evs)"]
      assms(1) k n by (auto simp: task_ok_def)
  moreover have "applied (store (sh_sm sh)) \<le> i" using n(1) by (simp add: word_le_nat_alt)
  ultimately show ?thesis using assms a k n
    by (auto simp: apply_entry_def task_ok_def channel_feed_def)
qed

lemma apply_task_step_ok:
  assumes "task_ok C sh" "continues C (unat (applied (store (sh_sm sh)))) (channel_feed sh @ gs) = Some m"
    and "\<not> stopped (apply_task_step sh)"
  shows "task_ok C (apply_task_step sh)"
    "continues C (unat (applied (store (sh_sm (apply_task_step sh))))) (channel_feed (apply_task_step sh) @ gs) = Some m"
    "set (channel_feed (apply_task_step sh)) \<subseteq> set (channel_feed sh)"
    "applied (store (sh_sm sh)) \<le> applied (store (sh_sm (apply_task_step sh)))"
proof -
  let ?n = "unat (applied (store (sh_sm sh)))" and ?sh = "apply_task_step sh"
  have "task_ok C ?sh \<and> continues C (unat (applied (store (sh_sm ?sh)))) (channel_feed ?sh @ gs) = Some m \<and>
    set (channel_feed ?sh) \<subseteq> set (channel_feed sh) \<and> applied (store (sh_sm sh)) \<le> applied (store (sh_sm ?sh))"
  proof (cases "at_point (sh_task sh)")
    case Idle
    then show ?thesis using take_request_ok assms by (simp add: apply_task_step_def)
  next
    case (Applying es)
    show ?thesis
    proof (cases es)
      case (Cons e rest)
      then show ?thesis using apply_entry_ok [OF assms(1,2)] Applying assms(3)
        by (cases e) (simp add: apply_task_step_def)
    qed (use Applying assms in \<open>auto simp: apply_task_step_def task_ok_def channel_feed_def\<close>)
  next
    case (Sending i bs oc ei evs es)
    then show ?thesis using assms
      by (auto simp: apply_task_step_def send_outcome_def Let_def task_ok_def channel_feed_def)
  next
    case Stopped
    then show ?thesis using assms by (simp add: apply_task_step_def stopped_def)
  qed
  then show "task_ok C ?sh"
    "continues C (unat (applied (store (sh_sm ?sh)))) (channel_feed ?sh @ gs) = Some m"
    "set (channel_feed ?sh) \<subseteq> set (channel_feed sh)"
    "applied (store (sh_sm sh)) \<le> applied (store (sh_sm ?sh))" by blast+
qed

subsection \<open>The actor\<close>

text \<open>The part of a state that entries flow through.\<close>

definition pipe :: "'r Runtime \<Rightarrow> KvStateMachine \<times> ApplyTask \<times> ApplyProgress \<times> feed list \<times> ApplyBatch option \<times>
    CommittedEntry list \<times> LogIndex" where
  "pipe rt = (sh_sm (rt_shared rt), sh_task (rt_shared rt), sh_progress (rt_shared rt), channel_feed (rt_shared rt),
     rt_deferred rt, rt_committed_queue rt, rt_applied_index rt)"

text \<open>
  The actor's applied index may be ahead of the state machine, but only by commands that are
  empty: it has passed them for the sake of a membership change.
\<close>

definition flow_ok :: "committed_log \<Rightarrow> nat \<Rightarrow> 'r Runtime \<Rightarrow> bool" where
  "flow_ok C m rt \<longleftrightarrow> task_ok C (rt_shared rt) \<and>
     continues C (unat (applied (store (sh_sm (rt_shared rt))))) (sent_feed rt @ queue_feed rt) = Some m \<and>
     (\<forall>k. unat (applied (store (sh_sm (rt_shared rt)))) < k \<longrightarrow> k \<le> unat (rt_applied_index rt) \<longrightarrow> C k = [])"

lemma flow_ok_pipe: "pipe rt' = pipe rt \<Longrightarrow> flow_ok C m rt' = flow_ok C m rt"
  by (simp add: pipe_def flow_ok_def task_ok_def sent_feed_def queue_feed_def)

lemma pipe_frame [simp]:
  "pipe (rt_node_update f1 rt) = pipe rt" "pipe (rt_cfg_update f2 rt) = pipe rt" "pipe (rt_env_update f3 rt) = pipe rt"
  "pipe (rt_ses_update f4 rt) = pipe rt" "pipe (rt_watch_update f5 rt) = pipe rt"
  "pipe (rt_multi_get_used_update f6 rt) = pipe rt" "pipe (rt_snapshot_wait_update f7 rt) = pipe rt"
  "pipe (rt_snapshot_fetch_update f8 rt) = pipe rt" "pipe (rt_applied_bytes_total_update f9 rt) = pipe rt"
  "pipe (rt_sent_bytes_total_update f10 rt) = pipe rt" "pipe (rt_pending_update f11 rt) = pipe rt"
  "pipe (rt_pending_conf_update f12 rt) = pipe rt" "pipe (rt_pending_transfer_update f13 rt) = pipe rt"
  "pipe (rt_pending_reads_update f14 rt) = pipe rt" "pipe (rt_pending_applied_update f15 rt) = pipe rt"
  "pipe (rt_next_read_token_update f16 rt) = pipe rt" "pipe (rt_last_wal_sample_update f17 rt) = pipe rt"
  "pipe (rt_applied_bytes_at_snapshot_update f18 rt) = pipe rt" "pipe (rt_snapshot_index_update f19 rt) = pipe rt"
  "pipe (rt_received_outcomes_update f20 rt) = pipe rt"
  by (simp_all add: pipe_def)

lemma pipe_replies [simp]:
  "pipe (reply a r rt) = pipe rt" "pipe (spawn_worker w rt) = pipe rt" "pipe (release_guard g rt) = pipe rt"
  "pipe (send_error p e rt) = pipe rt" "pipe (send_read_error k e rt) = pipe rt"
  by (simp_all add: reply_def spawn_worker_def release_guard_def send_error_def send_read_error_def split: option.split)

lemma pipe_send_applied [simp]: "pipe (send_applied p oc ei rt) = pipe rt"
  by (cases p) simp_all

lemma pipe_fold: "(\<And>x rt. pipe (f x rt) = pipe rt) \<Longrightarrow> pipe (fold f xs rt) = pipe rt"
  by (induction xs arbitrary: rt) simp_all

lemma drain_keeps:
  assumes "drain_pending f ps rt = (rt', still)" "\<And>p rt. g (fst (f p rt)) = g rt"
  shows "g rt' = g rt"
  using assms(1)
proof (induction ps arbitrary: rt still)
  case (Cons p ps)
  obtain mid k where m: "f p rt = (mid, k)" by fastforce
  obtain still' where d: "drain_pending f ps mid = (rt', still')" using Cons.prems m by (auto split: prod.splits)
  then show ?case using Cons.IH [OF d] assms(2) [of p rt] m by simp
qed simp

lemmas pipe_drain_eq = drain_keeps [where g = pipe]

lemma answers_pipe [simp]:
  "pipe (fst (answer_conf pc rt)) = pipe rt" "pipe (fst (answer_proposal pn rt)) = pipe rt"
  "pipe (fst (answer_transfer leader h pt rt)) = pipe rt" "pipe (fst (answer_read L pd rt)) = pipe rt"
  "pipe (fst (answer_applied pa rt)) = pipe rt"
  by (simp_all add: answer_conf_def answer_proposal_def answer_transfer_def answer_read_def answer_applied_def Let_def
      split: option.split)

lemma resolves_pipe [simp]:
  "pipe (resolve_transfers L rt) = pipe rt" "pipe (resolve_reads L rt) = pipe rt"
  "pipe (resolve_applied_waits rt) = pipe rt" "pipe (reply_pendings rt) = pipe rt"
  by (auto simp: resolve_transfers_def resolve_reads_def resolve_applied_waits_def reply_pendings_def Let_def
      split: prod.split dest!: pipe_drain_eq)

lemma answer_waiting_pipe [simp]: "pipe (answer_waiting L rt) = pipe rt"
  by (simp add: answer_waiting_def)

lemma handlers_pipe [simp]:
  "pipe (start_proposal L cmd cid seqn p rt) = pipe rt" "pipe (handle_transfer L target a rt) = pipe rt"
  "pipe (propose_change L ct n a rt) = pipe rt" "pipe (handle_watch s e l a rt) = pipe rt"
  "pipe (handle_read L key a rt) = pipe rt" "pipe (handle_multi_get L keys cons a rt) = pipe rt"
  "pipe (handle_wait_applied i d a rt) = pipe rt"
  by (auto simp: start_proposal_def handle_transfer_def propose_change_def handle_watch_def handle_read_def
      handle_multi_get_def handle_wait_applied_def Let_def split: prod.split sum.split option.split ReadConsistency.split)

lemma handle_conf_change_pipe [simp]: "pipe (handle_conf_change L ct n a rt) = pipe rt"
  by (simp add: handle_conf_change_def Let_def split: prod.split)

lemma handle_command_pipe [simp]: "pipe (handle_command L c rt) = pipe rt"
  by (cases c) (simp_all add: Let_def)

subsection \<open>Handing over\<close>

lemma note_session_pipe [simp]: "pipe (note_session cid seqn rt) = pipe rt"
  by (simp add: note_session_def Let_def split: option.split)

lemma attribute_entries_pipe [simp]: "pipe (fold attribute_entry es rt) = pipe rt"
  by (rule pipe_fold) (simp add: attribute_entry_def Let_def split: prod.split option.split)

lemma merge_feed:
  "batch_feed (merge_batch d None es) = (case d of None \<Rightarrow> [] | Some b \<Rightarrow> batch_feed b) @ map Inr es"
  "batch_feed (merge_batch d (Some s) es) = Inl s # map Inr es"
  by (simp_all add: merge_batch_def batch_feed_def split: option.split)

lemma flush_deferred_feed:
  assumes "flush_deferred rt = (rt', True)"
  shows "sent_feed rt' = sent_feed rt \<and> sh_sm (rt_shared rt') = sh_sm (rt_shared rt) \<and>
    sh_progress (rt_shared rt') = sh_progress (rt_shared rt) \<and> sh_task (rt_shared rt') = sh_task (rt_shared rt) \<and>
    rt_committed_queue rt' = rt_committed_queue rt \<and> rt_applied_index rt' = rt_applied_index rt"
  using assms by (auto simp: flush_deferred_def sent_feed_def channel_feed_def split: option.splits if_splits)

lemma enqueue_apply_feed:
  assumes "enqueue_apply s es rt = (rt', True)"
  shows "sent_feed rt' = (case s of None \<Rightarrow> sent_feed rt | Some s \<Rightarrow> channel_feed (rt_shared rt) @ [Inl s]) @ map Inr es \<and>
    sh_sm (rt_shared rt') = sh_sm (rt_shared rt) \<and>
    sh_progress (rt_shared rt') = sh_progress (rt_shared rt) \<and> sh_task (rt_shared rt') = sh_task (rt_shared rt) \<and>
    rt_committed_queue rt' = rt_committed_queue rt \<and> rt_applied_index rt' = rt_applied_index rt"
proof (cases "s = None \<and> es = [] \<and> rt_deferred rt = None")
  case True
  then show ?thesis using assms by (auto simp: enqueue_apply_def)
next
  case False
  define a where "a = fold attribute_entry es (case s of None \<Rightarrow> rt
    | Some s \<Rightarrow> rt\<lparr>rt_snapshot_index := max (rt_snapshot_index rt) (sm_index (sn_meta s)),
                   rt_applied_bytes_at_snapshot := rt_applied_bytes_total rt\<rparr>)"
  have p: "pipe a = pipe rt" by (simp add: a_def split: option.split)
  have f: "flush_deferred (a\<lparr>rt_deferred := Some (merge_batch (rt_deferred a) s es)\<rparr>) = (rt', True)"
    using assms False by (auto simp: enqueue_apply_def a_def Let_def)
  show ?thesis
    using flush_deferred_feed [OF f] p
    by (cases s) (auto simp: pipe_def sent_feed_def merge_feed)
qed

lemma sent_feed_frame [simp]:
  "sent_feed (rt_committed_queue_update f rt) = sent_feed rt" "sent_feed (rt_node_update g rt) = sent_feed rt"
  "sent_feed (rt_applied_index_update h rt) = sent_feed rt"
  by (simp_all add: sent_feed_def)

lemma flow_ok_enqueue:
  assumes "flow_ok C m rt" "rt_committed_queue rt = es @ rest"
    and "enqueue_apply None (map entry_command es) (rt\<lparr>rt_committed_queue := rest\<rparr>) = (rt', True)"
  shows "flow_ok C m rt'"
  using assms(1,2) enqueue_apply_feed [OF assms(3)] by (auto simp: flow_ok_def task_ok_def queue_feed_def)

lemma normal_command: "\<forall>e \<in> set es. is_normal e \<Longrightarrow> map strip_kind es = map entry_command es"
  by (auto simp: is_normal_def strip_kind_def entry_command_def)

lemma flow_ok_conf:
  assumes "flow_ok C m rt" "rt_committed_queue rt = (index, kind, bs) # rest" "kind \<noteq> NormalEntry"
    and "\<not> rt_applied_index rt + 1 < index"
    and "enqueue_apply None [(index, [])] (rt\<lparr>rt_committed_queue := rest\<rparr>) = (rt', True)"
  shows "flow_ok C m (rt'\<lparr>rt_node := nd, rt_applied_index := max (rt_applied_index rt') index\<rparr>)"
proof -
  let ?a = "rt_applied_index rt"
  have f: "flow_ok C m rt'"
    using flow_ok_enqueue [of C m rt "[(index, kind, bs)]" rest rt'] assms by (simp add: entry_command_def)
  have "C (unat index) = [] \<and> index \<noteq> 0"
    using continues_ahead [of C _ "sent_feed rt @ queue_feed rt" m "Inr (index, [])"] assms(1-3)
    by (fastforce simp: flow_ok_def queue_feed_def entry_command_def)
  moreover have "unat index \<le> Suc (unat ?a)" if "index \<noteq> 0"
  proof (cases "?a = - 1")
    case True
    then show ?thesis using unat64_bound [of index] by (simp add: unat_max64)
  qed (use assms(4) unat_succ [of ?a] in \<open>simp add: word_less_nat_alt\<close>)
  ultimately show ?thesis using f enqueue_apply_feed [OF assms(5)]
    by (auto simp: flow_ok_def queue_feed_def max_def word_le_nat_alt le_Suc_eq split: if_splits)
qed

lemma pump_flow_ok:
  assumes "flow_ok C m rt" "pump_committed L rt = (rt', True)"
  shows "flow_ok C m rt'"
proof -
  have "case pump_committed L rt of (rt', go) \<Rightarrow> if go then flow_ok C m rt' else True"
  proof (rule pump_committed_rule [where I = "flow_ok C m" and F = "\<lambda>_. True"], goal_cases)
    case (2 rt rt' go batch rest)
    then show ?case using flow_ok_enqueue [of C m rt batch rest rt'] normal_command [of batch] by auto
  next
    case (3 rt rt' go index kind bs rest)
    then show ?case using flow_ok_conf by (auto split: prod.split sum.split)
  qed (rule assms(1))
  then show ?thesis using assms(2) by simp
qed

text \<open>What raft is relied on for: it hands over the committed log in order, a snapshot ahead of it.\<close>

definition in_order :: "committed_log \<Rightarrow> nat \<Rightarrow> StepOutcome \<Rightarrow> nat \<Rightarrow> bool" where
  "in_order C m out m' \<longleftrightarrow>
     (let base = (case so_snapshot out of None \<Rightarrow> m | Some s \<Rightarrow> unat (sm_index (sn_meta s)))
      in (case so_snapshot out of None \<Rightarrow> True | Some s \<Rightarrow> snapshot_sound C s \<and> m < base) \<and>
         base \<le> m' \<and> map (unat \<circ> fst) (so_committed out) = [Suc base..<Suc m'] \<and>
         (\<forall>e \<in> set (so_committed out). snd (entry_command e) = C (unat (fst e))))"

lemma in_order_continues:
  assumes "in_order C m out m'"
  shows "continues C (case so_snapshot out of None \<Rightarrow> m | Some s \<Rightarrow> unat (sm_index (sn_meta s)))
    (map (Inr \<circ> entry_command) (so_committed out)) = Some m'"
  using continues_entries [of "map entry_command (so_committed out)" _ m' C] assms
  by (force simp: in_order_def Let_def comp_def entry_command_def simp del: upt_Suc)

lemma stage_flow_ok:
  assumes "flow_ok C m rt" "in_order C m out m'" "stage_committed L (so_snapshot out) (so_committed out) rt = (rt', True)"
  shows "flow_ok C m' rt'"
proof (cases "so_snapshot out")
  case None
  let ?rt = "rt\<lparr>rt_pending_conf := fold (attribute_conf L) (so_committed out) (rt_pending_conf rt),
      rt_committed_queue := rt_committed_queue rt @ so_committed out\<rparr>"
  have "flow_ok C m' ?rt"
    using assms(1) in_order_continues [OF assms(2)] None
    by (auto simp: flow_ok_def task_ok_def continues_append bind_eq_Some_conv queue_feed_def sent_feed_def)
  then show ?thesis using assms(3) None by (auto simp: stage_committed_def Let_def intro: pump_flow_ok)
next
  case (Some s)
  let ?i = "sm_index (sn_meta s)" and ?n = "unat (applied (store (sh_sm (rt_shared rt))))"
  have s: "snapshot_sound C s" "m < unat ?i" using assms(2) Some by (auto simp: in_order_def Let_def)
  obtain k where k: "continues C ?n (channel_feed (rt_shared rt)) = Some k" "k \<le> m"
    using assms(1) by (auto simp: flow_ok_def sent_feed_def continues_append bind_eq_Some_conv)
      (meson continues_mono order_trans)
  have "unat (fst e) \<le> m" if "e \<in> set (rt_committed_queue rt)" for e
    using continues_ahead [of C ?n "sent_feed rt @ queue_feed rt" m "Inr (entry_command e)"] assms(1) that
    by (auto simp: flow_ok_def queue_feed_def entry_command_def)
  then have q: "filter (\<lambda>(i, _, _). i > ?i) (rt_committed_queue rt) = []"
    using s(2) by (force simp: filter_empty_conv word_less_nat_alt)
  let ?rt = "rt\<lparr>rt_pending_conf := fold (attribute_conf L) (so_committed out) (rt_pending_conf rt),
      rt_committed_queue := so_committed out\<rparr>"
  obtain mid where mid: "enqueue_apply (Some s) [] ?rt = (mid, True)" "pump_committed L mid = (rt', True)"
    using assms(3) Some q by (auto simp: stage_committed_def Let_def split: prod.splits bool.splits)
  have "flow_ok C m' mid"
    using enqueue_apply_feed [OF mid(1)] k s assms(1) in_order_continues [OF assms(2)] Some
    by (auto simp: flow_ok_def task_ok_def queue_feed_def continues_append)
  then show ?thesis using mid(2) pump_flow_ok by blast
qed

subsection \<open>A turn\<close>

lemma absorb_flow_ok:
  assumes "flow_ok C m rt" "absorb_progress rt = (rt', True)"
  shows "flow_ok C m rt'"
proof -
  have "sent_feed rt' = sent_feed rt" "queue_feed rt' = queue_feed rt" "rt_shared rt' = rt_shared rt"
    "rt_applied_index rt' = ap_applied_index (sh_progress (rt_shared rt))"
    using assms(2) by (auto simp: absorb_progress_def Let_def sent_feed_def queue_feed_def split: if_splits)
  then show ?thesis using assms(1) by (auto simp: flow_ok_def task_ok_def word_le_nat_alt)
qed

lemma poll_snapshot_pipe: "poll_snapshot rt = (rt', True) \<Longrightarrow> pipe rt' = pipe rt"
  by (auto simp: poll_snapshot_def Let_def split: if_splits option.splits sum.splits prod.splits)

lemma read_rounds_pipe [simp]: "pipe (issue_read_round L rt) = pipe rt" "pipe (note_read_state rs rt) = pipe rt"
  by (simp_all add: issue_read_round_def note_read_state_def Let_def split: prod.split)

lemma maybe_collect_sessions_pipe [simp]: "pipe (maybe_collect_sessions L rt) = pipe rt"
  by (simp add: maybe_collect_sessions_def Let_def split: option.split prod.split sum.split)

lemma request_snapshot_pipe [simp]:
  "pipe (rt\<lparr>rt_snapshot_wait := True, rt_shared := (rt_shared rt)\<lparr>sh_applies := sh_applies (rt_shared rt) @ [SnapshotRequest],
     sh_snapshot_result := None\<rparr>\<rparr>) = pipe rt"
  by (simp add: pipe_def channel_feed_def)

lemma maybe_snapshot_pipe:
  assumes "maybe_snapshot rt = (rt', True)"
  shows "pipe rt' = pipe rt"
proof -
  define res where "res =
    (if now rt - rt_last_wal_sample rt \<ge> WAL_SAMPLE_INTERVAL then
       (case node_log_bytes (rt_node rt) of
          (nd, Inl _) \<Rightarrow> (rt\<lparr>rt_last_wal_sample := now rt, rt_node := nd\<rparr>, False)
        | (nd, Inr _) \<Rightarrow> (rt\<lparr>rt_last_wal_sample := now rt, rt_node := nd\<rparr>, True))
     else (rt, True))"
  obtain mid sized where r: "res = (mid, sized)" by (cases res)
  have f: "pipe mid = pipe rt"
    using r by (auto simp: res_def split: if_splits prod.splits sum.splits)
  show ?thesis
    using assms unfolding maybe_snapshot_def res_def [symmetric] r Let_def prod.case
    using f by (cases sized) (auto split: if_splits)
qed

lemma fail_all_pending_pipe [simp]: "pipe (fail_all_pending rt) = pipe rt"
  unfolding fail_all_pending_def Let_def by (simp add: pipe_fold)

lemma route_inbound_pipe [simp]: "pipe (route_inbound L m rt) = pipe rt"
  by (simp add: route_inbound_def start_snapshot_fetch_def split: option.split prod.split)

lemma finish_fetch_pipe [simp]: "pipe (finish_snapshot_fetch L d rt) = pipe rt"
  by (simp add: finish_snapshot_fetch_def Let_def split: option.split sum.split prod.split)

lemma dispatch_watch_events_pipe [simp]: "pipe (dispatch_watch_events es rt) = pipe rt"
proof -
  have o: "pipe (dispatch_one e rt) = pipe rt" for e and rt :: "'r Runtime"
    by (simp add: dispatch_one_def split: prod.split)
  have s: "pipe (rt\<lparr>rt_shared := (rt_shared rt)\<lparr>sh_backlog_dropped := x\<rparr>\<rparr>) = pipe rt" for x
    by (simp add: pipe_def channel_feed_def)
  show ?thesis by (simp add: dispatch_watch_events_def Let_def pipe_fold o s)
qed

lemma take_pipe [simp]: "pipe (take_outcomes rt) = pipe rt" "pipe (take_watch_events rt) = pipe rt"
proof -
  show "pipe (take_outcomes rt) = pipe rt" by (simp add: take_outcomes_def pipe_def channel_feed_def)
  have "pipe (rt\<lparr>rt_shared := (rt_shared rt)\<lparr>sh_watch_events := []\<rparr>\<rparr>) = pipe rt"
    by (simp add: pipe_def channel_feed_def)
  then show "pipe (take_watch_events rt) = pipe rt"
    unfolding take_watch_events_def by (subst pipe_fold) (auto split: prod.split)
qed

lemma handle_wake_pipe: "handle_wake L wake rt = (rt', go) \<Longrightarrow> pipe rt' = pipe rt"
  by (cases wake) (auto simp: pipe_fold)

text \<open>What raft hands over in a turn of the loop.\<close>

definition turn_outcome :: "'r lib \<Rightarrow> Wake \<Rightarrow> 'r Runtime \<Rightarrow> StepOutcome option" where
  "turn_outcome L wake rt =
     (let a = fst (handle_wake L wake rt); b = fst (absorb_progress a); c = issue_read_round L (fst (poll_snapshot b))
      in case node_step L (rt_node c) of (nd, Inl _) \<Rightarrow> None | (nd, Inr out) \<Rightarrow> Some out)"

lemma turn_flow_ok:
  assumes "flow_ok C m rt" "runtime_turn L wake rt = (rt', True)"
    and "\<And>out. turn_outcome L wake rt = Some out \<Longrightarrow> in_order C m out m'"
  shows "flow_ok C m' rt'"
proof -
  obtain a where a: "handle_wake L wake rt = (a, True)" "drive_cycle L a = (rt', True)"
    using assms(2) by (auto simp: runtime_turn_def split: prod.splits bool.splits)
  obtain b where b: "absorb_progress a = (b, True)"
    using a(2) by (auto simp: drive_cycle_def split: prod.splits bool.splits)
  obtain c where c: "poll_snapshot b = (c, True)"
    using a(2) b by (auto simp: drive_cycle_def split: prod.splits bool.splits)
  let ?d = "issue_read_round L c"
  obtain nd out where o: "node_step L (rt_node ?d) = (nd, Inr out)" "after_step L out (?d\<lparr>rt_node := nd\<rparr>) = (rt', True)"
    using a(2) b c by (auto simp: drive_cycle_def Let_def split: prod.splits sum.splits)
  then have i: "in_order C m out m'"
    using assms(3) a b c by (simp add: turn_outcome_def Let_def)
  have "flow_ok C m a" using assms(1) handle_wake_pipe [OF a(1)] flow_ok_pipe by metis
  then have "flow_ok C m (?d\<lparr>rt_node := nd\<rparr>)"
    using absorb_flow_ok [OF _ b] poll_snapshot_pipe [OF c] flow_ok_pipe
    by (metis pipe_frame(1) read_rounds_pipe(1))
  moreover obtain e where e: "stage_committed L (so_snapshot out) (so_committed out) (?d\<lparr>rt_node := nd\<rparr>) = (e, True)"
    "maybe_snapshot (maybe_collect_sessions L (answer_waiting L (fold note_read_state (so_read_states out) e))) = (rt', True)"
    using o(2) by (auto simp: after_step_def split: prod.splits bool.splits)
  ultimately have "flow_ok C m' e" using stage_flow_ok i by blast
  then show ?thesis using maybe_snapshot_pipe [OF e(2)] flow_ok_pipe [of rt' e] by (simp add: pipe_fold)
qed

subsection \<open>Reads\<close>

abbreviation workers :: "'r Runtime \<Rightarrow> Worker list" where
  "workers rt \<equiv> ev_workers (rt_env rt)"

fun stale_worker :: "Command \<Rightarrow> Worker list" where
  "stale_worker (CmdGetStale key a) = [WGet key a]"
| "stale_worker (CmdGetStaleWithIndex key a) = [WGetIndex key a]"
| "stale_worker (CmdGetStaleRange start end' limit a) = [WRange start end' limit a]"
| "stale_worker (CmdMultiGet keys Stale a) = [WMulti keys a]"
| "stale_worker _ = []"

lemma workers_simps [simp]:
  "workers (release_guard g rt) = workers rt" "workers (send_error p e rt) = workers rt"
  "workers (send_read_error k e rt) = workers rt" "workers (spawn_worker w rt) = workers rt @ [w]"
  by (simp_all add: send_error_def send_read_error_def spawn_worker_def)

lemma workers_send_applied [simp]: "workers (send_applied p oc ei rt) = workers rt"
  by (cases p) simp_all

lemma handle_command_workers: "workers (handle_command L c rt) = workers rt @ stale_worker c"
proof (cases c)
  case (CmdMultiGet keys cons a)
  then show ?thesis by (cases cons) (auto simp: handle_multi_get_def Let_def split: option.split)
qed (auto simp: start_proposal_def handle_transfer_def handle_conf_change_def propose_change_def handle_watch_def
    handle_read_def handle_wait_applied_def Let_def split: prod.split sum.split option.split)

lemma handle_commands_workers:
  "workers (fold (handle_command L) cs rt) = workers rt @ concat (map stale_worker cs)"
  by (induction cs arbitrary: rt) (simp_all add: handle_command_workers)

lemma face_workers: "face rt' = face rt \<Longrightarrow> workers rt' = workers rt"
  by (simp add: face_def)

lemma fold_workers: "(\<And>x rt. workers (f x rt) = workers rt) \<Longrightarrow> workers (fold f xs rt) = workers rt"
  by (induction xs arbitrary: rt) simp_all

lemma fail_all_pending_workers [simp]: "workers (fail_all_pending rt) = workers rt"
  by (simp add: fail_all_pending_def Let_def fold_workers)

lemma finish_fetch_workers [simp]: "workers (finish_snapshot_fetch L d rt) = workers rt"
  by (simp add: finish_snapshot_fetch_def Let_def split: option.split sum.split prod.split)

lemma handle_wake_workers:
  "handle_wake L wake rt = (rt', go) \<Longrightarrow> workers rt' = workers rt @ concat (map stale_worker (wake_commands wake))"
  by (cases wake) (auto simp: handle_commands_workers face_workers [OF route_inbounds_face]
      face_workers [OF take_outcomes_face] face_workers [OF take_watch_events_face])

lemma answers_workers [simp]:
  "workers (fst (answer_conf pc rt)) = workers rt" "workers (fst (answer_proposal pn rt)) = workers rt"
  "workers (fst (answer_transfer leader h pt rt)) = workers rt" "workers (fst (answer_applied pa rt)) = workers rt"
  by (simp_all add: answer_conf_def answer_proposal_def answer_transfer_def answer_applied_def Let_def split: option.split)

lemma resolves_workers [simp]:
  "workers (resolve_transfers L rt) = workers rt" "workers (resolve_applied_waits rt) = workers rt"
  "workers (reply_pendings rt) = workers rt"
  by (auto simp: resolve_transfers_def resolve_applied_waits_def reply_pendings_def Let_def
      split: prod.split dest!: drain_keeps [where g = workers])

text \<open>A linearizable read leaves the queue for a reader only when its confirmed index is applied.\<close>

lemma drain_reads_workers:
  assumes "drain_pending (answer_read L) rs rt = (rt', still)"
  obtains ss :: "PendingRead list" where "set ss \<subseteq> set rs" "workers rt' = workers rt @ map (read_worker \<circ> pd_kind) ss"
    "\<forall>r \<in> set ss. is_leader L rt \<and> index_reached (rt_applied_index rt) (pd_read_index r)"
proof -
  have "\<exists>ss. set ss \<subseteq> set rs \<and> workers rt' = workers rt @ map (read_worker \<circ> pd_kind) ss \<and>
    (\<forall>r \<in> set ss. is_leader L rt \<and> index_reached (rt_applied_index rt) (pd_read_index r))"
    using assms
  proof (induction rs arbitrary: rt still)
    case (Cons r rs)
    obtain mid k where m: "answer_read L r rt = (mid, k)" by fastforce
    obtain still' where d: "drain_pending (answer_read L) rs mid = (rt', still')"
      using Cons.prems m by (auto split: prod.splits)
    obtain ss where ss: "set ss \<subseteq> set rs" "workers rt' = workers mid @ map (read_worker \<circ> pd_kind) ss"
      "\<forall>r \<in> set ss. is_leader L mid \<and> index_reached (rt_applied_index mid) (pd_read_index r)"
      using Cons.IH [OF d] by blast
    have f: "is_leader L mid = is_leader L rt" "rt_applied_index mid = rt_applied_index rt"
      using m by (auto simp: answer_read_def is_leader_def send_read_error_def split: if_splits)
    show ?case
    proof (cases "workers mid = workers rt")
      case True
      then show ?thesis using ss f by (intro exI [of _ ss]) auto
    next
      case False
      then have "is_leader L rt" "index_reached (rt_applied_index rt) (pd_read_index r)"
        "workers mid = workers rt @ [read_worker (pd_kind r)]"
        using m by (auto simp: answer_read_def split: if_splits)
      then show ?thesis using ss f by (intro exI [of _ "r # ss"]) auto
    qed
  qed (auto intro: exI [of _ "[]"])
  then show ?thesis using that by blast
qed

lemma apply_nothing: "apply_locked st (applied st + 1) [] = (st\<lparr>applied := applied st + 1\<rparr>, Inr (NoValue, applied st + 1, []))"
  by (simp add: apply_locked_def)

text \<open>Empty commands change nothing a read can see.\<close>

lemma replayed_empty:
  assumes "replayed C n = Some st" "unat (applied st) = n" "\<And>k. n < k \<Longrightarrow> k \<le> n + d \<Longrightarrow> C k = []" "n + d < 2 ^ 64"
  shows "\<exists>st'. replayed C (n + d) = Some st' \<and> unat (applied st') = n + d \<and> kv st' = kv st \<and> sessions st' = sessions st"
  using assms(3,4)
proof (induction d)
  case (Suc d)
  then obtain st' where st': "replayed C (n + d) = Some st'" "unat (applied st') = n + d" "kv st' = kv st"
    "sessions st' = sessions st" by auto
  have "applied st' \<noteq> - 1" using st'(2) Suc.prems(2) unat_max64 by auto
  then have "unat (applied st' + 1) = Suc (n + d)" using st'(2) unat_succ by metis
  then show ?case
    using replayed_Suc [OF st'(1,2)] apply_nothing [of st'] Suc.prems(1) [of "Suc (n + d)"] st' by auto
qed (use assms in auto)

lemma flow_ok_read:
  assumes "flow_ok C m rt" "i \<le> rt_applied_index rt"
  shows "\<exists>j st. unat i \<le> j \<and> replayed C j = Some st \<and> kv st = kv (sm_store rt)"
proof (cases "i \<le> applied (sm_store rt)")
  case True
  then show ?thesis using assms(1) by (auto simp: flow_ok_def task_ok_def word_le_nat_alt)
next
  case False
  let ?n = "unat (applied (sm_store rt))"
  have "\<exists>st'. replayed C (?n + (unat i - ?n)) = Some st' \<and> unat (applied st') = ?n + (unat i - ?n) \<and>
      kv st' = kv (sm_store rt) \<and> sessions st' = sessions (sm_store rt)"
    using assms False unat64_bound [of i]
    by (intro replayed_empty) (auto simp: flow_ok_def task_ok_def word_le_nat_alt)
  moreover have "?n + (unat i - ?n) = unat i" using False by (simp add: word_le_nat_alt)
  ultimately show ?thesis by (metis order_refl)
qed

subsection \<open>Runs\<close>

text \<open>
  Runs in which raft hands over the committed log in order; the number is the last index it has
  handed over.
\<close>

inductive fed_run :: "'r lib \<Rightarrow> committed_log \<Rightarrow> 'r Runtime \<Rightarrow> nat \<Rightarrow> 'r Runtime \<Rightarrow> bool \<Rightarrow> bool" for L C rt\<^sub>0 where
  started: "flow_ok C m rt\<^sub>0 \<Longrightarrow> fed_run L C rt\<^sub>0 m rt\<^sub>0 True"
| turned: "fed_run L C rt\<^sub>0 m rt True \<Longrightarrow> runtime_turn L wake rt = (rt', go) \<Longrightarrow>
    (\<And>out. turn_outcome L wake rt = Some out \<Longrightarrow> in_order C m out m') \<Longrightarrow> fed_run L C rt\<^sub>0 m' rt' go"
| applied_one: "fed_run L C rt\<^sub>0 m rt go \<Longrightarrow>
    fed_run L C rt\<^sub>0 m (rt\<lparr>rt_shared := apply_task_step (rt_shared rt)\<rparr>) go"
| read_one: "fed_run L C rt\<^sub>0 m rt go \<Longrightarrow> fed_run L C rt\<^sub>0 m (run_worker i rt) go"
| consumed: "fed_run L C rt\<^sub>0 m rt go \<Longrightarrow> fed_run L C rt\<^sub>0 m (rt\<lparr>rt_watch := consume i n (rt_watch rt)\<rparr>) go"
| passed: "fed_run L C rt\<^sub>0 m rt go \<Longrightarrow> now rt \<le> t \<Longrightarrow>
    fed_run L C rt\<^sub>0 m (rt\<lparr>rt_env := (rt_env rt)\<lparr>ev_now := t, ev_closed := cl, ev_session_clock := clock\<rparr>\<rparr>) go"

definition task_failed :: "'r Runtime \<Rightarrow> bool" where
  "task_failed rt \<longleftrightarrow> stopped (rt_shared rt) \<and> ap_failed (sh_progress (rt_shared rt))"

lemma pipe_failed: "pipe rt' = pipe rt \<Longrightarrow> task_failed rt' = task_failed rt"
  by (simp add: pipe_def task_failed_def stopped_def)

lemma failed_task_ends: "task_failed rt \<Longrightarrow> runtime_turn L wake rt = (rt', go) \<Longrightarrow> \<not> go"
proof -
  assume f: "task_failed rt" and t: "runtime_turn L wake rt = (rt', go)"
  obtain a ga where a: "handle_wake L wake rt = (a, ga)" by fastforce
  then have "ap_failed (sh_progress (rt_shared a))"
    using f handle_wake_pipe by (fastforce simp: pipe_def task_failed_def)
  then show "\<not> go" using t a by (cases ga) (auto simp: runtime_turn_def drive_cycle_def absorb_progress_def Let_def)
qed

lemma stopping_fails: "stopped (apply_task_step sh) \<Longrightarrow> stopped sh \<or> ap_failed (sh_progress (apply_task_step sh))"
  by (auto simp: apply_task_step_def take_request_def apply_entry_def send_outcome_def stopped_def task_fail_def Let_def
      split: TaskPoint.splits list.splits ApplyRequest.splits option.splits prod.splits sum.splits if_splits)

lemma apply_step_flow:
  assumes "flow_ok C m rt" and r: "rt' = rt\<lparr>rt_shared := apply_task_step (rt_shared rt)\<rparr>"
  shows "flow_ok C m rt' \<or> task_failed rt'"
proof (cases "stopped (apply_task_step (rt_shared rt))")
  case True
  then consider "stopped (rt_shared rt)" | "ap_failed (sh_progress (apply_task_step (rt_shared rt)))"
    using stopping_fails by blast
  then show ?thesis
  proof cases
    case 1
    then have "rt' = rt" using r by (simp add: stopped_def apply_task_step_def)
    then show ?thesis using assms(1) by simp
  next
    case 2
    then show ?thesis using True r by (simp add: task_failed_def)
  qed
next
  case False
  let ?d = "case rt_deferred rt of None \<Rightarrow> [] | Some b \<Rightarrow> batch_feed b"
  have "continues C (unat (applied (sm_store rt))) (channel_feed (rt_shared rt) @ ?d @ queue_feed rt) = Some m"
    using assms(1) by (simp add: flow_ok_def sent_feed_def)
  note s = apply_task_step_ok [OF _ this False]
  then show ?thesis using assms by (auto simp: flow_ok_def sent_feed_def queue_feed_def word_le_nat_alt)
qed

lemma run_worker_pipe [simp]: "pipe (run_worker i rt) = pipe rt"
  by (simp add: run_worker_def Let_def split: prod.split)

lemma fed_run_flow: "fed_run L C rt\<^sub>0 m rt go \<Longrightarrow> go \<Longrightarrow> flow_ok C m rt \<or> task_failed rt"
proof (induction rule: fed_run.induct)
  case (turned m rt wake rt' go m')
  then show ?case using turn_flow_ok [of C m rt L wake rt' m'] failed_task_ends [of rt L wake rt' go] by auto
next
  case (applied_one m rt go)
  then show ?case
  proof (cases "flow_ok C m rt")
    case False
    then have "task_failed rt" using applied_one by simp
    then have "apply_task_step (rt_shared rt) = rt_shared rt" by (simp add: task_failed_def stopped_def apply_task_step_def)
    then show ?thesis using \<open>task_failed rt\<close> by simp
  qed (use apply_step_flow in blast)
next
  case (read_one m rt go i)
  then show ?case using flow_ok_pipe [OF run_worker_pipe] pipe_failed [OF run_worker_pipe] by blast
next
  case (consumed m rt go i n)
  then show ?case using flow_ok_pipe [OF pipe_frame(5)] pipe_failed [OF pipe_frame(5)] by blast
next
  case (passed m rt go t cl clock)
  then show ?case using flow_ok_pipe [OF pipe_frame(3)] pipe_failed [OF pipe_frame(3)] by blast
qed auto

subsection \<open>Properties\<close>

text \<open>
  C2: the state machine of a node is the replay of the committed log.  In any run in which raft
  hands over the committed log in order, with snapshots of it ahead, and however the loop, the
  apply task and the readers interleave: as long as the apply task has not reported a failure, the
  store is exactly what applying the committed commands up to its applied index gives; what is
  still on its way, through the channel, the deferred batch and the queue behind a membership
  change, continues the log without a gap up to the last index handed over; and the next entry the
  task applies is the one after its applied index, so that it is never refused for its index.
\<close>

theorem replica_replays_committed_log:
  assumes "fed_run L C rt\<^sub>0 m rt True" "\<not> task_failed rt"
  shows "replayed C (unat (applied (sm_store rt))) = Some (sm_store rt) \<and>
    continues C (unat (applied (sm_store rt))) (sent_feed rt @ queue_feed rt) = Some m \<and>
    (\<forall>i bs rest. at_point (sh_task (rt_shared rt)) = Applying ((i, bs) # rest) \<longrightarrow>
       i = applied (sm_store rt) + 1 \<and> bs = C (unat i))"
proof -
  have f: "flow_ok C m rt" using fed_run_flow [OF assms(1)] assms(2) by simp
  have "i = applied (sm_store rt) + 1 \<and> bs = C (unat i)"
    if "at_point (sh_task (rt_shared rt)) = Applying ((i, bs) # rest)" for i bs rest
  proof -
    have n: "unat i = Suc (unat (applied (sm_store rt)))" "bs = C (unat i)"
      using f that by (auto simp: flow_ok_def sent_feed_def channel_feed_def split: if_splits)
    then have "applied (sm_store rt) \<noteq> - 1" using unat64_bound [of i] unat_max64 by auto
    then show ?thesis using n unat_succ [of "applied (sm_store rt)"] by (simp add: word_unat_eq_iff)
  qed
  then show ?thesis using f by (simp add: flow_ok_def task_ok_def)
qed

definition sample_fed :: "Ready list Runtime" where
  "sample_fed = sample_runtime\<lparr>rt_shared := sample_shared\<lparr>sh_applies := [Batch \<lparr>ab_snapshot = None, ab_entries = [(1, [])]\<rparr>]\<rparr>\<rparr>"

definition sample_applied :: "Ready list Runtime" where
  "sample_applied = sample_fed\<lparr>rt_shared := apply_task_step (apply_task_step (rt_shared sample_fed))\<rparr>"

lemma sample_fed_run: "fed_run sample_lib (\<lambda>_. []) sample_fed 1 sample_applied True"
proof -
  have "flow_ok (\<lambda>_. []) 1 sample_fed"
    by (simp add: flow_ok_def task_ok_def sample_fed_def sample_runtime_def sample_shared_def replayed_def kv_new_def
        empty_store_def sent_feed_def channel_feed_def queue_feed_def batch_feed_def)
  from fed_run.applied_one [OF fed_run.applied_one [OF fed_run.started [OF this]]]
  show ?thesis by (simp add: sample_applied_def)
qed

theorem replica_replays_committed_log_witness:
  "fed_run sample_lib (\<lambda>_. []) sample_fed 1 sample_applied True \<and> applied (sm_store sample_applied) = 1 \<and>
   replayed (\<lambda>_. []) 1 = Some (sm_store sample_applied)"
proof -
  have a: "applied (sm_store sample_applied) = 1" "\<not> task_failed sample_applied"
    by (simp_all add: sample_applied_def sample_fed_def sample_runtime_def sample_shared_def apply_task_step_def
        take_request_def apply_entry_def apply_with_events_and_index_def apply_locked_def kv_new_def empty_store_def
        task_failed_def move_task_def stopped_def)
  then show ?thesis using replica_replays_committed_log [OF sample_fed_run a(2)] sample_fed_run by simp
qed

end
