(* ===== verification/RuntimeReads.thy ===== *)
theory RuntimeReads
  imports RuntimeApply
begin

text \<open>
  Linearizable reads.  A read waits in \<open>rt_pending_reads\<close> until raft has confirmed an index for the
  round it was asked in; this theory follows the rounds asked of raft and the confirmations raft
  gives through a run, and shows that no reader is started before both.
\<close>

subsection \<open>The rounds of a turn\<close>

text \<open>
  A turn asks raft for the token \<open>t\<close> when its read round changes the node exactly as
  \<open>read_index\<close> with the context of \<open>t\<close> does; it is told the read states of its step.
\<close>

definition turn_asked :: "'r lib \<Rightarrow> Wake \<Rightarrow> 'r Runtime \<Rightarrow> u64 set" where
  "turn_asked L wake rt =
     (let a = fst (handle_wake L wake rt); b = fst (absorb_progress a); c = fst (poll_snapshot b)
      in {t. rt_node (issue_read_round L c) = read_index L (be64 t) (rt_node c)})"

definition turn_told :: "'r lib \<Rightarrow> Wake \<Rightarrow> 'r Runtime \<Rightarrow> (bytes \<times> LogIndex) set" where
  "turn_told L wake rt = (case turn_outcome L wake rt of None \<Rightarrow> {} | Some out \<Rightarrow> set (so_read_states out))"

definition read_acks :: "'r Runtime \<Rightarrow> ack set" where
  "read_acks rt = (kind_ack \<circ> pd_kind) ` set (rt_pending_reads rt)"

text \<open>
  What is known of a pending read: it was there from the start, or nothing was asked for it, or
  its round was asked and an index it holds is one raft gave for that round.
\<close>

definition read_ok :: "ack set \<Rightarrow> u64 set \<Rightarrow> (bytes \<times> LogIndex) set \<Rightarrow> PendingRead \<Rightarrow> bool" where
  "read_ok old asked told r \<longleftrightarrow> kind_ack (pd_kind r) \<in> old \<or>
     (case pd_token r of
        None \<Rightarrow> pd_read_index r = None
      | Some t \<Rightarrow> t \<in> asked \<and> (\<forall>i. pd_read_index r = Some i \<longrightarrow> (be64 t, i) \<in> told))"

abbreviation reads_ok :: "ack set \<Rightarrow> u64 set \<Rightarrow> (bytes \<times> LogIndex) set \<Rightarrow> 'r Runtime \<Rightarrow> bool" where
  "reads_ok old asked told rt \<equiv> (\<forall>r \<in> set (rt_pending_reads rt). read_ok old asked told r)"

lemma read_ok_more: "read_ok old asked told r \<Longrightarrow> asked \<subseteq> asked' \<Longrightarrow> told \<subseteq> told' \<Longrightarrow> read_ok old asked' told' r"
  by (auto simp: read_ok_def split: option.splits)

lemma be64_of_be64 [simp]: "length ctx = 8 \<Longrightarrow> be64 (of_be64 ctx) = ctx"
  by (simp add: be64_def of_be64_def codec)

lemma of_be64_be64 [simp]: "of_be64 (be64 t) = t" "length (be64 t) = 8"
  by (simp_all add: be64_def of_be64_def codec)

subsection \<open>What leaves the pending reads alone\<close>

lemma frame_reads [simp]:
  "rt_pending_reads (send_error p e rt) = rt_pending_reads rt"
  "rt_pending_reads (note_session cid seqn rt) = rt_pending_reads rt"
  "rt_pending_reads (attribute_entry x rt) = rt_pending_reads rt"
  by (simp_all add: send_error_def note_session_def attribute_entry_def Let_def split: prod.split option.split)

lemma fold_reads: "(\<And>x rt. rt_pending_reads (f x rt) = rt_pending_reads rt) \<Longrightarrow>
    rt_pending_reads (fold f xs rt) = rt_pending_reads rt"
  by (induction xs arbitrary: rt) simp_all

lemma route_inbound_reads [simp]: "rt_pending_reads (route_inbound L m rt) = rt_pending_reads rt"
  by (simp add: route_inbound_def start_snapshot_fetch_def split: option.split prod.split)

lemma take_reads [simp]:
  "rt_pending_reads (take_outcomes rt) = rt_pending_reads rt"
  "rt_pending_reads (take_watch_events rt) = rt_pending_reads rt"
proof -
  have "rt_pending_reads (dispatch_one e rt) = rt_pending_reads rt" for e and rt :: "'a Runtime"
    by (simp add: dispatch_one_def split: prod.split)
  then have "rt_pending_reads (dispatch_watch_events es rt) = rt_pending_reads rt" for es and rt :: "'a Runtime"
    by (simp add: dispatch_watch_events_def Let_def fold_reads)
  then show "rt_pending_reads (take_watch_events rt) = rt_pending_reads rt"
    unfolding take_watch_events_def by (subst fold_reads) (auto split: prod.split)
qed (simp add: take_outcomes_def)

lemma flush_deferred_reads: "flush_deferred rt = (rt', go) \<Longrightarrow> rt_pending_reads rt' = rt_pending_reads rt"
  by (auto simp: flush_deferred_def split: option.splits if_splits)

lemma enqueue_reads: "enqueue_apply s es rt = (rt', go) \<Longrightarrow> rt_pending_reads rt' = rt_pending_reads rt"
  by (auto simp: enqueue_apply_def Let_def fold_reads split: option.splits if_splits dest!: flush_deferred_reads)

lemma pump_committed_reads: "pump_committed L rt = (rt', True) \<Longrightarrow> rt_pending_reads rt' = rt_pending_reads rt"
proof -
  have "case pump_committed L rt of (rt', go) \<Rightarrow> if go then rt_pending_reads rt' = rt_pending_reads rt else True"
    by (rule pump_committed_rule [where F = "\<lambda>_. True"]) (auto dest!: enqueue_reads split: prod.split sum.split)
  then show "pump_committed L rt = (rt', True) \<Longrightarrow> rt_pending_reads rt' = rt_pending_reads rt" by simp
qed

lemma stage_committed_reads: "stage_committed L s es rt = (rt', True) \<Longrightarrow> rt_pending_reads rt' = rt_pending_reads rt"
  by (auto simp: stage_committed_def Let_def split: option.splits prod.splits bool.splits
      dest!: pump_committed_reads enqueue_reads)

lemma absorb_reads: "absorb_progress rt = (rt', True) \<Longrightarrow> rt_pending_reads rt' = rt_pending_reads rt"
  by (auto simp: absorb_progress_def Let_def split: if_splits)

lemma poll_reads: "poll_snapshot rt = (rt', True) \<Longrightarrow> rt_pending_reads rt' = rt_pending_reads rt"
  by (auto simp: poll_snapshot_def Let_def split: option.splits sum.splits prod.splits if_splits)

lemma resolve_transfers_reads [simp]: "rt_pending_reads (resolve_transfers L rt) = rt_pending_reads rt"
proof -
  have "rt_pending_reads (fst (answer_transfer leader h p rt)) = rt_pending_reads rt" for leader h p and rt :: "'a Runtime"
    by (simp add: answer_transfer_def)
  then show ?thesis
    by (auto simp: resolve_transfers_def split: prod.split dest!: drain_keeps [where g = rt_pending_reads])
qed

subsection \<open>What a turn does to them\<close>

lemma handle_command_reads:
  "r \<in> set (rt_pending_reads (handle_command L c rt)) \<Longrightarrow>
     r \<in> set (rt_pending_reads rt) \<or> pd_token r = None \<and> pd_read_index r = None"
  by (cases c) (auto simp: start_proposal_def handle_transfer_def handle_conf_change_def propose_change_def handle_watch_def
      handle_read_def handle_multi_get_def handle_wait_applied_def new_read_def Let_def
      split: if_splits option.splits sum.splits prod.splits ReadConsistency.splits)

lemma handle_commands_ok: "reads_ok old asked told rt \<Longrightarrow> reads_ok old asked told (fold (handle_command L) cs rt)"
proof (induction cs arbitrary: rt)
  case (Cons c cs)
  have "reads_ok old asked told (handle_command L c rt)"
    using Cons.prems by (auto simp: read_ok_def dest!: handle_command_reads)
  then show ?case using Cons.IH by simp
qed simp

lemma handle_wake_ok:
  assumes "reads_ok old asked told rt" "handle_wake L wake rt = (rt', go)"
  shows "reads_ok old asked told rt'"
proof -
  have "rt_pending_reads (finish_snapshot_fetch L d rt) \<in> {rt_pending_reads rt, []}" for d
    by (auto simp: finish_snapshot_fetch_def Let_def fail_all_pending_spec(3) split: option.splits sum.splits prod.splits)
  then have "reads_ok old asked told (finish_snapshot_fetch L d rt)" for d
    using assms(1) by (metis empty_iff empty_set insert_iff singletonD)
  then show ?thesis
    using assms handle_commands_ok [OF assms(1)]
    by (cases wake) (auto simp: fold_reads fail_all_pending_spec(3))
qed

lemma issue_read_round_ok:
  assumes "reads_ok old asked told c" and d: "d = issue_read_round L c"
    and a: "asked' = asked \<union> {t. rt_node d = read_index L (be64 t) (rt_node c)}"
  shows "reads_ok old asked' told d" "\<forall>r \<in> set (rt_pending_reads d). pd_token r \<noteq> None"
proof -
  define token where "token = (if rt_next_read_token c = 0 then 1 else rt_next_read_token c)"
  show "reads_ok old asked' told d"
  proof (cases "\<exists>r \<in> set (rt_pending_reads c). pd_token r = None")
    case True
    then have n: "rt_node d = read_index L (be64 token) (rt_node c)"
      and p: "rt_pending_reads d = map (\<lambda>r. if pd_token r = None then r\<lparr>pd_token := Some token\<rparr> else r) (rt_pending_reads c)"
      by (simp_all add: d issue_read_round_def token_def Let_def)
    have "token \<in> asked'" using n a by simp
    then have "read_ok old asked' told (if pd_token r = None then r\<lparr>pd_token := Some token\<rparr> else r)"
      if "r \<in> set (rt_pending_reads c)" for r
      using bspec [OF assms(1) that] a by (cases "pd_token r") (auto simp: read_ok_def)
    then show ?thesis by (auto simp only: p set_map)
  next
    case False
    then have "d = c" unfolding d issue_read_round_def by (simp only: if_False)
    then show ?thesis using assms(1) a by (auto intro: read_ok_more)
  qed
  show "\<forall>r \<in> set (rt_pending_reads d). pd_token r \<noteq> None"
    by (auto simp: d issue_read_round_def Let_def split: if_splits)
qed

lemma note_read_state_ok:
  assumes "reads_ok old asked told rt" "\<forall>r \<in> set (rt_pending_reads rt). pd_token r \<noteq> None"
  shows "reads_ok old asked (insert s told) (note_read_state s rt)"
    "\<forall>r \<in> set (rt_pending_reads (note_read_state s rt)). pd_token r \<noteq> None"
proof -
  obtain ctx i where s: "s = (ctx, i)" by (cases s)
  define upd where "upd r = (if pd_token r = (if of_be64 ctx = 0 then None else Some (of_be64 ctx)) then
     r\<lparr>pd_read_index := Some i, pd_deadline := now rt + cg_read_index_timeout (rt_cfg rt)\<rparr> else r)" for r :: PendingRead
  have p: "rt_pending_reads (note_read_state s rt) = (if length ctx = 8 then map upd (rt_pending_reads rt) else rt_pending_reads rt)"
    by (simp add: s note_read_state_def upd_def Let_def)
  have "read_ok old asked (insert s told) (upd r)" if "r \<in> set (rt_pending_reads rt)" "length ctx = 8" for r
    using bspec [OF assms(1) that(1)] bspec [OF assms(2) that(1)] that(2)
    by (cases "pd_token r") (auto simp: read_ok_def upd_def s)
  moreover have "read_ok old asked (insert s told) r" if "r \<in> set (rt_pending_reads rt)" for r
    using bspec [OF assms(1) that] by (rule read_ok_more) auto
  ultimately show "reads_ok old asked (insert s told) (note_read_state s rt)" unfolding p by simp
  show "\<forall>r \<in> set (rt_pending_reads (note_read_state s rt)). pd_token r \<noteq> None"
    using assms by (auto simp: s note_read_state_def Let_def)
qed

lemma note_read_states_ok:
  assumes "reads_ok old asked told rt" "\<forall>r \<in> set (rt_pending_reads rt). pd_token r \<noteq> None"
  shows "reads_ok old asked (told \<union> set ss) (fold note_read_state ss rt)"
  using assms
proof (induction ss arbitrary: told rt)
  case (Cons s ss)
  note n = note_read_state_ok [OF Cons.prems, of s]
  show ?case using Cons.IH [OF n] by simp
qed simp

lemma drain_reads_ok:
  assumes "drain_pending (answer_read L) rs rt = (rt', still)" "\<forall>r \<in> set rs. read_ok old asked told r"
  shows "\<forall>r \<in> set still. read_ok old asked told r"
  using assms
proof (induction rs arbitrary: rt still)
  case (Cons r rs)
  obtain mid k where m: "answer_read L r rt = (mid, k)" by fastforce
  obtain still' where d: "drain_pending (answer_read L) rs mid = (rt', still')"
    "still = (case k of None \<Rightarrow> still' | Some p \<Rightarrow> p # still')"
    using Cons.prems m by (auto split: prod.splits option.splits)
  have "\<forall>p. k = Some p \<longrightarrow> read_ok old asked told p"
    using m Cons.prems(2) by (auto simp: answer_read_def read_ok_def split: if_splits)
  then show ?case using Cons.IH [OF d(1)] Cons.prems(2) d(2) by (auto split: option.splits)
qed simp

lemma resolves_reads [simp]:
  "rt_pending_reads (reply_pendings rt) = rt_pending_reads rt"
  "rt_pending_reads (resolve_applied_waits rt) = rt_pending_reads rt"
proof -
  have "rt_pending_reads (fst (answer_conf pc rt)) = rt_pending_reads rt"
    "rt_pending_reads (fst (answer_proposal pn rt)) = rt_pending_reads rt"
    "rt_pending_reads (fst (answer_applied pa rt)) = rt_pending_reads rt" for pc pn pa and rt :: "'a Runtime"
    by (cases "pn_ack pn"; simp add: answer_conf_def answer_proposal_def answer_applied_def Let_def split: option.split)+
  then show "rt_pending_reads (reply_pendings rt) = rt_pending_reads rt"
    "rt_pending_reads (resolve_applied_waits rt) = rt_pending_reads rt"
    by (auto simp: resolve_applied_waits_def reply_pendings_def Let_def
      split: prod.split dest!: drain_keeps [where g = rt_pending_reads])
qed

lemma answer_waiting_ok:
  assumes ok: "reads_ok old asked told rt"
    and m: "maybe_snapshot (maybe_collect_sessions L (answer_waiting L rt)) = (rt', True)"
  shows "reads_ok old asked told rt'"
    "\<exists>ss. workers rt' = workers rt @ map (read_worker \<circ> pd_kind) ss \<and>
       (\<forall>r \<in> set ss. read_ok old asked told r \<and> index_reached (rt_applied_index rt') (pd_read_index r))"
proof -
  define f where "f = resolve_transfers L rt"
  obtain mid still where dm: "drain_pending (answer_read L) (rt_pending_reads f) f = (mid, still)" by fastforce
  have w: "answer_waiting L rt = reply_pendings (resolve_applied_waits (mid\<lparr>rt_pending_reads := still\<rparr>))"
    using dm by (simp add: answer_waiting_def f_def [symmetric] resolve_reads_def)
  have fr: "reads_ok old asked told f" using ok by (simp add: f_def)
  have "rt_pending_reads rt' = still" using maybe_snapshot_reads [OF m] by (simp add: w)
  then show "reads_ok old asked told rt'" using drain_reads_ok [OF dm fr] by simp
  obtain ss :: "PendingRead list" where ss: "set ss \<subseteq> set (rt_pending_reads f)"
    "workers mid = workers f @ map (read_worker \<circ> pd_kind) ss"
    "\<forall>r \<in> set ss. is_leader L f \<and> index_reached (rt_applied_index f) (pd_read_index r)"
    by (rule drain_reads_workers [OF dm])
  have "face rt' = face (answer_waiting L rt)"
    using maybe_snapshot_goes_on [of "maybe_collect_sessions L (answer_waiting L rt)"] m by (simp add: goes_on_def)
  then have "workers rt' = workers mid" by (simp add: w face_workers [of rt' "answer_waiting L rt"])
  moreover have "workers f = workers rt" by (simp add: f_def)
  moreover have "pipe rt' = pipe f" using maybe_snapshot_pipe [OF m] by (simp add: answer_waiting_def f_def)
  then have "rt_applied_index rt' = rt_applied_index f" by (simp add: pipe_def)
  ultimately show "\<exists>ss. workers rt' = workers rt @ map (read_worker \<circ> pd_kind) ss \<and>
       (\<forall>r \<in> set ss. read_ok old asked told r \<and> index_reached (rt_applied_index rt') (pd_read_index r))"
    using ss fr by (intro exI [of _ ss]) auto
qed

text \<open>
  The readers a turn starts for linearizable reads: each for a pending read that is accounted for,
  and only when the actor's applied index has reached the read's index.
\<close>

lemma turn_reads:
  assumes ok: "reads_ok old asked told rt" and t: "runtime_turn L wake rt = (rt', True)"
    and a': "asked' = asked \<union> turn_asked L wake rt" and t': "told' = told \<union> turn_told L wake rt"
  shows "reads_ok old asked' told' rt'"
    "\<exists>ss. workers rt' = workers rt @ concat (map stale_worker (wake_commands wake)) @ map (read_worker \<circ> pd_kind) ss \<and>
       (\<forall>r \<in> set ss. read_ok old asked' told' r \<and> index_reached (rt_applied_index rt') (pd_read_index r))"
proof -
  obtain a where a: "handle_wake L wake rt = (a, True)" "drive_cycle L a = (rt', True)"
    using t by (auto simp: runtime_turn_def split: prod.splits bool.splits)
  obtain b where b: "absorb_progress a = (b, True)"
    using a(2) by (auto simp: drive_cycle_def split: prod.splits bool.splits)
  obtain c where c: "poll_snapshot b = (c, True)"
    using a(2) b by (auto simp: drive_cycle_def split: prod.splits bool.splits)
  define d where "d = issue_read_round L c"
  obtain nd out where n: "node_step L (rt_node d) = (nd, Inr out)" and o: "after_step L out (d\<lparr>rt_node := nd\<rparr>) = (rt', True)"
    using a(2) b c by (auto simp: d_def drive_cycle_def Let_def split: prod.splits sum.splits)
  obtain e where e: "stage_committed L (so_snapshot out) (so_committed out) (d\<lparr>rt_node := nd\<rparr>) = (e, True)"
    "maybe_snapshot (maybe_collect_sessions L (answer_waiting L (fold note_read_state (so_read_states out) e))) = (rt', True)"
    using o by (auto simp: after_step_def split: prod.splits bool.splits)
  define g where "g = fold note_read_state (so_read_states out) e"
  have sets: "asked' = asked \<union> {t. rt_node d = read_index L (be64 t) (rt_node c)}" "told' = told \<union> set (so_read_states out)"
    using a b c n by (simp_all add: a' t' turn_asked_def turn_told_def turn_outcome_def Let_def d_def)
  have "reads_ok old asked told c"
    using handle_wake_ok [OF ok a(1)] absorb_reads [OF b] poll_reads [OF c] by simp
  note dr = issue_read_round_ok [OF this d_def sets(1)]
  have "rt_pending_reads e = rt_pending_reads d" using stage_committed_reads [OF e(1)] by simp
  then have "reads_ok old asked' told' g"
    using note_read_states_ok [of e old asked' told "so_read_states out"] dr by (simp add: g_def sets(2))
  note answered = answer_waiting_ok [OF this, of L rt', unfolded g_def, OF e(2)]
  show "reads_ok old asked' told' rt'" by (rule answered(1))
  have "face b = face a" "face c = face b" "face e = face (d\<lparr>rt_node := nd\<rparr>)"
    using absorb_progress_goes_on [of a] poll_snapshot_goes_on [of b] b c e(1)
      stage_committed_goes_on [of "d\<lparr>rt_node := nd\<rparr>" L "so_snapshot out" "so_committed out"]
    by (simp_all add: goes_on_def)
  then have "face (fold note_read_state (so_read_states out) e) = face a" by (simp add: d_def)
  then have "workers (fold note_read_state (so_read_states out) e) = workers a" by (rule face_workers)
  then show "\<exists>ss. workers rt' = workers rt @ concat (map stale_worker (wake_commands wake)) @ map (read_worker \<circ> pd_kind) ss \<and>
       (\<forall>r \<in> set ss. read_ok old asked' told' r \<and> index_reached (rt_applied_index rt') (pd_read_index r))"
    using answered(2) handle_wake_workers [OF a(1)] by simp
qed

subsection \<open>Runs\<close>

text \<open>
  A run as in \<open>fed_run\<close>, with the rounds asked and the confirmations given since its start.
\<close>

inductive read_run :: "'r lib \<Rightarrow> committed_log \<Rightarrow> 'r Runtime \<Rightarrow> nat \<Rightarrow> u64 set \<Rightarrow> (bytes \<times> LogIndex) set \<Rightarrow>
    'r Runtime \<Rightarrow> bool \<Rightarrow> bool" for L C rt\<^sub>0 where
  started: "flow_ok C m rt\<^sub>0 \<Longrightarrow> read_run L C rt\<^sub>0 m {} {} rt\<^sub>0 True"
| turned: "read_run L C rt\<^sub>0 m asked told rt True \<Longrightarrow> runtime_turn L wake rt = (rt', go) \<Longrightarrow>
    (\<And>out. turn_outcome L wake rt = Some out \<Longrightarrow> in_order C m out m') \<Longrightarrow>
    read_run L C rt\<^sub>0 m' (asked \<union> turn_asked L wake rt) (told \<union> turn_told L wake rt) rt' go"
| applied_one: "read_run L C rt\<^sub>0 m asked told rt go \<Longrightarrow>
    read_run L C rt\<^sub>0 m asked told (rt\<lparr>rt_shared := apply_task_step (rt_shared rt)\<rparr>) go"
| read_one: "read_run L C rt\<^sub>0 m asked told rt go \<Longrightarrow> read_run L C rt\<^sub>0 m asked told (run_worker i rt) go"
| consumed: "read_run L C rt\<^sub>0 m asked told rt go \<Longrightarrow>
    read_run L C rt\<^sub>0 m asked told (rt\<lparr>rt_watch := consume i n (rt_watch rt)\<rparr>) go"
| passed: "read_run L C rt\<^sub>0 m asked told rt go \<Longrightarrow> now rt \<le> t \<Longrightarrow>
    read_run L C rt\<^sub>0 m asked told (rt\<lparr>rt_env := (rt_env rt)\<lparr>ev_now := t, ev_closed := cl, ev_session_clock := clock\<rparr>\<rparr>) go"

lemma read_run_fed: "read_run L C rt\<^sub>0 m asked told rt go \<Longrightarrow> fed_run L C rt\<^sub>0 m rt go"
  by (induction rule: read_run.induct) (auto intro: fed_run.intros)

lemma read_run_ok: "read_run L C rt\<^sub>0 m asked told rt go \<Longrightarrow> go \<Longrightarrow> reads_ok (read_acks rt\<^sub>0) asked told rt"
proof (induction rule: read_run.induct)
  case (started m)
  then show ?case by (auto simp: read_ok_def read_acks_def)
next
  case (turned m asked told rt wake rt' go m')
  then show ?case using turn_reads(1) [where old = "read_acks rt\<^sub>0", OF _ _ refl refl] by simp
qed simp_all

subsection \<open>Properties\<close>

text \<open>
  C4: linearizable reads see what they must.  Start from any state \<open>rt\<^sub>0\<close> of the actor, let it run while
  raft hands over the committed log in order, and take one more turn of the loop.  Besides the
  stale reads of the turn's own requests, it starts a reader for a request that was not yet waiting in \<open>rt\<^sub>0\<close>
  only when, since \<open>rt\<^sub>0\<close>, a read round was asked of raft and raft has confirmed an index for that
  very round, and the keys and values of the state machine are then those after at least the
  commands up to the confirmed index.  This holds although the actor counts a membership change as
  applied before the state machine has seen it, and for the second attempt of a read as for the first.
\<close>

theorem linearizable_reads_see_confirmed_index:
  assumes "read_run L C rt\<^sub>0 m asked told rt True" "runtime_turn L wake rt = (rt', True)"
    and "\<And>out. turn_outcome L wake rt = Some out \<Longrightarrow> in_order C m out m'"
  shows "\<exists>ws. workers rt' = workers rt @ concat (map stale_worker (wake_commands wake)) @ ws \<and>
    (\<forall>w \<in> set ws. worker_ack w \<notin> read_acks rt\<^sub>0 \<longrightarrow>
       (\<exists>t i j st. t \<in> asked \<union> turn_asked L wake rt \<and> (be64 t, i) \<in> told \<union> turn_told L wake rt \<and>
          unat i \<le> j \<and> replayed C j = Some st \<and> kv st = kv (sm_store rt')))"
proof -
  have "flow_ok C m rt" using fed_run_flow [OF read_run_fed [OF assms(1)]] failed_task_ends [OF _ assms(2)] by auto
  then have f: "flow_ok C m' rt'" using turn_flow_ok assms(2,3) by blast
  obtain ss where
    ss: "workers rt' = workers rt @ concat (map stale_worker (wake_commands wake)) @ map (read_worker \<circ> pd_kind) ss"
      "\<forall>r \<in> set ss. read_ok (read_acks rt\<^sub>0) (asked \<union> turn_asked L wake rt) (told \<union> turn_told L wake rt) r \<and>
         index_reached (rt_applied_index rt') (pd_read_index r)"
    using turn_reads(2) [OF read_run_ok [OF assms(1) TrueI] assms(2) refl refl] by blast
  have "\<exists>t i j st. t \<in> asked \<union> turn_asked L wake rt \<and> (be64 t, i) \<in> told \<union> turn_told L wake rt \<and>
      unat i \<le> j \<and> replayed C j = Some st \<and> kv st = kv (sm_store rt')"
    if r: "r \<in> set ss" "kind_ack (pd_kind r) \<notin> read_acks rt\<^sub>0" for r
  proof -
    obtain i where i: "pd_read_index r = Some i" "i \<le> rt_applied_index rt'"
      using bspec [OF ss(2) r(1)] by (cases "pd_read_index r") (auto simp: index_reached_def)
    then obtain t where "t \<in> asked \<union> turn_asked L wake rt" "(be64 t, i) \<in> told \<union> turn_told L wake rt"
      using bspec [OF ss(2) r(1)] r(2) by (cases "pd_token r") (auto simp: read_ok_def)
    then show ?thesis using flow_ok_read [OF f i(2)] by blast
  qed
  then show ?thesis using ss(1) by (intro exI [of _ "map (read_worker \<circ> pd_kind) ss"]) auto
qed

text \<open>A raft that confirms index 0 for every round, in the next \<open>Ready\<close>.\<close>

definition confirming_lib :: "Ready list lib" where
  "confirming_lib = sample_lib\<lparr>raw_read_index := (\<lambda>_ ctx rs. rs @ [\<lparr>rd_number = 1, rd_hs = None, rd_read_states = [(ctx, 0)],
     rd_entries = [], rd_snapshot = mg_snapshot (sample_message 2 []), rd_messages = [], rd_persisted_messages = [],
     rd_committed_entries = []\<rparr>])\<rparr>"

definition confirmed_node :: "Ready list RaftNode" where
  "confirmed_node = fst (node_step confirming_lib (read_index confirming_lib (be64 1) sample_node))"

lemma confirmed_step:
  "node_step confirming_lib (read_index confirming_lib (be64 1) sample_node) =
     (confirmed_node, Inr (outcome_default\<lparr>so_read_states := [(be64 1, 0)]\<rparr>))"
  "nd_raw confirmed_node = []"
  unfolding confirmed_node_def
  by (simp_all add: node_step_def finish_persisted_def submit_ready_def take_ready_def ready_snapshot_def confirming_lib_def
      sample_node_def new_with_config_def sample_lib_def sample_message_def read_index_def on_raw_def
      on_store_def st_persist_ready_records_def adapt_def persist_ready_records_def with_conf_state_def
      streamed_snapshots_def node_config_default_def reopened_def flush_landed_def finish_cycle_def committed_of_def
      record_call_def record_write_def deliver_all_def MAX_IN_FLIGHT_READIES_def outcome_default_def comp_defs Let_def)

definition sample_read :: "Ready list Runtime" where
  "sample_read = sample_runtime\<lparr>rt_env := sample_env\<lparr>ev_workers := [WGet [5] 4]\<rparr>, rt_node := confirmed_node, rt_next_read_token := 2\<rparr>"

lemma confirming_leader [simp]: "raw_leader confirming_lib rs = 1"
  by (simp add: confirming_lib_def)

lemma sample_read_turn: "runtime_turn confirming_lib (OnCommands [CmdRead [5] 4]) sample_runtime = (sample_read, True)"
  by (simp add: turn_defs sample_read_def sample_runtime_def sample_shared_def sample_env_def
      sample_config_def confirmed_step answer_read_def is_leader_def leader_id_def handle_read_def
      new_read_def MAX_PENDING_READS_def note_read_state_def
      index_reached_def release_guard_def spawn_worker_def WAL_SAMPLE_INTERVAL_def Let_def List.map_filter_def)

theorem linearizable_reads_see_confirmed_index_witness:
  "runtime_turn confirming_lib (OnCommands [CmdRead [5] 4]) sample_runtime = (sample_read, True) \<and>
   workers sample_read = [WGet [5] 4] \<and>
   turn_told confirming_lib (OnCommands [CmdRead [5] 4]) sample_runtime = {(be64 1, 0)} \<and>
   (\<exists>t i j st. t \<in> turn_asked confirming_lib (OnCommands [CmdRead [5] 4]) sample_runtime \<and> (be64 t, i) = (be64 1, 0) \<and>
      unat i \<le> j \<and> replayed (\<lambda>_. []) j = Some st \<and> kv st = kv (sm_store sample_read))"
proof -
  let ?wake = "OnCommands [CmdRead [5] 4]"
  have f: "flow_ok (\<lambda>_. []) 0 sample_runtime"
    by (simp add: flow_ok_def task_ok_def sample_runtime_def sample_shared_def replayed_def kv_new_def
        empty_store_def sent_feed_def channel_feed_def queue_feed_def)
  have o: "turn_outcome confirming_lib ?wake sample_runtime = Some (outcome_default\<lparr>so_read_states := [(be64 1, 0)]\<rparr>)"
    by (simp add: turn_outcome_def sample_runtime_def sample_shared_def absorb_progress_def poll_snapshot_def
        issue_read_round_def handle_read_def new_read_def is_leader_def leader_id_def sample_config_def
        MAX_PENDING_READS_def confirmed_step Let_def)
  then have i: "\<And>out. turn_outcome confirming_lib ?wake sample_runtime = Some out \<Longrightarrow> in_order (\<lambda>_. []) 0 out 0"
    by (auto simp: in_order_def outcome_default_def)
  have told: "turn_told confirming_lib ?wake sample_runtime = {(be64 1, 0)}" using o by (simp add: turn_told_def)
  have w: "workers sample_runtime = []" "workers sample_read = [WGet [5] 4]" "read_acks sample_runtime = {}"
    by (simp_all add: sample_read_def sample_runtime_def sample_env_def read_acks_def)
  have "\<exists>t i j st. t \<in> turn_asked confirming_lib ?wake sample_runtime \<and> (be64 t, i) \<in> {(be64 1, 0)} \<and>
      unat i \<le> j \<and> replayed (\<lambda>_. []) j = Some st \<and> kv st = kv (sm_store sample_read)"
    using linearizable_reads_see_confirmed_index [OF read_run.started [OF f] sample_read_turn i] w told by auto
  then show ?thesis using sample_read_turn w(2) told by blast
qed

end
