(* ===== verification/Forwarding.thy ===== *)
theory Forwarding
  imports Runtime
begin

text \<open>
  Forwarding client commands to another process: the vocabulary of \<open>arachne-seam/src/seam/forward.rs\<close>,
  the sink through which a node runs a forwarded command on its own actor (\<open>ForwardCommandSink\<close> of
  \<open>arachne/src/runtime/mod.rs\<close>) with its stable error codes, and the client's reading of those codes
  (\<open>Handle::code_to_error\<close>).  The text inside an error is not modelled.
\<close>

subsection \<open>Asking an actor\<close>

text \<open>
  What comes back after a command was put on the channel of an actor: the answer, or nothing because
  the channel was closed or the actor dropped the reply sender.
\<close>

datatype 'a Awaited = Got 'a | ChannelClosed | SenderDropped

text \<open>
  The answers of one actor to each command, with the type of its reply channel.  What an actor
  answers is the subject of the runtime theories; here it is a parameter.
\<close>

record Actor =
  ac_conf_change :: "ConfChangeType \<Rightarrow> RaftId \<Rightarrow> (ArachneError + unit) Awaited"
  ac_membership :: "(ArachneError + (RaftId list \<times> RaftId list)) Awaited"
  ac_transfer_leader :: "RaftId option \<Rightarrow> (ArachneError + unit) Awaited"
  ac_propose :: "bytes \<Rightarrow> u64 \<Rightarrow> u64 \<Rightarrow> (ArachneError + ApplyOutcome) Awaited"
  ac_propose_with_index :: "bytes \<Rightarrow> u64 \<Rightarrow> u64 \<Rightarrow> (ArachneError + LogIndex) Awaited"
  ac_get_stale :: "bytes \<Rightarrow> (ArachneError + bytes option) Awaited"
  ac_get_stale_with_index :: "bytes \<Rightarrow> (ArachneError + (bytes \<times> LogIndex) option) Awaited"
  ac_get_stale_range :: "bytes \<Rightarrow> bytes \<Rightarrow> nat \<Rightarrow> (ArachneError + ((bytes \<times> bytes) list \<times> LogIndex \<times> bool)) Awaited"
  ac_multi_get :: "bytes list \<Rightarrow> ReadConsistency \<Rightarrow> (ArachneError + (bytes option list \<times> LogIndex)) Awaited"
  ac_watch :: "bytes \<Rightarrow> bytes \<Rightarrow> nat \<Rightarrow> (ArachneError + ((bytes \<times> bytes) list \<times> LogIndex \<times> bool \<times> nat)) Awaited"
  ac_read :: "bytes \<Rightarrow> (ArachneError + bytes option) Awaited"
  ac_leader_hint :: "Hint Awaited"
  ac_wait_applied :: "LogIndex \<Rightarrow> nat \<Rightarrow> (ArachneError + LogIndex) Awaited"

subsection \<open>Forwarded commands\<close>

datatype ForwardCommand =
    FwPropose bytes u64 u64
  | FwProposeWithIndex bytes u64 u64
  | FwRead bytes
  | FwGetStale bytes
  | FwMultiGet "bytes list" bool

record ForwardOutcome =
  fo_value :: "bytes option"
  fo_leader_hint :: Hint
  fo_result :: "ApplyOutcome option"
  fo_multi :: "(bytes option list \<times> LogIndex) option"
  fo_index :: "LogIndex option"

definition no_outcome :: ForwardOutcome where
  "no_outcome = \<lparr>fo_value = None, fo_leader_hint = None, fo_result = None, fo_multi = None, fo_index = None\<rparr>"

subsection \<open>Error codes\<close>

definition UNAVAILABLE_CODE :: string where "UNAVAILABLE_CODE = ''unavailable''"

definition stable_code :: "ArachneError \<Rightarrow> string" where
  "stable_code e =
     (case e of
        QuorumUnavailable \<Rightarrow> ''quorum_unavailable''
      | Timeout \<Rightarrow> ''timeout''
      | Busy \<Rightarrow> ''busy''
      | SessionExpired \<Rightarrow> ''session_expired''
      | SessionTableFull \<Rightarrow> ''session_table_full''
      | ShuttingDown \<Rightarrow> ''shutting_down''
      | InvalidArgument \<Rightarrow> ''invalid_argument''
      | Unsupported \<Rightarrow> ''unsupported''
      | _ \<Rightarrow> ''unrecoverable'')"

definition code_to_error :: "string \<Rightarrow> ArachneError" where
  "code_to_error code =
     (if code = ''quorum_unavailable'' then QuorumUnavailable
      else if code = ''unavailable'' \<or> code = ''command channel closed'' \<or> code = ''ack channel closed''
      then QuorumUnavailable
      else if code = ''timeout'' then Timeout
      else if code = ''busy'' then Busy
      else if code = ''session_expired'' then SessionExpired
      else if code = ''session_table_full'' then SessionTableFull
      else if code = ''shutting_down'' then ShuttingDown
      else if code = ''unknown_kind'' then Unsupported
      else if code = ''invalid_argument'' then InvalidArgument
      else if code = ''unsupported'' then Unsupported
      else ClientUnrecoverable)"

subsection \<open>The sink\<close>

text \<open>
  The end of every branch of \<open>sink\<close>: a value goes into its own field of the outcome, a refusal by a
  node that does not lead becomes an outcome with the hint, any other error its code.
\<close>

definition sink_reply :: "('a \<Rightarrow> ForwardOutcome) \<Rightarrow> (ArachneError + 'a) Awaited \<Rightarrow> string + ForwardOutcome" where
  "sink_reply success r =
     (case r of
        ChannelClosed \<Rightarrow> Inl UNAVAILABLE_CODE
      | SenderDropped \<Rightarrow> Inl UNAVAILABLE_CODE
      | Got (Inr x) \<Rightarrow> Inr (success x)
      | Got (Inl e) \<Rightarrow>
          (case e of NotLeader h \<Rightarrow> Inr (no_outcome\<lparr>fo_leader_hint := h\<rparr>) | _ \<Rightarrow> Inl (stable_code e)))"

text \<open>The key bytes a batched read reserves against the budget of the node.\<close>

definition key_bytes :: "bytes list \<Rightarrow> u64" where
  "key_bytes keys = sum_list (map len64 keys)"

fun sink :: "Actor \<Rightarrow> u64 \<Rightarrow> ForwardCommand \<Rightarrow> string + ForwardOutcome" where
  "sink ac used (FwPropose cmd cid seqn) =
     sink_reply (\<lambda>outcome. no_outcome\<lparr>fo_result := Some outcome\<rparr>) (ac_propose ac cmd cid seqn)"
| "sink ac used (FwProposeWithIndex cmd cid seqn) =
     sink_reply (\<lambda>index. no_outcome\<lparr>fo_index := Some index\<rparr>) (ac_propose_with_index ac cmd cid seqn)"
| "sink ac used (FwRead key) = sink_reply (\<lambda>v. no_outcome\<lparr>fo_value := v\<rparr>) (ac_read ac key)"
| "sink ac used (FwGetStale key) = sink_reply (\<lambda>v. no_outcome\<lparr>fo_value := v\<rparr>) (ac_get_stale ac key)"
| "sink ac used (FwMultiGet keys linearizable) =
     (if try_reserve used (key_bytes keys) = None then Inl ''busy''
      else sink_reply (\<lambda>pair. no_outcome\<lparr>fo_multi := Some pair\<rparr>)
             (ac_multi_get ac keys (if linearizable then Linearizable else Stale)))"

subsection \<open>What the codes carry\<close>

text \<open>The errors that keep their meaning across the wire.\<close>

definition has_code :: "ArachneError \<Rightarrow> bool" where
  "has_code e \<longleftrightarrow> e \<in> {QuorumUnavailable, Timeout, Busy, SessionExpired, SessionTableFull, ShuttingDown,
     InvalidArgument, Unsupported}"

lemma code_round_trip:
  "code_to_error (stable_code e) = (if has_code e then e else ClientUnrecoverable)"
  by (cases e) (simp_all add: code_to_error_def stable_code_def has_code_def)

lemma unavailable_code [simp]: "code_to_error UNAVAILABLE_CODE = QuorumUnavailable"
  by (simp add: code_to_error_def UNAVAILABLE_CODE_def)

end
