(* ===== verification/Transport.thy ===== *)
theory Transport
  imports Forwarding
begin

text \<open>
  The gRPC transport (\<open>arachne-transport-tonic\<close>): the handshake, the service of a listening node
  (\<open>server.rs\<close>), and the client side (\<open>transport.rs\<close>).  A call over the network is a parameter: it
  gives the reply of the called service or a status text.  Pacing and timeouts are left out.
\<close>

subsection \<open>The handshake\<close>

record Hello =
  he_protocol_major :: u32
  he_protocol_minor :: u32
  he_cluster_id :: bytes
  he_node_id :: NodeId
  he_feature_flags :: "bytes list"

definition build_hello :: "bytes \<Rightarrow> NodeId \<Rightarrow> u32 \<Rightarrow> u32 \<Rightarrow> bytes list \<Rightarrow> Hello" where
  "build_hello cluster node major minor flags =
     \<lparr>he_protocol_major = major, he_protocol_minor = minor, he_cluster_id = cluster, he_node_id = node,
      he_feature_flags = flags\<rparr>"

definition ERR_CLUSTER_ID_MISMATCH :: string where "ERR_CLUSTER_ID_MISMATCH = ''cluster_id_mismatch''"
definition ERR_PROTOCOL_MISMATCH :: string where "ERR_PROTOCOL_MISMATCH = ''protocol_mismatch''"
definition ERR_HELLO_MISSING :: string where "ERR_HELLO_MISSING = ''missing_hello''"

definition validate_hello :: "Hello \<Rightarrow> bytes \<Rightarrow> u32 \<Rightarrow> u32 \<Rightarrow> string option" where
  "validate_hello hello cluster major minor =
     (if he_cluster_id hello \<noteq> cluster then Some ERR_CLUSTER_ID_MISMATCH
      else if he_protocol_major hello \<noteq> major then Some ERR_PROTOCOL_MISMATCH
      else if he_protocol_minor hello > minor then Some ERR_PROTOCOL_MISMATCH
      else None)"

subsection \<open>Wire messages\<close>

record RaftEnvelope =
  en_payload :: bytes
  en_hello :: "Hello option"

record SendReply =
  sr_accepted :: bool
  sr_error_code :: string

record SnapshotRequest =
  sq_index :: u64
  sq_term :: u64
  sq_hello :: "Hello option"

record ForwardRequest =
  fq_kind :: u32
  fq_cmd :: bytes
  fq_key :: bytes
  fq_client_id :: u64
  fq_seq_no :: u64
  fq_hello :: "Hello option"
  fq_keys :: "bytes list"
  fq_linearizable :: bool

text \<open>A \<open>ForwardResult\<close> is its optional branch; a \<open>BytesValue\<close> or \<open>OptionalBytesValue\<close> is its field.\<close>

datatype ForwardKind = KindValue bytes | KindCasFailed u64 "bytes option"

record ForwardReply =
  fp_ok :: bool
  fp_error_code :: string
  fp_value :: bytes
  fp_leader_node_id :: bytes
  fp_leader_addr :: bytes
  fp_result :: "ForwardKind option option"
  fp_commit_index :: "u64 option"
  fp_multi_get :: "(bytes option list \<times> u64) option"

datatype Status = ResourceExhausted | Unavailable | PermissionDenied string | NotFound | Internal

subsection \<open>The service\<close>

text \<open>A snapshot opened for streaming: its declared length, and what reading it gives.\<close>

record SnapshotReader =
  rd_len :: nat
  rd_bytes :: bytes
  rd_broken :: bool

text \<open>
  The inbound queue is a
  bounded channel that may be closed; the sinks are looked up when a request arrives.
\<close>

record RaftTransportService =
  sv_cluster_id :: bytes
  sv_protocol_major :: u32
  sv_protocol_minor :: u32
  sv_rejects :: u64
  sv_inbound :: "(NodeId \<times> bytes) list"
  sv_inbound_open :: bool
  sv_snapshot_provider :: "(u64 \<Rightarrow> u64 \<Rightarrow> SnapshotReader option) option"
  sv_command_sinks :: "(NodeId \<times> (ForwardCommand \<Rightarrow> string + ForwardOutcome)) list"
  sv_node_id :: NodeId
  sv_snapshot_chunk_bytes :: nat

definition INBOUND_QUEUE_CAPACITY :: nat where "INBOUND_QUEUE_CAPACITY = 1024"
definition SNAPSHOT_CHUNK_BYTES :: nat where "SNAPSHOT_CHUNK_BYTES = 256 * 1024"

definition chunk_bytes_for :: "nat \<Rightarrow> nat" where
  "chunk_bytes_for max_message_size = min (max (max_message_size div 2) 1) SNAPSHOT_CHUNK_BYTES"

definition hello_error :: "RaftTransportService \<Rightarrow> Hello option \<Rightarrow> string option" where
  "hello_error sv hello =
     (case hello of
        None \<Rightarrow> Some ERR_HELLO_MISSING
      | Some h \<Rightarrow> validate_hello h (sv_cluster_id sv) (sv_protocol_major sv) (sv_protocol_minor sv))"

definition serve_send :: "RaftEnvelope \<Rightarrow> RaftTransportService \<Rightarrow> RaftTransportService \<times> (Status + SendReply)" where
  "serve_send envelope sv =
     (case en_hello envelope of
        None \<Rightarrow>
          (sv\<lparr>sv_rejects := sv_rejects sv + 1\<rparr>, Inr \<lparr>sr_accepted = False, sr_error_code = ERR_HELLO_MISSING\<rparr>)
      | Some hello \<Rightarrow>
          (case validate_hello hello (sv_cluster_id sv) (sv_protocol_major sv) (sv_protocol_minor sv) of
             Some code \<Rightarrow>
               (sv\<lparr>sv_rejects := sv_rejects sv + 1\<rparr>, Inr \<lparr>sr_accepted = False, sr_error_code = code\<rparr>)
           | None \<Rightarrow>
               if \<not> sv_inbound_open sv then (sv, Inl Unavailable)
               else if length (sv_inbound sv) \<ge> INBOUND_QUEUE_CAPACITY then (sv, Inl ResourceExhausted)
               else (sv\<lparr>sv_inbound := sv_inbound sv @ [(he_node_id hello, en_payload envelope)]\<rparr>,
                     Inr \<lparr>sr_accepted = True, sr_error_code = []\<rparr>)))"

text \<open>
  Reading a snapshot of declared length \<open>remaining\<close>: full chunks, a shorter one where the bytes
  run out, and an error if they run out before the declared length.  A failing read, which happens
  behind the bytes \<open>bs\<close> if \<open>broken\<close>, ends the stream with an error as well, and drops the chunk
  it interrupts.
\<close>

function stream_snapshot :: "nat \<Rightarrow> bool \<Rightarrow> nat \<Rightarrow> bytes \<Rightarrow> (Status + bytes) list" where
  "stream_snapshot chunk_bytes broken remaining bs =
     (if remaining = 0 then []
      else
        let want = min remaining chunk_bytes; buf = take want bs
        in if broken \<and> length buf < want \<or> buf = [] then [Inl Internal]
           else Inr buf # stream_snapshot chunk_bytes broken (remaining - length buf) (drop (length buf) bs))"
  by pat_completeness auto
termination
  by (relation "measure (\<lambda>(c, b, r, bs). length bs)") auto

declare stream_snapshot.simps [simp del]

definition serve_fetch_snapshot ::
    "SnapshotRequest \<Rightarrow> RaftTransportService \<Rightarrow> RaftTransportService \<times> (Status + (Status + bytes) list)" where
  "serve_fetch_snapshot request sv =
     (case sq_hello request of
        None \<Rightarrow> (sv\<lparr>sv_rejects := sv_rejects sv + 1\<rparr>, Inl (PermissionDenied ERR_HELLO_MISSING))
      | Some hello \<Rightarrow>
          (case validate_hello hello (sv_cluster_id sv) (sv_protocol_major sv) (sv_protocol_minor sv) of
             Some code \<Rightarrow> (sv\<lparr>sv_rejects := sv_rejects sv + 1\<rparr>, Inl (PermissionDenied code))
           | None \<Rightarrow>
               (case sv_snapshot_provider sv of
                  None \<Rightarrow> (sv, Inl Unavailable)
                | Some provider \<Rightarrow>
                    (case provider (sq_index request) (sq_term request) of
                       None \<Rightarrow> (sv, Inl NotFound)
                     | Some r \<Rightarrow>
                         (sv, Inr (stream_snapshot (sv_snapshot_chunk_bytes sv) (rd_broken r) (rd_len r) (rd_bytes r)))))))"

definition encode_forward_result :: "ApplyOutcome option \<Rightarrow> ForwardKind option option" where
  "encode_forward_result result =
     (case result of
        Some (Value v) \<Rightarrow> Some (Some (KindValue v))
      | Some (CasFailed ci cv) \<Rightarrow> Some (Some (KindCasFailed ci cv))
      | Some NoValue \<Rightarrow> None
      | None \<Rightarrow> None)"

definition forward_command :: "ForwardRequest \<Rightarrow> ForwardCommand option" where
  "forward_command request =
     (if fq_kind request = 0 then Some (FwPropose (fq_cmd request) (fq_client_id request) (fq_seq_no request))
      else if fq_kind request = 1 then Some (FwRead (fq_key request))
      else if fq_kind request = 2 then Some (FwGetStale (fq_key request))
      else if fq_kind request = 3 then Some (FwMultiGet (fq_keys request) (fq_linearizable request))
      else if fq_kind request = 4
      then Some (FwProposeWithIndex (fq_cmd request) (fq_client_id request) (fq_seq_no request))
      else None)"

definition empty_reply :: ForwardReply where
  "empty_reply = \<lparr>fp_ok = False, fp_error_code = [], fp_value = [], fp_leader_node_id = [], fp_leader_addr = [],
     fp_result = None, fp_commit_index = None, fp_multi_get = None\<rparr>"

text \<open>The reply for what the sink returned.\<close>

definition forward_reply :: "string + ForwardOutcome \<Rightarrow> ForwardReply" where
  "forward_reply res =
     (case res of
        Inr outcome \<Rightarrow>
          (case fo_leader_hint outcome of
             Some (leader, addr) \<Rightarrow>
               empty_reply\<lparr>fp_error_code := ''not_leader'', fp_leader_node_id := leader, fp_leader_addr := addr\<rparr>
           | None \<Rightarrow>
               empty_reply\<lparr>fp_ok := True, fp_value := (case fo_value outcome of Some v \<Rightarrow> v | None \<Rightarrow> []),
                 fp_result := encode_forward_result (fo_result outcome), fp_commit_index := fo_index outcome,
                 fp_multi_get := fo_multi outcome\<rparr>)
      | Inl code \<Rightarrow> empty_reply\<lparr>fp_error_code := code\<rparr>)"

definition serve_forward :: "ForwardRequest \<Rightarrow> RaftTransportService \<Rightarrow> RaftTransportService \<times> ForwardReply" where
  "serve_forward request sv =
     (case fq_hello request of
        None \<Rightarrow> (sv\<lparr>sv_rejects := sv_rejects sv + 1\<rparr>, empty_reply\<lparr>fp_error_code := ERR_HELLO_MISSING\<rparr>)
      | Some hello \<Rightarrow>
          (case validate_hello hello (sv_cluster_id sv) (sv_protocol_major sv) (sv_protocol_minor sv) of
             Some code \<Rightarrow> (sv\<lparr>sv_rejects := sv_rejects sv + 1\<rparr>, empty_reply\<lparr>fp_error_code := code\<rparr>)
           | None \<Rightarrow>
               (case map_of (sv_command_sinks sv) (sv_node_id sv) of
                  None \<Rightarrow> (sv, empty_reply\<lparr>fp_error_code := ''unavailable''\<rparr>)
                | Some run \<Rightarrow>
                    (case forward_command request of
                       None \<Rightarrow> (sv, empty_reply\<lparr>fp_error_code := ''unknown_kind''\<rparr>)
                     | Some c \<Rightarrow> (sv, forward_reply (run c))))))"

subsection \<open>The client side\<close>

definition build_forward_request :: "Hello \<Rightarrow> ForwardCommand \<Rightarrow> ForwardRequest" where
  "build_forward_request hello c =
     (let req = \<lparr>fq_kind = 0, fq_cmd = [], fq_key = [], fq_client_id = 0, fq_seq_no = 0, fq_hello = Some hello,
                 fq_keys = [], fq_linearizable = False\<rparr>
      in case c of
           FwPropose cmd cid seqn \<Rightarrow> req\<lparr>fq_kind := 0, fq_cmd := cmd, fq_client_id := cid, fq_seq_no := seqn\<rparr>
         | FwRead key \<Rightarrow> req\<lparr>fq_kind := 1, fq_key := key\<rparr>
         | FwGetStale key \<Rightarrow> req\<lparr>fq_kind := 2, fq_key := key\<rparr>
         | FwMultiGet keys linearizable \<Rightarrow> req\<lparr>fq_kind := 3, fq_keys := keys, fq_linearizable := linearizable\<rparr>
         | FwProposeWithIndex cmd cid seqn \<Rightarrow>
             req\<lparr>fq_kind := 4, fq_cmd := cmd, fq_client_id := cid, fq_seq_no := seqn\<rparr>)"

definition decode_forward_result :: "ForwardKind option option \<Rightarrow> ApplyOutcome option" where
  "decode_forward_result result =
     (case result of
        Some (Some (KindValue v)) \<Rightarrow> Some (Value v)
      | Some (Some (KindCasFailed ci cv)) \<Rightarrow> Some (CasFailed ci cv)
      | Some None \<Rightarrow> None
      | None \<Rightarrow> None)"

definition decode_multi_get ::
    "(bytes option list \<times> u64) option \<Rightarrow> nat \<Rightarrow> string + (bytes option list \<times> LogIndex) option" where
  "decode_multi_get m expected_len =
     (case m of
        None \<Rightarrow> Inr None
      | Some (values, index) \<Rightarrow>
          if length values \<noteq> expected_len then Inl ''malformed_multi_get_reply'' else Inr (Some (values, index)))"

text \<open>
  \<open>call\<close> is the remote call: \<open>Inl\<close> is the text of a failed connection or of an error status.
  \<open>parse_addr\<close> is the parser of socket addresses; an address is written as its text.
\<close>

definition do_forward ::
    "(ForwardRequest \<Rightarrow> string + ForwardReply) \<Rightarrow> (bytes \<Rightarrow> Addr option) \<Rightarrow> Hello \<Rightarrow> ForwardCommand \<Rightarrow> string + ForwardOutcome" where
  "do_forward call parse_addr hello c =
     (let req = build_forward_request hello c; expected_keys = length (fq_keys req) in
      and_then (call req) (\<lambda>reply.
        if fp_ok reply then
          and_then (decode_multi_get (fp_multi_get reply) expected_keys) (\<lambda>multi.
            Inr \<lparr>fo_value = Some (fp_value reply), fo_leader_hint = None,
                 fo_result = decode_forward_result (fp_result reply), fo_multi = multi,
                 fo_index = fp_commit_index reply\<rparr>)
        else if fp_error_code reply = ''not_leader'' then
          (case parse_addr (fp_leader_addr reply) of
             None \<Rightarrow> Inl ''bad leader address''
           | Some addr \<Rightarrow> Inr (no_outcome\<lparr>fo_leader_hint := Some (fp_leader_node_id reply, addr)\<rparr>))
        else Inl (fp_error_code reply)))"

datatype TransportError =
    UnknownPeer NodeId | TeClusterIdMismatch | TeProtocolMismatch | Rejected string | TeSend Status
  | SnapshotStream | UnsupportedMessage

definition from_error_code :: "string \<Rightarrow> TransportError" where
  "from_error_code code =
     (if code = ERR_CLUSTER_ID_MISMATCH then TeClusterIdMismatch
      else if code = ERR_PROTOCOL_MISMATCH then TeProtocolMismatch
      else Rejected code)"

record TonicTransport =
  tt_addresses :: "(NodeId \<times> Addr) list"
  tt_self_id :: NodeId
  tt_hello :: Hello
  tt_serves_snapshots :: bool

text \<open>A raft payload is \<open>Some\<close>; \<open>None\<close> is a message of another kind.\<close>

definition transport_send ::
    "(NodeId \<Rightarrow> Addr \<Rightarrow> RaftEnvelope \<Rightarrow> Status + SendReply) \<Rightarrow> TonicTransport \<Rightarrow> NodeId \<Rightarrow> bytes option \<Rightarrow> TransportError + unit" where
  "transport_send call tt to msg =
     (if to = tt_self_id tt then Inr ()
      else case map_of (tt_addresses tt) to of
        None \<Rightarrow> Inl (UnknownPeer to)
      | Some addr \<Rightarrow>
          (case msg of
             None \<Rightarrow> Inl UnsupportedMessage
           | Some payload \<Rightarrow>
               and_then (map_err TeSend (call to addr \<lparr>en_payload = payload, en_hello = Some (tt_hello tt)\<rparr>)) (\<lambda>reply.
                 if sr_accepted reply then Inr () else Inl (from_error_code (sr_error_code reply)))))"

text \<open>The chunks of a stream are written one after the other; an error status ends the transfer.\<close>

fun receive_chunks :: "bytes \<Rightarrow> (Status + bytes) list \<Rightarrow> TransportError + bytes" where
  "receive_chunks written [] = Inr written"
| "receive_chunks written (Inr chunk # rest) = receive_chunks (written @ chunk) rest"
| "receive_chunks written (Inl status # rest) = Inl (TeSend status)"

definition transport_fetch_snapshot ::
    "(Addr \<Rightarrow> SnapshotRequest \<Rightarrow> Status + (Status + bytes) list) \<Rightarrow> TonicTransport \<Rightarrow> NodeId \<Rightarrow> u64 \<Rightarrow> u64 \<Rightarrow> TransportError + bytes" where
  "transport_fetch_snapshot call tt from index term =
     (case map_of (tt_addresses tt) from of
        None \<Rightarrow> Inl (UnknownPeer from)
      | Some addr \<Rightarrow>
          and_then (map_err TeSend (call addr \<lparr>sq_index = index, sq_term = term, sq_hello = Some (tt_hello tt)\<rparr>))
            (receive_chunks []))"

subsection \<open>Streaming a snapshot\<close>

lemma stream_snapshot_step:
  assumes "n \<noteq> 0" "buf = take (min n c) bs" "\<not> (broken \<and> length buf < min n c)" "buf \<noteq> []"
  shows "stream_snapshot c broken n bs = Inr buf # stream_snapshot c broken (n - length buf) (drop (length buf) bs)"
  using assms by (subst stream_snapshot.simps) (simp add: Let_def)

lemma stream_snapshot_stop:
  assumes "n \<noteq> 0" "broken \<and> length (take (min n c) bs) < min n c \<or> take (min n c) bs = []"
  shows "stream_snapshot c broken n bs = [Inl Internal]"
  using assms by (subst stream_snapshot.simps) (simp only: Let_def if_False if_True)

lemma stream_snapshot_0 [simp]: "stream_snapshot c broken 0 bs = []"
  by (subst stream_snapshot.simps) simp

lemma take_rest: "k \<le> n \<Longrightarrow> take k bs @ take (n - k) (drop k bs) = take n bs"
  by (metis le_add_diff_inverse take_add)

lemma receive_stream:
  assumes "0 < c"
  shows "receive_chunks w (stream_snapshot c broken n bs) =
    (if n \<le> length bs then Inr (w @ take n bs) else Inl (TeSend Internal))"
proof (induction "length bs" arbitrary: w n bs rule: less_induct)
  case less
  define buf where "buf = take (min n c) bs"
  consider "n = 0" | "n \<noteq> 0" "broken \<and> length buf < min n c \<or> buf = []"
    | "n \<noteq> 0" "\<not> (broken \<and> length buf < min n c)" "buf \<noteq> []" by blast
  then show ?case
  proof cases
    case 2
    then have "length bs < n" using assms by (auto simp: buf_def)
    then show ?thesis using stream_snapshot_stop [OF 2(1), of broken c bs] 2(2) by (simp add: buf_def)
  next
    case 3
    let ?k = "length buf"
    have k: "?k \<le> n" "?k \<le> length bs" "0 < ?k" using 3(3) by (auto simp: buf_def)
    have b: "take ?k bs = buf" by (metis append_eq_conv_conj append_take_drop_id buf_def)
    have "receive_chunks (w @ buf) (stream_snapshot c broken (n - ?k) (drop ?k bs)) =
        (if n - ?k \<le> length (drop ?k bs) then Inr ((w @ buf) @ take (n - ?k) (drop ?k bs)) else Inl (TeSend Internal))"
      using k by (intro less) (simp only: length_drop)
    moreover have "buf @ take (n - ?k) (drop ?k bs) = take n bs" using take_rest [OF k(1), of bs] b by simp
    moreover have "n - ?k \<le> length (drop ?k bs) \<longleftrightarrow> n \<le> length bs" using k by auto
    ultimately show ?thesis using stream_snapshot_step [OF 3(1) buf_def 3(2,3)] by (simp del: length_drop)
  qed simp
qed

lemma stream_chunks: "Inr chunk \<in> set (stream_snapshot c broken n bs) \<Longrightarrow> chunk \<noteq> [] \<and> length chunk \<le> c"
proof (induction "length bs" arbitrary: n bs rule: less_induct)
  case less
  define buf where "buf = take (min n c) bs"
  consider "n = 0" | "n \<noteq> 0" "broken \<and> length buf < min n c \<or> buf = []"
    | "n \<noteq> 0" "\<not> (broken \<and> length buf < min n c)" "buf \<noteq> []" by blast
  then show ?case
  proof cases
    case 2
    then show ?thesis using less(2) stream_snapshot_stop [OF 2(1), of broken c bs] by (simp add: buf_def)
  next
    case 3
    have "chunk = buf \<or> Inr chunk \<in> set (stream_snapshot c broken (n - length buf) (drop (length buf) bs))"
      using less(2) stream_snapshot_step [OF 3(1) buf_def 3(2,3)] by auto
    then show ?thesis
    proof
      assume "Inr chunk \<in> set (stream_snapshot c broken (n - length buf) (drop (length buf) bs))"
      moreover have "length (drop (length buf) bs) < length bs" using 3(3) by (auto simp: buf_def)
      ultimately show ?thesis using less(1) by blast
    qed (use 3(3) in \<open>simp add: buf_def\<close>)
  qed (use less(2) in simp)
qed

text \<open>
  C19: a streamed snapshot arrives whole or not at all.  A node fetches a snapshot from a peer whose
  service accepts its handshake and has the snapshot.  If the file holds its declared length, the node
  gets exactly these bytes, and no chunk exceeds half of the largest message of the transport; if the
  file is shorter, or reading it fails before its end, the fetch fails.
\<close>

theorem streamed_snapshot_arrives:
  assumes "map_of (tt_addresses tt) from = Some addr" "hello_error sv (Some (tt_hello tt)) = None"
    "sv_snapshot_provider sv = Some provider" "provider index term = Some r"
    "sv_snapshot_chunk_bytes sv = chunk_bytes_for max_message_size" "2 \<le> max_message_size"
  shows "transport_fetch_snapshot (\<lambda>_ request. snd (serve_fetch_snapshot request sv)) tt from index term =
      (if rd_len r \<le> length (rd_bytes r) then Inr (take (rd_len r) (rd_bytes r)) else Inl (TeSend Internal)) \<and>
    (\<exists>chunks. snd (serve_fetch_snapshot \<lparr>sq_index = index, sq_term = term, sq_hello = Some (tt_hello tt)\<rparr> sv) = Inr chunks \<and>
      (\<forall>chunk. Inr chunk \<in> set chunks \<longrightarrow> chunk \<noteq> [] \<and> length chunk \<le> max_message_size div 2))"
proof -
  let ?c = "chunk_bytes_for max_message_size"
  have c: "0 < ?c" "?c \<le> max_message_size div 2"
    using assms(6) by (auto simp: chunk_bytes_for_def SNAPSHOT_CHUNK_BYTES_def)
  have "snd (serve_fetch_snapshot \<lparr>sq_index = index, sq_term = term, sq_hello = Some (tt_hello tt)\<rparr> sv) =
      Inr (stream_snapshot ?c (rd_broken r) (rd_len r) (rd_bytes r))"
    using assms(2-5) by (simp add: serve_fetch_snapshot_def hello_error_def)
  note serve = this
  have "chunk \<noteq> [] \<and> length chunk \<le> max_message_size div 2"
    if "Inr chunk \<in> set (stream_snapshot ?c (rd_broken r) (rd_len r) (rd_bytes r))" for chunk
    using stream_chunks [OF that] c(2) by simp
  moreover have "transport_fetch_snapshot (\<lambda>_ request. snd (serve_fetch_snapshot request sv)) tt from index term =
      (if rd_len r \<le> length (rd_bytes r) then Inr (take (rd_len r) (rd_bytes r)) else Inl (TeSend Internal))"
    using assms(1) receive_stream [OF c(1), of "[]"] by (simp add: transport_fetch_snapshot_def serve)
  ultimately show ?thesis using serve by blast
qed

definition sample_tonic :: TonicTransport where
  "sample_tonic = \<lparr>tt_addresses = [([50], [80])], tt_self_id = [49], tt_hello = build_hello [99] [49] 1 0 [],
     tt_serves_snapshots = True\<rparr>"

definition snapshot_service :: RaftTransportService where
  "snapshot_service = \<lparr>sv_cluster_id = [99], sv_protocol_major = 1, sv_protocol_minor = 2, sv_rejects = 0, sv_inbound = [],
     sv_inbound_open = True,
     sv_snapshot_provider = Some (\<lambda>_ _. Some \<lparr>rd_len = 3, rd_bytes = [1, 2, 3], rd_broken = False\<rparr>),
     sv_command_sinks = [], sv_node_id = [50], sv_snapshot_chunk_bytes = chunk_bytes_for 4\<rparr>"

theorem streamed_snapshot_arrives_witness:
  "transport_fetch_snapshot (\<lambda>_ request. snd (serve_fetch_snapshot request snapshot_service)) sample_tonic [50] 7 2 = Inr [1, 2, 3]"
  using streamed_snapshot_arrives [of sample_tonic "[50]" "[80]" snapshot_service
      "\<lambda>_ _. Some \<lparr>rd_len = 3, rd_bytes = [1, 2, 3], rd_broken = False\<rparr>" 7 2 "\<lparr>rd_len = 3, rd_bytes = [1, 2, 3], rd_broken = False\<rparr>" 4]
  by (simp add: sample_tonic_def snapshot_service_def hello_error_def validate_hello_def build_hello_def)

end
