(* ===== verification/Profile.thy ===== *)
theory Profile
  imports RaftNode
begin

text \<open>
  Profiles (\<open>arachne/src/profile.rs\<close>): the presets, their names, their validation, and the raft
  parameters taken from them (\<open>RaftNodeConfig::from_profile\<close> in \<open>consensus/node.rs\<close>).  Names
  are ASCII.
\<close>

definition KB :: u64 where "KB = 1024"
definition MB :: u64 where "MB = 1024 * 1024"
definition SECONDS :: u64 where "SECONDS = 1000"

record ProfileConfig =
  heartbeat_interval_ms :: u64
  election_timeout_ms :: u64
  rpc_timeout_ms :: u64
  max_inflight_bytes :: u64
  max_inflight_msgs :: u64
  snapshot_threshold_bytes :: u64
  wal_trailing_keep_bytes :: u64
  wal_segment_bytes :: u64
  read_index_timeout_ms :: u64
  proposal_queue_bytes :: u64
  session_ttl_ms :: u64
  session_grace_period_ms :: u64
  max_sessions :: u64
  max_value_bytes :: u64
  max_key_bytes :: u64
  snapshot_transfer_rate_bps :: u64
  promote_lag_entries :: u64
  profile_fsync_policy :: FsyncPolicy

definition lan :: ProfileConfig where
  "lan = \<lparr>heartbeat_interval_ms = 100, election_timeout_ms = SECONDS, rpc_timeout_ms = 500,
     max_inflight_bytes = 4 * MB, max_inflight_msgs = 256, snapshot_threshold_bytes = 64 * MB,
     wal_trailing_keep_bytes = 64 * MB, wal_segment_bytes = 128 * MB, read_index_timeout_ms = 2 * SECONDS,
     proposal_queue_bytes = 64 * MB, session_ttl_ms = 60 * SECONDS, session_grace_period_ms = 60 * SECONDS,
     max_sessions = 10000, max_value_bytes = MB, max_key_bytes = 4 * KB, snapshot_transfer_rate_bps = 32 * MB,
     promote_lag_entries = 128, profile_fsync_policy = Always\<rparr>"

definition wan :: ProfileConfig where
  "wan = \<lparr>heartbeat_interval_ms = 500, election_timeout_ms = 2500, rpc_timeout_ms = 2 * SECONDS,
     max_inflight_bytes = MB, max_inflight_msgs = 256, snapshot_threshold_bytes = 16 * MB,
     wal_trailing_keep_bytes = 16 * MB, wal_segment_bytes = 128 * MB, read_index_timeout_ms = 2 * 2500,
     proposal_queue_bytes = 64 * MB, session_ttl_ms = 60 * SECONDS, session_grace_period_ms = 60 * SECONDS,
     max_sessions = 10000, max_value_bytes = MB, max_key_bytes = 4 * KB, snapshot_transfer_rate_bps = 8 * MB,
     promote_lag_entries = 128, profile_fsync_policy = Always\<rparr>"

datatype Profile = Lan | Wan

fun profile_config :: "Profile \<Rightarrow> ProfileConfig" where
  "profile_config Lan = lan"
| "profile_config Wan = wan"

datatype ProfileError =
    UnknownProfile string | HeartbeatNotPositive | ElectionTooShort u64 u64 | RpcNotPositive | RpcTooLong u64 u64

definition is_space :: "char \<Rightarrow> bool" where
  "is_space c \<longleftrightarrow> of_char c = (32 :: nat) \<or> (9 :: nat) \<le> of_char c \<and> of_char c \<le> (13 :: nat)"

definition trim :: "string \<Rightarrow> string" where
  "trim s = rev (dropWhile is_space (rev (dropWhile is_space s)))"

definition ascii_lower :: "char \<Rightarrow> char" where
  "ascii_lower c = (if (65 :: nat) \<le> of_char c \<and> of_char c \<le> (90 :: nat) then char_of (of_char c + (32 :: nat)) else c)"

definition parse_name :: "string \<Rightarrow> ProfileError + Profile" where
  "parse_name name =
     (let n = map ascii_lower (trim name)
      in if n = ''lan'' then Inr Lan else if n = ''wan'' then Inr Wan else Inl (UnknownProfile n))"

definition saturating_mul :: "u64 \<Rightarrow> u64 \<Rightarrow> u64" where
  "saturating_mul a b = (if unat a * unat b < 2 ^ 64 then a * b else - 1)"

definition validate_profile :: "ProfileConfig \<Rightarrow> ProfileError + unit" where
  "validate_profile c =
     (if heartbeat_interval_ms c = 0 then Inl HeartbeatNotPositive
      else if election_timeout_ms c < saturating_mul (heartbeat_interval_ms c) 5
      then Inl (ElectionTooShort (heartbeat_interval_ms c) (election_timeout_ms c))
      else if rpc_timeout_ms c = 0 then Inl RpcNotPositive
      else if rpc_timeout_ms c \<ge> election_timeout_ms c
      then Inl (RpcTooLong (rpc_timeout_ms c) (election_timeout_ms c))
      else Inr ())"

definition from_profile :: "ProfileConfig \<Rightarrow> RaftNodeConfig" where
  "from_profile p =
     (let heartbeat = max (heartbeat_interval_ms p) 1
      in \<lparr>nc_election_tick = max (election_timeout_ms p div heartbeat) 1, nc_heartbeat_tick = 1,
          nc_max_size_per_msg = max_inflight_bytes p, nc_max_inflight_msgs = max_inflight_msgs p,
          nc_bootstrap_voters = None, nc_streamed_snapshots = False, nc_join_as_learner = False\<rparr>)"

subsection \<open>What validation gives\<close>

lemma presets_valid: "validate_profile (profile_config p) = Inr ()"
  by (cases p) (simp_all add: validate_profile_def lan_def wan_def saturating_mul_def SECONDS_def)

lemma trimmed_names: "parse_name '' WaN '' = Inr Wan" "parse_name ''mars'' = Inl (UnknownProfile ''mars'')"
  by code_simp+

text \<open>
  A profile that passes and whose heartbeat is not beyond a fifth of the largest number gives raft
  at least five ticks per election, as its authors ask for.
\<close>

lemma validated_ticks:
  assumes "validate_profile p = Inr ()" "unat (heartbeat_interval_ms p) * 5 < 2 ^ 64"
  shows "5 \<le> nc_election_tick (from_profile p)" "nc_heartbeat_tick (from_profile p) < nc_election_tick (from_profile p)"
proof -
  let ?h = "heartbeat_interval_ms p" and ?e = "election_timeout_ms p"
  have h: "?h \<noteq> 0" "?h * 5 \<le> ?e"
    using assms by (auto simp: validate_profile_def saturating_mul_def not_less split: if_splits)
  have "unat (?h * 5) = unat ?h * 5" using assms(2) by (simp add: unat_word_ariths)
  then have "unat ?h * 5 \<le> unat ?e" using h(2) by (simp add: word_le_nat_alt)
  moreover have "1 \<le> ?h" using h(1) by (simp add: word_le_nat_alt Suc_le_eq unat_gt_0)
  then have "max ?h 1 = ?h" by (rule max_absorb1)
  ultimately have t: "5 \<le> unat (?e div max ?h 1)"
    using h(1) by (simp add: unat_div less_eq_div_iff_mult_less_eq unat_gt_0 mult.commute)
  then show "5 \<le> nc_election_tick (from_profile p)"
    by (simp add: from_profile_def Let_def word_le_nat_alt le_max_iff_disj)
  then show "nc_heartbeat_tick (from_profile p) < nc_election_tick (from_profile p)"
    by (simp add: from_profile_def Let_def word_le_nat_alt word_less_nat_alt)
qed

end
