(* ===== verification/RuntimeStart.thy ===== *)
theory RuntimeStart
  imports RuntimeApply Profile WalReads
begin

text \<open>
  Starting a node (\<open>Runtime::new\<close>): the state machine is restored from the durable snapshot,
  and the client handle of the node continues above every session the snapshot and the rest of the
  log hold for its client id.  The scan of the log reads it in chunks; that it ends is proved here.
\<close>

subsection \<open>The client id\<close>

definition FNV_OFFSET_BASIS :: u64 where "FNV_OFFSET_BASIS = 0xcbf29ce484222325"
definition FNV_PRIME :: u64 where "FNV_PRIME = 0x100000001b3"

definition client_id_for :: "NodeId \<Rightarrow> u64 \<Rightarrow> u64" where
  "client_id_for node_id counter =
     fold (\<lambda>byte hash. (hash XOR ucast byte) * FNV_PRIME) (le64 counter)
       (fold (\<lambda>byte hash. (hash XOR ucast byte) * FNV_PRIME) node_id FNV_OFFSET_BASIS)"

subsection \<open>The scan of the log\<close>

definition max_session_seq_in_data :: "bytes list \<Rightarrow> u64 \<Rightarrow> u64" where
  "max_session_seq_in_data datas client =
     fold (\<lambda>bs max_seq. case command_session bs of
             Some (cid, seqn) \<Rightarrow> if cid = client then max max_seq seqn else max_seq
           | None \<Rightarrow> max_seq) datas 0"

definition CHUNK_ENTRIES :: u64 where "CHUNK_ENTRIES = 4096"
definition CHUNK_BYTES :: u64 where "CHUNK_BYTES = 4 * 1024 * 1024"

text \<open>The loop; \<open>None\<close> would be a loop that never ends.\<close>

partial_function (option) scan_tail ::
    "WalStorage \<Rightarrow> u64 \<Rightarrow> LogIndex \<Rightarrow> LogIndex \<Rightarrow> u64 \<Rightarrow> (NodeError + u64) option" where
  "scan_tail s client last_i next_i max_seq =
     (if next_i \<le> last_i then
        let high = min (next_i + CHUNK_ENTRIES) (last_i + 1) in
        case storage_entries s next_i high (Some CHUNK_BYTES) of
          Inl _ \<Rightarrow> Some (Inl NeStorage)
        | Inr [] \<Rightarrow>
            (case storage_entries s next_i (next_i + 1) None of
               Inl _ \<Rightarrow> Some (Inl NeStorage)
             | Inr [] \<Rightarrow> Some (Inl NeStorage)
             | Inr single \<Rightarrow>
                 scan_tail s client last_i (next_i + 1)
                   (max max_seq (max_session_seq_in_data (map le_data single) client)))
        | Inr batch \<Rightarrow>
            scan_tail s client last_i (next_i + len64 batch)
              (max max_seq (max_session_seq_in_data (map le_data batch) client))
      else Some (Inr max_seq))"

definition log_tail_max_session_seq :: "WalStorage \<Rightarrow> LogIndex \<Rightarrow> u64 \<Rightarrow> (NodeError + u64) option" where
  "log_tail_max_session_seq s from client = scan_tail s client (last_index s) (max from 1) 0"

subsection \<open>Construction\<close>

record StartConfig =
  sc_self_raft_id :: RaftId
  sc_self_node_id :: NodeId
  sc_peers :: "(RaftId \<times> NodeId) list"
  sc_addresses :: "(NodeId \<times> Addr) list"
  sc_raft :: RaftNodeConfig
  sc_profile :: ProfileConfig

definition config_of :: "StartConfig \<Rightarrow> RuntimeConfig" where
  "config_of config =
     (let p = sc_profile config in
      \<lparr>cg_raft_id = sc_self_raft_id config,
       cg_node_to_raft = map (\<lambda>(raft, node). (node, raft)) (sc_peers config),
       cg_raft_to_node = AList.update (sc_self_raft_id config) (sc_self_node_id config) (sc_peers config),
       cg_addresses = sc_addresses config,
       cg_proposal_queue_bytes = proposal_queue_bytes p,
       cg_promote_lag_entries = promote_lag_entries p,
       cg_read_index_timeout = unat (max (read_index_timeout_ms p) 1),
       cg_propose_timeout = unat (max (election_timeout_ms p) 1),
       cg_session_ttl_ms = session_ttl_ms p,
       cg_session_grace_ms = session_grace_period_ms p,
       cg_max_sessions = max_sessions p,
       cg_snapshot_threshold_bytes = snapshot_threshold_bytes p\<rparr>)"

definition new_shared :: "KvStateMachine \<Rightarrow> Shared" where
  "new_shared sm =
     \<lparr>sh_sm = sm, sh_task = \<lparr>at_point = Idle, at_applied_bytes_total = 0, at_failed = False\<rparr>, sh_applies = [],
      sh_progress = \<lparr>ap_applied_index = applied (store sm), ap_applied_bytes_total = 0, ap_failed = False, ap_sessions = 0\<rparr>,
      sh_outcomes = [], sh_watch_events = [], sh_backlog_dropped = - 1, sh_snapshot_result = None\<rparr>"

definition new_runtime :: "RuntimeConfig \<Rightarrow> 'r RaftNode \<Rightarrow> KvStateMachine \<Rightarrow> LogIndex \<Rightarrow> nat \<Rightarrow> 'r Runtime" where
  "new_runtime cfg nd sm snapshot_index t =
     \<lparr>rt_node = nd, rt_cfg = cfg, rt_shared = new_shared sm,
      rt_env = \<lparr>ev_now = t, ev_session_clock = None, ev_closed = [], ev_replies = [], ev_workers = [], ev_delivered = []\<rparr>,
      rt_ses = \<lparr>ss_sessions = [], ss_next_sweep = 0, ss_live_sessions = 0, ss_next_gc = 0\<rparr>,
      rt_watch = \<lparr>wa_watchers = [], wa_dropped_total = 0\<rparr>, rt_multi_get_used = 0, rt_deferred = None,
      rt_snapshot_wait = False, rt_snapshot_fetch = None, rt_applied_index = applied (store sm),
      rt_applied_bytes_total = 0, rt_sent_bytes_total = 0, rt_pending = [], rt_committed_queue = [],
      rt_pending_conf = [], rt_pending_transfer = [], rt_pending_reads = [], rt_pending_applied = [],
      rt_next_read_token = 1, rt_last_wal_sample = t, rt_applied_bytes_at_snapshot = 0,
      rt_snapshot_index = snapshot_index, rt_received_outcomes = []\<rparr>"

definition restore_snapshot :: "WalStorage \<Rightarrow> NodeError + (KvStateMachine \<times> LogIndex)" where
  "restore_snapshot s =
     (case wal_snapshot s of
        None \<Rightarrow> Inr (kv_new, 0)
      | Some snapshot \<Rightarrow>
          (case restore kv_new (sn_data snapshot) of
             (_, Inl _) \<Rightarrow> Inl NeStateMachine
           | (sm, Inr _) \<Rightarrow> Inr (sm, sm_index (sn_meta snapshot))))"

definition initial_sequence :: "u64 \<Rightarrow> u64 \<Rightarrow> u64" where
  "initial_sequence snapshot_max_seq tail_max_seq = max (saturating_add (max snapshot_max_seq tail_max_seq) 1) 1"

text \<open>
  The node and the first sequence number of its handle.  The outer \<open>option\<close> says that the scan
  ends, and that the lock of the state machine is not poisoned.
\<close>

definition runtime_new ::
    "'r lib \<Rightarrow> StartConfig \<Rightarrow> World \<Rightarrow> bool \<Rightarrow> u64 \<Rightarrow> nat \<Rightarrow> (NodeError + ('r Runtime \<times> u64)) option" where
  "runtime_new L config w streaming client t =
     (case restore_snapshot (the_wal w) of
        Inl e \<Rightarrow> Some (Inl e)
      | Inr (sm, snapshot_index) \<Rightarrow>
          (case max_session_seq sm client of
             None \<Rightarrow> None
           | Some snapshot_max_seq \<Rightarrow>
               let scan_from = max (first_index (the_wal w)) (saturating_add snapshot_index 1) in
               (case log_tail_max_session_seq (the_wal w) scan_from client of
                  None \<Rightarrow> None
                | Some (Inl e) \<Rightarrow> Some (Inl e)
                | Some (Inr tail_max_seq) \<Rightarrow>
                    Some (and_then (new_with_config L (sc_self_raft_id config) (sc_peers config) w 0
                        ((sc_raft config)\<lparr>nc_streamed_snapshots := streaming\<rparr>)) (\<lambda>nd.
                      Inr (new_runtime (config_of config) nd sm snapshot_index t,
                           initial_sequence snapshot_max_seq tail_max_seq))))))"

subsection \<open>The scan ends and misses nothing\<close>

lemma max_session_seq_fold:
  "fold (\<lambda>bs max_seq. case command_session bs of
      Some (cid, seqn) \<Rightarrow> if cid = client then max max_seq seqn else max_seq | None \<Rightarrow> max_seq) xs a =
   max a (max_session_seq_in_data xs client)"
proof (induction xs arbitrary: a)
  case (Cons x xs)
  let ?f = "\<lambda>bs max_seq. case command_session bs of
      Some (cid, seqn) \<Rightarrow> if cid = client then max max_seq seqn else max_seq | None \<Rightarrow> max_seq"
  have "?f x a = max a (?f x 0)" by (auto split: option.split)
  moreover have "max_session_seq_in_data (x # xs) client = max (?f x 0) (max_session_seq_in_data xs client)"
    using Cons.IH [of "?f x 0"] by (simp add: max_session_seq_in_data_def)
  ultimately show ?case using Cons.IH [of "?f x a"] by (simp add: max.assoc)
qed (simp add: max_session_seq_in_data_def)

lemma max_session_seq_append:
  "max_session_seq_in_data (xs @ ys) client = max (max_session_seq_in_data xs client) (max_session_seq_in_data ys client)"
proof -
  have "max_session_seq_in_data (xs @ ys) client = max (max_session_seq_in_data xs client) (max_session_seq_in_data ys client)"
    unfolding max_session_seq_in_data_def [of "xs @ ys"] fold_append comp_def
    by (simp only: max_session_seq_fold) simp
  then show ?thesis .
qed

lemma max_session_seq_bound:
  "bs \<in> set xs \<Longrightarrow> command_session bs = Some (client, q) \<Longrightarrow> q \<le> max_session_seq_in_data xs client"
proof (induction xs)
  case (Cons x xs)
  have "max_session_seq_in_data (x # xs) client = max (max_session_seq_in_data [x] client) (max_session_seq_in_data xs client)"
    using max_session_seq_append [of "[x]" xs client] by simp
  then show ?case using Cons by (auto simp: max_session_seq_in_data_def le_max_iff_disj)
qed simp

lemma storage_entries_limited:
  "storage_entries s low high (Some limit) =
     (case storage_entries s low high None of Inl e \<Rightarrow> Inl e | Inr out \<Rightarrow> Inr (take (fit_count limit 0 out) out))"
  by (cases "slice_get (wal_entries s) (unat (low - (compacted_to s + 1))) (unat (high - (compacted_to s + 1)))")
    (auto simp: storage_entries_def Let_def)

lemma fit_count_le: "fit_count limit used es \<le> length es"
  by (induction limit used es rule: fit_count.induct) (auto simp: Let_def)

text \<open>The entries from an index on.\<close>

definition tail_from :: "WalStorage \<Rightarrow> LogIndex \<Rightarrow> LogEntry list" where
  "tail_from s i = drop (unat i - Suc (unat (compacted_to s))) (wal_entries s)"

lemma scan_chunk:
  assumes "aligned s" "unat (last_index s) + 4096 < 2 ^ 64" "compacted_to s < i" "i \<le> last_index s"
  obtains k where "storage_entries s i (min (i + CHUNK_ENTRIES) (last_index s + 1)) (Some CHUNK_BYTES) = Inr (take k (tail_from s i))"
    "k \<le> length (tail_from s i)"
    "storage_entries s i (i + 1) None = Inr (take 1 (tail_from s i))"
    "unat i + length (tail_from s i) = Suc (unat (last_index s))"
proof -
  let ?l = "last_index s" and ?high = "min (i + CHUNK_ENTRIES) (last_index s + 1)"
  have l: "?l \<noteq> - 1" using assms(2) unat_max64 by auto
  have i: "i \<noteq> - 1" using assms(4) l by (metis antisym word_order.extremum)
  have u: "unat (?l + 1) = Suc (unat ?l)" "unat (i + 1) = Suc (unat i)" "unat (i + CHUNK_ENTRIES) = unat i + 4096"
    using unat_succ [OF l] unat_succ [OF i] assms(2,4)
    by (simp_all add: CHUNK_ENTRIES_def unat_word_ariths word_le_nat_alt)
  have h: "i < ?high" "?high \<le> ?l + 1" "i < i + 1" "i + 1 \<le> ?l + 1"
    using u assms(4) by (auto simp: word_less_nat_alt word_le_nat_alt min_def)
  have len: "unat i + length (tail_from s i) = Suc (unat ?l)"
    using aligned_last [OF assms(1)] assms(3,4) by (simp add: tail_from_def word_le_nat_alt word_less_nat_alt)
  have one: "storage_entries s i (i + 1) None = Inr (take 1 (tail_from s i))"
    using storage_entries_eq [OF assms(1) l h(3)] h(4) assms(3) u(2) by (simp add: tail_from_def not_less)
  let ?n = "unat ?high - unat i"
  have "storage_entries s i ?high None = Inr (take ?n (tail_from s i))"
    using storage_entries_eq [OF assms(1) l h(1)] h(2) assms(3) by (simp add: tail_from_def not_less)
  then have "storage_entries s i ?high (Some CHUNK_BYTES) =
      Inr (take (min (fit_count CHUNK_BYTES 0 (take ?n (tail_from s i))) ?n) (tail_from s i))"
    by (simp add: storage_entries_limited min.commute)
  moreover have "min (fit_count CHUNK_BYTES 0 (take ?n (tail_from s i))) ?n \<le> length (tail_from s i)"
    using fit_count_le [of CHUNK_BYTES 0 "take ?n (tail_from s i)"] by simp
  ultimately show ?thesis using that one len by blast
qed

lemma tail_from_add:
  "compacted_to s < i \<Longrightarrow> unat j = unat i + k \<Longrightarrow> tail_from s j = drop k (tail_from s i)"
  by (simp add: tail_from_def word_less_nat_alt add.commute)

lemma scan_tail_spec:
  assumes "aligned s" "unat (last_index s) + 4096 < 2 ^ 64" "compacted_to s < i"
  shows "scan_tail s client (last_index s) i acc =
    Some (Inr (max acc (max_session_seq_in_data (map le_data (tail_from s i)) client)))"
  using assms(3)
proof (induction "Suc (unat (last_index s)) - unat i" arbitrary: i acc rule: less_induct)
  case less
  let ?m = "\<lambda>es. max_session_seq_in_data (map le_data es) client"
  show ?case
  proof (cases "i \<le> last_index s")
    case False
    then have "tail_from s i = []"
      using aligned_last [OF assms(1)] by (auto simp: tail_from_def word_le_nat_alt)
    then show ?thesis using False by (subst scan_tail.simps) (simp add: max_session_seq_in_data_def)
  next
    case True
    obtain k where k: "storage_entries s i (min (i + CHUNK_ENTRIES) (last_index s + 1)) (Some CHUNK_BYTES) = Inr (take k (tail_from s i))"
      "k \<le> length (tail_from s i)" "storage_entries s i (i + 1) None = Inr (take 1 (tail_from s i))"
      "unat i + length (tail_from s i) = Suc (unat (last_index s))"
      by (rule scan_chunk [OF assms(1,2) less(2) True])
    have step: "scan_tail s client (last_index s) (i + of_nat n) (max acc (?m (take n (tail_from s i)))) =
        Some (Inr (max acc (?m (tail_from s i))))" if n: "0 < n" "n \<le> length (tail_from s i)" for n
    proof -
      have u: "unat (i + of_nat n) = unat i + n"
        using n k(4) assms(2) by (simp add: unat_word_ariths unat_of_nat)
      have "?m (tail_from s i) = max (?m (take n (tail_from s i))) (?m (drop n (tail_from s i)))"
        by (simp flip: max_session_seq_append map_append)
      moreover have "compacted_to s < i + of_nat n" using less(2) u by (simp add: word_less_nat_alt)
      ultimately show ?thesis
        using less(1) [of "i + of_nat n"] tail_from_add [OF less(2) u] u n k(4) by (simp add: max.assoc)
    qed
    show ?thesis
    proof (cases "k = 0")
      case True
      have "tail_from s i \<noteq> []" using k(4) \<open>i \<le> last_index s\<close> by (auto simp: word_le_nat_alt)
      then obtain e es where e: "tail_from s i = e # es" by (cases "tail_from s i") auto
      then show ?thesis using step [of 1] k True \<open>i \<le> last_index s\<close>
        by (subst scan_tail.simps) (simp add: Let_def)
    next
      case False
      then obtain e es where e: "take k (tail_from s i) = e # es" using k(2) by (cases "take k (tail_from s i)") auto
      have "length (e # es) = k" using k(2) by (simp flip: e)
      then have "len64 (e # es) = of_nat k" by (simp add: len64_def)
      then show ?thesis using step [of k] k False \<open>i \<le> last_index s\<close> e
        by (subst scan_tail.simps) (simp add: Let_def)
    qed
  qed
qed

subsection \<open>The node that starts\<close>

lemma read_sessions_wf: "read_sessions n m cur = Inr (ss, rest) \<Longrightarrow> bt_wf m \<Longrightarrow> bt_wf ss"
  by (induction n m cur rule: read_sessions.induct) (auto simp: res_simps)

lemma decode_store_sessions_wf: "decode_store bs = Inr st \<Longrightarrow> bt_wf (sessions st)"
  by (auto simp: decode_store_def res_simps split: if_splits dest: read_sessions_wf)

lemma restore_snapshot_ok:
  assumes "restore_snapshot s = Inr (sm, i)"
  shows "\<not> poisoned sm" "bt_wf (sessions (store sm))"
    "(\<And>sn. wal_snapshot s = Some sn \<Longrightarrow> snapshot_sound C sn) \<Longrightarrow>
       replayed C (unat (applied (store sm))) = Some (store sm) \<and> applied (store sm) = i"
  using assms decode_store_sessions_wf
  by (auto simp: restore_snapshot_def restore_def kv_new_def empty_store_def replayed_def snapshot_sound_def
      split: option.splits sum.splits prod.splits if_splits)

lemma new_runtime_fresh: "fresh (new_runtime cfg nd sm i t)"
  by (simp add: fresh_def new_runtime_def channels_def answered_def reading_def queued_def due_set_def dues_def)

text \<open>A node that starts from a sound snapshot is at the start of a run as in \<open>RuntimeApply\<close>.\<close>

lemma new_runtime_flow:
  assumes "replayed C (unat (applied (store sm))) = Some (store sm)"
  shows "flow_ok C (unat (applied (store sm))) (new_runtime cfg nd sm i t)"
  using assms by (simp add: flow_ok_def task_ok_def new_runtime_def new_shared_def sent_feed_def channel_feed_def queue_feed_def)

lemma tail_from_entries:
  assumes "aligned s" "e \<in> set (wal_entries s)" "i \<le> le_index e"
  shows "e \<in> set (tail_from s i)"
proof -
  obtain k where k: "k < length (wal_entries s)" "e = wal_entries s ! k" using assms(2) by (auto simp: in_set_conv_nth)
  have "unat (le_index e) = Suc (unat (compacted_to s)) + k"
    using contig_index assms(1) k by (simp add: aligned_def)
  then have d: "unat i - Suc (unat (compacted_to s)) \<le> k" using assms(3) by (simp add: word_le_nat_alt)
  then show ?thesis using k unfolding in_set_conv_nth
    by (intro exI [of _ "k - (unat i - Suc (unat (compacted_to s)))"]) (simp add: tail_from_def)
qed

lemma below_initial: "q \<le> a \<or> q \<le> b \<Longrightarrow> q \<noteq> - 1 \<Longrightarrow> q < initial_sequence a b"
proof -
  assume "q \<le> a \<or> q \<le> b" "q \<noteq> - 1"
  then have q: "q \<le> max a b" by (simp add: le_max_iff_disj)
  have "q < saturating_add (max a b) 1"
  proof (cases "max a b = - 1")
    case True
    then show ?thesis using \<open>q \<noteq> - 1\<close> by (simp add: saturating_add_def word_less_nat_alt unat_max64)
      (metis le_neq_implies_less unat_max64 word_le_nat_alt word_order.extremum word_unat_eq_iff)
  next
    case False
    then show ?thesis using unat_succ [OF False] q unat64_bound [of "max a b + 1"]
      by (simp add: saturating_add_def word_less_nat_alt word_le_nat_alt)
  qed
  then show "q < initial_sequence a b" by (simp add: initial_sequence_def less_max_iff_disj)
qed

lemma session_top:
  assumes "\<not> poisoned sm" "bt_wf (sessions (store sm))"
  obtains top where "max_session_seq sm client = Some top"
    "\<And>q. bt_get (sessions (store sm)) (SessionKey client q) \<noteq> None \<Longrightarrow> q \<le> top"
proof (rule that)
  note spec = max_session_seq_spec [OF assms(2,1) refl, of client]
  show "max_session_seq sm client = Some (the (max_session_seq sm client))" using spec by simp
  show "q \<le> the (max_session_seq sm client)" if "bt_get (sessions (store sm)) (SessionKey client q) \<noteq> None" for q
  proof -
    have "q \<in> client_seqs (sessions (store sm)) client" using that by (simp add: client_seqs_def)
    then show ?thesis using spec finite_client_seqs [OF assms(2), of client] by auto
  qed
qed

text \<open>The scan covers every session of the client beyond index \<open>i\<close>.\<close>

lemma log_tail_covers:
  assumes "aligned s" "unat (last_index s) + 4096 < 2 ^ 64"
  shows "\<exists>tail. log_tail_max_session_seq s (max (first_index s) (saturating_add i 1)) client = Some (Inr tail) \<and>
    (\<forall>e \<in> set (wal_entries s). \<forall>q. i < le_index e \<longrightarrow> command_session (le_data e) = Some (client, q) \<longrightarrow> q \<le> tail)"
proof -
  let ?from = "max (first_index s) (saturating_add i 1)"
  have l: "compacted_to s \<noteq> - 1"
    using aligned_last [OF assms(1)] assms(2) unat_max64 by auto
  then have f: "first_index s = compacted_to s + 1" "compacted_to s < compacted_to s + 1"
    using unat_succ [OF l] by (simp_all add: first_index_def word_less_nat_alt)
  have "1 \<le> first_index s" using f(2) by (simp add: f(1) word_le_nat_alt unat_succ [OF l])
  then have m: "max ?from 1 = ?from" by (simp add: max_absorb1 le_max_iff_disj)
  have c: "compacted_to s < ?from" using f by (simp add: less_max_iff_disj)
  let ?tail = "max_session_seq_in_data (map le_data (tail_from s ?from)) client"
  have t: "log_tail_max_session_seq s ?from client = Some (Inr ?tail)"
    using scan_tail_spec [OF assms c, of client 0] by (simp add: log_tail_max_session_seq_def m)
  have b: "q \<le> ?tail" if "e \<in> set (wal_entries s)" "i < le_index e" "command_session (le_data e) = Some (client, q)" for e q
  proof -
    have "first_index s \<le> le_index e" using assms(1) that(1) l
      by (simp add: f(1) word_le_nat_alt unat_succ [OF l]) (metis aligned_def contig_index in_set_conv_nth le_add1)
    moreover have "saturating_add i 1 \<le> le_index e"
      using that(2) unat_succ [of i] by (cases "i = - 1") (auto simp: saturating_add_def word_le_nat_alt word_less_nat_alt)
    ultimately have "e \<in> set (tail_from s ?from)" using tail_from_entries [OF assms(1) that(1)] by simp
    then show ?thesis using max_session_seq_bound that(3) by (metis image_eqI list.set_map)
  qed
  show ?thesis using t b by blast
qed

text \<open>
  C11: starting a node ends, and its handle reuses no session.  For a log whose entries follow the
  watermark without a gap, and that is not within 4096 of the largest index, \<open>Runtime::new\<close>
  returns, however large the entries are that the scan of the log reads in chunks.  If it returns
  a node, the first sequence number of its handle is above that of every session of the client id
  in the restored state machine and in every entry of the log beyond the snapshot, unless that
  sequence number is the largest there is.
\<close>

theorem restart_continues_above_sessions:
  assumes "aligned (the_wal w)" "unat (last_index (the_wal w)) + 4096 < 2 ^ 64"
  shows "\<exists>res. runtime_new L config w streaming client t = Some res \<and>
    (\<forall>rt first_seq q. res = Inr (rt, first_seq) \<longrightarrow> q \<noteq> - 1 \<longrightarrow>
       (bt_get (sessions (sm_store rt)) (SessionKey client q) \<noteq> None \<or>
        (\<exists>e \<in> set (wal_entries (the_wal w)). rt_snapshot_index rt < le_index e \<and>
           command_session (le_data e) = Some (client, q))) \<longrightarrow>
       q < first_seq)"
proof (cases "restore_snapshot (the_wal w)")
  case (Inl e)
  then show ?thesis by (simp add: runtime_new_def)
next
  case (Inr r)
  let ?s = "the_wal w"
  obtain sm i where r: "restore_snapshot ?s = Inr (sm, i)" using Inr by (cases r) auto
  note ok = restore_snapshot_ok(1,2) [OF r]
  obtain top where top: "max_session_seq sm client = Some top"
    "\<And>q. bt_get (sessions (store sm)) (SessionKey client q) \<noteq> None \<Longrightarrow> q \<le> top"
    using session_top [OF ok, of client] by blast
  obtain tail where t: "log_tail_max_session_seq ?s (max (first_index ?s) (saturating_add i 1)) client = Some (Inr tail)"
    and b: "\<forall>e \<in> set (wal_entries ?s). \<forall>q. i < le_index e \<longrightarrow> command_session (le_data e) = Some (client, q) \<longrightarrow> q \<le> tail"
    using log_tail_covers [OF assms, of i client] by (rule exE) (erule conjE)
  have "runtime_new L config w streaming client t = Some (and_then (new_with_config L (sc_self_raft_id config) (sc_peers config) w 0
      ((sc_raft config)\<lparr>nc_streamed_snapshots := streaming\<rparr>)) (\<lambda>nd.
      Inr (new_runtime (config_of config) nd sm i t, initial_sequence top tail)))"
    using r top(1) t by (simp add: runtime_new_def Let_def)
  moreover have "q < initial_sequence top tail" if "q \<noteq> - 1"
    "bt_get (sessions (store sm)) (SessionKey client q) \<noteq> None \<or>
       (\<exists>e \<in> set (wal_entries ?s). i < le_index e \<and> command_session (le_data e) = Some (client, q))" for q
    using that top(2) b by (intro below_initial) blast+
  ultimately show ?thesis
    by (cases "new_with_config L (sc_self_raft_id config) (sc_peers config) w 0
        ((sc_raft config)\<lparr>nc_streamed_snapshots := streaming\<rparr>)") (auto simp: new_runtime_def new_shared_def)
qed

definition sample_start :: StartConfig where
  "sample_start = \<lparr>sc_self_raft_id = 1, sc_self_node_id = [49], sc_peers = [(2, [50]), (3, [51])], sc_addresses = [],
     sc_raft = node_config_default, sc_profile = lan\<rparr>"

definition sample_world :: World where
  "sample_world = \<lparr>the_fs = new_fs node_opts, the_wal = (reopened node_opts (new_meta node_opts) None None [] 1 2)\<lparr>wal_entries :=
     [\<lparr>le_index = 1, le_term = 1, le_type = NormalEntry, le_data = encode_put 9 4 [5] [6]\<rparr>]\<rparr>\<rparr>"

theorem restart_continues_above_sessions_witness:
  "\<exists>rt first_seq. runtime_new sample_lib sample_start sample_world False 9 0 = Some (Inr (rt, first_seq)) \<and> 4 < first_seq"
proof -
  let ?s = "the_wal sample_world"
  have s: "compacted_to ?s = 0" "wal_snapshot ?s = None"
    "wal_entries ?s = [\<lparr>le_index = 1, le_term = 1, le_type = NormalEntry, le_data = encode_put 9 4 [5] [6]\<rparr>]"
    by (simp_all add: sample_world_def reopened_def)
  have a: "aligned ?s" "unat (last_index ?s) + 4096 < 2 ^ 64"
    by (simp_all add: aligned_def s last_index_def last_entry_index_def last_opt_def)
  have c: "command_session (encode_put 9 4 [5] [6]) = Some (9, 4)"
    by code_simp
  obtain res where res: "runtime_new sample_lib sample_start sample_world False 9 0 = Some res" and
    above: "\<forall>rt first_seq q. res = Inr (rt, first_seq) \<longrightarrow> q \<noteq> - 1 \<longrightarrow>
       (bt_get (sessions (sm_store rt)) (SessionKey 9 q) \<noteq> None \<or>
        (\<exists>e \<in> set (wal_entries ?s). rt_snapshot_index rt < le_index e \<and> command_session (le_data e) = Some (9, q))) \<longrightarrow>
       q < first_seq"
    using restart_continues_above_sessions [OF a, of sample_lib sample_start False 9 0] by blast
  have four: "4 < first_seq" if "res = Inr (rt, first_seq)" "rt_snapshot_index rt < 1" for rt first_seq
    using above [THEN spec, THEN spec, THEN spec, of rt first_seq 4] that s(3) c by simp
  have "\<exists>rt f. res = Inr (rt, f) \<and> rt_snapshot_index rt < 1"
    using res scan_tail_spec [OF a, of 1 9 0] s(1,2)
    by (auto simp: runtime_new_def restore_snapshot_def log_tail_max_session_seq_def first_index_def saturating_add_def
        new_with_config_def sample_lib_def sample_start_def new_runtime_def max_session_seq_def read_expect_def kv_new_def Let_def)
  then show ?thesis using res four by blast
qed

end
