(* ===== verification/ClientHandle.thy ===== *)
theory ClientHandle
  imports Transport RuntimeStart
begin

text \<open>
  The client handle (\<open>arachne/src/client/handle.rs\<close>): the checks of arguments, the session of a
  write, the redirect loop that follows leader hints to other nodes of the process or over the wire,
  and every operation of the handle.

  The rest of the cluster is a parameter: what each actor answers, what a forwarded command gives and
  whether the deadline of the call has passed may be different at every attempt.
\<close>

subsection \<open>The handle\<close>

text \<open>
  A peer handle is represented by the id of its node.  \<open>hd_remote\<close> says whether the transport can
  forward commands; durations are in milliseconds.
\<close>

record Handle =
  hd_self_id :: NodeId
  hd_client_id :: u64
  hd_seq :: u64
  hd_peers :: "NodeId list"
  hd_max_key_bytes :: u64
  hd_max_value_bytes :: u64
  hd_timeout :: u64
  hd_read_timeout :: u64
  hd_remote :: bool
  hd_max_redirects :: nat

definition MAX_REDIRECTS :: nat where "MAX_REDIRECTS = 3"

definition new_local :: "NodeId \<Rightarrow> u64 \<Rightarrow> u64 \<Rightarrow> bool \<Rightarrow> ProfileConfig \<Rightarrow> Handle" where
  "new_local self client initial_seq remote profile =
     \<lparr>hd_self_id = self, hd_client_id = client, hd_seq = initial_seq, hd_peers = [],
      hd_max_key_bytes = max_key_bytes profile, hd_max_value_bytes = max_value_bytes profile,
      hd_timeout = max (election_timeout_ms profile) 1,
      hd_read_timeout = saturating_add (saturating_mul (max (read_index_timeout_ms profile) 1) 2)
        (max (election_timeout_ms profile) 1),
      hd_remote = remote, hd_max_redirects = MAX_REDIRECTS\<rparr>"

definition without_redirect :: "Handle \<Rightarrow> Handle" where
  "without_redirect h = h\<lparr>hd_max_redirects := 0\<rparr>"

definition register_peer :: "NodeId \<Rightarrow> Handle \<Rightarrow> Handle" where
  "register_peer peer h = h\<lparr>hd_peers := List.insert peer (hd_peers h)\<rparr>"

definition target_order :: "Handle \<Rightarrow> NodeId list" where
  "target_order h = hd_self_id h # filter (\<lambda>i. i \<noteq> hd_self_id h) (sort (hd_peers h))"

definition handle_for :: "Handle \<Rightarrow> NodeId \<Rightarrow> bool" where
  "handle_for h i \<longleftrightarrow> i = hd_self_id h \<or> i \<in> set (hd_peers h)"

subsection \<open>Checks of arguments\<close>

definition MAX_MULTI_GET_ENTRIES :: nat where "MAX_MULTI_GET_ENTRIES = 4096"
definition MAX_MULTI_GET_REQUEST_BYTES :: u64 where "MAX_MULTI_GET_REQUEST_BYTES = 4 * 1024 * 1024"

definition validate_key :: "Handle \<Rightarrow> bytes \<Rightarrow> ArachneError + unit" where
  "validate_key h key = (if len64 key > hd_max_key_bytes h then Inl InvalidArgument else Inr ())"

definition validate_value :: "Handle \<Rightarrow> bytes \<Rightarrow> ArachneError + unit" where
  "validate_value h v = (if len64 v > hd_max_value_bytes h then Inl InvalidArgument else Inr ())"

definition validate_put :: "Handle \<Rightarrow> bytes \<Rightarrow> bytes \<Rightarrow> ArachneError + unit" where
  "validate_put h key v = and_then (validate_key h key) (\<lambda>_. validate_value h v)"

fun multi_put_bytes :: "Handle \<Rightarrow> u64 \<Rightarrow> (bytes \<times> bytes) list \<Rightarrow> ArachneError + u64" where
  "multi_put_bytes h sofar [] = Inr sofar"
| "multi_put_bytes h sofar ((key, v) # entries) =
     and_then (validate_key h key) (\<lambda>_.
     and_then (validate_value h v) (\<lambda>_.
       multi_put_bytes h (saturating_add (saturating_add sofar (len64 key)) (len64 v)) entries))"

definition validate_multi_put :: "Handle \<Rightarrow> (bytes \<times> bytes) list \<Rightarrow> ArachneError + unit" where
  "validate_multi_put h entries =
     (if entries = [] then Inl InvalidArgument
      else if length entries > MAX_MULTI_PUT_ENTRIES then Inl InvalidArgument
      else and_then (multi_put_bytes h 0 entries) (\<lambda>sum_bytes.
        if sum_bytes > MAX_MULTI_PUT_TOTAL_BYTES then Inl InvalidArgument else Inr ()))"

fun multi_get_bytes :: "Handle \<Rightarrow> u64 \<Rightarrow> bytes list \<Rightarrow> ArachneError + u64" where
  "multi_get_bytes h sofar [] = Inr sofar"
| "multi_get_bytes h sofar (key # keys) =
     (if len64 key > hd_max_key_bytes h then Inl InvalidArgument
      else multi_get_bytes h (saturating_add sofar (len64 key)) keys)"

definition validate_multi_get :: "Handle \<Rightarrow> bytes list \<Rightarrow> ArachneError + unit" where
  "validate_multi_get h keys =
     (if length keys > MAX_MULTI_GET_ENTRIES then Inl InvalidArgument
      else and_then (multi_get_bytes h 0 keys) (\<lambda>sum_bytes.
        if sum_bytes > MAX_MULTI_GET_REQUEST_BYTES then Inl InvalidArgument else Inr ()))"

definition validate_cas :: "Handle \<Rightarrow> bytes \<Rightarrow> CasPred \<Rightarrow> CasOp \<Rightarrow> ArachneError + unit" where
  "validate_cas h key pred success =
     and_then (validate_key h key) (\<lambda>_.
     and_then (case success of CasPut v \<Rightarrow> validate_value h v | _ \<Rightarrow> Inr ()) (\<lambda>_.
       case pred of ValueEquals want \<Rightarrow> validate_value h want | _ \<Rightarrow> Inr ()))"

text \<open>The key behind all keys with a given prefix.\<close>

definition successor :: "bytes \<Rightarrow> bytes option" where
  "successor pre =
     (case dropWhile (\<lambda>b. b = 0xFF) (rev pre) of
        [] \<Rightarrow> None
      | b # rest \<Rightarrow> Some (rev rest @ [b + 1]))"

subsection \<open>Reaching a node\<close>

text \<open>
  Attempt \<open>n\<close> of a call: the answers of the actors, whether the deadline passes before the answer is
  there, the bytes reserved at each node, and what forwarding a command to an address gives.
\<close>

record Cluster =
  cl_actor :: "nat \<Rightarrow> NodeId \<Rightarrow> Actor"
  cl_late :: "nat \<Rightarrow> bool"
  cl_budget :: "nat \<Rightarrow> NodeId \<Rightarrow> u64"
  cl_forward :: "nat \<Rightarrow> NodeId \<Rightarrow> Addr \<Rightarrow> ForwardCommand \<Rightarrow> string + ForwardOutcome"

text \<open>Sending a command and \<open>await_oneshot\<close>; the second form has the deadline on the send too.\<close>

definition await_oneshot :: "bool \<Rightarrow> 'a Awaited \<Rightarrow> ArachneError + 'a" where
  "await_oneshot late r =
     (case r of
        ChannelClosed \<Rightarrow> Inl ShuttingDown
      | SenderDropped \<Rightarrow> Inl (if late then Timeout else ShuttingDown)
      | Got v \<Rightarrow> if late then Inl Timeout else Inr v)"

definition await_bounded :: "bool \<Rightarrow> 'a Awaited \<Rightarrow> ArachneError + 'a" where
  "await_bounded late r = (if late then Inl Timeout else await_oneshot False r)"

datatype WriteReply = WrOutcome ApplyOutcome | WrIndex LogIndex

fun into_outcome :: "WriteReply \<Rightarrow> ArachneError + ApplyOutcome" where
  "into_outcome (WrOutcome outcome) = Inr outcome"
| "into_outcome (WrIndex _) = Inl ClientUnrecoverable"

fun into_index :: "WriteReply \<Rightarrow> ArachneError + LogIndex" where
  "into_index (WrIndex index) = Inr index"
| "into_index (WrOutcome _) = Inl ClientUnrecoverable"

datatype Request =
    RqPropose bytes u64 u64
  | RqProposeWithIndex bytes u64 u64
  | RqConfChange ConfChangeType RaftId
  | RqTransferLeader "RaftId option"

text \<open>The outer error is one of this client, the inner result the verdict of the node.\<close>

type_synonym 'a verdict = "ArachneError + (ArachneError + 'a)"

definition map_ok :: "('a \<Rightarrow> 'b) \<Rightarrow> 'e + 'a \<Rightarrow> 'e + 'b" where
  "map_ok f r = and_then r (\<lambda>x. Inr (f x))"

definition send_request :: "Cluster \<Rightarrow> Handle \<Rightarrow> nat \<Rightarrow> NodeId \<Rightarrow> Request \<Rightarrow> WriteReply verdict" where
  "send_request C h n target req =
     (if \<not> handle_for h target then Inl QuorumUnavailable
      else
        let ac = cl_actor C n target; late = cl_late C n in
        case req of
          RqPropose cmd cid seqn \<Rightarrow> map_ok (map_ok WrOutcome) (await_oneshot late (ac_propose ac cmd cid seqn))
        | RqProposeWithIndex cmd cid seqn \<Rightarrow>
            map_ok (map_ok WrIndex) (await_oneshot late (ac_propose_with_index ac cmd cid seqn))
        | RqConfChange change_type node \<Rightarrow>
            map_ok (map_ok (\<lambda>_. WrOutcome NoValue)) (await_oneshot late (ac_conf_change ac change_type node))
        | RqTransferLeader to \<Rightarrow>
            map_ok (map_ok (\<lambda>_. WrOutcome NoValue)) (await_oneshot late (ac_transfer_leader ac to)))"

text \<open>The command and the reading of its outcome are the same in the three forwarding functions.\<close>

definition forward_with ::
    "Cluster \<Rightarrow> nat \<Rightarrow> NodeId \<Rightarrow> Addr \<Rightarrow> ForwardCommand \<Rightarrow> (ForwardOutcome \<Rightarrow> ArachneError + 'a) \<Rightarrow> 'a verdict" where
  "forward_with C n leader addr c success =
     (if cl_late C n then Inl QuorumUnavailable
      else case cl_forward C n leader addr c of
        Inl code \<Rightarrow> Inr (Inl (code_to_error code))
      | Inr outcome \<Rightarrow>
          (case fo_leader_hint outcome of
             Some (i, a) \<Rightarrow> Inr (Inl (NotLeader (Some (i, a))))
           | None \<Rightarrow> Inr (success outcome)))"

definition forward_request :: "Cluster \<Rightarrow> nat \<Rightarrow> NodeId \<Rightarrow> Addr \<Rightarrow> Request \<Rightarrow> WriteReply verdict" where
  "forward_request C n leader addr req =
     (case req of
        RqPropose cmd cid seqn \<Rightarrow>
          forward_with C n leader addr (FwPropose cmd cid seqn)
            (\<lambda>outcome. Inr (WrOutcome (case fo_result outcome of Some r \<Rightarrow> r | None \<Rightarrow> NoValue)))
      | RqProposeWithIndex cmd cid seqn \<Rightarrow>
          forward_with C n leader addr (FwProposeWithIndex cmd cid seqn)
            (\<lambda>outcome. case fo_index outcome of Some i \<Rightarrow> Inr (WrIndex i) | None \<Rightarrow> Inl Unsupported)
      | _ \<Rightarrow> Inl QuorumUnavailable)"

definition reach_target :: "Cluster \<Rightarrow> Handle \<Rightarrow> Request \<Rightarrow> nat \<Rightarrow> NodeId \<Rightarrow> Addr option \<Rightarrow> WriteReply verdict" where
  "reach_target C h req n target wire_addr =
     (if handle_for h target then send_request C h n target req
      else case wire_addr of
        Some addr \<Rightarrow> if hd_remote h then forward_request C n target addr req else Inl QuorumUnavailable
      | None \<Rightarrow> Inl QuorumUnavailable)"

definition send_get :: "Cluster \<Rightarrow> Handle \<Rightarrow> nat \<Rightarrow> NodeId \<Rightarrow> bytes \<Rightarrow> bytes option verdict" where
  "send_get C h n target key =
     (if \<not> handle_for h target then Inl QuorumUnavailable
      else await_oneshot (cl_late C n) (ac_read (cl_actor C n target) key))"

definition forward_get :: "Cluster \<Rightarrow> nat \<Rightarrow> NodeId \<Rightarrow> Addr \<Rightarrow> bytes \<Rightarrow> bytes option verdict" where
  "forward_get C n leader addr key = forward_with C n leader addr (FwRead key) (\<lambda>outcome. Inr (fo_value outcome))"

definition reach_get :: "Cluster \<Rightarrow> Handle \<Rightarrow> bytes \<Rightarrow> nat \<Rightarrow> NodeId \<Rightarrow> Addr option \<Rightarrow> bytes option verdict" where
  "reach_get C h key n target wire_addr =
     (if handle_for h target then send_get C h n target key
      else case wire_addr of
        Some addr \<Rightarrow> if hd_remote h then forward_get C n target addr key else Inl QuorumUnavailable
      | None \<Rightarrow> Inl QuorumUnavailable)"

definition send_multi_get ::
    "Cluster \<Rightarrow> Handle \<Rightarrow> nat \<Rightarrow> NodeId \<Rightarrow> bytes list \<Rightarrow> (bytes option list \<times> u64) verdict" where
  "send_multi_get C h n target keys =
     (if \<not> handle_for h target then Inl QuorumUnavailable
      else if try_reserve (cl_budget C n target) (key_bytes keys) = None then Inl Busy
      else await_bounded (cl_late C n) (ac_multi_get (cl_actor C n target) keys Linearizable))"

definition forward_multi_get ::
    "Cluster \<Rightarrow> nat \<Rightarrow> NodeId \<Rightarrow> Addr \<Rightarrow> bytes list \<Rightarrow> (bytes option list \<times> u64) verdict" where
  "forward_multi_get C n leader addr keys =
     forward_with C n leader addr (FwMultiGet keys True)
       (\<lambda>outcome. case fo_multi outcome of Some pair \<Rightarrow> Inr pair | None \<Rightarrow> Inl Unsupported)"

definition reach_multi_get ::
    "Cluster \<Rightarrow> Handle \<Rightarrow> bytes list \<Rightarrow> nat \<Rightarrow> NodeId \<Rightarrow> Addr option \<Rightarrow> (bytes option list \<times> u64) verdict" where
  "reach_multi_get C h keys n target wire_addr =
     (if handle_for h target then send_multi_get C h n target keys
      else case wire_addr of
        Some addr \<Rightarrow> if hd_remote h then forward_multi_get C n target addr keys else Inl QuorumUnavailable
      | None \<Rightarrow> Inl QuorumUnavailable)"

subsection \<open>The redirect loop\<close>

text \<open>
  The loop of \<open>request_with_redirect\<close>, \<open>get_with_redirect\<close> and \<open>multi_get_with_redirect\<close>, which
  differ in how a node is reached.  With the result it gives the nodes tried, which the code does not
  keep.
\<close>

definition next_target :: "NodeId list \<Rightarrow> nat \<Rightarrow> Hint \<Rightarrow> NodeId \<times> Addr option" where
  "next_target order pos h = (case h of Some (i, a) \<Rightarrow> (i, Some a) | None \<Rightarrow> (order ! pos, None))"

text \<open>
  What an answer of \<open>target\<close> means: the result of the call, or another attempt with the counts of
  redirects and of nodes that are gone, and the hint to follow.
\<close>

definition after_attempt ::
    "NodeId \<Rightarrow> nat \<Rightarrow> nat \<Rightarrow> NodeId \<Rightarrow> nat \<Rightarrow> nat \<Rightarrow> Hint \<Rightarrow> 'a verdict \<Rightarrow> (ArachneError + 'a) + (nat \<times> nat \<times> Hint)" where
  "after_attempt self max_redirects nodes target redirects unreachable h answer =
     (case answer of
        Inl e \<Rightarrow>
          if e = ShuttingDown \<and> target \<noteq> self then
            if h = None then
              if unreachable + 1 + 1 \<ge> nodes then Inl (Inl QuorumUnavailable)
              else Inr (redirects, unreachable + 1, h)
            else Inl (Inl QuorumUnavailable)
          else Inl (Inl e)
      | Inr (Inr v) \<Rightarrow> Inl (Inr v)
      | Inr (Inl e) \<Rightarrow>
          (case e of
             NotLeader leader_hint \<Rightarrow>
               if max_redirects = 0 then Inl (Inl (NotLeader leader_hint))
               else if redirects + 1 > max_redirects then Inl (Inl Timeout)
               else Inr (redirects + 1, unreachable, leader_hint)
           | _ \<Rightarrow> Inl (Inl e)))"

lemma after_attempt_Inr:
  assumes "after_attempt self mr nodes target r u h answer = Inr (r', u', h')"
  shows "(mr - r') + (nodes - 2 - u') < (mr - r) + (nodes - 2 - u)"
  using assms by (auto simp: after_attempt_def split: sum.splits ArachneError.splits if_splits)

lemma after_attempt_success: "after_attempt self mr nodes target r u h answer = Inl (Inr v) \<Longrightarrow> answer = Inr (Inr v)"
  by (auto simp: after_attempt_def split: sum.splits ArachneError.splits if_splits)

function redirect_loop ::
    "(nat \<Rightarrow> NodeId \<Rightarrow> Addr option \<Rightarrow> 'a verdict) \<Rightarrow> NodeId \<Rightarrow> nat \<Rightarrow> NodeId list \<Rightarrow> nat \<Rightarrow> nat \<Rightarrow> nat \<Rightarrow> nat \<Rightarrow> Hint
      \<Rightarrow> (NodeId \<times> Addr option) list \<times> (ArachneError + 'a)" where
  "redirect_loop reach self max_redirects order n pos redirects unreachable h =
     (let t = next_target order pos h in
      case after_attempt self max_redirects (length order) (fst t) redirects unreachable h (reach n (fst t) (snd t)) of
        Inl r \<Rightarrow> ([t], r)
      | Inr (redirects, unreachable, h) \<Rightarrow>
          (case redirect_loop reach self max_redirects order (n + 1) ((pos + 1) mod length order) redirects unreachable h of
             (ts, r) \<Rightarrow> (t # ts, r)))"
  by pat_completeness auto
termination
  by (relation "measure (\<lambda>(_, _, mr, order, _, _, r, u, _). (mr - r) + (length order - 2 - u))")
    (auto dest!: after_attempt_Inr)

declare redirect_loop.simps [simp del]

definition redirected ::
    "(nat \<Rightarrow> NodeId \<Rightarrow> Addr option \<Rightarrow> 'a verdict) \<Rightarrow> Handle \<Rightarrow> (NodeId \<times> Addr option) list \<times> (ArachneError + 'a)" where
  "redirected reach h = redirect_loop reach (hd_self_id h) (hd_max_redirects h) (target_order h) 0 0 0 0 None"

definition request_with_redirect :: "Cluster \<Rightarrow> Handle \<Rightarrow> Request \<Rightarrow> (NodeId \<times> Addr option) list \<times> (ArachneError + WriteReply)" where
  "request_with_redirect C h req = redirected (reach_target C h req) h"

definition propose_with_redirect :: "Cluster \<Rightarrow> Handle \<Rightarrow> bytes \<Rightarrow> u64 \<Rightarrow> u64 \<Rightarrow> ArachneError + ApplyOutcome" where
  "propose_with_redirect C h cmd cid seqn = and_then (snd (request_with_redirect C h (RqPropose cmd cid seqn))) into_outcome"

definition propose_with_index_redirect :: "Cluster \<Rightarrow> Handle \<Rightarrow> bytes \<Rightarrow> u64 \<Rightarrow> u64 \<Rightarrow> ArachneError + LogIndex" where
  "propose_with_index_redirect C h cmd cid seqn =
     and_then (snd (request_with_redirect C h (RqProposeWithIndex cmd cid seqn))) into_index"

definition get_with_redirect :: "Cluster \<Rightarrow> Handle \<Rightarrow> bytes \<Rightarrow> ArachneError + bytes option" where
  "get_with_redirect C h key = snd (redirected (reach_get C h key) h)"

definition multi_get_with_redirect :: "Cluster \<Rightarrow> Handle \<Rightarrow> bytes list \<Rightarrow> ArachneError + (bytes option list \<times> u64)" where
  "multi_get_with_redirect C h keys = snd (redirected (reach_multi_get C h keys) h)"

subsection \<open>Writes\<close>

text \<open>
  A write takes the next sequence number of the handle before it is proposed; a write rejected by the
  checks takes none.
\<close>

definition in_session :: "(u64 \<Rightarrow> ArachneError + 'a) \<Rightarrow> Handle \<Rightarrow> Handle \<times> (ArachneError + 'a)" where
  "in_session call h = (h\<lparr>hd_seq := hd_seq h + 1\<rparr>, call (hd_seq h))"

definition checked :: "ArachneError + unit \<Rightarrow> (Handle \<Rightarrow> Handle \<times> (ArachneError + 'a)) \<Rightarrow> Handle \<Rightarrow> Handle \<times> (ArachneError + 'a)" where
  "checked check call h = (case check of Inl e \<Rightarrow> (h, Inl e) | Inr _ \<Rightarrow> call h)"

definition handle_put :: "Cluster \<Rightarrow> bytes \<Rightarrow> bytes \<Rightarrow> Handle \<Rightarrow> Handle \<times> (ArachneError + unit)" where
  "handle_put C key v h = checked (validate_put h key v) (in_session (\<lambda>seqn.
     map_ok (\<lambda>_. ()) (propose_with_redirect C h (encode_put (hd_client_id h) seqn key v) (hd_client_id h) seqn))) h"

definition put_with_index :: "Cluster \<Rightarrow> bytes \<Rightarrow> bytes \<Rightarrow> Handle \<Rightarrow> Handle \<times> (ArachneError + LogIndex)" where
  "put_with_index C key v h = checked (validate_put h key v) (in_session (\<lambda>seqn.
     propose_with_index_redirect C h (encode_put (hd_client_id h) seqn key v) (hd_client_id h) seqn)) h"

definition handle_multi_put :: "Cluster \<Rightarrow> (bytes \<times> bytes) list \<Rightarrow> Handle \<Rightarrow> Handle \<times> (ArachneError + unit)" where
  "handle_multi_put C entries h = checked (validate_multi_put h entries) (in_session (\<lambda>seqn.
     map_ok (\<lambda>_. ()) (propose_with_redirect C h (encode_multi_put (hd_client_id h) seqn entries) (hd_client_id h) seqn))) h"

definition multi_put_with_index :: "Cluster \<Rightarrow> (bytes \<times> bytes) list \<Rightarrow> Handle \<Rightarrow> Handle \<times> (ArachneError + LogIndex)" where
  "multi_put_with_index C entries h = checked (validate_multi_put h entries) (in_session (\<lambda>seqn.
     propose_with_index_redirect C h (encode_multi_put (hd_client_id h) seqn entries) (hd_client_id h) seqn)) h"

definition handle_delete :: "Cluster \<Rightarrow> bytes \<Rightarrow> Handle \<Rightarrow> Handle \<times> (ArachneError + unit)" where
  "handle_delete C key h = checked (validate_key h key) (in_session (\<lambda>seqn.
     map_ok (\<lambda>_. ()) (propose_with_redirect C h (encode_delete (hd_client_id h) seqn key) (hd_client_id h) seqn))) h"

definition delete_with_index :: "Cluster \<Rightarrow> bytes \<Rightarrow> Handle \<Rightarrow> Handle \<times> (ArachneError + LogIndex)" where
  "delete_with_index C key h = checked (validate_key h key) (in_session (\<lambda>seqn.
     propose_with_index_redirect C h (encode_delete (hd_client_id h) seqn key) (hd_client_id h) seqn)) h"

datatype CasResult = Applied | NotApplied LogIndex "bytes option"

fun cas_result :: "ApplyOutcome \<Rightarrow> CasResult" where
  "cas_result (Value _) = Applied"
| "cas_result NoValue = Applied"
| "cas_result (CasFailed i v) = NotApplied i v"

definition handle_cas :: "Cluster \<Rightarrow> bytes \<Rightarrow> CasPred \<Rightarrow> CasOp \<Rightarrow> Handle \<Rightarrow> Handle \<times> (ArachneError + CasResult)" where
  "handle_cas C key pred success h = checked (validate_cas h key pred success) (in_session (\<lambda>seqn.
     map_ok cas_result (propose_with_redirect C h (encode_cas (hd_client_id h) seqn key pred success) (hd_client_id h) seqn))) h"

subsection \<open>Membership\<close>

text \<open>What is left of the cluster's behaviour after \<open>k\<close> attempts.\<close>

definition later :: "nat \<Rightarrow> Cluster \<Rightarrow> Cluster" where
  "later k C = \<lparr>cl_actor = (\<lambda>n. cl_actor C (n + k)), cl_late = (\<lambda>n. cl_late C (n + k)),
     cl_budget = (\<lambda>n. cl_budget C (n + k)), cl_forward = (\<lambda>n. cl_forward C (n + k))\<rparr>"

definition conf_change :: "Cluster \<Rightarrow> Handle \<Rightarrow> ConfChangeType \<Rightarrow> RaftId \<Rightarrow> (NodeId \<times> Addr option) list \<times> (ArachneError + unit)" where
  "conf_change C h change_type node =
     (case request_with_redirect C h (RqConfChange change_type node) of (ts, r) \<Rightarrow> (ts, map_ok (\<lambda>_. ()) r))"

definition add_learner :: "Cluster \<Rightarrow> Handle \<Rightarrow> RaftId \<Rightarrow> ArachneError + unit" where
  "add_learner C h node = snd (conf_change C h AddLearnerNode node)"

definition promote_learner :: "Cluster \<Rightarrow> Handle \<Rightarrow> RaftId \<Rightarrow> ArachneError + unit" where
  "promote_learner C h node = snd (conf_change C h AddNode node)"

definition handle_transfer_leader :: "Cluster \<Rightarrow> Handle \<Rightarrow> RaftId \<Rightarrow> ArachneError + unit" where
  "handle_transfer_leader C h node = map_ok (\<lambda>_. ()) (snd (request_with_redirect C h (RqTransferLeader (Some node))))"

definition hand_over_leadership :: "Cluster \<Rightarrow> Handle \<Rightarrow> (NodeId \<times> Addr option) list \<times> (ArachneError + unit)" where
  "hand_over_leadership C h =
     (case request_with_redirect C h (RqTransferLeader None) of (ts, r) \<Rightarrow> (ts, map_ok (\<lambda>_. ()) r))"

definition remove_member :: "Cluster \<Rightarrow> Handle \<Rightarrow> RaftId \<Rightarrow> ArachneError + unit" where
  "remove_member C h node =
     (case conf_change C h RemoveNode node of
        (ts, r) \<Rightarrow>
          if r = Inl LeaderRemovalRequiresTransfer then
            (case hand_over_leadership (later (length ts) C) h of
               (us, Inl e) \<Rightarrow> Inl e
             | (us, Inr _) \<Rightarrow> snd (conf_change (later (length ts + length us) C) h RemoveNode node))
          else r)"

definition handle_membership :: "Cluster \<Rightarrow> Handle \<Rightarrow> ArachneError + (RaftId list \<times> RaftId list)" where
  "handle_membership C h =
     and_then (await_oneshot (cl_late C 0) (ac_membership (cl_actor C 0 (hd_self_id h)))) id"

subsection \<open>Reads\<close>

definition handle_get :: "Cluster \<Rightarrow> Handle \<Rightarrow> bytes \<Rightarrow> ArachneError + bytes option" where
  "handle_get C h key = and_then (validate_key h key) (\<lambda>_. get_with_redirect C h key)"

definition handle_get_stale :: "Cluster \<Rightarrow> Handle \<Rightarrow> bytes \<Rightarrow> ArachneError + bytes option" where
  "handle_get_stale C h key = and_then (validate_key h key) (\<lambda>_.
     and_then (await_oneshot (cl_late C 0) (ac_get_stale (cl_actor C 0 (hd_self_id h)) key)) id)"

definition handle_get_stale_range ::
    "Cluster \<Rightarrow> Handle \<Rightarrow> bytes \<Rightarrow> bytes \<Rightarrow> nat \<Rightarrow> ArachneError + ((bytes \<times> bytes) list \<times> LogIndex \<times> bool)" where
  "handle_get_stale_range C h start end' limit =
     and_then (validate_key h start) (\<lambda>_.
     and_then (validate_key h end') (\<lambda>_.
       if start \<noteq> [] \<and> end' \<noteq> [] \<and> start > end' then Inl InvalidArgument
       else and_then (await_oneshot (cl_late C 0)
              (ac_get_stale_range (cl_actor C 0 (hd_self_id h)) start end' limit)) id))"

definition get_stale_prefix ::
    "Cluster \<Rightarrow> Handle \<Rightarrow> bytes \<Rightarrow> nat \<Rightarrow> ArachneError + ((bytes \<times> bytes) list \<times> LogIndex \<times> bool)" where
  "get_stale_prefix C h pre limit =
     and_then (validate_key h pre) (\<lambda>_.
       handle_get_stale_range C h pre (case successor pre of Some e \<Rightarrow> e | None \<Rightarrow> []) limit)"

definition handle_get_stale_with_index :: "Cluster \<Rightarrow> Handle \<Rightarrow> bytes \<Rightarrow> ArachneError + (bytes \<times> LogIndex) option" where
  "handle_get_stale_with_index C h key = and_then (validate_key h key) (\<lambda>_.
     and_then (await_oneshot (cl_late C 0) (ac_get_stale_with_index (cl_actor C 0 (hd_self_id h)) key)) id)"

text \<open>The timeout of a wait is in milliseconds from \<open>start\<close>; its deadline also goes to the actor.\<close>

definition wait_applied :: "Cluster \<Rightarrow> Handle \<Rightarrow> LogIndex \<Rightarrow> nat \<Rightarrow> nat \<Rightarrow> ArachneError + LogIndex" where
  "wait_applied C h index start timeout =
     (if timeout = 0 then Inl Timeout
      else and_then (await_bounded (cl_late C 0)
             (ac_wait_applied (cl_actor C 0 (hd_self_id h)) index (start + timeout))) id)"

definition multi_get_stale :: "Cluster \<Rightarrow> Handle \<Rightarrow> bytes list \<Rightarrow> ArachneError + (bytes option list \<times> u64)" where
  "multi_get_stale C h keys =
     (if try_reserve (cl_budget C 0 (hd_self_id h)) (key_bytes keys) = None then Inl Busy
      else and_then (await_bounded (cl_late C 0) (ac_multi_get (cl_actor C 0 (hd_self_id h)) keys Stale)) id)"

definition client_multi_get :: "Cluster \<Rightarrow> Handle \<Rightarrow> bytes list \<Rightarrow> ReadConsistency \<Rightarrow> ArachneError + (bytes option list \<times> u64)" where
  "client_multi_get C h keys consistency =
     and_then (validate_multi_get h keys) (\<lambda>_.
       case consistency of Stale \<Rightarrow> multi_get_stale C h keys | Linearizable \<Rightarrow> multi_get_with_redirect C h keys)"

definition client_watch ::
    "Cluster \<Rightarrow> Handle \<Rightarrow> bytes \<Rightarrow> nat \<Rightarrow> ArachneError + ((bytes \<times> bytes) list \<times> LogIndex \<times> bool \<times> nat)" where
  "client_watch C h pre limit =
     and_then (validate_key h pre) (\<lambda>_.
     and_then (await_oneshot (cl_late C 0)
       (ac_watch (cl_actor C 0 (hd_self_id h)) pre (case successor pre of Some e \<Rightarrow> e | None \<Rightarrow> []) limit)) id)"

definition leader_hint :: "Cluster \<Rightarrow> Handle \<Rightarrow> Hint" where
  "leader_hint C h =
     (case await_oneshot (cl_late C 0) (ac_leader_hint (cl_actor C 0 (hd_self_id h))) of Inl _ \<Rightarrow> None | Inr hh \<Rightarrow> hh)"

subsection \<open>What the loop does\<close>

text \<open>
  The number of attempts: all but the last are redirects or nodes that are gone.  The last attempt
  explains a success.
\<close>

lemma redirect_loop_attempts:
  "redirect_loop reach self mr order n pos r u h = (ts, res) \<Longrightarrow>
    ts \<noteq> [] \<and> hd ts = next_target order pos h \<and> length ts \<le> Suc ((mr - r) + (length order - 2 - u)) \<and>
    (\<forall>v. res = Inr v \<longrightarrow> reach (n + length ts - 1) (fst (last ts)) (snd (last ts)) = Inr (Inr v))"
proof (induction reach self mr order n pos r u h arbitrary: ts res rule: redirect_loop.induct)
  case (1 reach self mr order n pos r u h)
  let ?t = "next_target order pos h"
  let ?a = "after_attempt self mr (length order) (fst ?t) r u h (reach n (fst ?t) (snd ?t))"
  show ?case
  proof (cases ?a)
    case (Inl x)
    then show ?thesis
      using 1(2) after_attempt_success by (auto simp: redirect_loop.simps [of reach self mr order n] Let_def)
  next
    case (Inr x)
    obtain r' u' h' where x: "x = (r', u', h')" by (cases x)
    obtain ts' res' where rec: "redirect_loop reach self mr order (n + 1) ((pos + 1) mod length order) r' u' h' = (ts', res')"
      by (metis surj_pair)
    note ih = 1(1) [OF refl Inr x [symmetric] refl rec]
    have "ts = ?t # ts'" "res = res'"
      using 1(2) Inr x rec by (simp_all add: redirect_loop.simps [of reach self mr order n] Let_def)
    then show ?thesis using ih after_attempt_Inr [OF Inr [unfolded x]] by auto
  qed
qed


subsection \<open>Prefixes\<close>

text \<open>The successor of a prefix, from its front.\<close>

lemma successor_Cons:
  "successor (b # bs) = (case successor bs of Some s \<Rightarrow> Some (b # s) | None \<Rightarrow> if b = 0xFF then None else Some [b + 1])"
proof (cases "\<exists>c \<in> set bs. c \<noteq> 0xFF")
  case True
  then have ne: "dropWhile (\<lambda>b. b = 0xFF) (rev bs) \<noteq> []" by auto
  then obtain c rest where c: "dropWhile (\<lambda>b. b = 0xFF) (rev bs) = c # rest" by (meson list.exhaust)
  have "dropWhile (\<lambda>b. b = 0xFF) (rev bs @ [b]) = (c # rest) @ [b]"
    using True c by (subst dropWhile_append) auto
  then show ?thesis using c by (simp add: successor_def)
next
  case False
  then have e: "dropWhile (\<lambda>b. b = 0xFF) (rev bs) = []" by simp
  have d: "dropWhile (\<lambda>b. b = 0xFF) (rev bs @ [b]) = (if b = 0xFF then [] else [b])"
    using False by (subst dropWhile_append2) auto
  have "successor bs = None" unfolding successor_def e by simp
  moreover have "successor (b # bs) = (if b = 0xFF then None else Some [b + 1])"
    unfolding successor_def rev.simps d by simp
  ultimately show ?thesis by simp
qed

lemma byte_max: "c \<le> 0xFF" for c :: u8
  using unsigned_less [of c, where 'a = nat] by (simp add: word_le_nat_alt)

lemma byte_less_succ: "b \<noteq> 0xFF \<Longrightarrow> c < b + 1 \<longleftrightarrow> c \<le> b" for b c :: u8
proof -
  assume "b \<noteq> 0xFF"
  then have "b < 0xFF" using byte_max [of b] by simp
  then have "unat b < 255" by (simp add: word_less_nat_alt)
  then have "unat (b + 1) = Suc (unat b)" by (simp add: unat_word_ariths)
  then show "c < b + 1 \<longleftrightarrow> c \<le> b" by (simp add: word_less_nat_alt word_le_nat_alt less_Suc_eq_le)
qed

lemma prefix_interval:
  "pre \<le> k \<and> (case successor pre of Some e \<Rightarrow> k < e | None \<Rightarrow> True) \<longleftrightarrow> take (length pre) k = pre"
proof (induction pre arbitrary: k)
  case Nil
  then show ?case by (simp add: successor_def)
next
  case (Cons b bs)
  show ?case
  proof (cases k)
    case (Cons c cs)
    show ?thesis
      using Cons.IH [of cs] byte_max [of c]
      by (auto simp: Cons successor_Cons byte_less_succ split: option.splits if_splits)
  qed simp
qed

lemma successor_shorter: "successor pre = Some e \<Longrightarrow> e \<noteq> [] \<and> length e \<le> length pre"
proof (induction pre arbitrary: e)
  case (Cons b bs)
  then show ?case by (cases "successor bs") (auto simp: successor_Cons split: if_splits)
qed (simp add: successor_def)

lemma prefix_range: "in_range pre (case successor pre of Some e \<Rightarrow> e | None \<Rightarrow> []) k \<longleftrightarrow> take (length pre) k = pre"
  using prefix_interval [of pre k] successor_shorter [of pre]
  by (cases "successor pre") (auto simp: in_range_def)

lemma successor_above: "successor pre = Some e \<Longrightarrow> pre < e"
  using prefix_interval [of pre pre] by simp

lemma prefix_bound_valid:
  assumes "validate_key h pre = Inr ()" "length pre < 2 ^ 64"
  shows "validate_key h (case successor pre of Some e \<Rightarrow> e | None \<Rightarrow> []) = Inr ()"
proof (cases "successor pre")
  case (Some e)
  then have "length e \<le> length pre" by (simp add: successor_shorter)
  then have "len64 e \<le> len64 pre" using assms(2) by (simp add: word_le_nat_alt)
  then show ?thesis using assms(1) Some by (auto simp: validate_key_def split: if_splits)
qed (simp add: validate_key_def len64_def)

subsection \<open>Commands within the limits\<close>

lemma validate_key_length: "validate_key h key = Inr () \<Longrightarrow> length key < 2 ^ 64 \<Longrightarrow> length key \<le> unat (hd_max_key_bytes h)"
  by (auto simp: validate_key_def word_less_nat_alt split: if_splits)

lemma validate_value_length: "validate_value h v = Inr () \<Longrightarrow> length v < 2 ^ 64 \<Longrightarrow> length v \<le> unat (hd_max_value_bytes h)"
  by (auto simp: validate_value_def word_less_nat_alt split: if_splits)

text \<open>The sum of a batch that stays below the bound has not saturated.\<close>

lemma saturating_add_le:
  fixes a b m :: u64
  assumes "saturating_add a b \<le> m" "m < - 1"
  shows "unat (saturating_add a b) = unat a + unat b"
proof (cases "a + b < a")
  case True
  then show ?thesis using assms by (auto simp: saturating_add_def)
next
  case False
  have b: "unat b < 2 ^ 64" using unsigned_less [of b, where 'a = nat] by simp
  have "unat a + unat b < 2 ^ 64"
  proof (rule ccontr)
    assume "\<not> unat a + unat b < 2 ^ 64"
    then have "unat (a + b) = unat a + unat b - 2 ^ 64"
      using b unsigned_less [of a, where 'a = nat] by (simp add: unat_word_ariths mod_if)
    then show False using False b \<open>\<not> unat a + unat b < 2 ^ 64\<close> by (simp add: word_less_nat_alt)
  qed
  then show ?thesis using False by (simp add: saturating_add_def unat_word_ariths)
qed

lemma multi_put_bytes_fields:
  assumes "multi_put_bytes h sofar entries = Inr n"
    "\<forall>(k, v) \<in> set entries. length k < 2 ^ 64 \<and> length v < 2 ^ 64"
  shows "\<forall>(k, v) \<in> set entries. length k \<le> unat (hd_max_key_bytes h) \<and> length v \<le> unat (hd_max_value_bytes h)"
  using assms
proof (induction h sofar entries rule: multi_put_bytes.induct)
  case (2 h sofar key v entries)
  then show ?case
    using validate_key_length [of h key] validate_value_length [of h v] by (auto simp: res_simps)
qed simp

lemma multi_put_bytes_sum:
  assumes "multi_put_bytes h sofar entries = Inr n" "n < - 1"
    "\<forall>(k, v) \<in> set entries. length k < 2 ^ 64 \<and> length v < 2 ^ 64"
  shows "unat sofar + sum_list (map (\<lambda>(k, v). length k + length v) entries) = unat n"
  using assms
proof (induction h sofar entries arbitrary: rule: multi_put_bytes.induct)
  case (2 h sofar key v entries)
  let ?s = "saturating_add (saturating_add sofar (len64 key)) (len64 v)"
  have ih: "unat ?s + sum_list (map (\<lambda>(k, v). length k + length v) entries) = unat n"
    using 2 by (auto simp: res_simps)
  then have "?s \<le> n" by (simp add: word_le_nat_alt)
  then have "unat ?s = unat (saturating_add sofar (len64 key)) + unat (len64 v)" 
    using saturating_add_le 2(3) by blast
  moreover from this have "saturating_add sofar (len64 key) \<le> n" using ih by (simp add: word_le_nat_alt)
  then have "unat (saturating_add sofar (len64 key)) = unat sofar + unat (len64 key)"
    using saturating_add_le 2(3) by blast
  ultimately show ?case using ih 2(4) by simp
qed simp

text \<open>The writes a handle accepts; byte strings have a length of type \<open>usize\<close>.\<close>

fun accepted :: "Handle \<Rightarrow> Write \<Rightarrow> bool" where
  "accepted h (WPut key v) \<longleftrightarrow> validate_put h key v = Inr ()"
| "accepted h (WDelete key) \<longleftrightarrow> validate_key h key = Inr ()"
| "accepted h (WMultiPut entries) \<longleftrightarrow> validate_multi_put h entries = Inr ()"
| "accepted h (WCas key pred success) \<longleftrightarrow> validate_cas h key pred success = Inr ()"

fun in_memory :: "Write \<Rightarrow> bool" where
  "in_memory (WPut key v) \<longleftrightarrow> length key < 2 ^ 64 \<and> length v < 2 ^ 64"
| "in_memory (WDelete key) \<longleftrightarrow> length key < 2 ^ 64"
| "in_memory (WMultiPut entries) \<longleftrightarrow> (\<forall>(k, v) \<in> set entries. length k < 2 ^ 64 \<and> length v < 2 ^ 64)"
| "in_memory (WCas key pred success) \<longleftrightarrow> length key < 2 ^ 64 \<and>
     (case pred of ValueEquals v \<Rightarrow> length v < 2 ^ 64 | _ \<Rightarrow> True) \<and> (case success of CasPut v \<Rightarrow> length v < 2 ^ 64 | _ \<Rightarrow> True)"

lemma length_entries:
  "length (concat (map (\<lambda>(key, val). field32 key @ field32 val) entries)) =
    8 * length entries + sum_list (map (\<lambda>(k, v). length k + length v) entries)"
  by (induction entries) (auto simp: field32_def)

lemma preset_limits:
  "unat (max_key_bytes (profile_config p)) = 4096" "unat (max_value_bytes (profile_config p)) = 1048576"
  by (cases p; simp add: lan_def wan_def KB_def MB_def)+

lemma accepted_ok:
  assumes "accepted h w" "in_memory w" "unat (hd_max_key_bytes h) = 4096" "unat (hd_max_value_bytes h) = 1048576"
  shows "write_ok w \<and> length (encode_write s w) \<le> 4227093"
proof (cases w)
  case (WPut key v)
  then have "length key \<le> 4096" "length v \<le> 1048576"
    using assms validate_key_length [of h key] validate_value_length [of h v] by (auto simp: validate_put_def res_simps)
  then show ?thesis by (simp add: WPut encode_put_def field32_def)
next
  case (WDelete key)
  then have "length key \<le> 4096" using assms validate_key_length [of h key] by auto
  then show ?thesis by (simp add: WDelete encode_delete_def field32_def)
next
  case (WMultiPut entries)
  let ?n = "sum_list (map (\<lambda>(k, v). length k + length v) entries)"
  have l: "length entries \<le> 4096" "multi_put_bytes h 0 entries = Inr n \<Longrightarrow> n \<le> 4194304" for n
    using assms(1) by (auto simp: WMultiPut validate_multi_put_def MAX_MULTI_PUT_ENTRIES_def MAX_MULTI_PUT_TOTAL_BYTES_def split: if_splits)
  obtain n where n: "multi_put_bytes h 0 entries = Inr n"
    using assms(1) by (auto simp: WMultiPut validate_multi_put_def res_simps split: if_splits)
  have m: "\<forall>(k, v) \<in> set entries. length k < 2 ^ 64 \<and> length v < 2 ^ 64" using assms(2) by (simp add: WMultiPut)
  have "n \<le> 4194304" using l(2) [OF n] .
  then have "unat n \<le> 4194304" "n < - 1" by (simp_all add: word_le_nat_alt word_less_nat_alt unat_max64)
  then have "?n \<le> 4194304" using multi_put_bytes_sum [OF n _ m] by simp
  moreover have "fields_ok entries"
    using multi_put_bytes_fields [OF n m] assms(3,4) by (fastforce simp: fields_ok_def)
  ultimately show ?thesis
    using l(1) by (simp add: WMultiPut encode_multi_put_def length_entries MAX_MULTI_PUT_ENTRIES_def)
next
  case (WCas key pred success)
  have vl: "validate_value h v = Inr () \<Longrightarrow> length v < 2 ^ 64 \<Longrightarrow> length v < 2 ^ 32 \<and> length v \<le> 1048576" for v
    using validate_value_length [of h v] assms(4) by simp
  from WCas have "length key \<le> 4096" using assms validate_key_length [of h key] by (auto simp: validate_cas_def res_simps)
  moreover have "cas_pred_ok pred \<and> length (encode_cas_pred pred) \<le> 1048581"
    using assms(1,2) vl by (cases pred) (auto simp: WCas validate_cas_def field32_def res_simps)
  moreover have "cas_op_ok success \<and> length (encode_cas_op success) \<le> 1048581"
    using assms(1,2) vl by (cases success) (auto simp: WCas validate_cas_def field32_def res_simps)
  ultimately show ?thesis by (simp add: WCas encode_cas_def field32_def)
qed

subsection \<open>Properties\<close>

text \<open>
  C13: a write accepted by a handle always applies.  Take a handle with the limits of a preset and any
  put, delete, batch put or compare-and-swap that passes its checks, under any session.  The command
  the handle proposes decodes to that write under that session; every state machine applies it
  without an error at its next index, so it cannot stop the replicas once it is committed; and its log
  entry fits into a record of the write-ahead log.
\<close>

theorem accepted_writes_apply:
  assumes "accepted h w" "in_memory w" "hd_max_key_bytes h = max_key_bytes (profile_config p)"
    "hd_max_value_bytes h = max_value_bytes (profile_config p)"
  shows "decode_command (encode_write (SessionKey cid seqn) w) = Inr (Write (SessionKey cid seqn) w) \<and>
    (\<exists>st' r. apply_locked st (applied st + 1) (encode_write (SessionKey cid seqn) w) = (st', Inr r)) \<and>
    length (encode_entry i t 0 (encode_write (SessionKey cid seqn) w)) \<le> unat MAX_RECORD_BYTES"
proof -
  let ?c = "encode_write (SessionKey cid seqn) w"
  have ok: "write_ok w" "length ?c \<le> 4227093"
    using accepted_ok [OF assms(1,2)] assms(3,4) by (simp_all add: preset_limits)
  have d: "decode_command ?c = Inr (Write (SessionKey cid seqn) w)"
    using decode_encode_command [of "Write (SessionKey cid seqn) w"] ok(1) by simp
  have "\<exists>st' r. apply_locked st (applied st + 1) ?c = (st', Inr r)"
    using d by (simp add: apply_locked_decoded commit_write_def split: option.split prod.split)
  then show ?thesis using d ok(2) by (simp add: encode_entry_def)
qed

definition sample_handle :: Handle where
  "sample_handle = new_local [49] 9 1 True lan"

theorem accepted_writes_apply_witness:
  "accepted sample_handle (WCas [1] NotExists (CasPut [2])) \<and>
   (\<exists>st' r. apply_locked empty_store 1 (encode_cas 9 1 [1] NotExists (CasPut [2])) = (st', Inr r))"
proof -
  have a: "accepted sample_handle (WCas [1] NotExists (CasPut [2]))"
    by (simp add: sample_handle_def new_local_def validate_cas_def validate_key_def validate_value_def lan_def KB_def MB_def
        len64_def)
  have "\<exists>st' r. apply_locked empty_store (applied empty_store + 1)
      (encode_write (SessionKey 9 1) (WCas [1] NotExists (CasPut [2]))) = (st', Inr r)"
    using accepted_writes_apply [OF a, where p = Lan and st = empty_store and cid = 9 and seqn = 1] by (simp add: sample_handle_def new_local_def)
  with a show ?thesis by (simp add: empty_store_def)
qed

text \<open>A cluster in which every actor refers to the node \<open>[50]\<close>, which accepts what is forwarded to it.\<close>

definition refusing :: "ArachneError \<Rightarrow> Actor" where
  "refusing e = \<lparr>ac_conf_change = (\<lambda>_ _. Got (Inl e)), ac_membership = Got (Inl e), ac_transfer_leader = (\<lambda>_. Got (Inl e)),
     ac_propose = (\<lambda>_ _ _. Got (Inl e)), ac_propose_with_index = (\<lambda>_ _ _. Got (Inl e)), ac_get_stale = (\<lambda>_. Got (Inl e)),
     ac_get_stale_with_index = (\<lambda>_. Got (Inl e)), ac_get_stale_range = (\<lambda>_ _ _. Got (Inl e)),
     ac_multi_get = (\<lambda>_ _. Got (Inl e)), ac_watch = (\<lambda>_ _ _. Got (Inl e)), ac_read = (\<lambda>_. Got (Inl e)),
     ac_leader_hint = Got None, ac_wait_applied = (\<lambda>_ _. Got (Inl e))\<rparr>"

definition sample_cluster :: Cluster where
  "sample_cluster = \<lparr>cl_actor = (\<lambda>_ _. refusing (NotLeader (Some ([50], [80])))), cl_late = (\<lambda>_. False),
     cl_budget = (\<lambda>_ _. 0), cl_forward = (\<lambda>_ _ _ _. Inr (no_outcome\<lparr>fo_result := Some (Value [6])\<rparr>))\<rparr>"

lemma sample_reach:
  "reach_target sample_cluster sample_handle (RqPropose cmd 9 1) n [49] None = Inr (Inl (NotLeader (Some ([50], [80]))))"
  "reach_target sample_cluster sample_handle (RqPropose cmd 9 1) n [50] (Some [80]) = Inr (Inr (WrOutcome (Value [6])))"
  by (simp_all add: reach_target_def handle_for_def sample_handle_def new_local_def send_request_def sample_cluster_def
      refusing_def await_oneshot_def map_ok_def forward_request_def forward_with_def no_outcome_def)

lemma sample_order: "target_order sample_handle = [[49]]" "hd_self_id sample_handle = [49]" "hd_max_redirects sample_handle = 3"
    "hd_peers sample_handle = []"
  by (simp_all add: target_order_def sample_handle_def new_local_def MAX_REDIRECTS_def)

text \<open>
  C15: a call ends after a bounded number of attempts.  Whatever the nodes answer, a call of the
  handle, be it a write, a membership change or a linearizable read, tries its own node first and then
  at most one node more than the redirects it may follow and the peers but one that may be gone.  A
  call returns a value only if the node it tried last answered with that value.
\<close>

theorem calls_end_with_an_answer:
  assumes "redirected reach h = (ts, res)"
  shows "ts \<noteq> [] \<and> hd ts = (hd_self_id h, None) \<and>
    length ts \<le> Suc (hd_max_redirects h + (length (hd_peers h) - 1)) \<and>
    (\<forall>v. res = Inr v \<longrightarrow> reach (length ts - 1) (fst (last ts)) (snd (last ts)) = Inr (Inr v))"
proof -
  have "length (target_order h) \<le> Suc (length (hd_peers h))"
    unfolding target_order_def using length_filter_le [of _ "sort (hd_peers h)"] by simp
  then show ?thesis
    using redirect_loop_attempts [OF assms [unfolded redirected_def]] by (auto simp: next_target_def target_order_def)
qed

theorem calls_end_with_an_answer_witness:
  "\<exists>ts. redirected (reach_target sample_cluster sample_handle (RqPropose [] 9 1)) sample_handle = (ts, Inr (WrOutcome (Value [6]))) \<and>
    length ts \<le> 4"
proof -
  have r: "redirected (reach_target sample_cluster sample_handle (RqPropose [] 9 1)) sample_handle =
      ([([49], None), ([50], Some [80])], Inr (WrOutcome (Value [6])))"
    by (simp add: redirected_def sample_order redirect_loop.simps next_target_def after_attempt_def sample_reach Let_def)
  show ?thesis using calls_end_with_an_answer [OF r] r by (simp add: sample_order)
qed



text \<open>
  C18: a prefix read returns the keys with the prefix.  If the actor of the node answers range reads
  from a state machine, a stale read of a prefix returns, in the order of the map and with the applied
  index, the entries whose key starts with the prefix, at most the requested limit and
  at most 10000 of them, and says whether there are more; also for prefixes that end in the largest
  byte, and without rejecting the bound it computes.
\<close>

theorem prefix_read_exact:
  assumes "validate_key h pre = Inr ()" "length pre < 2 ^ 64" "\<not> poisoned sm" "\<not> cl_late C 0"
    "\<forall>s e l. ac_get_stale_range (cl_actor C 0 (hd_self_id h)) s e l =
       Got (map_err (\<lambda>_. ClientUnrecoverable) (get_range_with_index sm s e l))"
  shows "let sel = filter (\<lambda>(k, e). take (length pre) k = pre) (kv (store sm)); lim = min limit 10000
    in get_stale_prefix C h pre limit =
         Inr (map (\<lambda>(k, e). (k, e_val e)) (take lim sel), applied (store sm), lim < length sel)"
proof -
  let ?e = "case successor pre of Some e \<Rightarrow> e | None \<Rightarrow> []"
  have "\<not> (pre \<noteq> [] \<and> ?e \<noteq> [] \<and> pre > ?e)"
    by (cases "successor pre") (auto dest: successor_above)
  then have "get_stale_prefix C h pre limit = map_err (\<lambda>_. ClientUnrecoverable) (get_range_with_index sm pre ?e limit)"
    using assms(1,4,5) prefix_bound_valid [OF assms(1,2)]
    by (auto simp: get_stale_prefix_def handle_get_stale_range_def await_oneshot_def)
  then show ?thesis
    using get_range_unfold [OF assms(3), of pre ?e limit] by (simp add: prefix_range Let_def MAX_STALE_RANGE_ENTRIES_def)
qed

definition range_cluster :: "KvStateMachine \<Rightarrow> Cluster" where
  "range_cluster sm = sample_cluster\<lparr>cl_actor := (\<lambda>_ _. (refusing Busy)\<lparr>ac_get_stale_range :=
     (\<lambda>s e l. Got (map_err (\<lambda>_. ClientUnrecoverable) (get_range_with_index sm s e l)))\<rparr>)\<rparr>"

theorem prefix_read_exact_witness:
  "get_stale_prefix (range_cluster kv_new) sample_handle [7, 255] 5 = Inr ([], 0, False)"
  using prefix_read_exact [where h = sample_handle and pre = "[7, 255]" and sm = kv_new and C = "range_cluster kv_new" and limit = 5]
  by (simp add: range_cluster_def sample_cluster_def sample_handle_def new_local_def validate_key_def lan_def KB_def len64_def
      kv_new_def empty_store_def)

subsection \<open>Across the wire\<close>

text \<open>
  The leader \<open>ac\<close> behind the service \<open>sv\<close>: its sink is registered, and what is forwarded from a handle
  to its address is the reply of the service to the request of the forwarder.  Addresses are their own
  text, so the parser accepts what was written.
\<close>

definition wired :: "Cluster \<Rightarrow> nat \<Rightarrow> NodeId \<Rightarrow> Addr \<Rightarrow> Hello \<Rightarrow> RaftTransportService \<Rightarrow> Actor \<Rightarrow> u64 \<Rightarrow> bool" where
  "wired C n leader addr hello sv ac used \<longleftrightarrow>
     \<not> cl_late C n \<and> hello_error sv (Some hello) = None \<and>
     map_of (sv_command_sinks sv) (sv_node_id sv) = Some (sink ac used) \<and>
     cl_forward C n leader addr = do_forward (\<lambda>req. Inr (snd (serve_forward req sv))) Some hello"

lemma forward_command_build: "forward_command (build_forward_request hello c) = Some c"
  by (cases c) (simp_all add: forward_command_def build_forward_request_def)

lemma build_forward_hello [simp]: "fq_hello (build_forward_request hello c) = Some hello"
  by (cases c) (simp_all add: build_forward_request_def)

lemma forward_result_round_trip:
  "decode_forward_result (encode_forward_result r) = (case r of Some NoValue \<Rightarrow> None | _ \<Rightarrow> r)"
  by (auto simp: decode_forward_result_def encode_forward_result_def split: option.splits ApplyOutcome.splits)

lemma wired_reply:
  assumes "wired C n leader addr hello sv ac used"
  shows "cl_forward C n leader addr c =
    do_forward (\<lambda>_. Inr (forward_reply (sink ac used c))) Some hello c"
  using assms
  by (simp add: wired_def do_forward_def serve_forward_def hello_error_def forward_command_build)

text \<open>How the client sees a verdict of a sink: \<open>good\<close> reads the decoded outcome.\<close>

definition over_wire :: "('a \<Rightarrow> 'b verdict) \<Rightarrow> 'b verdict \<Rightarrow> (ArachneError + 'a) Awaited \<Rightarrow> 'b verdict" where
  "over_wire success hintless r =
     (case r of
        Got (Inr x) \<Rightarrow> success x
      | Got (Inl (NotLeader (Some h))) \<Rightarrow> Inr (Inl (NotLeader (Some h)))
      | Got (Inl (NotLeader None)) \<Rightarrow> hintless
      | Got (Inl e) \<Rightarrow> Inr (Inl (if has_code e then e else ClientUnrecoverable))
      | _ \<Rightarrow> Inr (Inl QuorumUnavailable))"

lemma stable_code_not_leader: "stable_code e \<noteq> ''not_leader''" "UNAVAILABLE_CODE \<noteq> ''not_leader''"
  by (cases e; simp add: stable_code_def) (simp add: UNAVAILABLE_CODE_def)

lemma forward_with_error:
  assumes "wired C n leader addr hello sv ac used" "sink ac used c = Inl code" "code \<noteq> ''not_leader''"
  shows "forward_with C n leader addr c f = Inr (Inl (code_to_error code))"
  using assms
  by (simp add: forward_with_def wired_reply [OF assms(1)] do_forward_def forward_reply_def empty_reply_def Let_def) (simp add: wired_def)

lemma forward_with_outcome:
  assumes "wired C n leader addr hello sv ac used" "sink ac used c = Inr outcome"
  shows "forward_with C n leader addr c f =
    (case fo_leader_hint outcome of
       Some h \<Rightarrow> Inr (Inl (NotLeader (Some h)))
     | None \<Rightarrow>
         (case decode_multi_get (fo_multi outcome) (length (fq_keys (build_forward_request hello c))) of
            Inl code \<Rightarrow> Inr (Inl (code_to_error code))
          | Inr multi \<Rightarrow> Inr (f \<lparr>fo_value = Some (case fo_value outcome of Some v \<Rightarrow> v | None \<Rightarrow> []), fo_leader_hint = None,
              fo_result = decode_forward_result (encode_forward_result (fo_result outcome)), fo_multi = multi,
              fo_index = fo_index outcome\<rparr>)))"
proof -
  have late: "\<not> cl_late C n" using assms(1) by (simp add: wired_def)
  note fwd = wired_reply [OF assms(1), of c, unfolded assms(2)]
  show ?thesis
    using late
    by (cases "decode_multi_get (fo_multi outcome) (length (fq_keys (build_forward_request hello c)))"; cases "fo_leader_hint outcome")
      (auto simp: forward_with_def fwd do_forward_def forward_reply_def empty_reply_def no_outcome_def Let_def)
qed

lemma forward_with_sink:
  assumes "wired C n leader addr hello sv ac used" "sink ac used c = sink_reply success r" "\<And>x. fo_leader_hint (success x) = None"
  shows "forward_with C n leader addr c f = over_wire (\<lambda>x.
      case decode_multi_get (fo_multi (success x)) (length (fq_keys (build_forward_request hello c))) of
        Inl code \<Rightarrow> Inr (Inl (code_to_error code))
      | Inr multi \<Rightarrow> Inr (f \<lparr>fo_value = Some (case fo_value (success x) of Some v \<Rightarrow> v | None \<Rightarrow> []), fo_leader_hint = None,
          fo_result = decode_forward_result (encode_forward_result (fo_result (success x))), fo_multi = multi,
          fo_index = fo_index (success x)\<rparr>))
    (Inr (f (no_outcome\<lparr>fo_value := Some []\<rparr>))) r"
proof (cases r)
  case (Got a)
  show ?thesis
  proof (cases a)
    case (Inl e)
    have none: "decode_forward_result (encode_forward_result None) = None" by (simp add: forward_result_round_trip)
    show ?thesis
    proof (cases "\<exists>h. e = NotLeader h")
      case True
      then obtain h where "sink ac used c = Inr (no_outcome\<lparr>fo_leader_hint := h\<rparr>)" "e = NotLeader h"
        using assms(2) Got Inl by (auto simp: sink_reply_def)
      then show ?thesis
        using Got Inl by (cases h) (simp_all add: forward_with_outcome [OF assms(1)] over_wire_def no_outcome_def decode_multi_get_def none)
    next
      case False
      then have "sink ac used c = Inl (stable_code e)" using assms(2) Got Inl by (cases e) (simp_all add: sink_reply_def)
      then show ?thesis
        using Got Inl False
        by (cases e) (simp_all add: forward_with_error [OF assms(1)] over_wire_def stable_code_not_leader code_round_trip)
    qed
  next
    case (Inr x)
    then have "sink ac used c = Inr (success x)" using assms(2) Got by (simp add: sink_reply_def)
    then show ?thesis using Got Inr assms(3) by (simp add: forward_with_outcome [OF assms(1)] over_wire_def)
  qed
qed (use assms(2) in \<open>simp_all add: forward_with_error [OF assms(1)] over_wire_def sink_reply_def stable_code_not_leader\<close>)

lemma over_wire_cong: "(\<And>x. f x = g x) \<Longrightarrow> d = e \<Longrightarrow> over_wire f d r = over_wire g e r"
  by (metis ext)

lemma no_hint [simp]: "fo_leader_hint no_outcome = None"
  by (simp add: no_outcome_def)

text \<open>
  C14: what a forwarded call sees.  A call forwarded to a node whose service accepts the handshake gets
  the outcome, the index or the values its actor answered with, the hint of a node that refers to
  another one, and every error that has a code; other errors become unrecoverable, and an actor that is
  gone reads as a lost quorum.  Two answers are changed on the way: a refusal without a hint reads as a
  success of a write that is not asked for its index and of a read, and an absent key reads as an empty
  value.
\<close>

theorem forwarded_verdicts:
  assumes "wired C n leader addr hello sv ac used"
  shows "forward_request C n leader addr (RqPropose cmd cid seqn) =
      over_wire (\<lambda>outcome. Inr (Inr (WrOutcome outcome))) (Inr (Inr (WrOutcome NoValue))) (ac_propose ac cmd cid seqn) \<and>
    forward_request C n leader addr (RqProposeWithIndex cmd cid seqn) =
      over_wire (\<lambda>i. Inr (Inr (WrIndex i))) (Inr (Inl Unsupported)) (ac_propose_with_index ac cmd cid seqn) \<and>
    forward_get C n leader addr key =
      over_wire (\<lambda>v. Inr (Inr (Some (case v of Some x \<Rightarrow> x | None \<Rightarrow> [])))) (Inr (Inr (Some []))) (ac_read ac key) \<and>
    forward_multi_get C n leader addr keys =
      (if try_reserve used (key_bytes keys) = None then Inr (Inl Busy)
       else over_wire (\<lambda>(vs, i). Inr (if length vs = length keys then Inr (vs, i) else Inl ClientUnrecoverable))
              (Inr (Inl Unsupported)) (ac_multi_get ac keys Linearizable))"
proof -
  note s = forward_with_sink [OF assms]
  have "forward_request C n leader addr (RqPropose cmd cid seqn) =
      over_wire (\<lambda>outcome. Inr (Inr (WrOutcome outcome))) (Inr (Inr (WrOutcome NoValue))) (ac_propose ac cmd cid seqn)"
    unfolding forward_request_def Request.case
    by (subst s [OF sink.simps(1)], simp, rule over_wire_cong)
      (auto simp: no_outcome_def decode_multi_get_def forward_result_round_trip split: ApplyOutcome.split)
  moreover have "forward_request C n leader addr (RqProposeWithIndex cmd cid seqn) =
      over_wire (\<lambda>i. Inr (Inr (WrIndex i))) (Inr (Inl Unsupported)) (ac_propose_with_index ac cmd cid seqn)"
    unfolding forward_request_def Request.case
    by (subst s [OF sink.simps(2)], simp, rule over_wire_cong) (simp_all add: no_outcome_def decode_multi_get_def)
  moreover have "forward_get C n leader addr key =
      over_wire (\<lambda>v. Inr (Inr (Some (case v of Some x \<Rightarrow> x | None \<Rightarrow> [])))) (Inr (Inr (Some []))) (ac_read ac key)"
    unfolding forward_get_def
    by (subst s [OF sink.simps(3)], simp, rule over_wire_cong) (simp_all add: no_outcome_def decode_multi_get_def)
  moreover have "forward_multi_get C n leader addr keys =
      (if try_reserve used (key_bytes keys) = None then Inr (Inl Busy)
       else over_wire (\<lambda>(vs, i). Inr (if length vs = length keys then Inr (vs, i) else Inl ClientUnrecoverable))
              (Inr (Inl Unsupported)) (ac_multi_get ac keys Linearizable))"
  proof (cases "try_reserve used (key_bytes keys)")
    case None
    then show ?thesis
      by (simp add: forward_multi_get_def forward_with_error [OF assms, where code = "''busy''"]) (simp add: code_to_error_def)
  next
    case (Some u)
    then have "sink ac used (FwMultiGet keys True) =
        sink_reply (\<lambda>pair. no_outcome\<lparr>fo_multi := Some pair\<rparr>) (ac_multi_get ac keys Linearizable)" by simp
    note w = s [OF this, simplified]
    have "forward_multi_get C n leader addr keys =
        over_wire (\<lambda>(vs, i). Inr (if length vs = length keys then Inr (vs, i) else Inl ClientUnrecoverable))
          (Inr (Inl Unsupported)) (ac_multi_get ac keys Linearizable)"
      unfolding forward_multi_get_def w
      by (rule over_wire_cong)
        (auto simp: no_outcome_def decode_multi_get_def build_forward_request_def code_to_error_def split: if_splits)
    then show ?thesis using Some by simp
  qed
  ultimately show ?thesis by blast
qed

text \<open>A leader at \<open>[80]\<close> that refuses everything without a hint, behind a service, and the cluster around it.\<close>

definition sample_hello :: Hello where
  "sample_hello = build_hello [99] [49] 1 0 []"

definition sample_service :: "Actor \<Rightarrow> RaftTransportService" where
  "sample_service ac = \<lparr>sv_cluster_id = [99], sv_protocol_major = 1, sv_protocol_minor = 0, sv_rejects = 0, sv_inbound = [],
     sv_inbound_open = True, sv_snapshot_provider = None, sv_command_sinks = [([50], sink ac 0)], sv_node_id = [50],
     sv_snapshot_chunk_bytes = 4\<rparr>"

definition wired_cluster :: "Actor \<Rightarrow> Cluster" where
  "wired_cluster ac = sample_cluster\<lparr>cl_forward :=
     (\<lambda>_ _ _. do_forward (\<lambda>req. Inr (snd (serve_forward req (sample_service ac)))) Some sample_hello)\<rparr>"

lemma wired_cluster_wired: "wired (wired_cluster ac) n [50] [80] sample_hello (sample_service ac) ac 0"
  by (simp add: wired_def wired_cluster_def sample_cluster_def sample_service_def sample_hello_def hello_error_def
      validate_hello_def build_hello_def)

theorem forwarded_verdicts_witness:
  "forward_get (wired_cluster (refusing Busy)) 1 [50] [80] [1] = Inr (Inl Busy) \<and>
   forward_request (wired_cluster (refusing (NotLeader None))) 1 [50] [80] (RqPropose [] 9 1) = Inr (Inr (WrOutcome NoValue))"
  using forwarded_verdicts [OF wired_cluster_wired [of "refusing Busy" 1]]
    forwarded_verdicts [OF wired_cluster_wired [of "refusing (NotLeader None)" 1]]
  by (simp add: over_wire_def refusing_def has_code_def)

lemma one_redirect:
  assumes "reach 0 (hd_self_id h) None = Inr (Inl (NotLeader (Some (leader, addr))))" "reach 1 leader (Some addr) = Inr (Inr v)"
    "0 < hd_max_redirects h"
  shows "redirected reach h = ([(hd_self_id h, None), (leader, Some addr)], Inr v)"
proof -
  have "next_target (target_order h) 0 None = (hd_self_id h, None)" "next_target os p (Some (leader, addr)) = (leader, Some addr)" for os p
    by (simp_all add: next_target_def target_order_def)
  then show ?thesis
    using assms by (simp add: redirected_def redirect_loop.simps [of _ _ _ _ 0] redirect_loop.simps [of _ _ _ _ "Suc 0"]
        after_attempt_def Let_def)
qed

text \<open>
  C17: a write nobody accepted is reported as done.  The node of the handle refers to a leader in
  another process, and that node has meanwhile lost its leadership and knows no leader.  Both refuse
  the request, and nothing is proposed.  A put through the handle nevertheless returns success, and a
  linearizable read returns an empty value.
\<close>

theorem refused_write_reported_done:
  assumes "wired C 1 leader addr hello sv (refusing (NotLeader None)) used" "\<not> cl_late C 0"
    "cl_actor C 0 (hd_self_id h) = refusing (NotLeader (Some (leader, addr)))"
    "\<not> handle_for h leader" "hd_remote h" "0 < hd_max_redirects h" "validate_put h key v = Inr ()"
  shows "handle_put C key v h = (h\<lparr>hd_seq := hd_seq h + 1\<rparr>, Inr ()) \<and> handle_get C h key = Inr (Some [])"
proof -
  note wire = forwarded_verdicts [OF assms(1)]
  have p: "reach_target C h (RqPropose cmd cid seqn) 0 (hd_self_id h) None = Inr (Inl (NotLeader (Some (leader, addr))))"
    "reach_target C h (RqPropose cmd cid seqn) 1 leader (Some addr) = Inr (Inr (WrOutcome NoValue))" for cmd cid seqn
    using assms(2-5) wire
    by (simp_all add: reach_target_def send_request_def handle_for_def refusing_def await_oneshot_def map_ok_def over_wire_def)
  have g: "reach_get C h key 0 (hd_self_id h) None = Inr (Inl (NotLeader (Some (leader, addr))))"
    "reach_get C h key 1 leader (Some addr) = Inr (Inr (Some []))"
    using assms(2-5) wire
    by (simp_all add: reach_get_def send_get_def handle_for_def refusing_def await_oneshot_def over_wire_def)
  note one_redirect [OF p assms(6)] one_redirect [OF g assms(6)]
  moreover have "validate_key h key = Inr ()" using assms(7) by (auto simp: validate_put_def res_simps)
  ultimately show ?thesis
    using assms(7) by (simp add: handle_put_def checked_def in_session_def propose_with_redirect_def request_with_redirect_def
        map_ok_def handle_get_def get_with_redirect_def)
qed

theorem refused_write_reported_done_witness:
  "snd (handle_put (wired_cluster (refusing (NotLeader None))) [1] [2] sample_handle) = Inr ()"
proof -
  have "handle_put (wired_cluster (refusing (NotLeader None))) [1] [2] sample_handle =
        (sample_handle\<lparr>hd_seq := hd_seq sample_handle + 1\<rparr>, Inr ()) \<and>
      handle_get (wired_cluster (refusing (NotLeader None))) sample_handle [1] = Inr (Some [])"
    by (rule refused_write_reported_done [OF wired_cluster_wired])
      (simp_all add: wired_cluster_def sample_cluster_def handle_for_def sample_handle_def new_local_def MAX_REDIRECTS_def
        validate_put_def validate_key_def validate_value_def lan_def KB_def MB_def len64_def)
  then show ?thesis by simp
qed

end
