(* ===== verification/Facade.thy ===== *)
theory Facade
  imports ClientHandle
begin

text \<open>
  The embedding facade (\<open>arachne/src/server/mod.rs\<close>): the configuration of a node, the raft ids a
  cluster derives from its member list, the assembly of a node from its data directory, and the
  single instance of a process.  Threads, the logger and the listener are left out; whether the
  listener could be bound is a parameter.
\<close>

subsection \<open>Configuration\<close>

record ClusterConfig =
  cc_cluster_id :: bytes
  cc_node_id :: NodeId
  cc_listen :: Addr
  cc_initial_cluster :: "NodeId list"
  cc_addresses :: "(NodeId \<times> Addr) list"
  cc_profile :: Profile
  cc_wal :: WalConfig

definition is_peerless :: "ClusterConfig \<Rightarrow> bool" where
  "is_peerless c \<longleftrightarrow> length (cc_initial_cluster c) \<le> 1"

text \<open>\<open>iter().position(..)\<close>.\<close>

fun position :: "'a \<Rightarrow> 'a list \<Rightarrow> nat option" where
  "position x [] = None"
| "position x (y # ys) = (if y = x then Some 0 else map_option Suc (position x ys))"

definition id_of :: "nat \<Rightarrow> RaftId" where
  "id_of i = of_nat (i + 1)"

definition raft_id :: "ClusterConfig \<Rightarrow> RaftId" where
  "raft_id c =
     (if is_peerless c then 1
      else case position (cc_node_id c) (cc_initial_cluster c) of Some i \<Rightarrow> id_of i | None \<Rightarrow> 1)"

definition wal_options :: "ClusterConfig \<Rightarrow> u64 \<Rightarrow> WalOptions" where
  "wal_options c now_millis =
     (let p = profile_config (cc_profile c)
      in \<lparr>op_cluster_id = cc_cluster_id c, op_node_id = cc_node_id c,
          op_config = \<lparr>cf_fsync_policy = profile_fsync_policy p, cf_segment_bytes = wal_segment_bytes p\<rparr>,
          op_created_at_millis = now_millis\<rparr>)"

text \<open>What the runtime of a node without peers and of a member of a cluster is started with.\<close>

definition peerless_start :: "ClusterConfig \<Rightarrow> StartConfig" where
  "peerless_start c =
     (let p = profile_config (cc_profile c)
      in \<lparr>sc_self_raft_id = raft_id c, sc_self_node_id = cc_node_id c, sc_peers = [], sc_addresses = cc_addresses c,
          sc_raft = from_profile p, sc_profile = p\<rparr>)"

definition bootstrap_peers :: "NodeId \<Rightarrow> NodeId list \<Rightarrow> (RaftId \<times> NodeId) list" where
  "bootstrap_peers self members =
     map (\<lambda>(i, node). (id_of i, node)) (filter (\<lambda>(i, node). node \<noteq> self) (enumerate 0 members))"

definition member_start :: "ClusterConfig \<Rightarrow> StartConfig" where
  "member_start c =
     (let p = profile_config (cc_profile c)
      in \<lparr>sc_self_raft_id = id_of (case position (cc_node_id c) (cc_initial_cluster c) of Some i \<Rightarrow> i | None \<Rightarrow> 0),
          sc_self_node_id = cc_node_id c, sc_peers = bootstrap_peers (cc_node_id c) (cc_initial_cluster c),
          sc_addresses = cc_addresses c, sc_raft = from_profile p, sc_profile = p\<rparr>)"

subsection \<open>Assembly\<close>

text \<open>
  Opening the log, preparing it, and starting the runtime.  Whether the listener could be bound and
  the thread of the actor be spawned is given.  A result is the runtime with the handle of the node;
  \<open>None\<close> is a start that does not return.
\<close>

definition assemble ::
    "'r lib \<Rightarrow> ClusterConfig \<Rightarrow> StartConfig \<Rightarrow> unit wal_op \<Rightarrow> bool \<Rightarrow> bool \<Rightarrow> bool \<Rightarrow> u64 \<Rightarrow> u64 \<Rightarrow> nat \<Rightarrow> Fs
      \<Rightarrow> (ArachneError + ('r Runtime \<times> Handle)) option" where
  "assemble L c start prepare remote bound spawned now_millis client t fs =
     (case wal_open (wal_options c now_millis) fs of
        (fs, Inl _) \<Rightarrow> Some (Inl ClientUnrecoverable)
      | (fs, Inr s) \<Rightarrow>
          (case prepare \<lparr>the_fs = fs, the_wal = s\<rparr> of
             (w, Inl _) \<Rightarrow> Some (Inl ClientUnrecoverable)
           | (w, Inr _) \<Rightarrow>
               if \<not> bound then Some (Inl ClientUnrecoverable)
               else map_option (\<lambda>r. case r of
                    Inl _ \<Rightarrow> Inl ClientUnrecoverable
                  | Inr (rt, first_seq) \<Rightarrow>
                      if spawned then Inr (rt, new_local (cc_node_id c) client first_seq remote (sc_profile start))
                      else Inl ClientUnrecoverable)
                (runtime_new L start w remote client t)))"

definition assemble_peerless ::
    "'r lib \<Rightarrow> ClusterConfig \<Rightarrow> bool \<Rightarrow> u64 \<Rightarrow> u64 \<Rightarrow> nat \<Rightarrow> Fs \<Rightarrow> (ArachneError + ('r Runtime \<times> Handle)) option" where
  "assemble_peerless L c = assemble L c (peerless_start c) (ret ()) False True"

text \<open>A member keeps a trailing window of the log, flushes off-thread, and needs its listener.\<close>

definition assemble_cluster ::
    "'r lib \<Rightarrow> ClusterConfig \<Rightarrow> bool \<Rightarrow> bool \<Rightarrow> u64 \<Rightarrow> u64 \<Rightarrow> nat \<Rightarrow> Fs \<Rightarrow> (ArachneError + ('r Runtime \<times> Handle)) option" where
  "assemble_cluster L c = assemble L c (member_start c)
     (seq (set_trailing_keep_bytes (wal_trailing_keep_bytes (profile_config (cc_profile c))))
        (\<lambda>_. enable_offloaded_durability)) True"

text \<open>\<open>start_multi_node\<close> takes the steps of \<open>assemble_cluster\<close> on a runtime of its own.\<close>

definition assemble_node ::
    "'r lib \<Rightarrow> ClusterConfig \<Rightarrow> bool \<Rightarrow> bool \<Rightarrow> u64 \<Rightarrow> u64 \<Rightarrow> nat \<Rightarrow> Fs \<Rightarrow> (ArachneError + ('r Runtime \<times> Handle)) option" where
  "assemble_node L c bound = (if is_peerless c then assemble_peerless L c else assemble_cluster L c bound)"

subsection \<open>The single instance\<close>

text \<open>
  The slot of the process holds at most one node.  \<open>node\<close> is what assembling it gave.
\<close>

record 'n Instance =
  in_poisoned :: bool
  in_node :: "'n option"

definition facade_start :: "(ArachneError + 'n) \<Rightarrow> 'n Instance \<Rightarrow> 'n Instance \<times> (ArachneError + unit)" where
  "facade_start node inst =
     (if in_poisoned inst then (inst, Inl ClientUnrecoverable)
      else if in_node inst \<noteq> None then (inst, Inl AlreadyInitialized)
      else case node of Inl e \<Rightarrow> (inst, Inl e) | Inr n \<Rightarrow> (inst\<lparr>in_node := Some n\<rparr>, Inr ()))"

definition facade_borrow :: "'n Instance \<Rightarrow> ArachneError + 'n" where
  "facade_borrow inst = (if in_poisoned inst then Inl ClientUnrecoverable else ok_or NotInitialized (in_node inst))"

definition facade_shutdown :: "'n Instance \<Rightarrow> 'n Instance \<times> (ArachneError + unit)" where
  "facade_shutdown inst =
     (if in_poisoned inst then (inst, Inl ClientUnrecoverable)
      else case in_node inst of None \<Rightarrow> (inst, Inl NotInitialized) | Some _ \<Rightarrow> (inst\<lparr>in_node := None\<rparr>, Inr ()))"

subsection \<open>Raft ids\<close>

lemma position_nth: "distinct xs \<Longrightarrow> i < length xs \<Longrightarrow> position (xs ! i) xs = Some i"
proof (induction xs arbitrary: i)
  case (Cons y ys)
  then show ?case by (cases i) (auto simp: in_set_conv_nth)
qed simp

lemma unat_id: "i < n \<Longrightarrow> n < 2 ^ 64 \<Longrightarrow> unat (id_of i) = i + 1"
  by (simp only: id_of_def unat_of_nat) simp

lemma bootstrap_peers_nth:
  assumes "distinct members" "p < length members"
  shows "bootstrap_peers (members ! p) members =
    map (\<lambda>i. (id_of i, members ! i)) (filter (\<lambda>i. i \<noteq> p) [0..<length members])"
proof -
  have "enumerate 0 members = map (\<lambda>i. (i, members ! i)) [0..<length members]"
    by (rule nth_equalityI) (auto simp: nth_enumerate_eq)
  then have "bootstrap_peers (members ! p) members =
      map (\<lambda>i. (id_of i, members ! i)) (filter (\<lambda>i. members ! i \<noteq> members ! p) [0..<length members])"
    by (simp add: bootstrap_peers_def filter_map comp_def)
  moreover have "filter (\<lambda>i. members ! i \<noteq> members ! p) [0..<length members] = filter (\<lambda>i. i \<noteq> p) [0..<length members]"
    using assms by (intro filter_cong) (auto simp: nth_eq_iff_index_eq)
  ultimately show ?thesis by simp
qed

lemma no_bootstrap_voters [simp]:
  "nc_bootstrap_voters (from_profile p) = None" "nc_join_as_learner (from_profile p) = False"
  by (simp_all add: from_profile_def)

lemma inj_id_of: "n < 2 ^ 64 \<Longrightarrow> inj_on id_of {..<n}"
  by (rule inj_onI) (metis lessThan_iff unat_id add_right_cancel)

lemma members_with_self:
  assumes "p < length members"
  shows "set ((id_of p, members ! p) # map (\<lambda>i. (id_of i, members ! i)) (filter (\<lambda>i. i \<noteq> p) [0..<length members])) =
    (\<lambda>i. (id_of i, members ! i)) ` {..<length members}"
  using assms by auto

lemma sorted_ids: "n < 2 ^ 64 \<Longrightarrow> sorted (map id_of [0..<n])"
  by (simp add: sorted_iff_nth_mono_less word_le_nat_alt unat_id)

lemma voters_of_members:
  assumes "p < n" "n < 2 ^ 64"
  shows "remdups_adj (sort (map id_of (filter (\<lambda>i. i \<noteq> p) [0..<n]) @ [id_of p])) = map id_of [0..<n]"
proof -
  let ?order = "filter (\<lambda>i. i \<noteq> p) [0..<n] @ [p]"
  have order: "distinct ?order" "set ?order = {..<n}" using assms by auto
  have "distinct (map id_of ?order)"
    using order inj_id_of [OF assms(2)] by (metis distinct_map)
  moreover have ids: "distinct (map id_of [0..<n])"
    using inj_id_of [OF assms(2)] by (simp add: distinct_map lessThan_atLeast0)
  moreover have "set (map id_of ?order) = set (map id_of [0..<n])"
    using order by (metis atLeast_upt set_map)
  ultimately have "sort (map id_of ?order) = map id_of [0..<n]"
    by (intro sorted_distinct_set_unique sorted_sort sorted_ids assms) simp_all
  then show ?thesis
    using ids by (simp add: remdups_adj_distinct)
qed

lemma map_id_of: "map id_of [0..<n] = map of_nat [1..<n + 1]"
proof -
  have "map id_of [0..<n] = map of_nat (map Suc [0..<n])" by (simp add: id_of_def)
  then show ?thesis by (simp only: map_Suc_upt) simp
qed

lemma member_table:
  assumes "p < length ms" "length ms < 2 ^ 64"
  shows "map_of ((id_of p, ms ! p) # map (\<lambda>i. (id_of i, ms ! i)) (filter (\<lambda>i. i \<noteq> p) [0..<length ms])) r =
    (if 1 \<le> unat r \<and> unat r \<le> length ms then Some (ms ! (unat r - 1)) else None)"
proof -
  define table where
    "table = (id_of p, ms ! p) # map (\<lambda>i. (id_of i, ms ! i)) (filter (\<lambda>i. i \<noteq> p) [0..<length ms])"
  have entries: "set table = (\<lambda>i. (id_of i, ms ! i)) ` {..<length ms}"
    unfolding table_def by (rule members_with_self [OF assms(1)])
  have "distinct (map fst table)"
    using inj_id_of [OF assms(2)] assms(1) by (auto simp: table_def distinct_map inj_on_def comp_def)
  note some = map_of_eq_Some_iff [OF this]
  have "map_of table r = (if 1 \<le> unat r \<and> unat r \<le> length ms then Some (ms ! (unat r - 1)) else None)"
  proof (cases "1 \<le> unat r \<and> unat r \<le> length ms")
    case True
    then have "r = id_of (unat r - 1)" "unat r - 1 < length ms" by (auto simp: id_of_def)
    then have "(r, ms ! (unat r - 1)) \<in> set table" unfolding entries by blast
    then show ?thesis using True some by simp
  next
    case False
    have "r \<notin> fst ` set table" using False unat_id [OF _ assms(2)] by (auto simp: entries)
    then have "map_of table r = None" by (simp add: map_of_eq_None_iff)
    then show ?thesis using False by auto
  qed
  then show ?thesis by (simp only: table_def)
qed

lemma member_start_nth:
  assumes "distinct (cc_initial_cluster c)" "p < length (cc_initial_cluster c)" "cc_node_id c = cc_initial_cluster c ! p"
  shows "sc_self_raft_id (member_start c) = id_of p" "sc_self_node_id (member_start c) = cc_initial_cluster c ! p"
    "sc_peers (member_start c) =
      map (\<lambda>i. (id_of i, cc_initial_cluster c ! i)) (filter (\<lambda>i. i \<noteq> p) [0..<length (cc_initial_cluster c)])"
    "sc_raft (member_start c) = from_profile (profile_config (cc_profile c))"
    "1 < length (cc_initial_cluster c) \<Longrightarrow> raft_id c = id_of p"
  using assms position_nth [of "cc_initial_cluster c" p] bootstrap_peers_nth [of "cc_initial_cluster c" p]
  by (simp_all add: member_start_def Let_def raft_id_def is_peerless_def)

text \<open>
  C20: The members of a cluster agree on who has which raft id.  Whatever member of the list a node is,
  it starts for the first time with the voter set 1 to n and no learner, its own id and its table of
  peers together name the i-th member of the list by i and nothing else, and the id it starts under
  is the one its configuration reports.  (A node that starts again has the membership it persisted.)
\<close>

theorem members_agree_on_raft_ids:
  assumes "distinct (cc_initial_cluster c)" "cc_node_id c \<in> set (cc_initial_cluster c)"
    and "1 < length (cc_initial_cluster c)" "length (cc_initial_cluster c) < 2 ^ 64"
  shows "bootstrap_conf_state (sc_raft (member_start c)) (sc_self_raft_id (member_start c)) (sc_peers (member_start c)) =
      \<lparr>cs_voters = map of_nat [1..<length (cc_initial_cluster c) + 1], cs_learners = []\<rparr> \<and>
    map_of ((sc_self_raft_id (member_start c), sc_self_node_id (member_start c)) # sc_peers (member_start c)) r =
      (if 1 \<le> unat r \<and> unat r \<le> length (cc_initial_cluster c)
       then Some (cc_initial_cluster c ! (unat r - 1)) else None) \<and>
    raft_id c = sc_self_raft_id (member_start c)"
proof -
  obtain p where p: "p < length (cc_initial_cluster c)" "cc_node_id c = cc_initial_cluster c ! p"
    using assms(2) by (metis in_set_conv_nth)
  note start = member_start_nth [OF assms(1) p]
  have keys: "map fst (sc_peers (member_start c)) =
      map id_of (filter (\<lambda>i. i \<noteq> p) [0..<length (cc_initial_cluster c)])"
    by (simp add: start comp_def)
  have "bootstrap_conf_state (sc_raft (member_start c)) (sc_self_raft_id (member_start c)) (sc_peers (member_start c)) =
      \<lparr>cs_voters = map id_of [0..<length (cc_initial_cluster c)], cs_learners = []\<rparr>"
    using voters_of_members [OF p(1) assms(4)] by (simp add: bootstrap_conf_state_def start(1,4) keys)
  then show ?thesis
    using member_table [OF p(1) assms(4), of r] start(5) [OF assms(3)]
    by (simp only: map_id_of start(1-3))
qed

theorem members_agree_on_raft_ids_witness:
  "let c = \<lparr>cc_cluster_id = [1], cc_node_id = [20], cc_listen = [], cc_initial_cluster = [[10], [20], [30]],
         cc_addresses = [], cc_profile = Lan, cc_wal = \<lparr>cf_fsync_policy = Always, cf_segment_bytes = 4096\<rparr>\<rparr>;
       s = member_start c
   in raft_id c = 2 \<and> sc_peers s = [(1, [10]), (3, [30])] \<and>
      cs_voters (bootstrap_conf_state (sc_raft s) (sc_self_raft_id s) (sc_peers s)) = [1, 2, 3] \<and>
      map_of ((sc_self_raft_id s, sc_self_node_id s) # sc_peers s) 2 = Some [20] \<and>
      map_of ((sc_self_raft_id s, sc_self_node_id s) # sc_peers s) 4 = None"
proof -
  define c where
    "c = \<lparr>cc_cluster_id = [1], cc_node_id = [20], cc_listen = [], cc_initial_cluster = [[10], [20], [30]],
       cc_addresses = [], cc_profile = Lan, cc_wal = \<lparr>cf_fsync_policy = Always, cf_segment_bytes = 4096\<rparr>\<rparr>"
  have c: "distinct (cc_initial_cluster c)" "cc_node_id c \<in> set (cc_initial_cluster c)"
    "1 < length (cc_initial_cluster c)" "length (cc_initial_cluster c) < 2 ^ 64"
    by (simp_all add: c_def)
  have "raft_id c = 2" "sc_peers (member_start c) = [(1, [10]), (3, [30])]"
    by (simp_all add: c_def raft_id_def is_peerless_def id_of_def member_start_def Let_def bootstrap_peers_def)
  moreover have "map of_nat [1..<length (cc_initial_cluster c) + 1] = [1, 2, 3 :: RaftId]"
    "(cc_initial_cluster c) ! (unat (2 :: RaftId) - 1) = [20]" "length (cc_initial_cluster c) = 3"
    by (simp_all add: c_def upt_rec)
  ultimately show ?thesis
    using members_agree_on_raft_ids [OF c, of 2] members_agree_on_raft_ids [OF c, of 4]
    unfolding c_def [symmetric] Let_def by simp
qed

text \<open>A node that its list does not name starts under the id of the first member, without an error.\<close>

lemma unlisted_node_takes_first_id:
  assumes "cc_node_id c \<notin> set (cc_initial_cluster c)" "cc_initial_cluster c \<noteq> []"
  shows "sc_self_raft_id (member_start c) = 1 \<and>
    (1, hd (cc_initial_cluster c)) \<in> set (sc_peers (member_start c))"
proof -
  have "position (cc_node_id c) ms = None" if "cc_node_id c \<notin> set ms" for ms
    using that by (induction ms) auto
  then show ?thesis
    using assms by (cases "cc_initial_cluster c") (auto simp: member_start_def Let_def id_of_def bootstrap_peers_def)
qed

end
