(* ===== verification/Spec2Isabelle.thy ===== *)
theory Spec2Isabelle
  imports KvSnapshot KvReads WalTruncate WalFlush Linearizability OracleMerge NodeDelivery RuntimeReads Facade
begin

text \<open>
  Arachne is a replicated key-value store in Rust.  A node keeps a write-ahead log in a data
  directory, runs raft over it, applies the committed commands to a state machine, and serves client
  handles in its own process and, over gRPC, in others.  This development models the code from the
  bytes on disk to the calls of a client, and the oracle that judges recorded client histories.

  \<^bold>\<open>Conventions.\<close>  \<open>u8\<close> to \<open>u64\<close> are words of that width and wrap or saturate where the code does;
  \<open>usize\<close> lengths are naturals.  A \<open>Result\<close> is a sum with the error on the left, a panic or an early
  return is a branch.  A stateful method is a function from a state to a state and a result
  (\<open>comp\<close> in \<open>FileSystem\<close>).  A \<open>BTreeMap\<close> is its list of pairs in key order.  Texts inside errors are
  left out unless the code reads them.  Small helpers (constants, single-field accessors) stand next
  to the definition that uses them.

  \<^bold>\<open>Storage\<close> (\<open>arachne/src/storage\<close>).
  \<^item> \<open>Crc32c\<close>: \<open>crc32c.rs\<close>; the table-driven loop equals the bitwise division and detects bursts.
  \<^item> \<open>RecordFormat\<close>: \<open>format.rs\<close>; decoding accepts exactly what was encoded, and damage is detected.
  \<^item> \<open>FileNames\<close>, \<open>StoredFiles\<close>: the names and codecs of \<open>segment.rs\<close>, \<open>meta.rs\<close>, \<open>membership.rs\<close> and
    \<open>snapshot.rs\<close>.  The locale \<open>durable_file\<close> is the contract of a file that is replaced through a
    temporary one; the three files interpret it.
  \<^item> \<open>FileSystem\<close>: the data directory with contents in memory and on the device, failures at a chosen
    operation, and the crash relation.
  \<^item> \<open>SeamTypes\<close>, \<open>WalTypes\<close>, \<open>Wal\<close>: \<open>wal.rs\<close> with recovery, rollover, truncation, both fsync policies,
    the flusher, snapshots, compaction, forced recovery and reads.
  \<^item> \<open>WalRecords\<close>, \<open>WalDurable\<close>, \<open>WalReopen\<close>, \<open>WalRuns\<close>: the invariant of an open store, its
    preservation, and the histories of a store with batches that extend the log and crashes at any
    time: what was acknowledged is in memory and survives.  \<open>WalReads\<close>, \<open>WalCompact\<close>, \<open>WalTruncate\<close> and \<open>WalFlush\<close> state what the
    single operations do.

  \<^bold>\<open>State machine\<close> (\<open>arachne/src/state_machine/kv.rs\<close>).
  \<^item> \<open>OrderedMap\<close>: the ordered map as a locale and its list implementation.
  \<^item> \<open>KvCommand\<close>, \<open>KvMachine\<close>: the command codec and \<open>apply_locked\<close> with sessions and watch events.
  \<^item> \<open>KvSpec\<close>: an abstract machine over partial functions, the refinement, and exactly-once
    application.  \<open>KvReads\<close>: what reads return.  \<open>KvSnapshot\<close>: snapshot and restore; the locale
    \<open>state_machine\<close> is the contract of the seam, and replay from a snapshot is proved in it.

  \<^bold>\<open>Consensus\<close> (\<open>arachne/src/consensus\<close>).
  \<^item> \<open>RaftStorage\<close>, \<open>RaftNode\<close>: the adapter of the raft library to the log and the node around it.  The
    library itself (\<open>third_party/raft\<close>) is the parameter \<open>lib\<close>, a record of the functions the node
    calls; theorems hold for all its results, or name what they rely on.
  \<^item> \<open>NodePipeline\<close>: runs of a node, the invariant of its cycles in flight and what an accepted write
    leaves.  \<open>NodeDelivery\<close>: nothing is on its way to a peer before the records it depends on are
    persistent; messages of a peer stay in order, queues are bounded, losses are counted.

  \<^bold>\<open>Runtime\<close> (\<open>arachne/src/runtime/mod.rs\<close>, \<open>profile.rs\<close>).
  \<^item> \<open>RuntimeTypes\<close>, \<open>Runtime\<close>: the actor with its handlers, the drive cycle, the loop, the apply task
    and the read workers.  \<open>Profile\<close>, \<open>RuntimeStart\<close>: presets and \<open>Runtime::new\<close>.
  \<^item> \<open>RuntimeApply\<close>: the state machine of a node is the replay of the committed log.
    \<open>RuntimeReads\<close>: a linearizable read is served after a round of its own was asked and confirmed
    and sees the confirmed index.  \<open>RuntimeReplies\<close>, \<open>RuntimeRuns\<close>: a request is
    answered once, and by its deadline.  \<open>RuntimeStart\<close>: the scan of the log ends and a restarted node
    continues above every session it finds.

  \<^bold>\<open>Clients\<close> (\<open>arachne/src/client/handle.rs\<close>, \<open>arachne/src/server/mod.rs\<close>, \<open>arachne-transport-tonic\<close>).
  \<^item> \<open>Forwarding\<close>, \<open>Transport\<close>: forwarded commands with their error codes, the handshake, the service
    and the calls; a streamed snapshot arrives whole or not at all.
  \<^item> \<open>ClientHandle\<close>: the checks, the redirect loop and every operation.  The answers of the nodes are
    given per attempt, so theorems range over every behaviour of a cluster.  Accepted writes apply;
    calls end, and reach the leader when hints lead there; a forwarded call has the verdict of a
    direct one, up to the differences that are stated.
  \<^item> \<open>Facade\<close>: configuration, assembly and the single instance; members agree on raft ids.

  \<^bold>\<open>Oracle\<close> (\<open>arachne-testsupport/src/oracle.rs\<close>, \<open>linearizability.rs\<close>).
  \<^item> \<open>Oracle\<close>, \<open>OracleMerge\<close>: histories, validation, the merge of retries and the checks.
  \<^item> \<open>Linearizability\<close>: the checker decides linearizability.

  \<^bold>\<open>Bounds and termination.\<close>  Loops are structural or have a measure: the redirect loop by the
  attempts left, the sessions scan by the rest of the log, the search by the points not yet placed.
  Where a scan of the code does not end on a log with a gap the model returns no result, and the
  theorem that it does end names the condition.  Turns of the actor loop follow the burst limits of
  the code.  Lists are assumed shorter than \<open>2 ^ 64\<close> where a length becomes a word, and a statement
  says so.

  \<^bold>\<open>Not modelled.\<close>  Metrics and log output; threads, sockets and timers, whose effects are steps or
  parameters; pre-allocation and the system calls behind a sync, which the file system model
  includes; pacing and caching of connections; the node binary with its configuration file and HTTP
  interface; fault injection, test doubles, harnesses, fuzzing and examples.  Several places where
  the code differs from its comments or loses information are stated as theorems: a conflicting
  append on a compacted log, the limit of \<open>entries\<close>, a refused write that a forwarding node reports
  as done, a truncation that loses a hard state, a duplicate call id that the validation accepts,
  and a late write that the checker reports as a violation.
\<close>

end
